(* ===== verification/Prelude.thy ===== *)
theory Prelude
  imports Main "HOL-Library.Multiset" "HOL-Library.Extended_Nat"
begin

text \<open>
  Shared vocabulary of the development: results of fallible code, the short-circuiting
  sequencing of statements that may throw, JavaScript's stable comparator sort, and the
  generic list lemmas the component theories use.

  A JavaScript function that may throw returns a value of type \<open>'a result\<close>: \<open>Inl message\<close>
  for a thrown \<open>Error\<close>, \<open>Inr value\<close> for a normal return. The message is the source's own,
  so every \<open>throw\<close> of the code is a distinguishable branch of its model.
\<close>

named_theorems result_simps \<open>equations that evaluate results\<close>
named_theorems slice_simps \<open>facts about list slices\<close>

type_synonym 'a result = "string + 'a"

section \<open>Results\<close>

definition rbind :: "'e + 'a \<Rightarrow> ('a \<Rightarrow> 'e + 'b) \<Rightarrow> 'e + 'b" where
  "rbind r f = (case r of Inl e \<Rightarrow> Inl e | Inr x \<Rightarrow> f x)"

lemma rbind_Inl [simp, result_simps]: "rbind (Inl e) f = Inl e"
  by (simp add: rbind_def)

lemma rbind_Inr [simp, result_simps]: "rbind (Inr x) f = f x"
  by (simp add: rbind_def)

lemma rbind_eq_Inr_iff: "rbind r f = Inr y \<longleftrightarrow> (\<exists>x. r = Inr x \<and> f x = Inr y)"
  by (cases r) auto

lemma rbind_InrE [elim!]:
  assumes "rbind r f = Inr y"
  obtains x where "r = Inr x" "f x = Inr y"
  using assms by (auto simp: rbind_eq_Inr_iff)

lemma rbind_eq_Inl_iff:
  "rbind r f = Inl e \<longleftrightarrow> r = Inl e \<or> (\<exists>x. r = Inr x \<and> f x = Inl e)"
  by (cases r) auto

definition guard :: "bool \<Rightarrow> string \<Rightarrow> unit result" where
  "guard b e = (if b then Inr () else Inl e)"

lemma guard_Inr_iff [simp]: "guard b e = Inr u \<longleftrightarrow> b"
  by (simp add: guard_def)

lemma guard_True [simp, result_simps]: "guard True e = Inr ()"
  by (simp add: guard_def)

lemma guard_False [simp, result_simps]: "guard False e = Inl e"
  by (simp add: guard_def)

text \<open>A left-to-right loop over a list whose body may throw, collecting the results.\<close>

fun rmap :: "('a \<Rightarrow> 'e + 'b) \<Rightarrow> 'a list \<Rightarrow> 'e + 'b list" where
  "rmap f [] = Inr []"
| "rmap f (x # xs) = rbind (f x) (\<lambda>y. rbind (rmap f xs) (\<lambda>ys. Inr (y # ys)))"

lemma rmap_Inr_iff: "rmap f xs = Inr ys \<longleftrightarrow> list_all2 (\<lambda>x y. f x = Inr y) xs ys"
proof (induction xs arbitrary: ys)
  case Nil
  then show ?case by auto
next
  case (Cons x xs)
  then show ?case
    by (cases ys) (auto simp: rbind_eq_Inr_iff)
qed

lemma rmap_total: "(\<And>x. x \<in> set xs \<Longrightarrow> f x = Inr (g x)) \<Longrightarrow> rmap f xs = Inr (map g xs)"
  by (induction xs) auto

lemma rmap_InrD: "rmap f xs = Inr ys \<Longrightarrow> x \<in> set xs \<Longrightarrow> \<exists>y\<in>set ys. f x = Inr y"
  by (induction xs arbitrary: ys) auto

lemma rmap_length: "rmap f xs = Inr ys \<Longrightarrow> length ys = length xs"
  by (auto simp: rmap_Inr_iff dest: list_all2_lengthD)

section \<open>Comparator sort\<close>

text \<open>
  \<open>Array.prototype.sort(cmp)\<close> is a stable sort. For a consistent comparator its result is
  the unique stable one, which insertion sort computes; a comparator returns a number whose
  sign is read.
\<close>

fun cmp_insert :: "('a \<Rightarrow> 'a \<Rightarrow> int) \<Rightarrow> 'a \<Rightarrow> 'a list \<Rightarrow> 'a list" where
  "cmp_insert cmp x [] = [x]"
| "cmp_insert cmp x (y # ys) =
     (if cmp x y \<le> 0 then x # y # ys else y # cmp_insert cmp x ys)"

definition js_sort :: "('a \<Rightarrow> 'a \<Rightarrow> int) \<Rightarrow> 'a list \<Rightarrow> 'a list" where
  "js_sort cmp xs = foldr (cmp_insert cmp) xs []"

lemma js_sort_Nil [simp]: "js_sort cmp [] = []"
  by (simp add: js_sort_def)

lemma js_sort_Cons [simp]: "js_sort cmp (x # xs) = cmp_insert cmp x (js_sort cmp xs)"
  by (simp add: js_sort_def)

lemma mset_cmp_insert [simp]: "mset (cmp_insert cmp x xs) = add_mset x (mset xs)"
  by (induction xs) auto

lemma mset_js_sort [simp]: "mset (js_sort cmp xs) = mset xs"
  by (induction xs) auto

lemma set_cmp_insert [simp]: "set (cmp_insert cmp x xs) = insert x (set xs)"
  by (induction xs) auto

lemma set_js_sort [simp]: "set (js_sort cmp xs) = set xs"
  by (induction xs) auto

lemma length_js_sort [simp]: "length (js_sort cmp xs) = length xs"
  by (metis mset_js_sort size_mset)

lemma distinct_js_sort [simp]: "distinct (js_sort cmp xs) = distinct xs"
  by (metis mset_eq_imp_distinct_iff mset_js_sort)

lemma distinct_map_js_sort [simp]: "distinct (map f (js_sort cmp xs)) = distinct (map f xs)"
  by (metis mset_eq_imp_distinct_iff mset_js_sort mset_map)

text \<open>
  When the comparator refines a key (a strictly smaller key always compares as smaller), the
  result is sorted by that key, whatever the comparator does between equal keys.
\<close>

lemma sorted_cmp_insert:
  fixes k :: "'a \<Rightarrow> 'b::linorder"
  assumes "\<And>x y. cmp x y \<le> 0 \<Longrightarrow> k x \<le> k y" and "\<And>x y. \<not> cmp x y \<le> 0 \<Longrightarrow> k y \<le> k x"
    and "sorted (map k xs)"
  shows "sorted (map k (cmp_insert cmp x xs))"
  using assms(3)
proof (induction xs)
  case Nil
  then show ?case by simp
next
  case (Cons y ys)
  show ?case
  proof (cases "cmp x y \<le> 0")
    case True
    with assms(1) have "k x \<le> k y" by blast
    with Cons.prems True show ?thesis by (auto intro: order_trans)
  next
    case False
    with assms(2) have "k y \<le> k x" by blast
    with Cons False show ?thesis by auto
  qed
qed

lemma sorted_js_sort:
  fixes k :: "'a \<Rightarrow> 'b::linorder"
  assumes "\<And>x y. cmp x y \<le> 0 \<Longrightarrow> k x \<le> k y" and "\<And>x y. \<not> cmp x y \<le> 0 \<Longrightarrow> k y \<le> k x"
  shows "sorted (map k (js_sort cmp xs))"
  by (induction xs) (simp_all add: sorted_cmp_insert [OF assms])

text \<open>The comparator \<open>(l, r) => k(l) - k(r)\<close>.\<close>

definition by_key :: "('a \<Rightarrow> nat) \<Rightarrow> 'a \<Rightarrow> 'a \<Rightarrow> int" where
  "by_key k x y = int (k x) - int (k y)"

lemma sorted_js_sort_by_key [simp]: "sorted (map k (js_sort (by_key k) xs))"
  by (rule sorted_js_sort) (auto simp: by_key_def)

text \<open>Sorting by a key leaves a list that is already sorted by it unchanged.\<close>

lemma cmp_insert_sorted:
  "(\<And>y. y \<in> set xs \<Longrightarrow> cmp x y \<le> 0) \<Longrightarrow> cmp_insert cmp x xs = x # xs"
  by (cases xs) auto

lemma js_sort_sorted_id: "sorted (map k xs) \<Longrightarrow> js_sort (by_key k) xs = xs"
proof (induction xs)
  case Nil
  then show ?case by simp
next
  case (Cons x xs)
  then have "js_sort (by_key k) xs = xs" by simp
  moreover have "cmp_insert (by_key k) x xs = x # xs"
    using Cons.prems by (intro cmp_insert_sorted) (auto simp: by_key_def)
  ultimately show ?case by simp
qed

section \<open>Slices\<close>

text \<open>\<open>xs.slice(i, j)\<close> for natural \<open>i\<close>, \<open>j\<close>.\<close>

definition js_slice :: "nat \<Rightarrow> nat \<Rightarrow> 'a list \<Rightarrow> 'a list" where
  "js_slice i j xs = take (j - i) (drop i xs)"

lemma slice_append [slice_simps]: "i \<le> j \<Longrightarrow> j \<le> k \<Longrightarrow> js_slice i j xs @ js_slice j k xs = js_slice i k xs"
proof -
  assume le: "i \<le> j" "j \<le> k"
  have "drop j xs = drop (j - i) (drop i xs)" using le by simp
  moreover have "k - i = (j - i) + (k - j)" using le by simp
  ultimately show ?thesis by (simp only: js_slice_def take_add)
qed

lemma slice_to_end [slice_simps]: "length xs \<le> j \<Longrightarrow> js_slice i j xs = drop i xs"
  by (simp add: js_slice_def)

lemma slice_empty [simp]: "j \<le> i \<Longrightarrow> js_slice i j xs = []"
  by (simp add: js_slice_def)

lemma slice_0 [slice_simps]: "js_slice 0 j xs = take j xs"
  by (simp add: js_slice_def)

lemma length_slice [slice_simps]: "length (js_slice i j xs) = min (j - i) (length xs - i)"
  by (simp add: js_slice_def)

lemma set_slice_subset: "set (js_slice i j xs) \<subseteq> set xs"
  unfolding js_slice_def by (meson order_trans set_drop_subset set_take_subset)

lemma map_slice: "map f (js_slice i j xs) = js_slice i j (map f xs)"
  by (simp add: js_slice_def take_map drop_map)

lemma slice_Suc: "i \<le> j \<Longrightarrow> j < length xs \<Longrightarrow> js_slice i (Suc j) xs = js_slice i j xs @ [xs ! j]"
  by (simp add: js_slice_def Suc_diff_le take_Suc_conv_app_nth)

lemma nth_slice: "k < j - i \<Longrightarrow> i + k < length xs \<Longrightarrow> js_slice i j xs ! k = xs ! (i + k)"
  by (simp add: js_slice_def)

lemma in_set_slice_iff:
  "x \<in> set (js_slice i j xs) \<longleftrightarrow> (\<exists>k. i \<le> k \<and> k < j \<and> k < length xs \<and> xs ! k = x)"
proof
  assume "x \<in> set (js_slice i j xs)"
  then obtain k where k: "k < length (js_slice i j xs)" "js_slice i j xs ! k = x"
    by (auto simp: in_set_conv_nth)
  then have "i \<le> i + k \<and> i + k < j \<and> i + k < length xs \<and> xs ! (i + k) = x"
    by (auto simp: length_slice nth_slice)
  then show "\<exists>k. i \<le> k \<and> k < j \<and> k < length xs \<and> xs ! k = x" by blast
next
  assume "\<exists>k. i \<le> k \<and> k < j \<and> k < length xs \<and> xs ! k = x"
  then obtain k where k: "i \<le> k" "k < j" "k < length xs" "xs ! k = x" by blast
  then have "js_slice i j xs ! (k - i) = x" "k - i < length (js_slice i j xs)"
    by (auto simp: length_slice nth_slice)
  then show "x \<in> set (js_slice i j xs)" by (metis nth_mem)
qed

lemma in_set_take_iff: "x \<in> set (take n xs) \<longleftrightarrow> (\<exists>q. q < n \<and> q < length xs \<and> xs ! q = x)"
  by (auto simp: in_set_conv_nth)

section \<open>Searching\<close>

text \<open>\<open>xs.findIndex(p)\<close>, with \<open>None\<close> for -1; \<open>xs.find(p)\<close> is the library's \<open>find\<close>.\<close>

fun find_index :: "('a \<Rightarrow> bool) \<Rightarrow> 'a list \<Rightarrow> nat option" where
  "find_index p [] = None"
| "find_index p (x # xs) = (if p x then Some 0 else map_option Suc (find_index p xs))"

lemma find_index_None_iff: "find_index p xs = None \<longleftrightarrow> (\<forall>x\<in>set xs. \<not> p x)"
  by (induction xs) auto

lemma find_index_SomeD:
  "find_index p xs = Some i \<Longrightarrow> i < length xs \<and> p (xs ! i) \<and> (\<forall>j<i. \<not> p (xs ! j))"
proof (induction xs arbitrary: i)
  case Nil
  then show ?case by simp
next
  case (Cons x xs)
  show ?case
  proof (cases "p x")
    case True
    with Cons.prems show ?thesis by auto
  next
    case False
    with Cons.prems obtain k where k: "find_index p xs = Some k" "i = Suc k" by auto
    from Cons.IH [OF k(1)] False k(2) show ?thesis
      by (auto simp: nth_Cons split: nat.splits)
  qed
qed

lemma find_index_unique:
  assumes "i < length xs" "p (xs ! i)" "\<And>j. j < length xs \<Longrightarrow> p (xs ! j) \<Longrightarrow> j = i"
  shows "find_index p xs = Some i"
proof (cases "find_index p xs")
  case None
  with assms(1,2) show ?thesis by (auto simp: find_index_None_iff)
next
  case (Some k)
  then have "k < length xs" "p (xs ! k)" by (auto dest: find_index_SomeD)
  with assms(3) have "k = i" by blast
  with Some show ?thesis by simp
qed

text \<open>The last element of a list, or nothing (\<open>xs.at(-1)\<close>).\<close>

definition last_opt :: "'a list \<Rightarrow> 'a option" where
  "last_opt xs = (if xs = [] then None else Some (last xs))"

lemma last_opt_simps [simp]:
  "last_opt [] = None" "last_opt (xs @ [x]) = Some x"
  by (simp_all add: last_opt_def)

text \<open>
  The index of the last element that satisfies a predicate: what \<open>Map.get\<close> returns for a
  map built from \<open>[key, index]\<close> pairs, where a later pair overwrites an earlier one.
\<close>

fun last_index :: "('a \<Rightarrow> bool) \<Rightarrow> 'a list \<Rightarrow> nat option" where
  "last_index p [] = None"
| "last_index p (x # xs) =
     (case last_index p xs of Some i \<Rightarrow> Some (Suc i) | None \<Rightarrow> if p x then Some 0 else None)"

lemma last_index_None_iff: "last_index p xs = None \<longleftrightarrow> (\<forall>x\<in>set xs. \<not> p x)"
  by (induction xs) (auto split: option.splits)

lemma last_index_SomeD: "last_index p xs = Some i \<Longrightarrow> i < length xs \<and> p (xs ! i)"
  by (induction xs arbitrary: i) (auto split: option.splits if_splits)

lemma last_index_unique:
  assumes "i < length xs" "p (xs ! i)" "\<And>j. j < length xs \<Longrightarrow> p (xs ! j) \<Longrightarrow> j = i"
  shows "last_index p xs = Some i"
proof (cases "last_index p xs")
  case None
  with assms(1,2) show ?thesis by (auto simp: last_index_None_iff)
next
  case (Some k)
  then have "k < length xs" "p (xs ! k)" by (auto dest: last_index_SomeD)
  with assms(3) have "k = i" by blast
  with Some show ?thesis by simp
qed

section \<open>Multisets and sums\<close>

lemma mset_filter_split: "mset xs = mset (filter p xs) + mset (filter (\<lambda>x. \<not> p x) xs)"
  by (induction xs) auto

lemma mset_concat_map_filter:
  assumes "distinct ks" "\<And>x. x \<in> set xs \<Longrightarrow> f x \<in> set ks"
  shows "mset (concat (map (\<lambda>k. filter (\<lambda>x. f x = k) xs) ks)) = mset xs"
  using assms
proof (induction ks arbitrary: xs)
  case Nil
  then show ?case by (cases xs) auto
next
  case (Cons k ks)
  let ?ys = "filter (\<lambda>x. f x \<noteq> k) xs"
  have *: "filter (\<lambda>x. f x = k') xs = filter (\<lambda>x. f x = k') ?ys" if "k' \<in> set ks" for k'
    using Cons.prems(1) that by (auto intro!: filter_cong)
  have "map (\<lambda>k. filter (\<lambda>x. f x = k) xs) ks = map (\<lambda>k. filter (\<lambda>x. f x = k) ?ys) ks"
    using * by (intro map_cong) auto
  then have "mset (concat (map (\<lambda>k. filter (\<lambda>x. f x = k) xs) ks)) =
        mset (concat (map (\<lambda>k. filter (\<lambda>x. f x = k) ?ys) ks))"
    by (simp only:)
  also have "\<dots> = mset ?ys"
    using Cons.prems by (intro Cons.IH) auto
  finally have "mset (concat (map (\<lambda>k. filter (\<lambda>x. f x = k) xs) (k # ks))) =
      mset (filter (\<lambda>x. f x = k) xs) + mset ?ys"
    by (simp only: list.map concat.simps mset_append)
  then show ?case
    by (simp only: mset_filter_split [of xs "\<lambda>x. f x = k", symmetric])
qed

lemma sum_list_enat_append [simp]:
  "sum_list (xs @ ys) = sum_list xs + sum_list (ys :: enat list)"
  by (induction xs) (auto simp: add.assoc)

end
