(* ===== verification/JsString.thy ===== *)
theory JsString
  imports Prelude "HOL-Library.Word" "HOL-Library.List_Lexorder"
begin

text \<open>
  JavaScript strings: sequences of 16-bit code units, possibly with unpaired surrogates.
  \<open>text.length\<close> is the list length; \<open>code_points\<close> is what iteration by code point and
  \<open>codePointAt\<close> see; \<open>utf8\<close> is the encoding \<open>Buffer.byteLength\<close> measures and
  \<open>createHash(...).update(s, "utf8")\<close> hashes, with U+FFFD for an unpaired surrogate.
  The second half models the length framing \<open>utf8Frame\<close> that every deterministic identity
  and fingerprint of the program is built from, and shows that framed text can be decoded in
  one way only.
\<close>

type_synonym jsstr = "16 word list"

named_theorems js_eval \<open>evaluation of string literals\<close>

definition js :: "string \<Rightarrow> jsstr" where
  "js s = map of_char s"

text \<open>Through integers, literals evaluate much faster.\<close>

lemma js_code [code]: "js s = map (\<lambda>c. word_of_int (of_char c)) s"
  by (simp add: js_def of_char_def)

text \<open>A literal stays folded; \<open>js_eval\<close> spells it out as code units.\<close>

lemma js_Nil [js_eval]: "js [] = []"
  by (simp add: js_def)

lemma js_Cons [js_eval]: "js (c # s) = of_char c # js s"
  by (simp add: js_def)

text \<open>Distinct literals are distinct strings.\<close>

lemma of_char_inject16: "(of_char c :: 16 word) = of_char d \<longleftrightarrow> c = d"
proof
  assume "(of_char c :: 16 word) = of_char d"
  then have "(of_nat (of_char c) :: 16 word) = of_nat (of_char d)"
    by (simp add: of_nat_of_char)
  then have "take_bit 16 (of_char c :: nat) = take_bit 16 (of_char d)"
    by (simp add: word_of_nat_eq_iff)
  moreover have "take_bit 16 (of_char e :: nat) = of_char e" for e
    by (rule take_bit_nat_eq_self) (simp add: of_char_def)
  ultimately show "c = d" by simp
qed simp

lemma js_inject [simp]: "js s = js t \<longleftrightarrow> s = t"
  unfolding js_def by (rule inj_map_eq_map) (simp add: inj_def of_char_inject16)

lemma js_append: "js (s @ t) = js s @ js t"
  by (simp add: js_def)

section \<open>Code points and UTF-8\<close>

definition is_high :: "16 word \<Rightarrow> bool" where
  "is_high u \<longleftrightarrow> 0xD800 \<le> u \<and> u < 0xDC00"

definition is_low :: "16 word \<Rightarrow> bool" where
  "is_low u \<longleftrightarrow> 0xDC00 \<le> u \<and> u < 0xE000"

fun code_points :: "jsstr \<Rightarrow> nat list" where
  "code_points [] = []"
| "code_points [u] = [unat u]"
| "code_points (u # v # s) =
     (if is_high u \<and> is_low v
      then (0x10000 + (unat u - 0xD800) * 0x400 + (unat v - 0xDC00)) # code_points s
      else unat u # code_points (v # s))"

definition codePointLength :: "jsstr \<Rightarrow> nat" where
  "codePointLength s = length (code_points s)"

definition utf8_of_code_point :: "nat \<Rightarrow> nat list" where
  "utf8_of_code_point c =
     (if c < 0x80 then [c]
      else if c < 0x800 then [0xC0 + c div 0x40, 0x80 + c mod 0x40]
      else if 0xD800 \<le> c \<and> c < 0xE000 then [0xEF, 0xBF, 0xBD]
      else if c < 0x10000
        then [0xE0 + c div 0x1000, 0x80 + c div 0x40 mod 0x40, 0x80 + c mod 0x40]
      else [0xF0 + c div 0x40000, 0x80 + c div 0x1000 mod 0x40,
            0x80 + c div 0x40 mod 0x40, 0x80 + c mod 0x40])"

definition utf8 :: "jsstr \<Rightarrow> nat list" where
  "utf8 s = concat (map utf8_of_code_point (code_points s))"

definition byteLength :: "jsstr \<Rightarrow> nat" where
  "byteLength s = length (utf8 s)"

lemma utf8_Nil [simp]: "utf8 [] = []"
  by (simp add: utf8_def)

text \<open>A string that does not begin in the middle of a surrogate pair.\<close>

definition clean_start :: "jsstr \<Rightarrow> bool" where
  "clean_start s \<longleftrightarrow> s = [] \<or> \<not> is_low (hd s)"

lemma clean_start_Nil [simp]: "clean_start []"
  by (simp add: clean_start_def)

lemma clean_start_Cons [simp]: "clean_start (u # s) \<longleftrightarrow> \<not> is_low u"
  by (simp add: clean_start_def)

lemma clean_start_append: "clean_start (s @ t) \<longleftrightarrow> (if s = [] then clean_start t else clean_start s)"
  by (cases s) auto

lemma code_points_append:
  "clean_start t \<Longrightarrow> code_points (s @ t) = code_points s @ code_points t"
proof (induction s rule: code_points.induct)
  case 1
  then show ?case by simp
next
  case (2 u)
  then show ?case by (cases t) (auto simp: clean_start_def)
next
  case (3 u v s)
  then show ?case by auto
qed

lemma utf8_append: "clean_start t \<Longrightarrow> utf8 (s @ t) = utf8 s @ utf8 t"
  by (simp add: utf8_def code_points_append)

text \<open>ASCII text is encoded unit by unit.\<close>

definition ascii :: "jsstr \<Rightarrow> bool" where
  "ascii s \<longleftrightarrow> (\<forall>u\<in>set s. u < 0x80)"

lemma ascii_Cons [simp]: "ascii (u # s) \<longleftrightarrow> u < 0x80 \<and> ascii s"
  by (auto simp: ascii_def)

lemma ascii_Nil [simp]: "ascii []"
  by (simp add: ascii_def)

lemma ascii_append [simp]: "ascii (s @ t) \<longleftrightarrow> ascii s \<and> ascii t"
  by (auto simp: ascii_def)

lemma ascii_not_surrogate: "u < 0x80 \<Longrightarrow> \<not> is_high u \<and> \<not> is_low u"
  by (auto simp: is_high_def is_low_def word_less_nat_alt word_le_nat_alt)

lemma ascii_clean_start: "ascii s \<Longrightarrow> clean_start s"
  by (cases s) (auto simp: ascii_not_surrogate)

lemma code_points_ascii: "ascii s \<Longrightarrow> code_points s = map unat s"
  by (induction s rule: code_points.induct) (auto simp: ascii_not_surrogate)

lemma utf8_ascii: "ascii s \<Longrightarrow> utf8 s = map unat s"
proof -
  assume a: "ascii s"
  have "utf8_of_code_point (unat u) = [unat u]" if "u \<in> set s" for u
  proof -
    from a that have "u < 0x80" by (auto simp: ascii_def)
    then have "unat u < 0x80" by (simp add: word_less_nat_alt)
    then show ?thesis by (simp add: utf8_of_code_point_def)
  qed
  then have "map utf8_of_code_point (map unat s) = map (\<lambda>u. [unat u]) s"
    by simp
  then show ?thesis
    by (simp add: utf8_def code_points_ascii a comp_def del: map_map)
qed

section \<open>Decimal numbers\<close>

definition digit :: "nat \<Rightarrow> 16 word" where
  "digit d = of_nat (48 + d)"

text \<open>\<open>String(n)\<close> for a non-negative safe integer.\<close>

fun decimal :: "nat \<Rightarrow> jsstr" where
  "decimal n = (if n < 10 then [digit n] else decimal (n div 10) @ [digit (n mod 10)])"

declare decimal.simps [simp del]

lemma decimal_small: "n < 10 \<Longrightarrow> decimal n = [digit n]"
  by (subst decimal.simps) simp

lemma decimal_large: "\<not> n < 10 \<Longrightarrow> decimal n = decimal (n div 10) @ [digit (n mod 10)]"
  by (subst decimal.simps) simp

lemma unat_digit: "d < 10 \<Longrightarrow> unat (digit d) = 48 + d"
  unfolding digit_def by (subst unat_of_nat) simp

lemma decimal_digits: "u \<in> set (decimal n) \<Longrightarrow> 48 \<le> unat u \<and> unat u < 58"
proof (induction n rule: decimal.induct)
  case (1 n)
  show ?case
  proof (cases "n < 10")
    case True
    with 1(2) show ?thesis by (auto simp: decimal.simps [of n] unat_digit)
  next
    case False
    with 1(2) have "u \<in> set (decimal (n div 10)) \<or> u = digit (n mod 10)"
      by (auto simp: decimal.simps [of n])
    with False 1(1) show ?thesis by (auto simp: unat_digit)
  qed
qed

lemma decimal_nonempty [simp]: "decimal n \<noteq> []"
  by (subst decimal.simps) simp

lemma ascii_decimal [simp]: "ascii (decimal n)"
proof -
  have "u < 0x80" if "u \<in> set (decimal n)" for u
    using decimal_digits [OF that] by (simp add: word_less_nat_alt)
  then show ?thesis by (simp add: ascii_def)
qed

lemma clean_start_decimal [simp]: "clean_start (decimal n @ s)"
  by (simp add: clean_start_append ascii_clean_start)

lemma digit_inject:
  assumes "digit a = digit b" "a < 10" "b < 10"
  shows "a = b"
proof -
  have "48 + a = unat (digit a)" by (simp only: unat_digit [OF assms(2)])
  also have "\<dots> = 48 + b" by (simp only: assms(1) unat_digit [OF assms(3)])
  finally show ?thesis by simp
qed

lemma decimal_inject: "decimal m = decimal n \<Longrightarrow> m = n"
proof (induction m arbitrary: n rule: decimal.induct)
  case (1 m)
  show ?case
  proof (cases "m < 10")
    case m: True
    show ?thesis
    proof (cases "n < 10")
      case True
      with "1.prems" m have "digit m = digit n"
        by (simp only: decimal_small [OF m] decimal_small [OF True] list.inject)
      then show ?thesis using m True by (rule digit_inject)
    next
      case False
      with "1.prems" m have "[digit m] = decimal (n div 10) @ [digit (n mod 10)]"
        by (simp only: decimal_small [OF m] decimal_large [OF False])
      then have "length [digit m] = length (decimal (n div 10)) + 1" by simp
      then show ?thesis by simp
    qed
  next
    case m: False
    show ?thesis
    proof (cases "n < 10")
      case True
      with "1.prems" have "decimal (m div 10) @ [digit (m mod 10)] = [digit n]"
        by (simp only: decimal_small [OF True] decimal_large [OF m])
      then show ?thesis by simp
    next
      case False
      with "1.prems" have eq: "decimal (m div 10) = decimal (n div 10)"
        and d: "digit (m mod 10) = digit (n mod 10)"
        by (simp_all only: decimal_large [OF m] decimal_large [OF False] append1_eq_conv)
      have q: "m div 10 = n div 10" by (rule "1.IH" [OF m eq])
      have r: "m mod 10 = n mod 10" by (rule digit_inject [OF d]) simp_all
      have "m = m div 10 * 10 + m mod 10" by (rule div_mult_mod_eq [symmetric])
      also have "\<dots> = n div 10 * 10 + n mod 10" by (simp only: q r)
      also have "\<dots> = n" by (rule div_mult_mod_eq)
      finally show ?thesis .
    qed
  qed
qed

section \<open>Length frames\<close>

definition colon :: "16 word" where
  "colon = 58"

text \<open>\<open>`${Buffer.byteLength(value, "utf8")}:${value}`\<close>\<close>

definition utf8Frame :: "jsstr \<Rightarrow> jsstr" where
  "utf8Frame v = decimal (byteLength v) @ colon # v"

lemma not_low_colon [simp]: "\<not> is_low colon"
  by (simp add: is_low_def colon_def word_le_nat_alt)

lemma ascii_colon [simp]: "colon < 0x80"
  by (simp add: colon_def word_less_nat_alt)

lemma clean_start_utf8Frame [simp]: "clean_start (utf8Frame v @ s)" "clean_start (utf8Frame v)"
  by (simp_all add: utf8Frame_def)

lemma split_at_separator:
  assumes "xs @ c # ys = xs' @ c # ys'" "c \<notin> set xs" "c \<notin> set xs'"
  shows "xs = xs' \<and> ys = ys'"
  using assms
proof (induction xs arbitrary: xs')
  case Nil
  then show ?case by (cases xs') auto
next
  case (Cons x xs)
  then show ?case by (cases xs') auto
qed

lemma counted_inject:
  assumes "map unat (decimal n) @ 58 # b = map unat (decimal n') @ 58 # b'"
  shows "n = n' \<and> b = b'"
proof -
  have "58 \<notin> set (map unat (decimal k))" for k
    using decimal_digits [of _ k] by fastforce
  from split_at_separator [OF assms this this]
  have "map unat (decimal n) = map unat (decimal n')" and b: "b = b'" by auto
  then have "decimal n = decimal n'"
    by (metis list.inj_map_strong word_unat_eq_iff)
  with b show ?thesis by (auto dest: decimal_inject)
qed

text \<open>
  The value itself may begin with an unpaired low surrogate: after the colon it still starts
  a fresh code point.
\<close>

lemma code_points_colon: "code_points (colon # s) = 58 # code_points s"
proof (cases s)
  case Nil
  then show ?thesis by (simp add: colon_def)
next
  case (Cons v t)
  moreover have "\<not> is_high colon"
    by (simp add: is_high_def colon_def word_le_nat_alt)
  ultimately show ?thesis by (simp add: colon_def)
qed

lemma utf8_colon: "utf8 (colon # s) = 58 # utf8 s"
  by (simp add: utf8_def code_points_colon utf8_of_code_point_def)

lemma utf8_frame_append:
  assumes "clean_start s"
  shows "utf8 (utf8Frame v @ s) = map unat (decimal (byteLength v)) @ 58 # utf8 v @ utf8 s"
proof -
  have "utf8Frame v @ s = decimal (byteLength v) @ (colon # v @ s)" by (simp add: utf8Frame_def)
  then have "utf8 (utf8Frame v @ s) = utf8 (decimal (byteLength v)) @ utf8 (colon # v @ s)"
    by (simp add: utf8_append)
  with assms show ?thesis by (simp add: utf8_ascii utf8_colon utf8_append)
qed

lemma utf8_count_append:
  "utf8 (decimal n @ colon # s) = map unat (decimal n) @ 58 # utf8 s"
  by (simp add: utf8_append utf8_ascii utf8_colon)

lemma utf8_count_inject:
  assumes "utf8 (decimal n @ colon # s) = utf8 (decimal n' @ colon # s')"
  shows "n = n' \<and> utf8 s = utf8 s'"
  using assms by (auto simp: utf8_count_append dest: counted_inject)

text \<open>Two framed texts with the same bytes carry the same bytes in the frame and after it.\<close>

lemma utf8Frame_inject:
  assumes "utf8 (utf8Frame v @ s) = utf8 (utf8Frame v' @ s')" "clean_start s" "clean_start s'"
  shows "utf8 v = utf8 v' \<and> utf8 s = utf8 s'"
proof -
  have "byteLength v = byteLength v'" and "utf8 v @ utf8 s = utf8 v' @ utf8 s'"
    using assms by (auto simp: utf8_frame_append dest: counted_inject)
  then show ?thesis by (auto simp: byteLength_def)
qed

text \<open>\<open>values.map(utf8Frame).join("")\<close>\<close>

definition frames :: "jsstr list \<Rightarrow> jsstr" where
  "frames vs = concat (map utf8Frame vs)"

lemma frames_simps [simp]: "frames [] = []" "frames (v # vs) = utf8Frame v @ frames vs"
  by (simp_all add: frames_def)

lemma frames_append: "frames (vs @ ws) = frames vs @ frames ws"
  by (simp add: frames_def)

lemma clean_start_frames [simp]: "clean_start s \<Longrightarrow> clean_start (frames vs @ s)"
  by (cases vs) auto

lemma clean_start_frames' [simp]: "clean_start (frames vs)"
  by (cases vs) auto

lemma frames_inject:
  assumes "length vs = length ws" "utf8 (frames vs @ s) = utf8 (frames ws @ s')"
    "clean_start s" "clean_start s'"
  shows "map utf8 vs = map utf8 ws \<and> utf8 s = utf8 s'"
  using assms(1,2)
proof (induction vs ws rule: list_induct2)
  case Nil
  then show ?case by simp
next
  case (Cons v vs w ws)
  from Cons.prems have "utf8 v = utf8 w \<and> utf8 (frames vs @ s) = utf8 (frames ws @ s')"
    using assms(3,4) by (intro utf8Frame_inject) simp_all
  with Cons.IH show ?case by simp
qed

section \<open>Characters the code tests\<close>

text \<open>White space and line terminators, which \<open>trim\<close> removes.\<close>

definition is_space :: "16 word \<Rightarrow> bool" where
  "is_space u \<longleftrightarrow> (9 \<le> u \<and> u \<le> 13) \<or> u = 0x20 \<or> u = 0xA0 \<or> u = 0x1680
     \<or> (0x2000 \<le> u \<and> u \<le> 0x200A) \<or> u = 0x2028 \<or> u = 0x2029 \<or> u = 0x202F \<or> u = 0x205F
     \<or> u = 0x3000 \<or> u = 0xFEFF"

definition trim :: "jsstr \<Rightarrow> jsstr" where
  "trim s = rev (dropWhile is_space (rev (dropWhile is_space s)))"

lemma trim_Nil [simp]: "trim [] = []"
  by (simp add: trim_def)

lemma trim_eq_Nil_iff: "trim s = [] \<longleftrightarrow> (\<forall>u\<in>set s. is_space u)"
proof -
  have "trim s = [] \<longleftrightarrow> (\<forall>u\<in>set (dropWhile is_space s). is_space u)"
    by (simp add: trim_def dropWhile_eq_Nil_conv)
  also have "\<dots> \<longleftrightarrow> (\<forall>u\<in>set s. is_space u)"
    by (induction s) auto
  finally show ?thesis .
qed

definition starts_with :: "jsstr \<Rightarrow> jsstr \<Rightarrow> bool" where
  "starts_with p s \<longleftrightarrow> take (length p) s = p"

definition ends_with :: "jsstr \<Rightarrow> jsstr \<Rightarrow> bool" where
  "ends_with p s \<longleftrightarrow> length p \<le> length s \<and> drop (length s - length p) s = p"

text \<open>\<open>s.indexOf(p, from)\<close>, with \<open>None\<close> for -1.\<close>

fun index_of :: "jsstr \<Rightarrow> jsstr \<Rightarrow> nat option" where
  "index_of p [] = (if p = [] then Some 0 else None)"
| "index_of p (u # s) =
     (if starts_with p (u # s) then Some 0 else map_option Suc (index_of p s))"

definition index_of_from :: "jsstr \<Rightarrow> jsstr \<Rightarrow> nat \<Rightarrow> nat option" where
  "index_of_from p s i = map_option (\<lambda>k. i + k) (index_of p (drop i s))"

lemma index_of_bound: "index_of p s = Some k \<Longrightarrow> k + length p \<le> length s"
proof (induction s arbitrary: k)
  case Nil
  then show ?case by (simp split: if_splits)
next
  case (Cons u s)
  then show ?case
    by (auto simp: starts_with_def split: if_splits)
      (metis length_Cons length_take min.cobounded1)
qed

lemma index_of_from_bound: "index_of_from p s i = Some k \<Longrightarrow> i \<le> length s \<Longrightarrow>
  i \<le> k \<and> k + length p \<le> length s"
  by (auto simp: index_of_from_def dest: index_of_bound)

definition join :: "jsstr \<Rightarrow> jsstr list \<Rightarrow> jsstr" where
  "join sep xs = (case xs of [] \<Rightarrow> [] | x # ys \<Rightarrow> x @ concat (map (\<lambda>y. sep @ y) ys))"

end
