(* ===== verification/Intervals.thy ===== *)
theory Intervals
  imports JsString
begin

text \<open>
  The boundary reconciliation kernel of \<open>packages/shared/src/segmentation.ts\<close>: committed
  boundaries and active targets compete as closed intervals of turn or message indexes, and
  \<open>selectBoundaryIntervals\<close> picks a non-overlapping plan by dynamic programming over
  candidates sorted by end index. The locale \<open>span_selection\<close> is the contract its two callers
  (v1 whole-turn and v2 exact-span reconciliation) rely on; it is interpreted on the model of
  the code at the end.
\<close>

section \<open>Data\<close>

text \<open>
  \<open>CommittedSegmentBoundary\<close>. The version and the cursors are optional because
  \<open>boundaryVersion\<close> re-checks them at run time; \<open>None\<close> stands for \<open>undefined\<close> and \<open>null\<close>.
\<close>

record committed_boundary =
  cb_id :: "jsstr option"
  cb_startUser :: jsstr
  cb_endUser :: jsstr
  cb_version :: "nat option"
  cb_startSource :: "jsstr option"
  cb_endSource :: "jsstr option"
  cb_projectionVersion :: "nat option"
  cb_sourceEligible :: "bool option"
  cb_sourceFingerprint :: "jsstr option"

record interval =
  boundary :: committed_boundary
  startIndex :: nat
  endIndex :: nat
  key :: jsstr

section \<open>Comparing plans\<close>

definition plan_coverage :: "'a interval_scheme list \<Rightarrow> int" where
  "plan_coverage items =
     foldl (\<lambda>total item. total + int (endIndex item) - int (startIndex item) + 1) 0 items"

definition plan_eligible :: "'a interval_scheme list \<Rightarrow> nat" where
  "plan_eligible items =
     length (filter (\<lambda>item. cb_sourceEligible (boundary item) = Some True) items)"

definition plan_version :: "'a interval_scheme list \<Rightarrow> nat" where
  "plan_version items =
     foldl (\<lambda>total item. total + (case cb_projectionVersion (boundary item) of None \<Rightarrow> 0 | Some v \<Rightarrow> v))
       0 items"

definition plan_key :: "'a interval_scheme list \<Rightarrow> jsstr" where
  "plan_key items = join (js ''|'') (map key items)"

definition betterBoundaryPlan ::
  "'a interval_scheme list \<Rightarrow> 'a interval_scheme list \<Rightarrow> 'a interval_scheme list" where
  "betterBoundaryPlan left right =
     (if plan_coverage left \<noteq> plan_coverage right
        then if plan_coverage left > plan_coverage right then left else right
      else if plan_eligible left \<noteq> plan_eligible right
        then if plan_eligible left > plan_eligible right then left else right
      else if plan_version left \<noteq> plan_version right
        then if plan_version left > plan_version right then left else right
      else if plan_key left \<le> plan_key right then left else right)"

lemma better_cases: "betterBoundaryPlan l r = l \<or> betterBoundaryPlan l r = r"
  by (simp add: betterBoundaryPlan_def)

lemma better_coverage:
  "plan_coverage (betterBoundaryPlan l r) = max (plan_coverage l) (plan_coverage r)"
  by (simp add: betterBoundaryPlan_def)

lemma plan_coverage_acc:
  "foldl (\<lambda>total item. total + int (endIndex item) - int (startIndex item) + 1) z items =
     z + plan_coverage items"
proof (induction items arbitrary: z)
  case Nil
  then show ?case by (simp add: plan_coverage_def)
next
  case (Cons x items)
  from this [of "z + int (endIndex x) - int (startIndex x) + 1"]
    this [of "0 + int (endIndex x) - int (startIndex x) + 1"]
  show ?case by (simp add: plan_coverage_def)
qed

lemma plan_coverage_Nil [simp]: "plan_coverage [] = 0"
  by (simp add: plan_coverage_def)

lemma plan_coverage_append [simp]: "plan_coverage (xs @ ys) = plan_coverage xs + plan_coverage ys"
  using plan_coverage_acc [of 0 "xs @ ys"] plan_coverage_acc [of "plan_coverage xs" ys]
    plan_coverage_acc [of 0 xs] by simp

lemma plan_coverage_single [simp]:
  "plan_coverage [c] = int (endIndex c) - int (startIndex c) + 1"
  by (simp add: plan_coverage_def)

section \<open>Choosing a plan\<close>

text \<open>
  The scan \<open>while (previous >= 0 && candidates[previous].endIndex >= start) previous -= 1\<close>;
  the result is \<open>previous + 1\<close>, the index of the plan the candidate extends.
\<close>

fun previous_plan :: "'a interval_scheme list \<Rightarrow> nat \<Rightarrow> nat \<Rightarrow> nat" where
  "previous_plan cs start 0 = 0"
| "previous_plan cs start (Suc p) =
     (if endIndex (cs ! p) \<ge> start then previous_plan cs start p else Suc p)"

definition extend_plans ::
  "'a interval_scheme list \<Rightarrow> 'a interval_scheme list list \<Rightarrow> nat \<Rightarrow> 'a interval_scheme list list" where
  "extend_plans cs plans i =
     plans @ [betterBoundaryPlan (plans ! i)
       (plans ! previous_plan cs (startIndex (cs ! i)) i @ [cs ! i])]"

definition boundary_plans :: "'a interval_scheme list \<Rightarrow> nat \<Rightarrow> 'a interval_scheme list list" where
  "boundary_plans cs n = foldl (extend_plans cs) [[]] [0..<n]"

definition selectBoundaryIntervals :: "'a interval_scheme list \<Rightarrow> 'a interval_scheme list" where
  "selectBoundaryIntervals cs =
     js_sort (by_key startIndex) (last (boundary_plans cs (length cs)))"

lemma boundary_plans_0: "boundary_plans cs 0 = [[]]"
  by (simp add: boundary_plans_def)

lemma boundary_plans_Suc: "boundary_plans cs (Suc n) = extend_plans cs (boundary_plans cs n) n"
  by (simp add: boundary_plans_def)

lemma length_boundary_plans [simp]: "length (boundary_plans cs n) = Suc n"
  by (induction n) (simp_all add: boundary_plans_0 boundary_plans_Suc extend_plans_def)

lemma boundary_plans_nth: "i \<le> n \<Longrightarrow> boundary_plans cs n ! i = boundary_plans cs i ! i"
proof (induction n)
  case 0
  then show ?case by simp
next
  case (Suc n)
  then show ?case
    by (cases "i = Suc n") (auto simp: boundary_plans_Suc extend_plans_def nth_append)
qed

text \<open>The plan for the first \<open>i\<close> candidates, and the recurrence the loop computes.\<close>

definition plan_at :: "'a interval_scheme list \<Rightarrow> nat \<Rightarrow> 'a interval_scheme list" where
  "plan_at cs i = boundary_plans cs i ! i"

lemma previous_plan_le: "previous_plan cs s i \<le> i"
  by (induction i) auto

lemma plan_at_0: "plan_at cs 0 = []"
  by (simp add: plan_at_def boundary_plans_0)

lemma plan_at_Suc:
  "plan_at cs (Suc i) = betterBoundaryPlan (plan_at cs i)
     (plan_at cs (previous_plan cs (startIndex (cs ! i)) i) @ [cs ! i])"
proof -
  let ?p = "previous_plan cs (startIndex (cs ! i)) i"
  have "boundary_plans cs i ! ?p = boundary_plans cs ?p ! ?p"
    by (rule boundary_plans_nth) (rule previous_plan_le)
  then show ?thesis
    unfolding plan_at_def boundary_plans_Suc extend_plans_def by (simp add: nth_append)
qed

lemma last_boundary_plans: "last (boundary_plans cs n) = plan_at cs n"
proof -
  have "boundary_plans cs n \<noteq> []" using length_boundary_plans [of cs n] by force
  then show ?thesis by (simp add: last_conv_nth plan_at_def)
qed

section \<open>Correctness\<close>

definition well_ordered :: "'a interval_scheme \<Rightarrow> bool" where
  "well_ordered c \<longleftrightarrow> startIndex c \<le> endIndex c"

definition non_overlapping :: "'a interval_scheme list \<Rightarrow> bool" where
  "non_overlapping cs \<longleftrightarrow> sorted_wrt (\<lambda>a b. endIndex a < startIndex b) cs"

definition candidates_ok :: "'a interval_scheme list \<Rightarrow> bool" where
  "candidates_ok cs \<longleftrightarrow> sorted (map endIndex cs) \<and> (\<forall>c\<in>set cs. well_ordered c)"

lemma previous_plan_below:
  "p < previous_plan cs s i \<Longrightarrow> sorted (map endIndex cs) \<Longrightarrow> i \<le> length cs \<Longrightarrow>
     endIndex (cs ! p) < s"
proof (induction i)
  case 0
  then show ?case by simp
next
  case (Suc i)
  show ?case
  proof (cases "s \<le> endIndex (cs ! i)")
    case True
    with Suc show ?thesis by simp
  next
    case False
    with Suc.prems have "p \<le> i" "i < length cs" by auto
    with Suc.prems(2) have "map endIndex cs ! p \<le> map endIndex cs ! i"
      by (intro sorted_nth_mono) auto
    with \<open>p \<le> i\<close> \<open>i < length cs\<close> False show ?thesis by simp
  qed
qed

lemma previous_plan_above:
  "previous_plan cs s i \<le> p \<Longrightarrow> p < i \<Longrightarrow> s \<le> endIndex (cs ! p)"
  by (induction i) (auto simp: less_Suc_eq split: if_splits)

lemma plan_at_valid:
  assumes "candidates_ok cs" "i \<le> length cs"
  shows "set (plan_at cs i) \<subseteq> set (take i cs) \<and> non_overlapping (plan_at cs i)"
  using assms(2)
proof (induction i rule: less_induct)
  case (less i)
  show ?case
  proof (cases i)
    case 0
    then show ?thesis by (simp add: plan_at_0 non_overlapping_def)
  next
    case (Suc j)
    let ?c = "cs ! j" and ?p = "previous_plan cs (startIndex (cs ! j)) j"
    have p: "?p \<le> j" by (rule previous_plan_le)
    have ih: "set (plan_at cs ?p) \<subseteq> set (take ?p cs)" "non_overlapping (plan_at cs ?p)"
      "set (plan_at cs j) \<subseteq> set (take j cs)" "non_overlapping (plan_at cs j)"
      using less p Suc by auto
    have "endIndex x < startIndex ?c" if "x \<in> set (plan_at cs ?p)" for x
    proof -
      from that ih(1) have "x \<in> set (take ?p cs)" by blast
      then obtain q where q: "q < ?p" "x = cs ! q" by (auto simp: in_set_take_iff)
      with assms(1) less.prems Suc show ?thesis
        by (auto intro!: previous_plan_below simp: candidates_ok_def)
    qed
    then have new: "non_overlapping (plan_at cs ?p @ [?c])"
      using ih(2) by (simp add: non_overlapping_def sorted_wrt_append)
    have "set (take ?p cs) \<subseteq> set (take j cs)"
      using p by (rule set_take_subset_set_take)
    then have sub: "set (plan_at cs ?p @ [?c]) \<subseteq> set (take i cs)"
      using ih(1) less.prems Suc by (auto simp: take_Suc_conv_app_nth)
    have sub': "set (plan_at cs j) \<subseteq> set (take i cs)"
      using ih(3) less.prems Suc by (auto simp: take_Suc_conv_app_nth)
    show ?thesis
      using better_cases [of "plan_at cs j" "plan_at cs ?p @ [?c]"] new sub sub' ih(4)
      by (metis Suc plan_at_Suc)
  qed
qed

lemma non_overlapping_starts:
  assumes "non_overlapping cs" "\<forall>c\<in>set cs. well_ordered c"
  shows "sorted (map startIndex cs)"
proof -
  have "sorted_wrt (\<lambda>a b. startIndex a \<le> startIndex b) cs"
    using assms(1) unfolding non_overlapping_def
    by (rule sorted_wrt_mono_rel [rotated]) (use assms(2) in \<open>auto simp: well_ordered_def\<close>)
  then show ?thesis by (simp add: sorted_map)
qed

text \<open>No non-overlapping choice among the first \<open>i\<close> candidates covers more than plan \<open>i\<close>.\<close>

lemma plan_at_optimal:
  assumes ok: "candidates_ok cs" and "i \<le> length cs"
    and "non_overlapping ts" "set ts \<subseteq> set (take i cs)"
  shows "plan_coverage ts \<le> plan_coverage (plan_at cs i)"
  using assms(2-)
proof (induction i arbitrary: ts rule: less_induct)
  case (less i)
  show ?case
  proof (cases i)
    case 0
    with less.prems show ?thesis by (simp add: plan_at_0)
  next
    case (Suc j)
    let ?c = "cs ! j" and ?p = "previous_plan cs (startIndex (cs ! j)) j"
    have j: "j < length cs" using less.prems Suc by simp
    have tk: "set (take i cs) = insert ?c (set (take j cs))"
      using j Suc by (simp add: take_Suc_conv_app_nth)
    have mono: "endIndex x \<le> endIndex ?c" if "x \<in> set (take i cs)" for x
    proof -
      from that obtain q where q: "q \<le> j" "x = cs ! q"
        using Suc by (auto simp: in_set_take_iff less_Suc_eq_le)
      have "map endIndex cs ! q \<le> map endIndex cs ! j"
        using ok j q(1) by (intro sorted_nth_mono) (auto simp: candidates_ok_def)
      with q j show ?thesis by simp
    qed
    have wo: "well_ordered x" if "x \<in> set (take i cs)" for x
      using that ok by (auto simp: candidates_ok_def dest: in_set_takeD)
    show ?thesis
    proof (cases "?c \<in> set ts")
      case False
      with less.prems tk have "plan_coverage ts \<le> plan_coverage (plan_at cs j)"
        using Suc by (intro less.IH) auto
      also have "\<dots> \<le> plan_coverage (plan_at cs i)"
        by (simp add: Suc plan_at_Suc better_coverage)
      finally show ?thesis .
    next
      case True
      then obtain as bs where ts: "ts = as @ ?c # bs" by (meson split_list)
      have "bs = []"
      proof (rule ccontr)
        assume "bs \<noteq> []"
        then obtain b where b: "b \<in> set bs" by (cases bs) auto
        then have "endIndex ?c < startIndex b" and "b \<in> set (take i cs)"
          using less.prems(2,3) by (auto simp: ts non_overlapping_def sorted_wrt_append)
        then show False using mono [of b] wo [of b] by (auto simp: well_ordered_def)
      qed
      have as: "non_overlapping as" "\<forall>a\<in>set as. endIndex a < startIndex ?c"
        using less.prems(2) by (auto simp: ts non_overlapping_def sorted_wrt_append)
      have "set as \<subseteq> set (take ?p cs)"
      proof
        fix a assume a: "a \<in> set as"
        with less.prems(3) ts have "a \<in> set (take i cs)" by auto
        then obtain q where q: "q \<le> j" "a = cs ! q"
          using Suc by (auto simp: in_set_take_iff less_Suc_eq_le)
        have "a \<noteq> ?c" using as(2) a wo [of ?c] tk by (auto simp: well_ordered_def)
        with q have "q < j" by (auto simp: le_less)
        moreover have "\<not> ?p \<le> q"
          using previous_plan_above [of cs "startIndex ?c" j q] \<open>q < j\<close> as(2) a q(2) by fastforce
        ultimately have "q < ?p" "q < length cs" using j by auto
        with q(2) show "a \<in> set (take ?p cs)" by (auto simp: in_set_take_iff)
      qed
      with as(1) have "plan_coverage as \<le> plan_coverage (plan_at cs ?p)"
        using previous_plan_le [of cs "startIndex ?c" j] Suc j
        by (intro less.IH) auto
      then have "plan_coverage ts \<le> plan_coverage (plan_at cs ?p @ [?c])"
        by (simp add: ts \<open>bs = []\<close>)
      also have "\<dots> \<le> plan_coverage (plan_at cs i)"
        by (simp add: Suc plan_at_Suc better_coverage)
      finally show ?thesis .
    qed
  qed
qed

lemma select_eq_plan_at:
  assumes "candidates_ok cs"
  shows "selectBoundaryIntervals cs = plan_at cs (length cs)"
proof -
  have v: "set (plan_at cs (length cs)) \<subseteq> set cs" "non_overlapping (plan_at cs (length cs))"
    using plan_at_valid [OF assms order_refl] by simp_all
  then have "sorted (map startIndex (plan_at cs (length cs)))"
    using assms by (intro non_overlapping_starts) (auto simp: candidates_ok_def)
  then show ?thesis
    by (simp add: selectBoundaryIntervals_def last_boundary_plans js_sort_sorted_id)
qed

section \<open>The contract of a span selection\<close>

locale span_selection =
  fixes lo :: "'a \<Rightarrow> nat" and hi :: "'a \<Rightarrow> nat"
    and weight :: "'a list \<Rightarrow> int" and select :: "'a list \<Rightarrow> 'a list"
  assumes select_subset: "sorted (map hi cs) \<Longrightarrow> (\<And>c. c \<in> set cs \<Longrightarrow> lo c \<le> hi c) \<Longrightarrow>
      set (select cs) \<subseteq> set cs"
    and select_disjoint: "sorted (map hi cs) \<Longrightarrow> (\<And>c. c \<in> set cs \<Longrightarrow> lo c \<le> hi c) \<Longrightarrow>
      sorted_wrt (\<lambda>a b. hi a < lo b) (select cs)"
    and select_maximal: "sorted (map hi cs) \<Longrightarrow> (\<And>c. c \<in> set cs \<Longrightarrow> lo c \<le> hi c) \<Longrightarrow>
      sorted_wrt (\<lambda>a b. hi a < lo b) ts \<Longrightarrow> set ts \<subseteq> set cs \<Longrightarrow> weight ts \<le> weight (select cs)"
begin

lemma select_spans:
  assumes "sorted (map hi cs)" "\<And>c. c \<in> set cs \<Longrightarrow> lo c \<le> hi c" "x \<in> set (select cs)"
  shows "x \<in> set cs \<and> lo x \<le> hi x"
  using select_subset [OF assms(1,2)] assms(2,3) by blast

text \<open>Two selected spans that share an index are the same span.\<close>

lemma select_unique:
  assumes "sorted (map hi cs)" "\<And>c. c \<in> set cs \<Longrightarrow> lo c \<le> hi c"
    and "x \<in> set (select cs)" "y \<in> set (select cs)"
    and "lo x \<le> k" "k \<le> hi x" "lo y \<le> k" "k \<le> hi y"
  shows "x = y"
proof -
  from assms(3) obtain i where i: "i < length (select cs)" "x = select cs ! i"
    by (auto simp: in_set_conv_nth)
  from assms(4) obtain j where j: "j < length (select cs)" "y = select cs ! j"
    by (auto simp: in_set_conv_nth)
  have *: "hi (select cs ! a) < lo (select cs ! b)" if "a < b" "b < length (select cs)" for a b
    using select_disjoint [OF assms(1,2)] that by (simp add: sorted_wrt_iff_nth_less)
  consider "i < j" | "j < i" | "i = j" by linarith
  then show ?thesis
  proof cases
    case 1
    with * [of i j] i j assms(5-) show ?thesis by auto
  next
    case 2
    with * [of j i] i j assms(5-) show ?thesis by auto
  next
    case 3
    with i j show ?thesis by simp
  qed
qed

lemma select_distinct_lo:
  assumes "sorted (map hi cs)" "\<And>c. c \<in> set cs \<Longrightarrow> lo c \<le> hi c"
  shows "sorted_wrt (<) (map lo (select cs))"
proof -
  have mono: "lo a < lo b" if "a \<in> set (select cs)" "hi a < lo b" for a b
    using select_spans [OF assms that(1)] that(2) by simp
  have "sorted_wrt (\<lambda>a b. lo a < lo b) (select cs)"
    by (rule sorted_wrt_mono_rel [OF _ select_disjoint [OF assms]]) (auto intro: mono)
  then show ?thesis by (simp add: sorted_wrt_map)
qed

end

interpretation boundary_selection:
  span_selection startIndex endIndex plan_coverage selectBoundaryIntervals
proof unfold_locales
  fix cs :: "'a interval_scheme list"
  assume "sorted (map endIndex cs)" "\<And>c. c \<in> set cs \<Longrightarrow> startIndex c \<le> endIndex c"
  then have ok: "candidates_ok cs" by (auto simp: candidates_ok_def well_ordered_def)
  from plan_at_valid [OF ok order_refl]
  show "set (selectBoundaryIntervals cs) \<subseteq> set cs"
    and "sorted_wrt (\<lambda>a b. endIndex a < startIndex b) (selectBoundaryIntervals cs)"
    by (simp_all add: select_eq_plan_at [OF ok] non_overlapping_def)
  fix ts :: "'a interval_scheme list"
  assume "sorted_wrt (\<lambda>a b. endIndex a < startIndex b) ts" "set ts \<subseteq> set cs"
  with ok show "plan_coverage ts \<le> plan_coverage (selectBoundaryIntervals cs)"
    by (auto simp: select_eq_plan_at non_overlapping_def intro!: plan_at_optimal)
qed

text \<open>
  C6. \<open>selectBoundaryIntervals\<close> is a maximum-coverage selection: for candidates sorted by end
  index, the chosen plan consists of candidates, is listed in order without overlaps, and no
  non-overlapping list of candidates covers more indexes.
\<close>

theorem select_boundary_intervals_maximal:
  assumes "sorted (map endIndex cs)" and "\<forall>c\<in>set cs. startIndex c \<le> endIndex c"
  shows "set (selectBoundaryIntervals cs) \<subseteq> set cs
    \<and> sorted_wrt (\<lambda>a b. endIndex a < startIndex b) (selectBoundaryIntervals cs)
    \<and> (\<forall>ts. sorted_wrt (\<lambda>a b. endIndex a < startIndex b) ts \<and> set ts \<subseteq> set cs
          \<longrightarrow> plan_coverage ts \<le> plan_coverage (selectBoundaryIntervals cs))"
  using boundary_selection.select_subset [of cs] boundary_selection.select_disjoint [of cs]
    boundary_selection.select_maximal [of cs] assms
  by blast

definition sample_boundary :: committed_boundary where
  "sample_boundary = \<lparr>cb_id = None, cb_startUser = [], cb_endUser = [], cb_version = Some 1,
     cb_startSource = None, cb_endSource = None, cb_projectionVersion = None,
     cb_sourceEligible = None, cb_sourceFingerprint = None\<rparr>"

definition sample_interval :: "nat \<Rightarrow> nat \<Rightarrow> interval" where
  "sample_interval i j = \<lparr>boundary = sample_boundary, startIndex = i, endIndex = j, key = decimal i\<rparr>"

theorem select_boundary_intervals_maximal_witness:
  "plan_coverage [sample_interval 0 1, sample_interval 2 5]
     \<le> plan_coverage (selectBoundaryIntervals
          [sample_interval 0 1, sample_interval 1 4, sample_interval 2 5])"
  using select_boundary_intervals_maximal
    [of "[sample_interval 0 1, sample_interval 1 4, sample_interval 2 5]"]
  by (simp add: sample_interval_def)

end
