(* ===== verification/Json.thy ===== *)
theory Json
  imports JsString
begin

text \<open>
  JavaScript values as the code inspects them (\<open>unknown\<close>, \<open>Record<string, unknown>\<close>), and
  \<open>JSON.stringify\<close>. An object is the list of its own enumerable properties in property order:
  array-index keys ascending, then the other keys in insertion order. A number is carried as
  the text \<open>Number::toString\<close> gives it, which is all the code uses of it besides its type and
  finiteness. Values are trees: shared or cyclic references, bigints, accessors and \<open>toJSON\<close>
  hooks are outside the model.
\<close>

datatype jsval =
    Undefined
  | Null
  | Boolean bool
  | Num jsstr
  | Str jsstr
  | Callable
  | Arr "jsval list"
  | Obj "(jsstr \<times> jsval) list"

definition finite_num :: "jsstr \<Rightarrow> bool" where
  "finite_num n \<longleftrightarrow> n \<noteq> js ''NaN'' \<and> n \<noteq> js ''Infinity'' \<and> n \<noteq> js ''-Infinity''"

text \<open>\<open>typeof v === "object" && v !== null && !Array.isArray(v)\<close>, and the object's properties.\<close>

fun record_of :: "jsval \<Rightarrow> (jsstr \<times> jsval) list option" where
  "record_of (Obj ps) = Some ps"
| "record_of _ = None"

text \<open>\<open>typeof v === "object" && v !== null\<close>: objects and arrays.\<close>

fun is_object :: "jsval \<Rightarrow> bool" where
  "is_object (Obj ps) = True"
| "is_object (Arr vs) = True"
| "is_object _ = False"

text \<open>Reading property \<open>k\<close>; a missing property, and any property of a non-object, is undefined.\<close>

definition property :: "(jsstr \<times> jsval) list \<Rightarrow> jsstr \<Rightarrow> jsval" where
  "property ps k = (case map_of ps k of None \<Rightarrow> Undefined | Some v \<Rightarrow> v)"

fun get_prop :: "jsval \<Rightarrow> jsstr \<Rightarrow> jsval" where
  "get_prop (Obj ps) k = property ps k"
| "get_prop _ k = Undefined"

fun is_num :: "jsval \<Rightarrow> bool" where
  "is_num (Num n) = True"
| "is_num _ = False"

text \<open>\<open>Number.isFinite(v)\<close>\<close>

fun is_finite :: "jsval \<Rightarrow> bool" where
  "is_finite (Num n) = finite_num n"
| "is_finite _ = False"

fun truthy :: "jsval \<Rightarrow> bool" where
  "truthy Undefined = False"
| "truthy Null = False"
| "truthy (Boolean b) = b"
| "truthy (Num n) = (n \<noteq> js ''0'' \<and> n \<noteq> js ''NaN'')"
| "truthy (Str s) = (s \<noteq> [])"
| "truthy _ = True"

section \<open>Property order\<close>

text \<open>Canonical array indexes: \<open>0\<close> or digits without a leading zero, below 2^32 - 1.\<close>

definition digit_unit :: "16 word \<Rightarrow> bool" where
  "digit_unit u \<longleftrightarrow> 48 \<le> u \<and> u < 58"

definition decimal_value :: "jsstr \<Rightarrow> nat" where
  "decimal_value s = foldl (\<lambda>n u. n * 10 + (unat u - 48)) 0 s"

definition array_index :: "jsstr \<Rightarrow> bool" where
  "array_index s \<longleftrightarrow> s \<noteq> [] \<and> (\<forall>u\<in>set s. digit_unit u) \<and> (s = js ''0'' \<or> hd s \<noteq> 48)
     \<and> decimal_value s < 2 ^ 32 - 1"

text \<open>
  \<open>Object.fromEntries\<close> (and every object literal built from distinct keys): array indexes
  first, ascending, then the remaining keys in the order they were added.
\<close>

definition from_entries :: "(jsstr \<times> jsval) list \<Rightarrow> (jsstr \<times> jsval) list" where
  "from_entries es =
     js_sort (by_key (\<lambda>e. decimal_value (fst e))) (filter (\<lambda>e. array_index (fst e)) es)
     @ filter (\<lambda>e. \<not> array_index (fst e)) es"

lemma mset_from_entries: "mset (from_entries es) = mset es"
proof -
  have "mset es = mset (filter (\<lambda>e. array_index (fst e)) es)
      + mset (filter (\<lambda>e. \<not> array_index (fst e)) es)"
    by (rule mset_filter_split)
  then show ?thesis by (simp only: from_entries_def mset_append mset_js_sort)
qed

lemma set_from_entries [simp]: "set (from_entries es) = set es"
  by (metis mset_from_entries set_mset_mset)

section \<open>Integers\<close>

text \<open>
  The integer a number's text denotes. Message times and token counts are integers; on the text of any
  other number, which is outside the model, \<open>int_value\<close> is \<open>None\<close>.
\<close>

definition int_value :: "jsstr \<Rightarrow> int option" where
  "int_value n =
     (case n of
        [] \<Rightarrow> None
      | u # r \<Rightarrow>
          if u = 45 then (if r \<noteq> [] \<and> list_all digit_unit r then Some (- int (decimal_value r)) else None)
          else if list_all digit_unit n then Some (int (decimal_value n)) else None)"

section \<open>JSON.stringify\<close>

definition hex_digit :: "nat \<Rightarrow> 16 word" where
  "hex_digit d = (if d < 10 then of_nat (48 + d) else of_nat (87 + d))"

definition unicode_escape :: "16 word \<Rightarrow> jsstr" where
  "unicode_escape u = js [CHR 0x5C, CHR ''u''] @
     [hex_digit (unat u div 0x1000), hex_digit (unat u div 0x100 mod 0x10),
      hex_digit (unat u div 0x10 mod 0x10), hex_digit (unat u mod 0x10)]"

definition quote_unit :: "16 word \<Rightarrow> jsstr" where
  "quote_unit u =
     (if u = 0x22 then [0x5C, 0x22] else if u = 0x5C then [0x5C, 0x5C]
      else if u = 8 then [0x5C, 0x62] else if u = 9 then [0x5C, 0x74]
      else if u = 10 then [0x5C, 0x6E] else if u = 12 then [0x5C, 0x66]
      else if u = 13 then [0x5C, 0x72] else if u < 0x20 then unicode_escape u else [u])"

text \<open>Well-formed \<open>JSON.stringify\<close>: unpaired surrogates are escaped.\<close>

fun quote_units :: "jsstr \<Rightarrow> jsstr" where
  "quote_units [] = []"
| "quote_units [u] = (if is_high u \<or> is_low u then unicode_escape u else quote_unit u)"
| "quote_units (u # v # s) =
     (if is_high u \<and> is_low v then u # v # quote_units s
      else (if is_high u \<or> is_low u then unicode_escape u else quote_unit u) @ quote_units (v # s))"

definition json_string :: "jsstr \<Rightarrow> jsstr" where
  "json_string s = 0x22 # quote_units s @ [0x22]"

text \<open>
  The text of a value, \<open>None\<close> for \<open>undefined\<close>: functions and undefined vanish from objects and
  become \<open>null\<close> in arrays, as do non-finite numbers.
\<close>

fun stringify :: "jsval \<Rightarrow> jsstr option" where
  "stringify Undefined = None"
| "stringify Callable = None"
| "stringify Null = Some (js ''null'')"
| "stringify (Boolean b) = Some (if b then js ''true'' else js ''false'')"
| "stringify (Num n) = Some (if finite_num n then n else js ''null'')"
| "stringify (Str s) = Some (json_string s)"
| "stringify (Arr vs) =
     Some (js ''['' @ join (js '','') (map (\<lambda>v. case stringify v of None \<Rightarrow> js ''null'' | Some t \<Rightarrow> t) vs)
       @ js '']'')"
| "stringify (Obj ps) =
     Some (js ''{'' @ join (js '','') (concat (map (\<lambda>(k, v). case stringify v of None \<Rightarrow> []
        | Some t \<Rightarrow> [json_string k @ js '':'' @ t]) ps)) @ js ''}'')"

text \<open>A template literal's \<open>${JSON.stringify(v)}\<close>.\<close>

definition json_text :: "jsval \<Rightarrow> jsstr" where
  "json_text v = (case stringify v of None \<Rightarrow> js ''undefined'' | Some t \<Rightarrow> t)"

text \<open>Building object literals in the model.\<close>

definition str :: "string \<Rightarrow> jsval" where
  "str s = Str (js s)"

definition field :: "string \<Rightarrow> jsval \<Rightarrow> jsstr \<times> jsval" where
  "field k v = (js k, v)"

text \<open>\<open>{ ...state, [k]: v }\<close>: an own key keeps its place, a new one is appended.\<close>

definition set_prop :: "(jsstr \<times> jsval) list \<Rightarrow> jsstr \<Rightarrow> jsval \<Rightarrow> (jsstr \<times> jsval) list" where
  "set_prop ps k v =
     (if k \<in> fst ` set ps then map (\<lambda>(k', v'). (k', if k' = k then v else v')) ps
      else ps @ [(k, v)])"

end
