(* ===== verification/ToolSource.thy ===== *)
theory ToolSource
  imports Json "HOL-Library.Extended_Nat"
begin

text \<open>
  \<open>packages/shared/src/tool-source.ts\<close>: how tool activity is rendered into extraction source
  text (sanitised frames under a character budget) and how its model-visible size is measured.
  Sizes are \<open>enat\<close>: the code's \<open>Number.POSITIVE_INFINITY\<close> is \<open>\<infinity>\<close>.
\<close>

section \<open>Constants\<close>

definition MEDIA_TOKEN_RESERVE :: nat where
  "MEDIA_TOKEN_RESERVE = 8000"

definition MEDIA_BYTES_PER_TOKEN :: nat where
  "MEDIA_BYTES_PER_TOKEN = 2"

definition TOOL_SOURCE_CHAR_LIMIT :: nat where
  "TOOL_SOURCE_CHAR_LIMIT = 20000"

definition TOOL_SOURCE_TRUNCATION :: jsstr where
  "TOOL_SOURCE_TRUNCATION = 10 # js ''[Tool activity truncated]''"

definition TOOL_STATE_OMITTED :: jsval where
  "TOOL_STATE_OMITTED = str ''[Tool state omitted: exceeds fallback budget]''"

definition MAX_COMPLETE_TOOL_SOURCE_CHARS :: nat where
  "MAX_COMPLETE_TOOL_SOURCE_CHARS = TOOL_SOURCE_CHAR_LIMIT - length TOOL_SOURCE_TRUNCATION"

definition SANITIZED_TOOL_OBJECT_KEY :: jsstr where
  "SANITIZED_TOOL_OBJECT_KEY = js ''[Sanitized tool object]''"

definition data_url_omitted :: jsstr where
  "data_url_omitted = js ''[data URL omitted]''"

lemma length_TOOL_SOURCE_TRUNCATION: "length TOOL_SOURCE_TRUNCATION = 26"
  by (simp add: TOOL_SOURCE_TRUNCATION_def js_def)

lemma complete_plus_truncation:
  "MAX_COMPLETE_TOOL_SOURCE_CHARS + length TOOL_SOURCE_TRUNCATION = TOOL_SOURCE_CHAR_LIMIT"
  by (simp add: MAX_COMPLETE_TOOL_SOURCE_CHARS_def length_TOOL_SOURCE_TRUNCATION
      TOOL_SOURCE_CHAR_LIMIT_def)

section \<open>Data URLs\<close>

text \<open>
  \<open>/(?:^|[^a-z0-9+.-])data:/iu\<close>. Under the \<open>i\<close> and \<open>u\<close> flags the class also folds upper-case
  letters, U+017F and U+212A into \<open>a-z\<close>; the letters of \<open>data\<close> have ASCII foldings only.
\<close>

definition scheme_unit :: "16 word \<Rightarrow> bool" where
  "scheme_unit u \<longleftrightarrow> (97 \<le> u \<and> u \<le> 122) \<or> (65 \<le> u \<and> u \<le> 90) \<or> (48 \<le> u \<and> u \<le> 57)
     \<or> u = 43 \<or> u = 46 \<or> u = 45 \<or> u = 0x17F \<or> u = 0x212A"

definition fold_ascii :: "16 word \<Rightarrow> 16 word" where
  "fold_ascii u = (if 65 \<le> u \<and> u \<le> 90 then u + 32 else u)"

definition data_prefix :: "jsstr \<Rightarrow> bool" where
  "data_prefix s \<longleftrightarrow> map fold_ascii (take 5 s) = js ''data:''"

fun data_url_after :: "jsstr \<Rightarrow> bool" where
  "data_url_after [] = False"
| "data_url_after (u # s) = ((\<not> scheme_unit u \<and> data_prefix s) \<or> data_url_after s)"

definition containsDataUrl :: "jsstr \<Rightarrow> bool" where
  "containsDataUrl s \<longleftrightarrow> data_prefix s \<or> data_url_after s"

section \<open>Visible state and sanitising\<close>

definition time_compacted :: "(jsstr \<times> jsval) list \<Rightarrow> bool" where
  "time_compacted state =
     (let time = property state (js ''time'') in
      is_object time \<and> is_num (get_prop time (js ''compacted'')))"

fun modelVisibleToolStateValue :: "jsval \<Rightarrow> jsval" where
  "modelVisibleToolStateValue (Obj state) =
     (if time_compacted state
      then Obj (set_prop state (js ''output'') (str ''[Old tool result content cleared]''))
      else Obj state)"
| "modelVisibleToolStateValue v = v"

text \<open>The comparator \<open>left < right ? -1 : left > right ? 1 : 0\<close> on keys.\<close>

definition compare_keys :: "jsstr \<times> jsval \<Rightarrow> jsstr \<times> jsval \<Rightarrow> int" where
  "compare_keys l r = (if fst l < fst r then -1 else if fst l > fst r then 1 else 0)"

definition redacted_key :: "nat \<Rightarrow> jsstr \<Rightarrow> jsstr" where
  "redacted_key i k =
     (if containsDataUrl k then js ''[data URL key omitted '' @ decimal i @ js '']'' else k)"

text \<open>
  Rebuilding an object from its sorted entries and their sanitised values: when a key hides a
  data URL the entries become a list of pairs under one reserved key.
\<close>

definition sanitized_object :: "(jsstr \<times> jsval) list \<Rightarrow> jsval" where
  "sanitized_object entries =
     (if \<exists>e\<in>set entries. containsDataUrl (fst e)
      then Obj [(SANITIZED_TOOL_OBJECT_KEY,
             Arr (map (\<lambda>(i, k, v). Arr [Str (redacted_key i k), v])
               (zip [0..<length entries] entries)))]
      else Obj (from_entries entries))"

fun sanitizeModelValue :: "jsval \<Rightarrow> nat \<Rightarrow> jsval" where
  "sanitizeModelValue (Str s) depth =
     (if depth > 8 then str ''[nested value omitted]''
      else if containsDataUrl s then Str data_url_omitted else Str s)"
| "sanitizeModelValue (Arr vs) depth =
     (if depth > 8 then str ''[nested value omitted]''
      else Arr (map (\<lambda>v. sanitizeModelValue v (depth + 1)) vs))"
| "sanitizeModelValue Callable depth =
     (if depth > 8 then str ''[nested value omitted]'' else str ''[non-JSON value omitted]'')"
| "sanitizeModelValue (Obj ps) depth =
     (if depth > 8 then str ''[nested value omitted]''
      else sanitized_object
        (js_sort compare_keys (map (\<lambda>(k, v). (k, sanitizeModelValue v (depth + 1))) ps)))"
| "sanitizeModelValue v depth = (if depth > 8 then str ''[nested value omitted]'' else v)"

definition modelVisibleToolState :: "jsval \<Rightarrow> jsval" where
  "modelVisibleToolState v = sanitizeModelValue (modelVisibleToolStateValue v) 0"

text \<open>No string and no property name inside a value hides a data URL.\<close>

fun data_url_free :: "jsval \<Rightarrow> bool" where
  "data_url_free (Str s) = (\<not> containsDataUrl s)"
| "data_url_free (Arr vs) = (\<forall>v\<in>set vs. data_url_free v)"
| "data_url_free (Obj ps) = (\<forall>p\<in>set ps. \<not> containsDataUrl (fst p) \<and> data_url_free (snd p))"
| "data_url_free _ = True"

lemma fold_ascii_colon: "fold_ascii u = 58 \<longleftrightarrow> u = 58"
proof
  assume eq: "fold_ascii u = 58"
  show "u = 58"
  proof (rule ccontr)
    assume "u \<noteq> 58"
    with eq have "65 \<le> u" "u + 32 = 58" by (auto simp: fold_ascii_def split: if_splits)
    from this(2) have "u = 58 - 32" by (simp only: eq_diff_eq)
    with \<open>65 \<le> u\<close> show False by simp
  qed
qed (simp add: fold_ascii_def)

lemma data_prefix_colon: "data_prefix s \<Longrightarrow> 58 \<in> set s"
proof -
  assume "data_prefix s"
  then have eq: "map fold_ascii (take 5 s) = js ''data:''" by (simp add: data_prefix_def)
  have len: "length (take 5 s) = 5" using arg_cong [OF eq, of length] by (simp add: js_eval)
  have "map fold_ascii (take 5 s) ! 4 = js ''data:'' ! 4" by (simp only: eq)
  with len have "take 5 s ! 4 = 58" by (simp add: fold_ascii_colon js_eval)
  moreover have "take 5 s ! 4 \<in> set (take 5 s)" using len by (intro nth_mem) simp
  ultimately show ?thesis by (metis in_set_takeD)
qed

lemma data_url_after_colon: "data_url_after s \<Longrightarrow> 58 \<in> set s"
  by (induction s) (auto dest: data_prefix_colon)

lemma containsDataUrl_colon: "containsDataUrl s \<Longrightarrow> 58 \<in> set s"
  by (auto simp: containsDataUrl_def dest: data_prefix_colon data_url_after_colon)

lemma no_colon_no_data_url: "58 \<notin> set s \<Longrightarrow> \<not> containsDataUrl s"
  using containsDataUrl_colon by blast

lemma decimal_no_colon: "58 \<notin> set (decimal n)"
  using decimal_digits [of 58 n] by auto

lemma placeholders_safe [simp]:
  "\<not> containsDataUrl (js ''[nested value omitted]'')"
  "\<not> containsDataUrl (js ''[non-JSON value omitted]'')"
  "\<not> containsDataUrl data_url_omitted"
  "\<not> containsDataUrl SANITIZED_TOOL_OBJECT_KEY"
  by (rule no_colon_no_data_url, simp add: data_url_omitted_def SANITIZED_TOOL_OBJECT_KEY_def js_eval)+

lemma redacted_key_safe [simp]: "\<not> containsDataUrl (redacted_key i k)"
proof (cases "containsDataUrl k")
  case True
  have "58 \<notin> set (js ''[data URL key omitted '' @ decimal i @ js '']'')"
    by (simp add: decimal_no_colon js_eval)
  with True show ?thesis by (simp add: redacted_key_def no_colon_no_data_url)
next
  case False
  then show ?thesis by (simp add: redacted_key_def)
qed

lemma sanitized_object_safe:
  assumes "\<And>p. p \<in> set es \<Longrightarrow> data_url_free (snd p)"
  shows "data_url_free (sanitized_object es)"
proof (cases "\<exists>e\<in>set es. containsDataUrl (fst e)")
  case True
  have "data_url_free v" if "(i, k, v) \<in> set (zip [0..<length es] es)" for i k v
    using assms [of "(k, v)"] set_zip_rightD [OF that] by simp
  with True show ?thesis by (auto simp: sanitized_object_def)
next
  case False
  with assms show ?thesis by (auto simp: sanitized_object_def)
qed

text \<open>
  C11. Sanitising removes every data URL: no string and no property name of the value a tool
  frame renders hides one, at any depth.
\<close>

theorem sanitizeModelValue_data_url_free: "data_url_free (sanitizeModelValue v depth)"
proof (induction v depth rule: sanitizeModelValue.induct)
  case (4 ps depth)
  show ?case
  proof (cases "depth > 8")
    case True
    then show ?thesis by (simp add: str_def)
  next
    case False
    with 4 show ?thesis by (auto simp: split_def intro!: sanitized_object_safe)
  qed
qed (auto simp: str_def)

section \<open>Rendering\<close>

definition toolSourceFrame :: "jsval \<Rightarrow> jsval \<Rightarrow> jsstr" where
  "toolSourceFrame tool visibleState =
     (let state = (case stringify visibleState of None \<Rightarrow> js ''null'' | Some t \<Rightarrow> t);
          rawName = (case tool of Str s \<Rightarrow> s | _ \<Rightarrow> js ''unknown'');
          sanitizedName = (if containsDataUrl rawName then data_url_omitted else rawName);
          name = json_string (take 500 sanitizedName)
      in 10 # js ''[Tool '' @ name @ js '']'' @ [10] @ state @ [10] @ js ''[/Tool]'' @ [10])"

definition toolSourceText :: "jsval \<Rightarrow> jsval \<Rightarrow> jsstr" where
  "toolSourceText tool state = toolSourceFrame tool (modelVisibleToolState state)"

definition truncatedToolSourceText :: "jsval \<Rightarrow> nat \<Rightarrow> jsstr" where
  "truncatedToolSourceText tool remaining =
     (let omitted = toolSourceFrame tool TOOL_STATE_OMITTED
      in (if length omitted \<le> remaining then omitted else []) @ TOOL_SOURCE_TRUNCATION)"

lemma length_truncatedToolSourceText:
  "length (truncatedToolSourceText tool remaining) \<le> remaining + length TOOL_SOURCE_TRUNCATION"
  by (simp add: truncatedToolSourceText_def Let_def)

section \<open>Finding frames in source text\<close>

definition frame_opening :: jsstr where
  "frame_opening = 10 # js ''[Tool ''"

definition frame_closing :: jsstr where
  "frame_closing = 10 # js ''[/Tool]'' @ [10]"

lemma frame_lengths: "length frame_opening = 7" "length frame_closing = 9"
  by (simp_all add: frame_opening_def frame_closing_def js_eval)

definition frame_end :: "jsstr \<Rightarrow> nat \<Rightarrow> nat" where
  "frame_end src start =
     (case index_of_from frame_closing src (start + length frame_opening) of
        None \<Rightarrow> length src | Some c \<Rightarrow> c + length frame_closing)"

lemma index_of_from_ge: "index_of_from p s i = Some k \<Longrightarrow> i \<le> k"
  by (auto simp: index_of_from_def)

lemma frame_end_gt:
  assumes "index_of_from frame_opening src cursor = Some start" "cursor < length src"
  shows "cursor \<le> start \<and> start + 7 \<le> frame_end src start \<and> frame_end src start \<le> length src"
proof -
  have b: "cursor \<le> start" "start + 7 \<le> length src"
    using index_of_from_bound [OF assms(1)] assms(2) by (auto simp: frame_lengths)
  show ?thesis
  proof (cases "index_of_from frame_closing src (start + length frame_opening)")
    case None
    with b show ?thesis by (simp add: frame_end_def)
  next
    case (Some c)
    with b show ?thesis
      using index_of_from_bound [OF Some] by (simp add: frame_end_def frame_lengths)
  qed
qed

function frame_ranges_from :: "jsstr \<Rightarrow> nat \<Rightarrow> (nat \<times> nat) list" where
  "frame_ranges_from src cursor =
     (if cursor < length src
      then (case index_of_from frame_opening src cursor of
              None \<Rightarrow> []
            | Some start \<Rightarrow> (start, frame_end src start)
                # frame_ranges_from src (frame_end src start))
      else [])"
  by pat_completeness auto
termination
  by (relation "measure (\<lambda>(src, cursor). length src - cursor)")
    (auto dest: frame_end_gt)

declare frame_ranges_from.simps [simp del]

definition toolFallbackFrameRanges :: "jsstr \<Rightarrow> (nat \<times> nat) list" where
  "toolFallbackFrameRanges src = frame_ranges_from src 0"

lemma frame_ranges_from_bounds:
  "sorted_wrt (\<lambda>a b. snd a \<le> fst b) (frame_ranges_from src cursor)
   \<and> (\<forall>r\<in>set (frame_ranges_from src cursor).
        cursor \<le> fst r \<and> fst r + 7 \<le> snd r \<and> snd r \<le> length src)"
proof (induction src cursor rule: frame_ranges_from.induct)
  case (1 src cursor)
  show ?case
  proof (cases "cursor < length src")
    case False
    then have "frame_ranges_from src cursor = []" by (subst frame_ranges_from.simps) simp
    then show ?thesis by simp
  next
    case True
    show ?thesis
    proof (cases "index_of_from frame_opening src cursor")
      case None
      with True have "frame_ranges_from src cursor = []"
        by (subst frame_ranges_from.simps) simp
      then show ?thesis by simp
    next
      case (Some start)
      note b = frame_end_gt [OF Some True]
      have eq: "frame_ranges_from src cursor =
          (start, frame_end src start) # frame_ranges_from src (frame_end src start)"
        using True Some by (subst frame_ranges_from.simps) simp
      have tl: "\<forall>r\<in>set (frame_ranges_from src (frame_end src start)).
          frame_end src start \<le> fst r \<and> fst r + 7 \<le> snd r \<and> snd r \<le> length src"
        and "sorted_wrt (\<lambda>a b. snd a \<le> fst b) (frame_ranges_from src (frame_end src start))"
        using "1.IH" [OF True Some] by blast+
      with b show ?thesis unfolding eq by auto
    qed
  qed
qed

text \<open>
  The frames found in a source text are listed in order, do not overlap, and lie inside the
  text; the scan always terminates.
\<close>

theorem toolFallbackFrameRanges_partition:
  "sorted_wrt (\<lambda>a b. snd a \<le> fst b) (toolFallbackFrameRanges src)
   \<and> (\<forall>r\<in>set (toolFallbackFrameRanges src). fst r < snd r \<and> snd r \<le> length src)"
  using frame_ranges_from_bounds [of src 0] by (auto simp: toolFallbackFrameRanges_def)

section \<open>Sizes\<close>

text \<open>The replacer of \<open>modelVisibleToolStateSize\<close>: unsent root keys, then data URL strings.\<close>

fun hide_data_strings :: "jsval \<Rightarrow> jsval" where
  "hide_data_strings (Str s) = (if starts_with (js ''data:'') s then Str data_url_omitted else Str s)"
| "hide_data_strings (Arr vs) = Arr (map hide_data_strings vs)"
| "hide_data_strings (Obj ps) = Obj (map (\<lambda>(k, v). (k, hide_data_strings v)) ps)"
| "hide_data_strings v = v"

definition unsent_tool_state_key :: "jsstr \<Rightarrow> bool" where
  "unsent_tool_state_key k \<longleftrightarrow> k = js ''attachments'' \<or> k = js ''metadata''"

fun sent_root :: "jsval \<Rightarrow> jsval" where
  "sent_root (Obj ps) = Obj (filter (\<lambda>p. \<not> unsent_tool_state_key (fst p)) ps)"
| "sent_root v = v"

definition sent_tool_state :: "jsval \<Rightarrow> jsstr" where
  "sent_tool_state v =
     (case stringify (hide_data_strings (sent_root (modelVisibleToolStateValue v))) of
        None \<Rightarrow> js ''null'' | Some t \<Rightarrow> t)"

definition tool_state_chars :: "jsval \<Rightarrow> nat" where
  "tool_state_chars v = length (sent_tool_state v)"

definition tool_state_utf8Bytes :: "jsval \<Rightarrow> nat" where
  "tool_state_utf8Bytes v = byteLength (sent_tool_state v)"

definition ceil_div :: "nat \<Rightarrow> nat \<Rightarrow> nat" where
  "ceil_div n d = (n + d - 1) div d"

definition dataUrlBytes :: "jsstr \<Rightarrow> nat option" where
  "dataUrlBytes url =
     (if \<not> starts_with (js ''data:'') url then None
      else case index_of (js '','') url of
          None \<Rightarrow> None
        | Some separator \<Rightarrow>
            let payload = drop (separator + 1) url
            in Some (if ends_with (js '';base64'') (take separator url)
                     then ceil_div (length payload * 3) 4 else byteLength payload))"

definition data_tokens :: "nat \<Rightarrow> nat" where
  "data_tokens bytes = max MEDIA_TOKEN_RESERVE (ceil_div bytes MEDIA_BYTES_PER_TOKEN)"

definition string_of :: "jsval \<Rightarrow> jsstr" where
  "string_of v = (case v of Str s \<Rightarrow> s | _ \<Rightarrow> [])"

definition modelVisibleMediaTokens :: "jsval \<Rightarrow> enat" where
  "modelVisibleMediaTokens v =
     (if \<not> is_object v then \<infinity>
      else if starts_with (js ''image/'') (string_of (get_prop v (js ''mime'')))
        then enat MEDIA_TOKEN_RESERVE
      else case get_prop v (js ''url'') of
          Str url \<Rightarrow> (case dataUrlBytes url of None \<Rightarrow> \<infinity> | Some bytes \<Rightarrow> enat (data_tokens bytes))
        | _ \<Rightarrow> \<infinity>)"

definition has_live_attachments :: "(jsstr \<times> jsval) list \<Rightarrow> bool" where
  "has_live_attachments state \<longleftrightarrow>
     property state (js ''status'') = str ''completed'' \<and> \<not> time_compacted state"

definition attachment_tokens :: "jsval \<Rightarrow> enat" where
  "attachment_tokens a =
     (if \<not> is_object a then 0
      else let mime = string_of (get_prop a (js ''mime''));
               url = string_of (get_prop a (js ''url''));
               validDataUrl = starts_with (js ''data:'') url \<and> index_of (js '','') url \<noteq> None;
               hostMedia = starts_with (js ''image/'') mime \<or> mime = js ''application/pdf''
           in if validDataUrl \<or> (hostMedia \<and> url \<noteq> []) then modelVisibleMediaTokens a else 0)"

definition modelVisibleToolAttachmentTokens :: "jsval \<Rightarrow> enat" where
  "modelVisibleToolAttachmentTokens v =
     (case v of
        Obj state \<Rightarrow>
          (if has_live_attachments state
           then (case property state (js ''attachments'') of
                   Arr as \<Rightarrow> foldl (\<lambda>total a. total + attachment_tokens a) 0 as
                 | _ \<Rightarrow> 0)
           else 0)
      | _ \<Rightarrow> 0)"

definition mediaUrlBytes :: "jsval \<Rightarrow> nat" where
  "mediaUrlBytes v =
     (case get_prop v (js ''url'') of
        Str url \<Rightarrow> (if starts_with (js ''data:'') url then length url else byteLength url)
      | _ \<Rightarrow> 0)"

definition modelVisibleToolAttachmentBytes :: "jsval \<Rightarrow> nat" where
  "modelVisibleToolAttachmentBytes v =
     (case v of
        Obj state \<Rightarrow>
          (if has_live_attachments state
           then (case property state (js ''attachments'') of
                   Arr as \<Rightarrow> foldl (\<lambda>total a. total + mediaUrlBytes a) 0 as
                 | _ \<Rightarrow> 0)
           else 0)
      | _ \<Rightarrow> 0)"

section \<open>Inline data URLs\<close>

text \<open>
  \<open>inlineDataUrlTokens\<close> walks a value with an explicit stack of \<open>{ value, root }\<close> items. The
  model's stack has its isroot at the head, so the children pushed in order appear reversed.
\<close>

fun stack_children :: "jsval \<Rightarrow> bool \<Rightarrow> (jsval \<times> bool) list" where
  "stack_children (Arr vs) isroot = map (\<lambda>v. (v, False)) vs"
| "stack_children (Obj ps) isroot =
     map (\<lambda>p. (snd p, False)) (filter (\<lambda>p. \<not> (isroot \<and> fst p = js ''attachments'')) ps)"
| "stack_children v isroot = []"

definition stack_size :: "(jsval \<times> bool) list \<Rightarrow> nat" where
  "stack_size pending = sum_list (map (\<lambda>(v, r). Suc (size v)) pending)"

lemma stack_size_simps [simp]:
  "stack_size [] = 0" "stack_size ((v, r) # rest) = Suc (size v) + stack_size rest"
  "stack_size (xs @ ys) = stack_size xs + stack_size ys" "stack_size (rev xs) = stack_size xs"
  by (simp_all add: stack_size_def rev_map [symmetric])

lemma stack_size_children: "stack_size (stack_children v isroot) \<le> size v"
proof (cases v)
  case (Arr vs)
  have "stack_size (map (\<lambda>v. (v, r)) vs) \<le> size_list size vs" for r
    by (induction vs) auto
  with Arr show ?thesis by (simp add: le_SucI)
next
  case (Obj ps)
  have "stack_size (map (\<lambda>p. (snd p, False)) (filter P ps))
      \<le> size_list (size_prod (\<lambda>_. 0) size) ps" for P
    by (induction ps) (auto simp: size_prod_simp)
  with Obj show ?thesis by (simp add: le_SucI)
qed simp_all

function inline_walk :: "(jsval \<times> bool) list \<Rightarrow> enat \<Rightarrow> enat" where
  "inline_walk [] tokens = tokens"
| "inline_walk ((v, isroot) # rest) tokens =
     (case v of
        Str s \<Rightarrow>
          (if \<not> starts_with (js ''data:'') s then inline_walk rest tokens
           else case dataUrlBytes s of
               None \<Rightarrow> \<infinity>
             | Some bytes \<Rightarrow> inline_walk rest (tokens + enat (data_tokens bytes)))
      | _ \<Rightarrow>
          (if is_object v then inline_walk (rev (stack_children v isroot) @ rest) tokens
           else inline_walk rest tokens))"
  by pat_completeness auto
termination
proof (relation "measure (\<lambda>(pending, tokens). stack_size pending)", goal_cases)
  case 1
  show ?case by simp
qed (use stack_size_children [of "Arr vs" r for vs r] stack_size_children [of "Obj ps" r for ps r]
    in \<open>auto simp: less_Suc_eq_le intro: le_SucI\<close>)

definition inlineDataUrlTokens :: "jsval \<Rightarrow> enat" where
  "inlineDataUrlTokens v = inline_walk [(v, True)] 0"

definition modelVisibleToolInlineDataTokens :: "jsval \<Rightarrow> enat" where
  "modelVisibleToolInlineDataTokens v = inlineDataUrlTokens (modelVisibleToolStateValue v)"

end
