(* ===== verification/Messages.thy ===== *)
theory Messages
  imports ToolSource
begin

text \<open>
  OpenCode messages as \<open>packages/shared/src/segmentation.ts\<close> sees them: which messages and parts
  are model-visible, the text a segment submits for them, and the two size measures (segment
  weight and request wire size).
\<close>

section \<open>Data\<close>

datatype msg_role = User | Assistant

datatype part_kind = PText | PReasoning | PTool | PFile | PCompaction | PStepStart | POther jsstr

text \<open>Optional fields are \<open>None\<close> when absent; \<open>tool\<close>, \<open>state\<close> and \<open>metadata\<close> are untyped.\<close>

record msg_part =
  p_type :: part_kind
  p_text :: "jsstr option"
  p_tool :: jsval
  p_state :: jsval
  p_synthetic :: "bool option"
  p_ignored :: "bool option"
  p_filename :: "jsstr option"
  p_mime :: "jsstr option"
  p_url :: "jsstr option"
  p_metadata :: jsval

record message =
  m_id :: jsstr
  m_role :: msg_role
  m_parentID :: "jsstr option"
  m_error :: jsval
  m_time :: jsval
  m_parts :: "msg_part list"

record reflection_message =
  r_role :: msg_role
  r_text :: jsstr

definition PROJECTION_LOSS_WARNING :: jsstr where
  "PROJECTION_LOSS_WARNING = js ''Reflection compacted older context with omissions. Some archived details are unavailable in this prompt; use memory_search and memory_read_segment when exact history matters.''"

section \<open>Visibility\<close>

definition hasExactWarningMetadata :: "jsval \<Rightarrow> bool" where
  "hasExactWarningMetadata v =
     (case record_of v of
        None \<Rightarrow> False
      | Some metadata \<Rightarrow>
          length metadata = 1 \<and> js ''reflection'' \<in> fst ` set metadata
          \<and> (case record_of (property metadata (js ''reflection'')) of
               None \<Rightarrow> False
             | Some marker \<Rightarrow>
                 length marker = 2
                 \<and> property marker (js ''type'') = str ''projection-loss-warning''
                 \<and> property marker (js ''version'') = Num (js ''1'')))"

definition isProjectionLossWarningMessage :: "message \<Rightarrow> bool" where
  "isProjectionLossWarningMessage m =
     (m_role m = User
      \<and> (case m_parts m of
           [part] \<Rightarrow> p_type part = PText \<and> p_text part = Some PROJECTION_LOSS_WARNING
             \<and> p_synthetic part = Some False \<and> p_ignored part = Some False
             \<and> hasExactWarningMetadata (p_metadata part)
         | _ \<Rightarrow> False))"

definition isNormalUserMessage :: "message \<Rightarrow> bool" where
  "isNormalUserMessage m =
     (m_role m = User \<and> \<not> isProjectionLossWarningMessage m
      \<and> \<not> (\<exists>part\<in>set (m_parts m). p_type part = PCompaction))"

definition isModelVisibleMessage :: "message \<Rightarrow> bool" where
  "isModelVisibleMessage m =
     (m_role m = User \<or> \<not> truthy (m_error m)
      \<or> (get_prop (m_error m) (js ''name'') = str ''MessageAbortedError''
         \<and> (\<exists>part\<in>set (m_parts m). p_type part \<noteq> PStepStart \<and> p_type part \<noteq> PReasoning)))"

definition isModelVisiblePart :: "message \<Rightarrow> msg_part \<Rightarrow> bool" where
  "isModelVisiblePart m part =
     (isModelVisibleMessage m
      \<and> (m_role m = Assistant \<or> p_ignored part \<noteq> Some True)
      \<and> \<not> (m_role m = User \<and> p_type part = PFile
           \<and> (p_mime part = Some (js ''text/plain'')
              \<or> p_mime part = Some (js ''application/x-directory''))))"

definition isCompletedAssistantMessage :: "message \<Rightarrow> bool" where
  "isCompletedAssistantMessage m =
     (m_role m = Assistant
      \<and> (case record_of (m_time m) of
           None \<Rightarrow> False | Some time \<Rightarrow> is_finite (property time (js ''completed''))))"

section \<open>Source text\<close>

definition attachment_text :: "msg_part \<Rightarrow> jsstr" where
  "attachment_text part =
     js ''[Attachment''
     @ (case p_filename part of None \<Rightarrow> [] | Some f \<Rightarrow> if f = [] then [] else 32 # take 500 f)
     @ (case p_mime part of None \<Rightarrow> [] | Some m \<Rightarrow> if m = [] then []
          else js '' ('' @ take 200 m @ js '')'')
     @ js '']''"

definition textOf :: "message \<Rightarrow> jsstr" where
  "textOf m =
     (if isProjectionLossWarningMessage m \<or> \<not> isModelVisibleMessage m then []
      else concat (map (\<lambda>part.
             if \<not> isModelVisiblePart m part then []
             else case p_type part of
                 PText \<Rightarrow> (case p_text part of None \<Rightarrow> [] | Some t \<Rightarrow> t)
               | PFile \<Rightarrow> attachment_text part
               | _ \<Rightarrow> []) (m_parts m)))"

text \<open>\<open>ToolSourceBudget\<close> is shared, and updated, across the messages of one segment.\<close>

record tool_budget =
  remainingChars :: nat
  truncated :: bool

definition reflect_tool :: "msg_part \<Rightarrow> tool_budget \<Rightarrow> jsstr \<times> tool_budget" where
  "reflect_tool part budget =
     (if truncated budget then ([], budget)
      else let rendered = toolSourceText (p_tool part) (p_state part) in
        if length rendered \<le> remainingChars budget
        then (rendered, budget\<lparr>remainingChars := remainingChars budget - length rendered\<rparr>)
        else (truncatedToolSourceText (p_tool part) (remainingChars budget),
              budget\<lparr>truncated := True, remainingChars := 0\<rparr>))"

definition reflect_part :: "message \<Rightarrow> msg_part \<Rightarrow> tool_budget \<Rightarrow> jsstr \<times> tool_budget" where
  "reflect_part m part budget =
     (if \<not> isModelVisiblePart m part then ([], budget)
      else case p_type part of
          PFile \<Rightarrow> (attachment_text part, budget)
        | PTool \<Rightarrow> reflect_tool part budget
        | _ \<Rightarrow> ([], budget))"

fun reflect_parts :: "message \<Rightarrow> msg_part list \<Rightarrow> tool_budget \<Rightarrow> jsstr \<times> tool_budget" where
  "reflect_parts m [] budget = ([], budget)"
| "reflect_parts m (part # parts) budget =
     (let (t, b) = reflect_part m part budget; (ts, b') = reflect_parts m parts b in (t @ ts, b'))"

definition reflectionTextOf :: "message \<Rightarrow> tool_budget \<Rightarrow> jsstr \<times> tool_budget" where
  "reflectionTextOf m budget =
     (if isProjectionLossWarningMessage m \<or> \<not> isModelVisibleMessage m then ([], budget)
      else reflect_parts m (m_parts m) budget)"

fun reflect_messages :: "message list \<Rightarrow> tool_budget \<Rightarrow> reflection_message list" where
  "reflect_messages [] budget = []"
| "reflect_messages (m # ms) budget =
     (let (t, b) = reflectionTextOf m budget
      in \<lparr>r_role = m_role m, r_text = t\<rparr> # reflect_messages ms b)"

definition visible_text :: "reflection_message \<Rightarrow> bool" where
  "visible_text r \<longleftrightarrow> trim (r_text r) \<noteq> []"

definition initial_budget :: tool_budget where
  "initial_budget = \<lparr>remainingChars = MAX_COMPLETE_TOOL_SOURCE_CHARS, truncated = False\<rparr>"

text \<open>
  \<open>reflectionMessagesWithMetadata\<close> on messages already in source order: the submitted messages
  and whether the tool fallback supplied their text.
\<close>

definition reflectionMessagesWithMetadata ::
  "message list \<Rightarrow> reflection_message list \<times> bool" where
  "reflectionMessagesWithMetadata ms =
     (let textMessages = map (\<lambda>m. \<lparr>r_role = m_role m, r_text = textOf m\<rparr>) ms in
      if \<exists>r\<in>set textMessages. visible_text r then (textMessages, False)
      else let fallback = reflect_messages ms initial_budget
           in (fallback, \<exists>r\<in>set fallback. visible_text r))"

section \<open>Budget of the tool fallback\<close>

text \<open>Attachment labels are rendered in full; they are counted apart from tool activity.\<close>

definition attachment_chars :: "message \<Rightarrow> nat" where
  "attachment_chars m =
     sum_list (map (\<lambda>part. if p_type part = PFile then length (attachment_text part) else 0) (m_parts m))"

definition spare_chars :: "tool_budget \<Rightarrow> nat" where
  "spare_chars b = (if truncated b then 0 else remainingChars b + length TOOL_SOURCE_TRUNCATION)"

lemma reflect_tool_budget:
  "reflect_tool part b = (t, b') \<Longrightarrow> length t + spare_chars b' \<le> spare_chars b"
  using length_truncatedToolSourceText [of "p_tool part" "remainingChars b"]
  by (auto simp: reflect_tool_def spare_chars_def Let_def split: if_splits)

lemma reflect_part_budget:
  assumes "reflect_part m part b = (t, b')"
  shows "length t + spare_chars b'
    \<le> spare_chars b + (if p_type part = PFile then length (attachment_text part) else 0)"
  using assms reflect_tool_budget [of part b t b']
  by (auto simp: reflect_part_def split: if_splits part_kind.splits)

lemma reflect_parts_budget:
  "reflect_parts m parts b = (t, b') \<Longrightarrow>
   length t + spare_chars b' \<le> spare_chars b +
     sum_list (map (\<lambda>part. if p_type part = PFile then length (attachment_text part) else 0) parts)"
proof (induction parts arbitrary: b t)
  case Nil
  then show ?case by simp
next
  case (Cons part parts)
  obtain t1 b1 where 1: "reflect_part m part b = (t1, b1)" by fastforce
  obtain t2 b2 where 2: "reflect_parts m parts b1 = (t2, b2)" by fastforce
  from Cons.prems 1 2 have "t = t1 @ t2" "b' = b2" by auto
  with Cons.IH [of b1 t2] 2 reflect_part_budget [OF 1] show ?case by simp
qed

lemma reflectionTextOf_budget:
  assumes "reflectionTextOf m b = (t, b')"
  shows "length t + spare_chars b' \<le> spare_chars b + attachment_chars m"
  using assms reflect_parts_budget [of m "m_parts m" b t b']
  by (auto simp: reflectionTextOf_def attachment_chars_def split: if_splits)

lemma reflect_messages_budget:
  "sum_list (map (\<lambda>r. length (r_text r)) (reflect_messages ms b))
     \<le> spare_chars b + sum_list (map attachment_chars ms)"
proof (induction ms arbitrary: b)
  case Nil
  then show ?case by simp
next
  case (Cons m ms)
  obtain t b' where t: "reflectionTextOf m b = (t, b')" by fastforce
  from reflectionTextOf_budget [OF t] Cons.IH [of b'] show ?case by (simp add: t)
qed

lemma reflect_messages_roles: "map r_role (reflect_messages ms b) = map m_role ms"
  by (induction ms arbitrary: b) (auto simp: Let_def split: prod.splits)

text \<open>
  C10. The tool fallback is bounded: when a segment has no visible text, everything it submits
  besides attachment labels fits in \<open>TOOL_SOURCE_CHAR_LIMIT\<close> code units, however many tool calls
  the messages hold.
\<close>

theorem tool_fallback_bounded:
  assumes "reflectionMessagesWithMetadata ms = (rs, True)"
  shows "sum_list (map (\<lambda>r. length (r_text r)) rs)
    \<le> TOOL_SOURCE_CHAR_LIMIT + sum_list (map attachment_chars ms)"
proof -
  from assms have "rs = reflect_messages ms initial_budget"
    by (auto simp: reflectionMessagesWithMetadata_def Let_def split: if_splits)
  then show ?thesis
    using reflect_messages_budget [of ms initial_budget] complete_plus_truncation
    by (simp add: spare_chars_def initial_budget_def)
qed

definition sample_tool_message :: message where
  "sample_tool_message = \<lparr>m_id = [97], m_role = Assistant, m_parentID = None, m_error = Undefined,
     m_time = Undefined, m_parts = [\<lparr>p_type = PTool, p_text = None, p_tool = Str [120], p_state = Null,
       p_synthetic = None, p_ignored = None, p_filename = None, p_mime = None, p_url = None,
       p_metadata = Undefined\<rparr>]\<rparr>"

lemma sample_tool_text: "toolSourceText (Str [120]) Null =
  [10, 91, 84, 111, 111, 108, 32, 34, 120, 34, 93, 10, 110, 117, 108, 108, 10, 91, 47, 84, 111, 111, 108, 93, 10]"
  by code_simp

lemma sample_tool_visible: "trim [10, 91, 84, 111, 111, 108, 32, 34, 120, 34, 93, 10, 110, 117, 108, 108, 10, 91, 47, 84, 111, 111, 108, 93, 10] \<noteq> []"
  by code_simp

lemma trim_empty: "trim [] = []"
  by code_simp

theorem tool_fallback_bounded_witness:
  "reflectionMessagesWithMetadata [sample_tool_message] =
     ([\<lparr>r_role = Assistant, r_text = toolSourceText (Str [120]) Null\<rparr>], True)
   \<and> length (toolSourceText (Str [120]) Null) \<le> TOOL_SOURCE_CHAR_LIMIT + attachment_chars sample_tool_message"
proof -
  have "reflectionMessagesWithMetadata [sample_tool_message] =
     ([\<lparr>r_role = Assistant, r_text = toolSourceText (Str [120]) Null\<rparr>], True)"
    by (simp add: reflectionMessagesWithMetadata_def sample_tool_message_def textOf_def reflectionTextOf_def
        isProjectionLossWarningMessage_def isModelVisibleMessage_def isModelVisiblePart_def reflect_part_def
        reflect_tool_def initial_budget_def visible_text_def sample_tool_text sample_tool_visible trim_empty
        MAX_COMPLETE_TOOL_SOURCE_CHARS_def TOOL_SOURCE_CHAR_LIMIT_def length_TOOL_SOURCE_TRUNCATION Let_def)
  with tool_fallback_bounded [OF this] show ?thesis by simp
qed

section \<open>Segment weight\<close>

definition ESTIMATED_CHARS_PER_TOKEN :: nat where
  "ESTIMATED_CHARS_PER_TOKEN = 4"

text \<open>A part as the untyped object \<open>modelVisibleMediaTokens\<close> and \<open>mediaUrlBytes\<close> read.\<close>

definition optional_str :: "jsstr option \<Rightarrow> jsval" where
  "optional_str v = (case v of None \<Rightarrow> Undefined | Some s \<Rightarrow> Str s)"

definition part_media :: "msg_part \<Rightarrow> jsval" where
  "part_media part =
     Obj [field ''mime'' (optional_str (p_mime part)), field ''url'' (optional_str (p_url part))]"

definition tool_weight :: "msg_part \<Rightarrow> enat" where
  "tool_weight part =
     enat (max (length (string_of (p_tool part)) + tool_state_chars (p_state part))
               (length (toolSourceText (p_tool part) (p_state part))))
     + modelVisibleToolAttachmentTokens (p_state part) * enat ESTIMATED_CHARS_PER_TOKEN
     + modelVisibleToolInlineDataTokens (p_state part) * enat ESTIMATED_CHARS_PER_TOKEN"

definition part_weight :: "message \<Rightarrow> msg_part \<Rightarrow> enat" where
  "part_weight m part =
     (if \<not> isModelVisiblePart m part then 0
      else case p_type part of
          PText \<Rightarrow> enat (case p_text part of None \<Rightarrow> 0 | Some t \<Rightarrow> length t)
        | PReasoning \<Rightarrow> enat (case p_text part of None \<Rightarrow> 0 | Some t \<Rightarrow> length t)
        | PTool \<Rightarrow> tool_weight part
        | PFile \<Rightarrow> modelVisibleMediaTokens (part_media part) * enat ESTIMATED_CHARS_PER_TOKEN
        | _ \<Rightarrow> 0)"

definition modelVisibleCharWeightOf :: "message \<Rightarrow> enat" where
  "modelVisibleCharWeightOf m =
     (if \<not> isModelVisibleMessage m then 0
      else foldl (\<lambda>w part. w + part_weight m part) 0 (m_parts m))"

section \<open>Wire size\<close>

record wire_size =
  wire_tokens :: enat
  wire_bytes :: enat

definition EMPTY_WIRE_SIZE :: wire_size where
  "EMPTY_WIRE_SIZE = \<lparr>wire_tokens = 0, wire_bytes = 0\<rparr>"

definition addWireSize :: "wire_size \<Rightarrow> wire_size \<Rightarrow> wire_size" where
  "addWireSize l r =
     \<lparr>wire_tokens = wire_tokens l + wire_tokens r, wire_bytes = wire_bytes l + wire_bytes r\<rparr>"

definition serializedWireBytes :: "jsval \<Rightarrow> nat" where
  "serializedWireBytes v = (case stringify v of None \<Rightarrow> 0 | Some t \<Rightarrow> byteLength t)"

definition toolPartWire :: "msg_part \<Rightarrow> jsval \<times> wire_size" where
  "toolPartWire part =
     (Obj [field ''type'' (str ''tool''), field ''tool'' (Str (string_of (p_tool part)))],
      \<lparr>wire_tokens = enat (ceil_div (tool_state_utf8Bytes (p_state part)) ESTIMATED_CHARS_PER_TOKEN)
           + modelVisibleToolAttachmentTokens (p_state part)
           + modelVisibleToolInlineDataTokens (p_state part),
       wire_bytes = enat (tool_state_utf8Bytes (p_state part)
           + modelVisibleToolAttachmentBytes (p_state part))\<rparr>)"

text \<open>One step of the loop over parts: what is sent, and the media measured so far.\<close>

definition wire_part ::
  "message \<Rightarrow> msg_part \<Rightarrow> jsval list \<times> wire_size \<Rightarrow> jsval list \<times> wire_size" where
  "wire_part m part acc =
     (let (sent, media) = acc in
      if \<not> isModelVisiblePart m part then (sent, media)
      else case p_type part of
          PText \<Rightarrow> (sent @ [Obj [field ''type'' (str ''text''),
             field ''text'' (Str (case p_text part of None \<Rightarrow> [] | Some t \<Rightarrow> t))]], media)
        | PReasoning \<Rightarrow> (sent @ [Obj [field ''type'' (str ''reasoning''),
             field ''text'' (Str (case p_text part of None \<Rightarrow> [] | Some t \<Rightarrow> t))]], media)
        | PTool \<Rightarrow> (let (s, w) = toolPartWire part in (sent @ [s], addWireSize media w))
        | PFile \<Rightarrow> (sent @ [Obj [field ''type'' (str ''file''),
             field ''filename'' (optional_str (map_option (take 500) (p_filename part))),
             field ''mime'' (optional_str (map_option (take 200) (p_mime part)))]],
             addWireSize media \<lparr>wire_tokens = modelVisibleMediaTokens (part_media part),
               wire_bytes = enat (mediaUrlBytes (part_media part))\<rparr>)
        | _ \<Rightarrow> (sent, media))"

definition role_text :: "msg_role \<Rightarrow> jsval" where
  "role_text r = (case r of User \<Rightarrow> str ''user'' | Assistant \<Rightarrow> str ''assistant'')"

definition modelWireSizeOfMessage :: "message \<Rightarrow> wire_size" where
  "modelWireSizeOfMessage m =
     (if \<not> isModelVisibleMessage m then EMPTY_WIRE_SIZE
      else let (sent, media) = foldl (\<lambda>acc part. wire_part m part acc) ([], EMPTY_WIRE_SIZE) (m_parts m)
        in if sent = [] then EMPTY_WIRE_SIZE
           else let serialized = serializedWireBytes
                      (Obj [field ''role'' (role_text (m_role m)), field ''parts'' (Arr sent)])
                in addWireSize media
                     \<lparr>wire_tokens = enat (ceil_div serialized ESTIMATED_CHARS_PER_TOKEN),
                      wire_bytes = enat serialized\<rparr>)"

definition modelWireSize :: "message list \<Rightarrow> wire_size" where
  "modelWireSize ms = foldl (\<lambda>acc m. addWireSize acc (modelWireSizeOfMessage m)) EMPTY_WIRE_SIZE ms"

end
