(* ===== verification/History.thy ===== *)
theory History
  imports Messages
begin

text \<open>
  \<open>canonicalHistory\<close> of \<open>packages/shared/src/segmentation.ts\<close>: the turns of a transcript and the
  source messages assigned to them, with the invariants the segmentation rests on.
\<close>

section \<open>Data\<close>

record indexed_message =
  ix_index :: nat
  ix_sourceIndex :: nat
  ix_turnIndex :: nat
  ix_message :: message

record complete_turn =
  t_index :: nat
  t_userMessageId :: jsstr
  t_charCount :: enat
  t_closed :: bool
  t_messages :: "indexed_message list"

record canonical_history =
  h_turns :: "complete_turn list"
  h_messages :: "indexed_message list"

abbreviation source_id :: "indexed_message \<Rightarrow> jsstr" where
  "source_id x \<equiv> m_id (ix_message x)"

section \<open>Canonical history\<close>

definition normal_user_ids :: "message list \<Rightarrow> jsstr list" where
  "normal_user_ids ms = map m_id (filter isNormalUserMessage ms)"

text \<open>\<open>users.get(id)\<close>: the turn of the last normal user message with this ID.\<close>

definition turn_of_user :: "jsstr list \<Rightarrow> jsstr \<Rightarrow> nat option" where
  "turn_of_user users uid = last_index (\<lambda>u. u = uid) users"

definition turn_of :: "jsstr list \<Rightarrow> message \<Rightarrow> nat option" where
  "turn_of users m =
     (if isNormalUserMessage m then turn_of_user users (m_id m)
      else case m_parentID m of
          None \<Rightarrow> None
        | Some p \<Rightarrow> if m_role m = Assistant \<and> p \<noteq> [] \<and> isModelVisibleMessage m
                    then turn_of_user users p else None)"

definition empty_turns :: "jsstr list \<Rightarrow> complete_turn list" where
  "empty_turns users = map (\<lambda>(i, u). \<lparr>t_index = i, t_userMessageId = u, t_charCount = 0,
     t_closed = False, t_messages = []\<rparr>) (zip [0..<length users] users)"

definition add_to_turn :: "indexed_message \<Rightarrow> complete_turn \<Rightarrow> complete_turn" where
  "add_to_turn x t = t\<lparr>t_messages := t_messages t @ [x],
     t_charCount := t_charCount t + modelVisibleCharWeightOf (ix_message x)\<rparr>"

definition add_source ::
  "jsstr list \<Rightarrow> complete_turn list \<times> indexed_message list \<Rightarrow> nat \<times> message
     \<Rightarrow> complete_turn list \<times> indexed_message list" where
  "add_source users st im =
     (let (turns, sources) = st; (i, m) = im in
      case turn_of users m of
        None \<Rightarrow> (turns, sources)
      | Some t \<Rightarrow>
          let x = \<lparr>ix_index = i, ix_sourceIndex = length sources, ix_turnIndex = t, ix_message = m\<rparr>
          in (turns[t := add_to_turn x (turns ! t)], sources @ [x]))"

definition close_turns :: "complete_turn list \<Rightarrow> complete_turn list" where
  "close_turns turns = map (\<lambda>(i, t). t\<lparr>t_closed := Suc i < length turns\<rparr>)
     (zip [0..<length turns] turns)"

definition canonicalHistory :: "message list \<Rightarrow> canonical_history" where
  "canonicalHistory ms =
     (let users = normal_user_ids ms;
          (turns, sources) = foldl (add_source users) (empty_turns users, [])
             (zip [0..<length ms] ms)
      in \<lparr>h_turns = close_turns turns, h_messages = sources\<rparr>)"

section \<open>What a history is\<close>

text \<open>
  The contract of \<open>canonicalHistory\<close>: the source messages are exactly the messages that belong to
  a turn, numbered in transcript order; a turn's messages are the source messages of its index, in
  that order, and its weight is the sum of theirs; only the last turn is open.
\<close>

abbreviation weight_of :: "indexed_message \<Rightarrow> enat" where
  "weight_of x \<equiv> modelVisibleCharWeightOf (ix_message x)"

definition turn_messages :: "indexed_message list \<Rightarrow> nat \<Rightarrow> indexed_message list" where
  "turn_messages sources i = filter (\<lambda>x. ix_turnIndex x = i) sources"

definition sources_ok :: "jsstr list \<Rightarrow> (nat \<times> message) list \<Rightarrow> indexed_message list \<Rightarrow> bool" where
  "sources_ok users ims sources \<longleftrightarrow>
     map (\<lambda>x. (ix_index x, ix_message x)) sources = filter (\<lambda>(i, m). turn_of users m \<noteq> None) ims
     \<and> map ix_sourceIndex sources = [0..<length sources]
     \<and> (\<forall>x\<in>set sources. turn_of users (ix_message x) = Some (ix_turnIndex x))"

definition turn_at :: "jsstr list \<Rightarrow> indexed_message list \<Rightarrow> nat \<Rightarrow> complete_turn" where
  "turn_at users sources i =
     \<lparr>t_index = i, t_userMessageId = users ! i,
      t_charCount = sum_list (map weight_of (turn_messages sources i)), t_closed = False,
      t_messages = turn_messages sources i\<rparr>"

definition history_of :: "message list \<Rightarrow> canonical_history \<Rightarrow> bool" where
  "history_of ms h \<longleftrightarrow>
     sources_ok (normal_user_ids ms) (zip [0..<length ms] ms) (h_messages h)
     \<and> length (h_turns h) = length (normal_user_ids ms)
     \<and> (\<forall>i<length (h_turns h). h_turns h ! i =
          (turn_at (normal_user_ids ms) (h_messages h) i)\<lparr>t_closed := Suc i < length (h_turns h)\<rparr>)"

lemma turn_of_user_less: "turn_of_user users u = Some t \<Longrightarrow> t < length users"
  unfolding turn_of_user_def by (drule last_index_SomeD) simp

lemma turn_of_less: "turn_of users m = Some t \<Longrightarrow> t < length users"
  by (auto simp: turn_of_def split: if_splits option.splits dest: turn_of_user_less)

lemma turn_messages_append [simp]:
  "turn_messages (xs @ ys) i = turn_messages xs i @ turn_messages ys i"
  by (simp add: turn_messages_def)

lemma turn_messages_single [simp]:
  "turn_messages [x] i = (if ix_turnIndex x = i then [x] else [])"
  by (simp add: turn_messages_def)

lemma add_source_ok:
  assumes "sources_ok users ims sources" and "turns = map (turn_at users sources) [0..<length users]"
    and "add_source users (turns, sources) im = (turns', sources')"
  shows "sources_ok users (ims @ [im]) sources' \<and>
    turns' = map (turn_at users sources') [0..<length users]"
proof (cases "turn_of users (snd im)")
  case None
  then have "sources' = sources" "turns' = turns"
    using assms(3) by (cases im; simp add: add_source_def)+
  with None assms show ?thesis by (cases im) (auto simp: sources_ok_def)
next
  case (Some t)
  let ?x = "\<lparr>ix_index = fst im, ix_sourceIndex = length sources, ix_turnIndex = t, ix_message = snd im\<rparr>"
  from Some have t: "t < length users" by (rule turn_of_less)
  from assms(3) Some have s: "sources' = sources @ [?x]"
    and u: "turns' = turns[t := add_to_turn ?x (turns ! t)]"
    by (cases im; simp add: add_source_def Let_def)+
  have "sources_ok users (ims @ [im]) sources'"
    using assms(1) Some by (cases im) (auto simp: s sources_ok_def)
  moreover have "turns' = map (turn_at users sources') [0..<length users]"
  proof (rule nth_equalityI)
    show "length turns' = length (map (turn_at users sources') [0..<length users])"
      using u assms(2) by simp
    fix i assume "i < length turns'"
    then have i: "i < length users" using u assms(2) by simp
    show "turns' ! i = map (turn_at users sources') [0..<length users] ! i"
    proof (cases "i = t")
      case True
      with t assms(2) show ?thesis by (simp add: u s add_to_turn_def turn_at_def)
    next
      case False
      with i t assms(2) show ?thesis by (simp add: u s turn_at_def)
    qed
  qed
  ultimately show ?thesis ..
qed

lemma empty_turns_at: "empty_turns users = map (turn_at users []) [0..<length users]"
  by (auto simp: empty_turns_def turn_at_def turn_messages_def intro!: nth_equalityI)

lemma add_sources_ok:
  "foldl (add_source users) (empty_turns users, []) ims = (turns, sources) \<Longrightarrow>
   sources_ok users ims sources \<and> turns = map (turn_at users sources) [0..<length users]"
proof (induction ims arbitrary: turns sources rule: rev_induct)
  case Nil
  then show ?case by (auto simp: sources_ok_def empty_turns_at)
next
  case (snoc im ims)
  obtain turns0 sources0 where f: "foldl (add_source users) (empty_turns users, []) ims = (turns0, sources0)"
    by fastforce
  from snoc.IH [OF f] snoc.prems f show ?case
    using add_source_ok [of users ims sources0 turns0 im turns sources] by simp
qed

lemma canonicalHistory_history_of: "history_of ms (canonicalHistory ms)"
proof -
  obtain turns sources where f: "foldl (add_source (normal_user_ids ms))
      (empty_turns (normal_user_ids ms), []) (zip [0..<length ms] ms) = (turns, sources)" by fastforce
  then have h: "canonicalHistory ms = \<lparr>h_turns = close_turns turns, h_messages = sources\<rparr>"
    by (simp add: canonicalHistory_def)
  from add_sources_ok [OF f] show ?thesis
    by (auto simp: h history_of_def close_turns_def)
qed

lemma sources_unique:
  assumes "sources_ok users ims xs" "sources_ok users ims ys"
  shows "xs = ys"
proof (rule nth_equalityI)
  from assms have rows: "map (\<lambda>x. (ix_index x, ix_message x)) xs = map (\<lambda>x. (ix_index x, ix_message x)) ys"
    by (simp add: sources_ok_def)
  from map_eq_imp_length_eq [OF this] show len: "length xs = length ys" .
  fix k assume k: "k < length xs"
  have "map (\<lambda>x. (ix_index x, ix_message x)) xs ! k = map (\<lambda>x. (ix_index x, ix_message x)) ys ! k"
    "map ix_sourceIndex xs ! k = map ix_sourceIndex ys ! k"
    using rows assms len by (simp_all add: sources_ok_def)
  with k len have eq: "ix_index (xs ! k) = ix_index (ys ! k)" "ix_message (xs ! k) = ix_message (ys ! k)"
    "ix_sourceIndex (xs ! k) = ix_sourceIndex (ys ! k)" by simp_all
  from assms k len have "Some (ix_turnIndex (xs ! k)) = Some (ix_turnIndex (ys ! k))"
    unfolding sources_ok_def by (metis eq(2) nth_mem)
  with eq show "xs ! k = ys ! k" by (simp add: indexed_message.equality)
qed

text \<open>
  C22. \<open>canonicalHistory\<close>, which fills its turns message by message, computes the one history that the
  declarative contract describes: the source messages are the messages with a turn, in transcript
  order and numbered consecutively; each turn holds the source messages of its index and the sum of
  their weights; every turn but the last is closed.
\<close>

theorem canonicalHistory_unique: "history_of ms h \<longleftrightarrow> h = canonicalHistory ms"
proof
  assume h: "history_of ms h"
  note c = canonicalHistory_history_of [of ms]
  from sources_unique h c have msgs: "h_messages h = h_messages (canonicalHistory ms)" unfolding history_of_def by blast
  from h c have "length (h_turns h) = length (h_turns (canonicalHistory ms))" by (simp add: history_of_def)
  with h c msgs have "h_turns h = h_turns (canonicalHistory ms)"
    unfolding history_of_def by (intro nth_equalityI) simp_all
  with msgs show "h = canonicalHistory ms" by (simp add: canonical_history.equality)
qed (simp add: canonicalHistory_history_of)

section \<open>Consequences used by the segmentation\<close>

text \<open>\<open>member_message users m\<close>: the transcript message \<open>m\<close> belongs to a turn.\<close>

definition member_message :: "jsstr list \<Rightarrow> message \<Rightarrow> bool" where
  "member_message users m \<longleftrightarrow> turn_of users m \<noteq> None"

definition segmented_ids :: "message list \<Rightarrow> jsstr list" where
  "segmented_ids ms = map m_id (filter (member_message (normal_user_ids ms)) ms)"

lemma history_messages:
  assumes "history_of ms h"
  shows "map ix_message (h_messages h) = filter (member_message (normal_user_ids ms)) ms"
proof -
  let ?P = "member_message (normal_user_ids ms)"
  from assms have "map (\<lambda>x. (ix_index x, ix_message x)) (h_messages h) =
      filter (\<lambda>p. ?P (snd p)) (zip [0..<length ms] ms)"
    by (simp add: history_of_def sources_ok_def member_message_def case_prod_unfold)
  then have "map snd (map (\<lambda>x. (ix_index x, ix_message x)) (h_messages h)) =
      map snd (filter (?P \<circ> snd) (zip [0..<length ms] ms))" by (simp add: comp_def)
  also have "\<dots> = filter ?P ms" by (simp add: filter_map [symmetric])
  finally show ?thesis by (simp add: comp_def)
qed

lemma history_source_ids:
  "history_of ms h \<Longrightarrow> map source_id (h_messages h) = segmented_ids ms"
  unfolding segmented_ids_def history_messages [symmetric] by (simp add: comp_def)

lemma history_sourceIndex:
  "history_of ms h \<Longrightarrow> k < length (h_messages h) \<Longrightarrow> ix_sourceIndex (h_messages h ! k) = k"
  by (auto simp: history_of_def sources_ok_def dest!: arg_cong [of _ _ "\<lambda>xs. xs ! k"])

lemma history_sorted: "history_of ms h \<Longrightarrow> sorted (map ix_sourceIndex (h_messages h))"
  by (simp add: history_of_def sources_ok_def)

lemma history_distinct: "history_of ms h \<Longrightarrow> distinct (map ix_sourceIndex (h_messages h))"
  by (simp add: history_of_def sources_ok_def)

lemma history_turnIndex_less:
  "history_of ms h \<Longrightarrow> x \<in> set (h_messages h) \<Longrightarrow> ix_turnIndex x < length (h_turns h)"
  using turn_of_less by (fastforce simp: history_of_def sources_ok_def)

lemma history_turn:
  assumes "history_of ms h" "i < length (h_turns h)"
  shows "t_index (h_turns h ! i) = i" "t_userMessageId (h_turns h ! i) = normal_user_ids ms ! i"
    "t_messages (h_turns h ! i) = turn_messages (h_messages h) i"
    "t_charCount (h_turns h ! i) = sum_list (map weight_of (turn_messages (h_messages h) i))"
    "t_closed (h_turns h ! i) = (Suc i < length (h_turns h))"
  using assms by (simp_all add: history_of_def turn_at_def)

lemma turn_messages_sorted:
  "sorted (map k xs) \<Longrightarrow> sorted (map k (turn_messages xs i))"
  by (simp add: turn_messages_def sorted_filter)

lemma mset_turn_messages:
  assumes "\<And>x. x \<in> set xs \<Longrightarrow> ix_turnIndex x < n"
  shows "mset (concat (map (turn_messages xs) [0..<n])) = mset xs"
  unfolding turn_messages_def using assms
  by (subst mset_concat_map_filter [where f = ix_turnIndex]) auto

lemma history_turns_messages:
  assumes "history_of ms h"
  shows "map t_messages (h_turns h) = map (turn_messages (h_messages h)) [0..<length (h_turns h)]"
  by (rule nth_equalityI) (simp_all add: history_turn [OF assms])

lemma history_turns_partition:
  assumes "history_of ms h"
  shows "mset (concat (map t_messages (h_turns h))) = mset (h_messages h)"
  unfolding history_turns_messages [OF assms]
  by (rule mset_turn_messages) (rule history_turnIndex_less [OF assms])

section \<open>A sample transcript\<close>

text \<open>Two turns, the first with two completed assistant messages; the witnesses run on it.\<close>

definition text_part :: "jsstr \<Rightarrow> msg_part" where
  "text_part t = \<lparr>p_type = PText, p_text = Some t, p_tool = Undefined, p_state = Undefined,
     p_synthetic = None, p_ignored = None, p_filename = None, p_mime = None, p_url = None,
     p_metadata = Undefined\<rparr>"

definition sample_user :: "jsstr \<Rightarrow> jsstr \<Rightarrow> message" where
  "sample_user i t = \<lparr>m_id = i, m_role = User, m_parentID = None, m_error = Undefined,
     m_time = Undefined, m_parts = [text_part t, text_part []]\<rparr>"

definition sample_assistant :: "jsstr \<Rightarrow> jsstr \<Rightarrow> jsstr \<Rightarrow> message" where
  "sample_assistant i p t = \<lparr>m_id = i, m_role = Assistant, m_parentID = Some p, m_error = Undefined,
     m_time = Obj [(js ''completed'', Num (js ''1''))], m_parts = [text_part t, text_part []]\<rparr>"

definition sample_transcript :: "message list" where
  "sample_transcript = [sample_user [97] [1, 2, 3], sample_assistant [98] [97] [4, 5],
     sample_assistant [99] [97] [4, 5], sample_user [100] [1]]"

end
