(* ===== verification/Boundaries.thy ===== *)
theory Boundaries
  imports Intervals History
begin

text \<open>
  Committed boundaries of \<open>packages/shared/src/segmentation.ts\<close>: \<open>boundaryVersion\<close>, resolving a
  boundary against a history, and reconciling the committed boundaries of a session.
  \<open>localeCompare\<close>, whose order depends on the host's locale data, is the parameter \<open>lc\<close>.
\<close>

text \<open>\<open>IndexedV2Boundary\<close>: an exact span with its turn and its offsets within the turn.\<close>

record v2_interval = interval +
  v2_turnIndex :: nat
  v2_startOffset :: nat
  v2_endOffset :: nat

section \<open>Committed boundaries\<close>

definition boundaryVersion :: "committed_boundary \<Rightarrow> nat result" where
  "boundaryVersion b =
     (if cb_version b = None \<or> cb_version b = Some 1
      then if cb_startSource b \<noteq> None \<or> cb_endSource b \<noteq> None
           then Inl ''V1 source boundaries cannot contain source cursors'' else Inr 1
      else if cb_version b \<noteq> Some 2 then Inl ''Unsupported source boundary version''
      else if (case cb_startSource b of None \<Rightarrow> True | Some s \<Rightarrow> trim s = [])
           \<or> (case cb_endSource b of None \<Rightarrow> True | Some s \<Rightarrow> trim s = [])
        then Inl ''V2 source boundaries require both source cursors''
      else if cb_startUser b \<noteq> cb_endUser b
        then Inl ''V2 source boundaries must stay within one user turn''
      else Inr 2)"

definition boundary_id :: "committed_boundary \<Rightarrow> jsstr" where
  "boundary_id b = (case cb_id b of None \<Rightarrow> [] | Some i \<Rightarrow> i)"

text \<open>
  The comparator \<open>l.endIndex - r.endIndex || l.startIndex - r.startIndex ||
  l.id.localeCompare(r.id)\<close>.
\<close>

definition compare_intervals ::
  "(jsstr \<Rightarrow> jsstr \<Rightarrow> int) \<Rightarrow> 'a interval_scheme \<Rightarrow> 'a interval_scheme \<Rightarrow> int" where
  "compare_intervals lc l r =
     (if endIndex l \<noteq> endIndex r then int (endIndex l) - int (endIndex r)
      else if startIndex l \<noteq> startIndex r then int (startIndex l) - int (startIndex r)
      else lc (boundary_id (boundary l)) (boundary_id (boundary r)))"

definition turn_index_of :: "complete_turn list \<Rightarrow> jsstr \<Rightarrow> nat option" where
  "turn_index_of turns uid = last_index (\<lambda>t. t_userMessageId t = uid) turns"

definition v1_candidate :: "complete_turn list \<Rightarrow> committed_boundary \<Rightarrow> interval list result" where
  "v1_candidate turns b =
     rbind (boundaryVersion b) (\<lambda>v.
       if v \<noteq> 1 then Inr []
       else case (turn_index_of turns (cb_startUser b), turn_index_of turns (cb_endUser b)) of
           (Some i, Some j) \<Rightarrow>
             Inr (if i > j then []
               else [\<lparr>boundary = b, startIndex = i, endIndex = j,
                  key = cb_startUser b @ js '':'' @ cb_endUser b @ js '':'' @ boundary_id b\<rparr>])
         | _ \<Rightarrow> Inr [])"

definition reconcileV1Boundaries ::
  "(jsstr \<Rightarrow> jsstr \<Rightarrow> int) \<Rightarrow> complete_turn list \<Rightarrow> committed_boundary list \<Rightarrow> interval list result" where
  "reconcileV1Boundaries lc turns boundaries =
     rbind (rmap (v1_candidate turns) boundaries) (\<lambda>cs.
       Inr (selectBoundaryIntervals (js_sort (compare_intervals lc) (concat cs))))"

text \<open>
  \<open>uniqueSourceIndexes\<close>: \<open>None\<close> for an unknown ID, \<open>Some None\<close> for an ID several messages share.
\<close>

definition uniqueSourceIndex :: "indexed_message list \<Rightarrow> jsstr \<Rightarrow> nat option option" where
  "uniqueSourceIndex sources sid =
     (case filter (\<lambda>x. source_id x = sid) sources of
        [] \<Rightarrow> None | [x] \<Rightarrow> Some (Some (ix_sourceIndex x)) | _ \<Rightarrow> Some None)"

definition locate_span ::
  "canonical_history \<Rightarrow> committed_boundary \<Rightarrow> complete_turn \<Rightarrow> nat \<Rightarrow> nat \<Rightarrow> v2_interval result" where
  "locate_span h b turn i j =
     (if i > j then Inl ''V2 source boundaries are out of order''
      else let exactSpan = js_slice i (Suc j) (h_messages h) in
        if exactSpan = [] \<or> (\<exists>x\<in>set exactSpan. ix_turnIndex x \<noteq> t_index turn)
        then Inl ''V2 source boundary leaves its user turn''
        else case (find_index (\<lambda>x. ix_sourceIndex x = i) (t_messages turn),
                   find_index (\<lambda>x. ix_sourceIndex x = j) (t_messages turn)) of
            (Some so, Some eo) \<Rightarrow>
              (if so > eo then Inl ''V2 source boundary does not match its user turn''
               else Inr \<lparr>boundary = b, startIndex = i, endIndex = j, key = [],
                 v2_turnIndex = t_index turn, v2_startOffset = so, v2_endOffset = eo\<rparr>)
          | _ \<Rightarrow> Inl ''V2 source boundary does not match its user turn'')"

definition resolve_v2 :: "canonical_history \<Rightarrow> committed_boundary \<Rightarrow> v2_interval list result" where
  "resolve_v2 h b =
     rbind (boundaryVersion b) (\<lambda>v.
       if v \<noteq> 2 then Inr []
       else case (turn_index_of (h_turns h) (cb_startUser b),
                  uniqueSourceIndex (h_messages h) (the (cb_startSource b)),
                  uniqueSourceIndex (h_messages h) (the (cb_endSource b))) of
           (Some t, Some si, Some ei) \<Rightarrow>
             (case (si, ei) of
                (Some i, Some j) \<Rightarrow>
                  rbind (locate_span h b (h_turns h ! t) i j) (\<lambda>iv. Inr [iv])
              | _ \<Rightarrow> Inl ''V2 source boundary is ambiguous'')
         | _ \<Rightarrow> Inr [])"

definition resolveV2Boundaries ::
  "canonical_history \<Rightarrow> committed_boundary list \<Rightarrow> v2_interval list result" where
  "resolveV2Boundaries h boundaries =
     rbind (rmap (resolve_v2 h) boundaries) (\<lambda>ivs. Inr (concat ivs))"

definition v2_key :: "committed_boundary \<Rightarrow> jsstr" where
  "v2_key b = cb_startUser b @ js '':'' @ cb_endUser b @ js '':'' @ the (cb_startSource b)
     @ js '':'' @ the (cb_endSource b) @ js '':'' @ boundary_id b"

definition reconcileV2Boundaries ::
  "(jsstr \<Rightarrow> jsstr \<Rightarrow> int) \<Rightarrow> v2_interval list \<Rightarrow> (nat \<Rightarrow> bool) \<Rightarrow> v2_interval list" where
  "reconcileV2Boundaries lc ivs frozen =
     selectBoundaryIntervals (js_sort (compare_intervals lc)
       (map (\<lambda>iv. iv\<lparr>key := v2_key (boundary iv)\<rparr>) (filter (\<lambda>iv. \<not> frozen (v2_turnIndex iv)) ivs)))"

section \<open>What a resolved boundary is\<close>

text \<open>
  \<open>v1_span\<close>: a candidate covers the turns from its start user to its end user. \<open>v2_span\<close>: a resolved
  exact span lies inside one turn, and its offsets name the same messages there.
\<close>

definition v1_span :: "complete_turn list \<Rightarrow> interval \<Rightarrow> bool" where
  "v1_span turns c \<longleftrightarrow> startIndex c \<le> endIndex c \<and> endIndex c < length turns
     \<and> t_userMessageId (turns ! startIndex c) = cb_startUser (boundary c)
     \<and> t_userMessageId (turns ! endIndex c) = cb_endUser (boundary c)"

definition v2_span :: "canonical_history \<Rightarrow> v2_interval \<Rightarrow> bool" where
  "v2_span h iv \<longleftrightarrow> startIndex iv \<le> endIndex iv \<and> endIndex iv < length (h_messages h)
     \<and> (\<forall>x\<in>set (js_slice (startIndex iv) (Suc (endIndex iv)) (h_messages h)).
          ix_turnIndex x = v2_turnIndex iv)
     \<and> v2_turnIndex iv < length (h_turns h)
     \<and> v2_startOffset iv \<le> v2_endOffset iv
     \<and> v2_endOffset iv < length (t_messages (h_turns h ! v2_turnIndex iv))
     \<and> ix_sourceIndex (t_messages (h_turns h ! v2_turnIndex iv) ! v2_startOffset iv) = startIndex iv
     \<and> ix_sourceIndex (t_messages (h_turns h ! v2_turnIndex iv) ! v2_endOffset iv) = endIndex iv"

lemma turn_index_of_SomeD:
  "turn_index_of turns u = Some i \<Longrightarrow> i < length turns \<and> t_userMessageId (turns ! i) = u"
  unfolding turn_index_of_def by (drule last_index_SomeD)

lemma v1_candidate_span:
  assumes "v1_candidate turns b = Inr cs" "c \<in> set cs"
  shows "v1_span turns c \<and> boundary c = b \<and> boundaryVersion b = Inr 1"
  using assms
  by (auto simp: v1_candidate_def v1_span_def dest!: turn_index_of_SomeD
      split: if_splits option.splits)

lemma rmap_concat_memD:
  assumes "rmap f xs = Inr yss" "y \<in> set (concat yss)"
  obtains x ys where "x \<in> set xs" "f x = Inr ys" "y \<in> set ys"
proof -
  from assms(2) obtain ys where ys: "ys \<in> set yss" "y \<in> set ys" by auto
  then obtain k where "k < length yss" "yss ! k = ys" by (auto simp: in_set_conv_nth)
  then show thesis
    using that [of "xs ! k" ys] assms(1) ys rmap_length [OF assms(1)]
    by (auto simp: rmap_Inr_iff list_all2_conv_all_nth)
qed

lemma sorted_compare_intervals: "sorted (map endIndex (js_sort (compare_intervals lc) cs))"
  by (rule sorted_js_sort) (auto simp: compare_intervals_def split: if_splits)

lemma reconciled_v1:
  assumes "reconcileV1Boundaries lc turns bs = Inr selected"
  shows "\<forall>c\<in>set selected. v1_span turns c \<and> boundary c \<in> set bs \<and> boundaryVersion (boundary c) = Inr 1"
    and "sorted_wrt (\<lambda>a b. endIndex a < startIndex b) selected"
proof -
  from assms obtain cs where cs: "rmap (v1_candidate turns) bs = Inr cs"
    and sel: "selected = selectBoundaryIntervals (js_sort (compare_intervals lc) (concat cs))"
    by (auto simp: reconcileV1Boundaries_def)
  have span: "v1_span turns c \<and> boundary c \<in> set bs \<and> boundaryVersion (boundary c) = Inr 1"
    if "c \<in> set (concat cs)" for c
    using cs that v1_candidate_span by (metis rmap_concat_memD)
  then have le: "startIndex c \<le> endIndex c"
    if "c \<in> set (js_sort (compare_intervals lc) (concat cs))" for c
    using that unfolding set_js_sort by (simp add: v1_span_def)
  note sel' = boundary_selection.select_subset [OF sorted_compare_intervals le]
    boundary_selection.select_disjoint [OF sorted_compare_intervals le]
  show "\<forall>c\<in>set selected. v1_span turns c \<and> boundary c \<in> set bs \<and> boundaryVersion (boundary c) = Inr 1"
    using sel'(1) span unfolding sel set_js_sort by blast
  show "sorted_wrt (\<lambda>a b. endIndex a < startIndex b) selected" unfolding sel by (rule sel'(2))
qed

lemma uniqueSourceIndexD:
  assumes "uniqueSourceIndex sources sid = Some (Some i)"
  shows "\<exists>x\<in>set sources. source_id x = sid \<and> ix_sourceIndex x = i"
proof -
  from assms obtain x where "filter (\<lambda>x. source_id x = sid) sources = [x]" "ix_sourceIndex x = i"
    by (auto simp: uniqueSourceIndex_def split: list.splits)
  then have "x \<in> set (filter (\<lambda>x. source_id x = sid) sources)" by simp
  with \<open>ix_sourceIndex x = i\<close> show ?thesis by auto
qed

lemma history_index_less:
  assumes "history_of ms h" "x \<in> set (h_messages h)"
  shows "ix_sourceIndex x < length (h_messages h) \<and> h_messages h ! ix_sourceIndex x = x"
  using assms by (metis history_sourceIndex in_set_conv_nth)

lemma unique_index_less:
  assumes "history_of ms h" "uniqueSourceIndex (h_messages h) sid = Some (Some i)"
  shows "i < length (h_messages h)" "source_id (h_messages h ! i) = sid"
  using uniqueSourceIndexD [OF assms(2)] history_index_less [OF assms(1)] by auto

lemma locate_span_ok:
  assumes "history_of ms h" "t < length (h_turns h)" "j < length (h_messages h)"
    and "locate_span h b (h_turns h ! t) i j = Inr iv"
  shows "v2_span h iv \<and> boundary iv = b \<and> startIndex iv = i \<and> endIndex iv = j \<and> v2_turnIndex iv = t"
  using assms(4,3,2) history_turn(1) [OF assms(1,2)]
  by (auto simp: locate_span_def Let_def v2_span_def dest!: find_index_SomeD
      split: if_splits option.splits)

lemma resolve_v2_span:
  assumes "history_of ms h" "resolve_v2 h b = Inr ivs" "iv \<in> set ivs"
  shows "v2_span h iv \<and> boundary iv = b \<and> boundaryVersion b = Inr 2
    \<and> t_userMessageId (h_turns h ! v2_turnIndex iv) = cb_startUser b
    \<and> source_id (h_messages h ! startIndex iv) = the (cb_startSource b)
    \<and> source_id (h_messages h ! endIndex iv) = the (cb_endSource b)"
proof -
  from assms(2,3) obtain t i j where v: "boundaryVersion b = Inr 2"
    and t: "turn_index_of (h_turns h) (cb_startUser b) = Some t"
    and i: "uniqueSourceIndex (h_messages h) (the (cb_startSource b)) = Some (Some i)"
    and j: "uniqueSourceIndex (h_messages h) (the (cb_endSource b)) = Some (Some j)"
    and l: "locate_span h b (h_turns h ! t) i j = Inr iv"
    by (auto simp: resolve_v2_def split: if_splits option.splits)
  from turn_index_of_SomeD [OF t] have t': "t < length (h_turns h)"
    "t_userMessageId (h_turns h ! t) = cb_startUser b" by simp_all
  from locate_span_ok [OF assms(1) t'(1) unique_index_less(1) [OF assms(1) j] l]
  show ?thesis using v t' unique_index_less [OF assms(1) i] unique_index_less [OF assms(1) j] by simp
qed

lemma resolved_v2_spans:
  assumes "history_of ms h" "resolveV2Boundaries h bs = Inr ivs" "iv \<in> set ivs"
  shows "v2_span h iv \<and> boundary iv \<in> set bs"
proof -
  from assms(2) obtain yss where r: "rmap (resolve_v2 h) bs = Inr yss" and ivs: "ivs = concat yss"
    by (auto simp: resolveV2Boundaries_def)
  from r assms(3) obtain b ys where b: "b \<in> set bs" "resolve_v2 h b = Inr ys" "iv \<in> set ys"
    unfolding ivs by (rule rmap_concat_memD)
  from b(1) resolve_v2_span [OF assms(1) b(2,3)] show ?thesis by simp
qed

lemma v2_span_key [simp]: "v2_span h (iv\<lparr>key := k\<rparr>) = v2_span h iv"
  by (simp add: v2_span_def)

lemma reconciled_v2_from:
  assumes "\<And>iv. iv \<in> set ivs \<Longrightarrow> v2_span h iv" "b \<in> set (reconcileV2Boundaries lc ivs frozen)"
  shows "\<exists>iv\<in>set ivs. b = iv\<lparr>key := v2_key (boundary iv)\<rparr>"
proof -
  let ?cs = "map (\<lambda>iv. iv\<lparr>key := v2_key (boundary iv)\<rparr>) (filter (\<lambda>iv. \<not> frozen (v2_turnIndex iv)) ivs)"
  have le: "startIndex c \<le> endIndex c" if "c \<in> set (js_sort (compare_intervals lc) ?cs)" for c
    using that unfolding set_js_sort by (auto dest!: assms(1) simp: v2_span_def)
  from boundary_selection.select_subset [OF sorted_compare_intervals le] assms(2)
  have "b \<in> set ?cs" unfolding reconcileV2Boundaries_def set_js_sort by blast
  then show ?thesis unfolding set_map set_filter by blast
qed

lemma reconciled_v2:
  assumes "\<And>iv. iv \<in> set ivs \<Longrightarrow> v2_span h iv"
  shows "\<forall>iv\<in>set (reconcileV2Boundaries lc ivs frozen). v2_span h iv \<and> \<not> frozen (v2_turnIndex iv)"
    and "sorted_wrt (\<lambda>a b. endIndex a < startIndex b) (reconcileV2Boundaries lc ivs frozen)"
proof -
  let ?cs = "map (\<lambda>iv. iv\<lparr>key := v2_key (boundary iv)\<rparr>) (filter (\<lambda>iv. \<not> frozen (v2_turnIndex iv)) ivs)"
  have span: "v2_span h c \<and> \<not> frozen (v2_turnIndex c)" if c: "c \<in> set ?cs" for c
  proof -
    from c obtain iv where "iv \<in> set ivs" "\<not> frozen (v2_turnIndex iv)"
      "c = iv\<lparr>key := v2_key (boundary iv)\<rparr>"
      unfolding set_map set_filter by blast
    with assms [of iv] show ?thesis by simp
  qed
  have le: "startIndex c \<le> endIndex c" if c: "c \<in> set (js_sort (compare_intervals lc) ?cs)" for c
    using span [OF c [unfolded set_js_sort]] by (simp add: v2_span_def)
  note sel = boundary_selection.select_subset [OF sorted_compare_intervals le]
    boundary_selection.select_disjoint [OF sorted_compare_intervals le]
  show "\<forall>iv\<in>set (reconcileV2Boundaries lc ivs frozen). v2_span h iv \<and> \<not> frozen (v2_turnIndex iv)"
    using sel(1) span unfolding reconcileV2Boundaries_def set_js_sort by blast
  show "sorted_wrt (\<lambda>a b. endIndex a < startIndex b) (reconcileV2Boundaries lc ivs frozen)"
    unfolding reconcileV2Boundaries_def by (rule sel(2))
qed

end
