(* ===== verification/Segments.thy ===== *)
theory Segments
  imports History
begin

text \<open>
  Segments of \<open>packages/shared/src/segmentation.ts\<close>: making a v1 or a v2 segment from the
  messages it covers.
\<close>

section \<open>Making segments\<close>

record segment =
  sg_startUserMessageId :: jsstr
  sg_endUserMessageId :: jsstr
  sg_sourceBoundaryVersion :: nat
  sg_startSourceMessageId :: "jsstr option"
  sg_endSourceMessageId :: "jsstr option"
  sg_startMessageId :: jsstr
  sg_endMessageId :: jsstr
  sg_sourceMessageIds :: "jsstr list"
  sg_charCount :: enat
  sg_closed :: bool
  sg_messages :: "reflection_message list"
  sg_projectionVersion :: "nat option"

definition orderedSourceMessages :: "indexed_message list \<Rightarrow> indexed_message list" where
  "orderedSourceMessages xs = js_sort (by_key ix_sourceIndex) xs"

definition reflected :: "indexed_message list \<Rightarrow> reflection_message list \<times> bool" where
  "reflected xs = reflectionMessagesWithMetadata (map ix_message (orderedSourceMessages xs))"

definition sourceEndpoints :: "indexed_message list \<Rightarrow> indexed_message list result" where
  "sourceEndpoints xs =
     (let ordered = orderedSourceMessages xs
      in if ordered = [] then Inl ''Cannot create an empty segment'' else Inr ordered)"

definition upgraded_projection :: "nat option \<Rightarrow> bool \<Rightarrow> nat option" where
  "upgraded_projection projectionVersion usedToolFallback =
     (if (case projectionVersion of None \<Rightarrow> 1 | Some v \<Rightarrow> v) \<ge> 2 \<or> usedToolFallback
      then Some 2 else None)"

definition makeV1Segment ::
  "complete_turn list \<Rightarrow> bool \<Rightarrow> nat option \<Rightarrow> segment result" where
  "makeV1Segment turns isClosed projectionVersion =
     (if turns = [] then Inl ''Cannot create an empty segment''
      else rbind (sourceEndpoints (concat (map t_messages turns))) (\<lambda>ordered.
        let (msgs, fallback) = reflected ordered in
        Inr \<lparr>sg_startUserMessageId = t_userMessageId (hd turns),
             sg_endUserMessageId = t_userMessageId (last turns),
             sg_sourceBoundaryVersion = 1,
             sg_startSourceMessageId = None, sg_endSourceMessageId = None,
             sg_startMessageId = source_id (hd ordered), sg_endMessageId = source_id (last ordered),
             sg_sourceMessageIds = map source_id ordered,
             sg_charCount = foldl (\<lambda>n t. n + t_charCount t) 0 turns,
             sg_closed = isClosed, sg_messages = msgs,
             sg_projectionVersion = upgraded_projection projectionVersion fallback\<rparr>))"

definition makeV2Segment ::
  "complete_turn \<Rightarrow> indexed_message list \<Rightarrow> bool \<Rightarrow> nat option \<Rightarrow> segment result" where
  "makeV2Segment turn sourceMessages isClosed projectionVersion =
     rbind (sourceEndpoints sourceMessages) (\<lambda>ordered.
        let (msgs, fallback) = reflected ordered in
        Inr \<lparr>sg_startUserMessageId = t_userMessageId turn,
             sg_endUserMessageId = t_userMessageId turn,
             sg_sourceBoundaryVersion = 2,
             sg_startSourceMessageId = Some (source_id (hd ordered)),
             sg_endSourceMessageId = Some (source_id (last ordered)),
             sg_startMessageId = source_id (hd ordered), sg_endMessageId = source_id (last ordered),
             sg_sourceMessageIds = map source_id ordered,
             sg_charCount = foldl (\<lambda>n x. n + modelVisibleCharWeightOf (ix_message x)) 0 ordered,
             sg_closed = isClosed, sg_messages = msgs,
             sg_projectionVersion = upgraded_projection projectionVersion fallback\<rparr>)"

section \<open>What a made segment holds\<close>

text \<open>
  The rest of the development knows segments through these lemmas: which messages a segment lists,
  its weight, and exactly when making one fails.
\<close>

definition segments_ids :: "segment list \<Rightarrow> jsstr list" where
  "segments_ids segs = concat (map sg_sourceMessageIds segs)"

lemma segments_ids_simps [simp]:
  "segments_ids [] = []" "segments_ids (s # segs) = sg_sourceMessageIds s @ segments_ids segs"
  "segments_ids (segs @ segs') = segments_ids segs @ segments_ids segs'"
  by (simp_all add: segments_ids_def)

abbreviation turns_messages :: "complete_turn list \<Rightarrow> indexed_message list" where
  "turns_messages turns \<equiv> concat (map t_messages turns)"

lemma ordered_mset [simp]: "mset (orderedSourceMessages xs) = mset xs"
  by (simp add: orderedSourceMessages_def)

lemma ordered_Nil_iff [simp]: "orderedSourceMessages xs = [] \<longleftrightarrow> xs = []"
  by (metis mset_zero_iff_right ordered_mset)

lemma ordered_sorted_id:
  "sorted (map ix_sourceIndex xs) \<Longrightarrow> orderedSourceMessages xs = xs"
  by (simp add: orderedSourceMessages_def js_sort_sorted_id)

lemma ordered_sorted: "sorted (map ix_sourceIndex (orderedSourceMessages xs))"
  by (simp add: orderedSourceMessages_def)

lemma foldl_enat_sum: "foldl (\<lambda>n x. n + f x) (z::enat) xs = z + sum_list (map f xs)"
  by (induction xs arbitrary: z) (simp_all add: add.assoc)

lemma sourceEndpoints_Inr: "sourceEndpoints xs = Inr ys \<longleftrightarrow> xs \<noteq> [] \<and> ys = orderedSourceMessages xs"
  by (auto simp: sourceEndpoints_def Let_def)

lemma makeV1Segment_Inr:
  assumes "makeV1Segment turns c pv = Inr s"
  shows "turns \<noteq> []" "turns_messages turns \<noteq> []"
    "sg_sourceMessageIds s = map source_id (orderedSourceMessages (turns_messages turns))"
    "sg_charCount s = sum_list (map t_charCount turns)" "sg_closed s = c"
    "sg_startUserMessageId s = t_userMessageId (hd turns)"
    "sg_endUserMessageId s = t_userMessageId (last turns)" "sg_sourceBoundaryVersion s = 1"
    "sg_startSourceMessageId s = None" "sg_endSourceMessageId s = None"
    "sg_messages s = fst (reflected (orderedSourceMessages (turns_messages turns)))"
  using assms
  by (auto simp: makeV1Segment_def sourceEndpoints_Inr foldl_enat_sum split: if_splits prod.splits)

lemma makeV1Segment_total:
  assumes "turns \<noteq> []" "turns_messages turns \<noteq> []"
  shows "\<exists>s. makeV1Segment turns c pv = Inr s"
proof -
  have "sourceEndpoints (turns_messages turns) = Inr (orderedSourceMessages (turns_messages turns))"
    unfolding sourceEndpoints_Inr using assms(2) by blast
  then show ?thesis using assms(1) by (auto simp: makeV1Segment_def split: prod.splits)
qed

lemma makeV2Segment_Inr:
  assumes "makeV2Segment turn xs c pv = Inr s"
  shows "xs \<noteq> []" "sg_sourceMessageIds s = map source_id (orderedSourceMessages xs)"
    "sg_charCount s = sum_list (map weight_of (orderedSourceMessages xs))" "sg_closed s = c"
    "sg_startUserMessageId s = t_userMessageId turn" "sg_endUserMessageId s = t_userMessageId turn"
    "sg_sourceBoundaryVersion s = 2"
    "sg_startSourceMessageId s = Some (source_id (hd (orderedSourceMessages xs)))"
    "sg_endSourceMessageId s = Some (source_id (last (orderedSourceMessages xs)))"
    "sg_messages s = fst (reflected (orderedSourceMessages xs))"
  using assms
  by (auto simp: makeV2Segment_def sourceEndpoints_Inr foldl_enat_sum split: if_splits prod.splits)

lemma makeV2Segment_total: "xs \<noteq> [] \<Longrightarrow> \<exists>s. makeV2Segment turn xs c pv = Inr s"
  by (cases "sourceEndpoints xs")
    (auto simp: makeV2Segment_def sourceEndpoints_def Let_def split: prod.splits if_splits)

lemma makeV1Segment_ids:
  assumes "makeV1Segment turns c pv = Inr s"
  shows "mset (sg_sourceMessageIds s) = image_mset source_id (mset (turns_messages turns))"
  by (simp only: makeV1Segment_Inr(3) [OF assms] mset_map ordered_mset)

lemma makeV2Segment_ids:
  assumes "makeV2Segment turn xs c pv = Inr s"
  shows "mset (sg_sourceMessageIds s) = image_mset source_id (mset xs)"
  by (simp only: makeV2Segment_Inr(2) [OF assms] mset_map ordered_mset)

end
