(* ===== verification/Fragments.thy ===== *)
theory Fragments
  imports Boundaries Segments
begin

text \<open>
  \<open>fragmentSourceRange\<close> and \<open>fragmentTurn\<close> of \<open>packages/shared/src/segmentation.ts\<close>: cutting the
  messages of one turn into exact source spans.
\<close>

section \<open>Fragmenting a turn\<close>

definition finite_part :: "enat \<Rightarrow> nat" where
  "finite_part w = (case w of enat n \<Rightarrow> n | \<infinity> \<Rightarrow> 0)"

definition infinite_part :: "enat \<Rightarrow> nat" where
  "infinite_part w = (case w of enat n \<Rightarrow> 0 | \<infinity> \<Rightarrow> 1)"

definition prefix_sums :: "(enat \<Rightarrow> nat) \<Rightarrow> enat list \<Rightarrow> nat list" where
  "prefix_sums f ws = foldl (\<lambda>ps w. ps @ [last ps + f w]) [0] ws"

definition rangeWeight :: "enat list \<Rightarrow> nat \<Rightarrow> nat \<Rightarrow> enat" where
  "rangeWeight ws start stop =
     (let finitePrefix = prefix_sums finite_part ws; infinitePrefix = prefix_sums infinite_part ws
      in if infinitePrefix ! Suc stop - infinitePrefix ! start > 0 then \<infinity>
         else enat (finitePrefix ! Suc stop - finitePrefix ! start))"

text \<open>
  The \<open>while\<close> loop of \<open>fragmentSourceRange\<close>: the half-open offset ranges it pushes, and whether
  each is closed. \<open>lastCut\<close> is \<open>lastLegalCut\<close>, \<open>None\<close> for -1; \<open>legal\<close> and \<open>ws\<close> are the legal-cut flags
  and the weights of the source messages.
\<close>

function fragment_loop ::
  "bool list \<Rightarrow> enat list \<Rightarrow> enat \<Rightarrow> bool \<Rightarrow> nat \<Rightarrow> nat \<Rightarrow> nat option \<Rightarrow> (nat \<times> nat \<times> bool) list" where
  "fragment_loop legal ws maxChars forceClosed start index lastCut =
     (if index < length ws
      then let nextWeight = rangeWeight ws start index in
        if index > start \<and> nextWeight > maxChars \<and> (case lastCut of None \<Rightarrow> False | Some c \<Rightarrow> start \<le> c)
        then (start, Suc (the lastCut), True)
          # fragment_loop legal ws maxChars forceClosed (Suc (the lastCut)) (Suc (the lastCut)) None
        else let lastCut' = (if legal ! index then Some index else lastCut) in
          if nextWeight \<ge> maxChars \<and> legal ! index
          then (start, Suc index, True)
            # fragment_loop legal ws maxChars forceClosed (Suc index) (Suc index) None
          else fragment_loop legal ws maxChars forceClosed start (Suc index) lastCut'
      else if start < length ws then [(start, length ws, forceClosed)] else [])"
  by pat_completeness auto
termination
  by (relation "measures [\<lambda>(legal, ws, mc, fc, start, index, lastCut). length ws - min start index,
        \<lambda>(legal, ws, mc, fc, start, index, lastCut). length ws - index]")
    (auto simp: min_def split: option.splits)

declare fragment_loop.simps [simp del]

definition fragment_ranges ::
  "indexed_message list \<Rightarrow> enat \<Rightarrow> bool \<Rightarrow> (nat \<times> nat \<times> bool) list" where
  "fragment_ranges xs maxChars forceClosed =
     fragment_loop (map (\<lambda>x. isCompletedAssistantMessage (ix_message x)) xs)
       (map (\<lambda>x. modelVisibleCharWeightOf (ix_message x)) xs) maxChars forceClosed 0 0 None"

definition fragmentSourceRange ::
  "complete_turn \<Rightarrow> indexed_message list \<Rightarrow> enat \<Rightarrow> bool \<Rightarrow> segment list result" where
  "fragmentSourceRange turn xs maxChars forceClosed =
     rmap (\<lambda>(i, j, closed). makeV2Segment turn (js_slice i j xs) closed None)
       (fragment_ranges xs maxChars forceClosed)"

definition contiguous_turn :: "complete_turn \<Rightarrow> bool" where
  "contiguous_turn turn \<longleftrightarrow>
     (\<forall>i<length (t_messages turn).
        ix_sourceIndex (t_messages turn ! i) = ix_sourceIndex (t_messages turn ! 0) + i)"

text \<open>The loop over the anchored spans of a turn, then the uncovered rest.\<close>

fun fragment_spans ::
  "complete_turn \<Rightarrow> enat \<Rightarrow> nat \<Rightarrow> v2_interval list \<Rightarrow> segment list result" where
  "fragment_spans turn maxChars cursor [] =
     fragmentSourceRange turn (drop cursor (t_messages turn)) maxChars (t_closed turn)"
| "fragment_spans turn maxChars cursor (b # bs) =
     rbind (fragmentSourceRange turn (js_slice cursor (v2_startOffset b) (t_messages turn)) maxChars True)
       (\<lambda>before.
     let xs = js_slice (v2_startOffset b) (Suc (v2_endOffset b)) (t_messages turn);
         closed = t_closed turn \<or> Suc (v2_endOffset b) < length (t_messages turn)
            \<or> (case last_opt xs of None \<Rightarrow> False | Some x \<Rightarrow> isCompletedAssistantMessage (ix_message x))
     in rbind (makeV2Segment turn xs closed (cb_projectionVersion (boundary b))) (\<lambda>s.
        rbind (guard (case bs of [] \<Rightarrow> True | n # _ \<Rightarrow> \<not> v2_startOffset n < Suc (v2_endOffset b))
                 ''Selected V2 source boundaries overlap'') (\<lambda>_.
        rbind (fragment_spans turn maxChars (Suc (v2_endOffset b)) bs) (\<lambda>rest.
          Inr (before @ s # rest)))))"

definition fragmentTurn ::
  "complete_turn \<Rightarrow> v2_interval list \<Rightarrow> enat \<Rightarrow> segment list result" where
  "fragmentTurn turn boundaries maxChars =
     (if t_messages turn = [] then Inl ''Cannot fragment an empty turn''
      else if \<not> contiguous_turn turn
        then if boundaries = [] then rbind (makeV1Segment [turn] (t_closed turn) None) (\<lambda>s. Inr [s])
             else Inl ''A fragmented turn must be contiguous in source order''
      else fragment_spans turn maxChars 0 boundaries)"

section \<open>Range weights\<close>

text \<open>
  The two prefix sums, finite weights and the number of infinite ones, compute the weight of every
  range in constant time; their answer is the sum of the weights of the range.
\<close>

abbreviation weight_between :: "enat list \<Rightarrow> nat \<Rightarrow> nat \<Rightarrow> enat" where
  "weight_between ws i j \<equiv> sum_list (js_slice i j ws)"

lemma prefix_sums_snoc: "prefix_sums f (ws @ [w]) = prefix_sums f ws @ [last (prefix_sums f ws) + f w]"
  by (simp add: prefix_sums_def)

lemma prefix_sums_eq:
  "prefix_sums f ws = map (\<lambda>k. sum_list (map f (take k ws))) [0..<Suc (length ws)]"
proof (induction ws rule: rev_induct)
  case Nil
  then show ?case by (simp add: prefix_sums_def)
next
  case (snoc w ws)
  have "last (prefix_sums f ws) = sum_list (map f ws)"
    unfolding snoc.IH by simp
  moreover have "map (\<lambda>k. sum_list (map f (take k ws))) [0..<Suc (length ws)] =
      map (\<lambda>k. sum_list (map f (take k (ws @ [w])))) [0..<Suc (length ws)]"
    by (rule map_cong) auto
  ultimately show ?case unfolding prefix_sums_snoc by (simp add: snoc.IH)
qed

lemma prefix_sums_diff:
  assumes "i \<le> j" "j \<le> length ws"
  shows "prefix_sums f ws ! j - prefix_sums f ws ! i = sum_list (map f (js_slice i j ws))"
proof -
  have "take j ws = take i ws @ js_slice i j ws"
    using assms by (simp add: js_slice_def) (metis le_add_diff_inverse take_add)
  then show ?thesis using assms by (simp add: prefix_sums_eq del: upt_Suc)
qed

lemma sum_list_enat_parts:
  "sum_list ws = (if sum_list (map infinite_part ws) > 0 then \<infinity>
     else enat (sum_list (map finite_part ws)))"
proof (induction ws)
  case Nil
  then show ?case by (simp add: zero_enat_def)
next
  case (Cons w ws)
  show ?case
  proof (cases w)
    case (enat n)
    then have "infinite_part w = 0" "finite_part w = n" by (simp_all add: infinite_part_def finite_part_def)
    then show ?thesis
      using enat by (simp only: sum_list.Cons list.map Cons.IH add_0 plus_enat_simps split: if_split) simp
  next
    case infinity
    then have "infinite_part w = 1" by (simp add: infinite_part_def)
    then show ?thesis using infinity by (simp only: sum_list.Cons list.map) auto
  qed
qed

lemma rangeWeight_sum:
  assumes "i \<le> j" "j < length ws"
  shows "rangeWeight ws i j = weight_between ws i (Suc j)"
proof -
  have "prefix_sums f ws ! Suc j - prefix_sums f ws ! i = sum_list (map f (js_slice i (Suc j) ws))" for f
    using assms by (intro prefix_sums_diff) auto
  then show ?thesis
    by (simp only: rangeWeight_def Let_def sum_list_enat_parts [of "js_slice i (Suc j) ws"])
qed

lemma weight_between_mono:
  assumes "i \<le> j" "j \<le> k"
  shows "weight_between ws i j \<le> weight_between ws i k"
proof -
  have "js_slice i k ws = js_slice i j ws @ js_slice j k ws" using assms by (simp add: slice_append)
  then show ?thesis by simp
qed

section \<open>The cuts of a source range\<close>

text \<open>
  \<open>tiling i rs n\<close>: the ranges are non-empty and cover the offsets from \<open>i\<close> to \<open>n\<close>, in order.
  \<open>good_range\<close> is the promise of a range: it ends at a legal cut unless it is the last; if it is
  heavier than the limit, no legal cut inside it would have been smaller; and if it is not the
  last, no later legal cut would have kept it below the limit.
\<close>

fun tiling :: "nat \<Rightarrow> (nat \<times> nat \<times> bool) list \<Rightarrow> nat \<Rightarrow> bool" where
  "tiling i [] n \<longleftrightarrow> i = n"
| "tiling i ((a, b, c) # rs) n \<longleftrightarrow> a = i \<and> a < b \<and> b \<le> n \<and> tiling b rs n"

definition good_range ::
  "bool list \<Rightarrow> enat list \<Rightarrow> enat \<Rightarrow> bool \<Rightarrow> nat \<times> nat \<times> bool \<Rightarrow> bool" where
  "good_range legal ws mc fc r = (case r of (i, j, c) \<Rightarrow>
     (weight_between ws i j > mc \<longrightarrow> (\<forall>k. i \<le> k \<and> Suc k < j \<longrightarrow> \<not> legal ! k))
     \<and> (j < length ws \<longrightarrow> c \<and> legal ! (j - 1)
         \<and> (weight_between ws i j \<ge> mc
            \<or> (\<forall>k. j \<le> k \<and> k < length ws \<and> legal ! k \<longrightarrow> weight_between ws i (Suc k) > mc)))
     \<and> (j = length ws \<longrightarrow> c = fc \<or> c \<and> legal ! (j - 1) \<and> weight_between ws i j \<ge> mc))"

text \<open>
  The loop invariant: \<open>lastCut\<close> is the last legal cut of the current range, the range so far stays
  below the limit at every legal cut, and it exceeds the limit only where it has no legal cut.
\<close>

definition loop_inv :: "bool list \<Rightarrow> enat list \<Rightarrow> enat \<Rightarrow> nat \<Rightarrow> nat \<Rightarrow> nat option \<Rightarrow> bool" where
  "loop_inv legal ws mc start index lastCut \<longleftrightarrow>
     start \<le> index \<and> index \<le> length ws
     \<and> (case lastCut of
          None \<Rightarrow> \<forall>k. start \<le> k \<and> k < index \<longrightarrow> \<not> legal ! k
        | Some c \<Rightarrow> start \<le> c \<and> c < index \<and> legal ! c \<and> (\<forall>k. c < k \<and> k < index \<longrightarrow> \<not> legal ! k))
     \<and> (\<forall>k. start \<le> k \<and> k < index \<and> legal ! k \<longrightarrow> weight_between ws start (Suc k) < mc)
     \<and> (weight_between ws start index > mc \<longrightarrow> (\<forall>k. start \<le> k \<and> Suc k < index \<longrightarrow> \<not> legal ! k))"

lemma loop_inv_start: "start \<le> length ws \<Longrightarrow> loop_inv legal ws mc start start None"
  by (auto simp: loop_inv_def)

lemma fragment_loop_ok:
  assumes "loop_inv legal ws mc start index lastCut"
  shows "tiling start (fragment_loop legal ws mc fc start index lastCut) (length ws) \<and>
    (\<forall>r\<in>set (fragment_loop legal ws mc fc start index lastCut). good_range legal ws mc fc r)"
  using assms
proof (induction legal ws mc fc start index lastCut rule: fragment_loop.induct)
  case (1 legal ws mc fc start index lastCut)
  let ?w = "rangeWeight ws start index"
  show ?case
  proof (cases "index < length ws")
    case False
    with "1.prems" show ?thesis
      by (subst (1 2) fragment_loop.simps) (auto simp: loop_inv_def good_range_def)
  next
    case in_range: True
    with "1.prems" have w: "?w = weight_between ws start (Suc index)"
      by (simp add: loop_inv_def rangeWeight_sum)
    show ?thesis
    proof (cases "index > start \<and> ?w > mc \<and> (case lastCut of None \<Rightarrow> False | Some c \<Rightarrow> start \<le> c)")
      case cut_back: True
      then obtain c where c: "lastCut = Some c" by (auto split: option.splits)
      have e: "fragment_loop legal ws mc fc start index lastCut =
          (start, Suc c, True) # fragment_loop legal ws mc fc (Suc c) (Suc c) None"
        using in_range cut_back c by (subst fragment_loop.simps) (simp add: Let_def)
      from "1.prems" c in_range have c': "start \<le> c" "Suc c \<le> length ws" "c < index" "legal ! c"
        "weight_between ws start (Suc c) < mc" "\<And>k. c < k \<Longrightarrow> k < index \<Longrightarrow> \<not> legal ! k"
        by (auto simp: loop_inv_def)
      have "good_range legal ws mc fc (start, Suc c, True)"
        using c' in_range cut_back w
      proof -
        have "weight_between ws start (Suc k) > mc" if "Suc c \<le> k" "k < length ws" "legal ! k" for k
        proof -
          have "index \<le> k" using c'(6) [of k] that by force
          then have "weight_between ws start (Suc index) \<le> weight_between ws start (Suc k)"
            using "1.prems" by (intro weight_between_mono) (auto simp: loop_inv_def)
          with cut_back w show ?thesis by (simp only:) (auto elim: order.strict_trans2)
        qed
        with c' in_range show ?thesis by (auto simp: good_range_def)
      qed
      moreover note "1.IH"(1) [OF in_range refl cut_back]
      ultimately show ?thesis unfolding e using c c' by (simp add: loop_inv_start)
    next
      case no_cut_back: False
      let ?cut = "if legal ! index then Some index else lastCut"
      have light: "\<forall>k. start \<le> k \<and> k < index \<longrightarrow> \<not> legal ! k" if "?w > mc"
        using that no_cut_back "1.prems" by (auto simp: loop_inv_def split: option.splits)
      show ?thesis
      proof (cases "?w \<ge> mc \<and> legal ! index")
        case cut_here: True
        have e: "fragment_loop legal ws mc fc start index lastCut =
            (start, Suc index, True) # fragment_loop legal ws mc fc (Suc index) (Suc index) None"
          using in_range no_cut_back cut_here by (subst fragment_loop.simps) (simp only: Let_def if_True if_False simp_thms)
        have "good_range legal ws mc fc (start, Suc index, True)"
          unfolding good_range_def prod.case diff_Suc_1 using light cut_here w by auto
        moreover have "start < Suc index" "Suc index \<le> length ws"
          using "1.prems" in_range by (auto simp: loop_inv_def)
        ultimately show ?thesis
          using "1.IH"(2) [OF in_range refl no_cut_back refl cut_here] by (simp add: e loop_inv_start)
      next
        case go_on: False
        have e: "fragment_loop legal ws mc fc start index lastCut =
            fragment_loop legal ws mc fc start (Suc index) ?cut"
          using in_range no_cut_back go_on by (subst fragment_loop.simps) (simp only: Let_def if_True if_False simp_thms)
        have "loop_inv legal ws mc start (Suc index) ?cut"
          using "1.prems" in_range light go_on w
          by (auto simp: loop_inv_def less_Suc_eq split: option.splits)
        from "1.IH"(3) [OF in_range refl no_cut_back refl go_on this] show ?thesis by (simp add: e)
      qed
    qed
  qed
qed

section \<open>Fragmenting\<close>

abbreviation legal_cuts :: "indexed_message list \<Rightarrow> bool list" where
  "legal_cuts xs \<equiv> map (\<lambda>x. isCompletedAssistantMessage (ix_message x)) xs"

abbreviation weights :: "indexed_message list \<Rightarrow> enat list" where
  "weights xs \<equiv> map weight_of xs"

lemma fragment_ranges_ok:
  "tiling 0 (fragment_ranges xs mc fc) (length xs)"
  "r \<in> set (fragment_ranges xs mc fc) \<Longrightarrow> good_range (legal_cuts xs) (weights xs) mc fc r"
  using fragment_loop_ok [OF loop_inv_start [of 0 "weights xs" "legal_cuts xs" mc], of fc]
  by (simp_all add: fragment_ranges_def)

lemma tiling_bounds: "tiling i rs n \<Longrightarrow> (a, b, c) \<in> set rs \<Longrightarrow> i \<le> a \<and> a < b \<and> b \<le> n"
  by (induction i rs n rule: tiling.induct) fastforce+

lemma tiling_le: "tiling i rs n \<Longrightarrow> i \<le> n"
  by (induction i rs n rule: tiling.induct) auto

lemma tiling_slices:
  "tiling i rs n \<Longrightarrow> concat (map (\<lambda>(a, b, c). js_slice a b xs) rs) = js_slice i n xs"
proof (induction i rs n rule: tiling.induct)
  case (2 i a b c rs n)
  then show ?case using tiling_le [of b rs n] by (simp add: slice_append)
qed simp

lemma slice_not_Nil: "i < j \<Longrightarrow> i < length xs \<Longrightarrow> js_slice i j xs \<noteq> []"
  by (simp add: js_slice_def)

lemma fragmentSourceRange_total: "\<exists>segs. fragmentSourceRange turn xs mc fc = Inr segs"
proof -
  have "\<exists>s. makeV2Segment turn (js_slice i j xs) c None = Inr s"
    if "(i, j, c) \<in> set (fragment_ranges xs mc fc)" for i j c
    using tiling_bounds [OF fragment_ranges_ok(1) that] by (intro makeV2Segment_total slice_not_Nil) auto
  then obtain f where "\<And>i j c. (i, j, c) \<in> set (fragment_ranges xs mc fc) \<Longrightarrow>
      makeV2Segment turn (js_slice i j xs) c None = Inr (f i j c)" by metis
  then have "fragmentSourceRange turn xs mc fc =
      Inr (map (\<lambda>(i, j, c). f i j c) (fragment_ranges xs mc fc))"
    unfolding fragmentSourceRange_def by (intro rmap_total) auto
  then show ?thesis ..
qed

lemma fragmentSourceRange_made:
  assumes "fragmentSourceRange turn xs mc fc = Inr segs"
  shows "list_all2 (\<lambda>(i, j, c) s. makeV2Segment turn (js_slice i j xs) c None = Inr s)
    (fragment_ranges xs mc fc) segs"
proof -
  from assms have "list_all2 (\<lambda>r s. (case r of (i, j, c) \<Rightarrow> makeV2Segment turn (js_slice i j xs) c None) = Inr s)
      (fragment_ranges xs mc fc) segs"
    by (simp add: fragmentSourceRange_def rmap_Inr_iff)
  then show ?thesis by (rule list_all2_mono) auto
qed

lemma made_ids:
  "list_all2 (\<lambda>(i, j, c) s. makeV2Segment turn (js_slice i j xs) c None = Inr s) rs segs \<Longrightarrow>
   mset (segments_ids segs) =
     image_mset source_id (mset (concat (map (\<lambda>(i, j, c). js_slice i j xs) rs)))"
  by (induction rule: list_all2_induct) (auto dest!: makeV2Segment_ids)

lemma fragmentSourceRange_ids:
  assumes "fragmentSourceRange turn xs mc fc = Inr segs"
  shows "mset (segments_ids segs) = image_mset source_id (mset xs)"
  using made_ids [OF fragmentSourceRange_made [OF assms]]
  by (simp add: tiling_slices [OF fragment_ranges_ok(1)] slice_to_end)

text \<open>The spans of one turn: ordered, and each within the turn.\<close>

fun spans_in :: "nat \<Rightarrow> v2_interval list \<Rightarrow> nat \<Rightarrow> bool" where
  "spans_in cursor [] n \<longleftrightarrow> cursor \<le> n"
| "spans_in cursor (b # bs) n \<longleftrightarrow> cursor \<le> v2_startOffset b \<and> v2_startOffset b \<le> v2_endOffset b
     \<and> v2_endOffset b < n \<and> spans_in (Suc (v2_endOffset b)) bs n"

lemma fragment_spans_total:
  "spans_in cursor bs (length (t_messages turn)) \<Longrightarrow>
   \<exists>segs. fragment_spans turn mc cursor bs = Inr segs"
proof (induction bs arbitrary: cursor)
  case Nil
  then show ?case by (simp add: fragmentSourceRange_total)
next
  case (Cons b bs)
  let ?xs = "js_slice (v2_startOffset b) (Suc (v2_endOffset b)) (t_messages turn)"
  from Cons.prems have "?xs \<noteq> []" by (intro slice_not_Nil) auto
  then have "\<exists>s. makeV2Segment turn ?xs c pv = Inr s" for c pv by (rule makeV2Segment_total)
  moreover have "case bs of [] \<Rightarrow> True | n # _ \<Rightarrow> \<not> v2_startOffset n < Suc (v2_endOffset b)"
    using Cons.prems by (cases bs) auto
  moreover from Cons.IH Cons.prems obtain rest where
    "fragment_spans turn mc (Suc (v2_endOffset b)) bs = Inr rest" by auto
  moreover obtain before where "fragmentSourceRange turn
      (js_slice cursor (v2_startOffset b) (t_messages turn)) mc True = Inr before"
    using fragmentSourceRange_total by blast
  ultimately show ?case by (auto simp: Let_def rbind_eq_Inr_iff)
qed

lemma fragment_spans_ids:
  assumes "fragment_spans turn mc cursor bs = Inr segs"
    and "\<forall>b\<in>set bs. v2_startOffset b \<le> v2_endOffset b"
    and "case bs of [] \<Rightarrow> True | b # _ \<Rightarrow> cursor \<le> v2_startOffset b"
  shows "mset (segments_ids segs) = image_mset source_id (mset (drop cursor (t_messages turn)))"
  using assms
proof (induction bs arbitrary: cursor segs)
  case Nil
  then show ?case by (simp add: fragmentSourceRange_ids)
next
  case (Cons b bs)
  let ?ms = "t_messages turn" and ?i = "v2_startOffset b" and ?j = "Suc (v2_endOffset b)"
  from Cons.prems(1) obtain before s c pv rest where
    before: "fragmentSourceRange turn (js_slice cursor ?i ?ms) mc True = Inr before"
    and s: "makeV2Segment turn (js_slice ?i ?j ?ms) c pv = Inr s"
    and n: "case bs of [] \<Rightarrow> True | n # _ \<Rightarrow> \<not> v2_startOffset n < ?j"
    and rest: "fragment_spans turn mc ?j bs = Inr rest" and segs: "segs = before @ s # rest"
    by (auto simp: Let_def)
  have "mset (segments_ids rest) = image_mset source_id (mset (drop ?j ?ms))"
    using Cons.prems(2) n by (intro Cons.IH [OF rest]) (auto split: list.splits)
  moreover have "drop cursor ?ms = js_slice cursor ?i ?ms @ js_slice ?i ?j ?ms @ drop ?j ?ms"
  proof -
    have "js_slice ?i ?j ?ms @ js_slice ?j (length ?ms + ?j) ?ms = js_slice ?i (length ?ms + ?j) ?ms"
      "js_slice cursor ?i ?ms @ js_slice ?i (length ?ms + ?j) ?ms = js_slice cursor (length ?ms + ?j) ?ms"
      using Cons.prems(2,3) by (simp_all add: slice_append)
    then show ?thesis by (simp add: slice_to_end)
  qed
  ultimately show ?case
    by (simp add: segs fragmentSourceRange_ids [OF before] makeV2Segment_ids [OF s])
qed

lemma fragmentTurn_ids:
  assumes "fragmentTurn turn bs mc = Inr segs" "\<forall>b\<in>set bs. v2_startOffset b \<le> v2_endOffset b"
  shows "mset (segments_ids segs) = image_mset source_id (mset (t_messages turn))"
proof (cases "contiguous_turn turn")
  case True
  with assms(1) have "fragment_spans turn mc 0 bs = Inr segs"
    by (auto simp: fragmentTurn_def split: if_splits)
  from fragment_spans_ids [OF this assms(2)] show ?thesis by (simp split: list.splits)
next
  case False
  with assms(1) obtain s where "makeV1Segment [turn] (t_closed turn) None = Inr s" "segs = [s]"
    by (auto simp: fragmentTurn_def split: if_splits)
  then show ?thesis using makeV1Segment_ids [of "[turn]"] by simp
qed

text \<open>
  C4. Fragmenting a range of messages of a turn never fails. The offset ranges it chooses cover the
  messages in order, without gap or overlap, and each is good: it ends just after a completed
  assistant message unless it is the last; it exceeds the limit only where no completed assistant
  message inside it offered a cut; and it is not the last only if it reached the limit or every
  later legal cut would exceed it. Every range becomes one v2 segment of exactly its messages.
\<close>

theorem fragmentSourceRange_cuts:
  "\<exists>segs. fragmentSourceRange turn xs mc fc = Inr segs
    \<and> tiling 0 (fragment_ranges xs mc fc) (length xs)
    \<and> list_all (good_range (legal_cuts xs) (weights xs) mc fc) (fragment_ranges xs mc fc)
    \<and> list_all2 (\<lambda>(i, j, c) s. makeV2Segment turn (js_slice i j xs) c None = Inr s)
        (fragment_ranges xs mc fc) segs"
  unfolding list_all_iff using fragmentSourceRange_total [of turn xs mc fc] fragmentSourceRange_made fragment_ranges_ok
  by blast

end
