(* ===== verification/Packing.thy ===== *)
theory Packing
  imports Segments
begin

text \<open>
  \<open>packTurns\<close> of \<open>packages/shared/src/segmentation.ts\<close>: packing complete turns into segments.
\<close>

section \<open>Packing ordinary turns\<close>

fun pack_loop ::
  "enat \<Rightarrow> bool \<Rightarrow> complete_turn list \<Rightarrow> enat \<Rightarrow> complete_turn list \<Rightarrow> segment list result" where
  "pack_loop maxChars forceClosed current currentChars [] =
     (if current = [] then Inr [] else rbind (makeV1Segment current forceClosed None) (\<lambda>s. Inr [s]))"
| "pack_loop maxChars forceClosed current currentChars (turn # turns) =
     rbind (guard (\<not> t_charCount turn > maxChars)
        ''Oversized turns must use source-message boundaries'') (\<lambda>_.
     rbind (if current \<noteq> [] \<and> currentChars + t_charCount turn > maxChars
            then rbind (makeV1Segment current True None) (\<lambda>s. Inr ([s], [], 0))
            else Inr ([], current, currentChars)) (\<lambda>(flushed, current, currentChars).
     let current = current @ [turn]; currentChars = currentChars + t_charCount turn in
     if currentChars = maxChars
     then rbind (makeV1Segment current True None) (\<lambda>s.
          rbind (pack_loop maxChars forceClosed [] 0 turns) (\<lambda>rest. Inr (flushed @ s # rest)))
     else rbind (pack_loop maxChars forceClosed current currentChars turns) (\<lambda>rest.
          Inr (flushed @ rest))))"

definition packTurns :: "complete_turn list \<Rightarrow> enat \<Rightarrow> bool \<Rightarrow> segment list result" where
  "packTurns turns maxChars forceClosed = pack_loop maxChars forceClosed [] 0 turns"

section \<open>The packing contract\<close>

text \<open>
  The reference: \<open>packing mc fc blocks turns\<close> says that the blocks, with their \<open>closed\<close> flags, are
  consecutive and cover the turns, that none is empty or heavier than the limit, and that the
  packing is greedy: a block ends only when it is exactly full, when the next turn no longer fits,
  or at the end of the turns.
\<close>

abbreviation turns_weight :: "complete_turn list \<Rightarrow> enat" where
  "turns_weight turns \<equiv> sum_list (map t_charCount turns)"

fun packing :: "enat \<Rightarrow> bool \<Rightarrow> (complete_turn list \<times> bool) list \<Rightarrow> complete_turn list \<Rightarrow> bool" where
  "packing mc fc [] turns \<longleftrightarrow> turns = []"
| "packing mc fc ((b, c) # bs) turns \<longleftrightarrow>
     b \<noteq> [] \<and> turns_weight b \<le> mc
     \<and> take (length b) turns = b
     \<and> (let rest = drop (length b) turns in
         (if turns_weight b = mc then c
          else case rest of [] \<Rightarrow> c = fc | t # _ \<Rightarrow> c \<and> turns_weight b + t_charCount t > mc)
         \<and> packing mc fc bs rest)"

lemma packing_concat: "packing mc fc bs turns \<Longrightarrow> concat (map fst bs) = turns"
proof (induction mc fc bs turns rule: packing.induct)
  case (2 mc fc b c bs turns)
  then show ?case
    by (simp add: Let_def) (metis append_take_drop_id)
qed simp

lemma packing_bounds: "packing mc fc bs turns \<Longrightarrow> (b, c) \<in> set bs \<Longrightarrow> b \<noteq> [] \<and> turns_weight b \<le> mc"
  by (induction mc fc bs turns rule: packing.induct) (auto simp: Let_def)

definition segment_blocks :: "(complete_turn list \<times> bool) list \<Rightarrow> segment list result" where
  "segment_blocks bs = rmap (\<lambda>(b, c). makeV1Segment b c None) bs"

lemma segment_blocks_simps [simp]:
  "segment_blocks [] = Inr []"
  "segment_blocks ((b, c) # bs) =
     rbind (makeV1Segment b c None) (\<lambda>s. rbind (segment_blocks bs) (\<lambda>ss. Inr (s # ss)))"
  by (simp_all add: segment_blocks_def)

lemma rbind_assoc: "rbind (rbind r f) g = rbind r (\<lambda>x. rbind (f x) g)"
  by (cases r) auto

lemma rbind_Inr_id [simp]: "rbind r Inr = r"
  by (cases r) auto

lemma pack_loop_fits:
  assumes "\<not> t_charCount t > mc" "\<not> (cur \<noteq> [] \<and> cc + t_charCount t > mc)"
  shows "pack_loop mc fc cur cc (t # turns) =
    (if cc + t_charCount t = mc
     then rbind (makeV1Segment (cur @ [t]) True None) (\<lambda>s.
          rbind (pack_loop mc fc [] 0 turns) (\<lambda>r. Inr (s # r)))
     else pack_loop mc fc (cur @ [t]) (cc + t_charCount t) turns)"
  using assms by (simp only: pack_loop.simps guard_def if_True if_False simp_thms rbind_Inr
      prod.case Let_def append_Nil rbind_Inr_id split: if_split)

lemma pack_loop_start:
  assumes "\<not> t_charCount t > mc"
  shows "pack_loop mc fc [] 0 (t # turns) =
    (if t_charCount t = mc
     then rbind (makeV1Segment [t] True None) (\<lambda>s.
          rbind (pack_loop mc fc [] 0 turns) (\<lambda>r. Inr (s # r)))
     else pack_loop mc fc [t] (t_charCount t) turns)"
proof -
  have "\<not> ([] \<noteq> ([]::complete_turn list) \<and> 0 + t_charCount t > mc)" by simp
  from pack_loop_fits [OF assms this] show ?thesis by (simp only: append_Nil add_0)
qed

lemma pack_loop_flushes:
  assumes "\<not> t_charCount t > mc" "cur \<noteq> [] \<and> cc + t_charCount t > mc"
  shows "pack_loop mc fc cur cc (t # turns) =
    rbind (makeV1Segment cur True None) (\<lambda>s.
      rbind (pack_loop mc fc [] 0 (t # turns)) (\<lambda>r. Inr (s # r)))"
  unfolding pack_loop_start [OF assms(1)] using assms by (simp add: Let_def rbind_assoc)

lemma pack_loop_oversized: "t_charCount t > mc \<Longrightarrow> pack_loop mc fc cur cc (t # turns) \<noteq> Inr segs"
  by simp

text \<open>
  The loop implements the reference: as long as the accumulated turns fit strictly below the
  limit, it produces the segments of a packing of what it holds and what is left.
\<close>

lemma pack_loop_packing:
  assumes "cc = turns_weight cur" and "cur \<noteq> [] \<longrightarrow> cc < mc" and "\<forall>t\<in>set turns. t_charCount t \<le> mc"
    and "0 < mc"
  shows "\<exists>bs. packing mc fc bs (cur @ turns) \<and> pack_loop mc fc cur cc turns = segment_blocks bs"
  using assms
proof (induction turns arbitrary: cur cc)
  case Nil
  show ?case
  proof (cases "cur = []")
    case True
    then show ?thesis by (intro exI [of _ "[]"]) simp
  next
    case False
    with Nil show ?thesis by (intro exI [of _ "[(cur, fc)]"]) auto
  qed
next
  case (Cons t turns)
  have t: "\<not> t_charCount t > mc" using Cons.prems(3) by auto
  have rest: "\<forall>t\<in>set turns. t_charCount t \<le> mc" using Cons.prems(3) by simp
  have step: "\<exists>bs. packing mc fc bs (cur' @ t # turns) \<and>
      (if turns_weight cur' + t_charCount t = mc
       then rbind (makeV1Segment (cur' @ [t]) True None) (\<lambda>s.
            rbind (pack_loop mc fc [] 0 turns) (\<lambda>r. Inr (s # r)))
       else pack_loop mc fc (cur' @ [t]) (turns_weight cur' + t_charCount t) turns) = segment_blocks bs"
    if le: "turns_weight cur' + t_charCount t \<le> mc" for cur'
  proof (cases "turns_weight cur' + t_charCount t = mc")
    case True
    from Cons.IH [of 0 "[]"] rest Cons.prems(4) obtain bs where
      "packing mc fc bs turns" "pack_loop mc fc [] 0 turns = segment_blocks bs" by auto
    with True le show ?thesis by (intro exI [of _ "(cur' @ [t], True) # bs"]) simp
  next
    case False
    with le Cons.IH [of "turns_weight (cur' @ [t])" "cur' @ [t]"] rest Cons.prems(4)
    show ?thesis by (simp add: less_le)
  qed
  show ?case
  proof (cases "cur \<noteq> [] \<and> cc + t_charCount t > mc")
    case True
    have "turns_weight [] + t_charCount t \<le> mc" using t by simp
    from step [OF this, unfolded append_Nil list.map sum_list.Nil add_0] obtain bs where bs: "packing mc fc bs (t # turns)"
      "(if t_charCount t = mc
        then rbind (makeV1Segment [t] True None) (\<lambda>s.
            rbind (pack_loop mc fc [] 0 turns) (\<lambda>r. Inr (s # r)))
        else pack_loop mc fc [t] (t_charCount t) turns) = segment_blocks bs" by auto
    have "pack_loop mc fc [] 0 (t # turns) = segment_blocks bs"
      by (simp only: pack_loop_start [OF t] bs(2))
    then have "pack_loop mc fc cur cc (t # turns) = segment_blocks ((cur, True) # bs)"
      using pack_loop_flushes [OF t True] by simp
    moreover have "packing mc fc ((cur, True) # bs) (cur @ t # turns)"
      using True Cons.prems(1,2) bs(1) by (simp add: less_imp_le)
    ultimately show ?thesis by blast
  next
    case False
    then have "turns_weight cur + t_charCount t \<le> mc"
      using t Cons.prems(1) by (cases "cur = []") auto
    from step [OF this] show ?thesis
      by (simp only: Cons.prems(1) pack_loop_fits [OF t False, unfolded Cons.prems(1)])
  qed
qed

lemma packTurns_packing:
  assumes "\<forall>t\<in>set turns. t_charCount t \<le> mc" "0 < mc"
  shows "\<exists>bs. packing mc fc bs turns \<and> packTurns turns mc fc = segment_blocks bs"
  using pack_loop_packing [of 0 "[]" mc turns fc] assms by (simp add: packTurns_def)

lemma segment_blocks_total:
  assumes "\<And>b c. (b, c) \<in> set bs \<Longrightarrow> b \<noteq> [] \<and> turns_messages b \<noteq> []"
  shows "\<exists>segs. segment_blocks bs = Inr segs"
  using assms
proof (induction bs)
  case (Cons bc bs)
  obtain b c where bc: "bc = (b, c)" by fastforce
  with Cons.prems [of b c] obtain s where "makeV1Segment b c None = Inr s"
    using makeV1Segment_total [of b c None] by auto
  moreover from Cons.IH Cons.prems obtain segs where "segment_blocks bs = Inr segs"
    by (meson list.set_intros(2))
  ultimately show ?case by (simp add: bc)
qed simp

lemma packTurns_blocks:
  assumes "packTurns turns mc fc = Inr segs" "\<forall>t\<in>set turns. t_charCount t \<le> mc" "0 < mc"
  obtains bs where "packing mc fc bs turns"
    "list_all2 (\<lambda>(b, c) s. makeV1Segment b c None = Inr s) bs segs"
proof -
  from packTurns_packing [OF assms(2,3)] obtain bs where bs: "packing mc fc bs turns"
    "packTurns turns mc fc = segment_blocks bs" by blast
  with assms(1) have "rmap (\<lambda>(b, c). makeV1Segment b c None) bs = Inr segs"
    by (simp add: segment_blocks_def)
  then have "list_all2 (\<lambda>bc s. (case bc of (b, c) \<Rightarrow> makeV1Segment b c None) = Inr s) bs segs"
    by (simp add: rmap_Inr_iff)
  then have "list_all2 (\<lambda>(b, c) s. makeV1Segment b c None = Inr s) bs segs"
    by (rule list_all2_mono) auto
  with bs(1) show thesis by (rule that)
qed

lemma packing_turns_messages:
  "packing mc fc bs turns \<Longrightarrow> (b, c) \<in> set bs \<Longrightarrow> \<forall>t\<in>set turns. t_messages t \<noteq> []
    \<Longrightarrow> b \<noteq> [] \<and> turns_messages b \<noteq> []"
proof -
  assume p: "packing mc fc bs turns" and b: "(b, c) \<in> set bs" and m: "\<forall>t\<in>set turns. t_messages t \<noteq> []"
  from packing_bounds [OF p b] have "b \<noteq> []" by simp
  moreover have "set b \<subseteq> set turns" using packing_concat [OF p] b by force
  ultimately show "b \<noteq> [] \<and> turns_messages b \<noteq> []" using m by (cases b) auto
qed

lemma packTurns_total:
  assumes "\<forall>t\<in>set turns. t_charCount t \<le> mc \<and> t_messages t \<noteq> []" "0 < mc"
  shows "\<exists>segs. packTurns turns mc fc = Inr segs"
proof -
  from packTurns_packing [of turns mc fc] assms obtain bs where bs: "packing mc fc bs turns"
    "packTurns turns mc fc = segment_blocks bs" by auto
  have "\<forall>t\<in>set turns. t_messages t \<noteq> []" using assms by auto
  from packing_turns_messages [OF bs(1) _ this] show ?thesis
    unfolding bs(2) by (intro segment_blocks_total)
qed

lemma blocks_ids:
  "list_all2 (\<lambda>(b, c) s. makeV1Segment b c None = Inr s) bs segs \<Longrightarrow>
   mset (segments_ids segs) = image_mset source_id (mset (turns_messages (concat (map fst bs))))"
  by (induction rule: list_all2_induct) (auto dest!: makeV1Segment_ids)

text \<open>Even where a turn is oversized, success means that every message is in a segment.\<close>

lemma packTurns_oversized:
  "t \<in> set turns \<Longrightarrow> t_charCount t > mc \<Longrightarrow> pack_loop mc fc cur cc turns \<noteq> Inr segs"
proof (induction turns arbitrary: cur cc segs)
  case (Cons t' turns)
  show ?case
  proof (cases "t_charCount t' > mc")
    case True
    then show ?thesis by (rule pack_loop_oversized)
  next
    case t': False
    with Cons have IH: "pack_loop mc fc cur cc turns \<noteq> Inr segs" for cur cc segs by auto
    have fits: "pack_loop mc fc cur cc (t' # turns) \<noteq> Inr segs"
      if "\<not> (cur \<noteq> [] \<and> cc + t_charCount t' > mc)" for cur cc segs
      unfolding pack_loop_fits [OF t' that] by (simp add: IH rbind_eq_Inr_iff)
    have start: "pack_loop mc fc [] 0 (t' # turns) \<noteq> Inr segs" for segs by (rule fits) simp
    show ?thesis
    proof (cases "cur \<noteq> [] \<and> cc + t_charCount t' > mc")
      case True
      show ?thesis unfolding pack_loop_flushes [OF t' True] by (simp only: rbind_eq_Inr_iff start simp_thms)
    next
      case False
      then show ?thesis by (rule fits)
    qed
  qed
qed simp

lemma packTurns_light:
  assumes "packTurns turns mc fc = Inr segs"
  shows "\<forall>t\<in>set turns. t_charCount t \<le> mc"
proof
  fix t assume "t \<in> set turns"
  with packTurns_oversized [OF this] assms show "t_charCount t \<le> mc"
    unfolding packTurns_def by (cases "t_charCount t > mc") (simp_all add: not_less)
qed

lemma packTurns_ids:
  assumes "packTurns turns mc fc = Inr segs" "0 < mc"
  shows "mset (segments_ids segs) = image_mset source_id (mset (turns_messages turns))"
proof -
  have "\<forall>t\<in>set turns. t_charCount t \<le> mc" by (rule packTurns_light [OF assms(1)])
  from packTurns_blocks [OF assms(1) this assms(2)] obtain bs where
    bs: "packing mc fc bs turns"
    "list_all2 (\<lambda>(b, c) s. makeV1Segment b c None = Inr s) bs segs" .
  show ?thesis using blocks_ids [OF bs(2)] by (simp only: packing_concat [OF bs(1)])
qed

text \<open>
  C5. Packing complete turns, none of them heavier than the limit and none empty, never fails. It
  yields consecutive blocks that cover the turns, none empty and none heavier than the limit, one
  segment per block with the block's users, weight and flag; and it is greedy: a block ends early
  only if it is exactly full or the next turn does not fit, and then its segment is closed.
\<close>

theorem packTurns_greedy:
  assumes "0 < mc" and "\<forall>t\<in>set turns. t_charCount t \<le> mc \<and> t_messages t \<noteq> []"
  shows "\<exists>bs segs. packTurns turns mc fc = Inr segs \<and> packing mc fc bs turns
    \<and> list_all2 (\<lambda>(b, c) s. sg_closed s = c \<and> sg_charCount s = turns_weight b \<and> sg_charCount s \<le> mc
        \<and> sg_startUserMessageId s = t_userMessageId (hd b)
        \<and> sg_endUserMessageId s = t_userMessageId (last b)
        \<and> mset (sg_sourceMessageIds s) = image_mset source_id (mset (turns_messages b))) bs segs"
proof -
  have le: "\<forall>t\<in>set turns. t_charCount t \<le> mc" using assms(2) by auto
  from packTurns_total [OF assms(2,1)] obtain segs where segs: "packTurns turns mc fc = Inr segs" ..
  from packTurns_blocks [OF this le assms(1)] obtain bs where bs: "packing mc fc bs turns"
    "list_all2 (\<lambda>(b, c) s. makeV1Segment b c None = Inr s) bs segs" .
  have "list_all2 (\<lambda>(b, c) s. sg_closed s = c \<and> sg_charCount s = turns_weight b \<and> sg_charCount s \<le> mc
        \<and> sg_startUserMessageId s = t_userMessageId (hd b)
        \<and> sg_endUserMessageId s = t_userMessageId (last b)
        \<and> mset (sg_sourceMessageIds s) = image_mset source_id (mset (turns_messages b))) bs segs"
    using bs(2)
  proof (rule list.rel_mono_strong)
    fix bc s assume "bc \<in> set bs" "(case bc of (b, c) \<Rightarrow> \<lambda>s. makeV1Segment b c None = Inr s) s"
    then show "(case bc of (b, c) \<Rightarrow> \<lambda>s. sg_closed s = c \<and> sg_charCount s = turns_weight b \<and> sg_charCount s \<le> mc
        \<and> sg_startUserMessageId s = t_userMessageId (hd b)
        \<and> sg_endUserMessageId s = t_userMessageId (last b)
        \<and> mset (sg_sourceMessageIds s) = image_mset source_id (mset (turns_messages b))) s"
      using packing_bounds [OF bs(1)] by (auto simp: makeV1Segment_Inr dest: makeV1Segment_ids)
  qed
  with segs bs(1) show ?thesis by blast
qed

text \<open>Two sample turns of weights 3 and 5; a limit of 7 separates them.\<close>

definition sample_turn :: "nat \<Rightarrow> enat \<Rightarrow> complete_turn" where
  "sample_turn i w = \<lparr>t_index = i, t_userMessageId = [of_nat i], t_charCount = w, t_closed = False,
     t_messages = [\<lparr>ix_index = i, ix_sourceIndex = i, ix_turnIndex = i,
       ix_message = sample_user [of_nat i] []\<rparr>]\<rparr>"

theorem packTurns_greedy_witness:
  "\<exists>segs. packTurns [sample_turn 0 3, sample_turn 1 5] 7 False = Inr segs"
proof -
  have "\<forall>t\<in>set [sample_turn 0 3, sample_turn 1 5]. t_charCount t \<le> 7 \<and> t_messages t \<noteq> []"
    by (simp add: sample_turn_def)
  from packTurns_greedy [OF _ this] show ?thesis by (auto simp: zero_less_iff_neq_zero)
qed

end
