(* ===== verification/Segmentation.thy ===== *)
theory Segmentation
  imports Fragments Packing
begin

text \<open>
  \<open>segmentMessages\<close> and \<open>readSegmentMessages\<close> of \<open>packages/shared/src/segmentation.ts\<close>.
\<close>

section \<open>Segmenting a history\<close>

definition frozen_turn :: "interval list \<Rightarrow> nat \<Rightarrow> bool" where
  "frozen_turn selectedV1 i \<longleftrightarrow> (\<exists>b\<in>set selectedV1. startIndex b \<le> i \<and> i \<le> endIndex b)"

definition v1_by_start :: "interval list \<Rightarrow> nat \<Rightarrow> interval option" where
  "v1_by_start selectedV1 i = map_of (rev (map (\<lambda>b. (startIndex b, b)) selectedV1)) i"

definition v2_by_turn :: "v2_interval list \<Rightarrow> nat \<Rightarrow> v2_interval list" where
  "v2_by_turn selectedV2 i = filter (\<lambda>b. v2_turnIndex b = i) selectedV2"

definition fragmented_turn ::
  "complete_turn list \<Rightarrow> enat \<Rightarrow> interval list \<Rightarrow> v2_interval list \<Rightarrow> nat \<Rightarrow> bool" where
  "fragmented_turn turns maxChars selectedV1 resolvedV2 i \<longleftrightarrow>
     \<not> frozen_turn selectedV1 i
     \<and> ((\<exists>b\<in>set resolvedV2. v2_turnIndex b = i)
        \<or> (\<exists>t\<in>set turns. t_index t = i \<and> t_charCount t > maxChars))"

text \<open>
  The main loop. \<open>remaining\<close> is \<open>turns.slice(turnIndex)\<close>; a selected v1 boundary starting here
  covers the turns up to its end, so the loop resumes \<open>endIndex - turnIndex\<close> turns further on.
\<close>

function segment_loop ::
  "complete_turn list \<Rightarrow> (nat \<Rightarrow> interval option) \<Rightarrow> (nat \<Rightarrow> bool) \<Rightarrow> (nat \<Rightarrow> v2_interval list)
     \<Rightarrow> enat \<Rightarrow> complete_turn list \<Rightarrow> nat \<Rightarrow> complete_turn list \<Rightarrow> segment list result" where
  "segment_loop turns v1 fragmented v2 maxChars ordinary turnIndex [] =
     packTurns ordinary maxChars False"
| "segment_loop turns v1 fragmented v2 maxChars ordinary turnIndex (turn # remaining) =
     (case v1 turnIndex of
        Some b \<Rightarrow>
          rbind (packTurns ordinary maxChars True) (\<lambda>before.
          let covered = js_slice (startIndex b) (Suc (endIndex b)) turns;
              closed = (case last_opt covered of None \<Rightarrow> True | Some t \<Rightarrow> t_closed t)
          in rbind (makeV1Segment covered closed (cb_projectionVersion (boundary b))) (\<lambda>s.
             rbind (segment_loop turns v1 fragmented v2 maxChars [] (Suc (endIndex b))
                      (drop (endIndex b - turnIndex) remaining)) (\<lambda>rest.
               Inr (before @ s # rest))))
      | None \<Rightarrow>
          if fragmented turnIndex
          then rbind (packTurns ordinary maxChars True) (\<lambda>before.
               rbind (fragmentTurn turn (v2 turnIndex) maxChars) (\<lambda>parts.
               rbind (segment_loop turns v1 fragmented v2 maxChars [] (Suc turnIndex) remaining) (\<lambda>rest.
                 Inr (before @ parts @ rest))))
          else segment_loop turns v1 fragmented v2 maxChars (ordinary @ [turn]) (Suc turnIndex) remaining)"
  by pat_completeness auto
termination
  by (relation "measure (\<lambda>(turns, v1, fragmented, v2, mc, ordinary, i, remaining). length remaining)")
    auto

definition segmentMessages ::
  "(jsstr \<Rightarrow> jsstr \<Rightarrow> int) \<Rightarrow> message list \<Rightarrow> int \<Rightarrow> committed_boundary list \<Rightarrow> segment list result" where
  "segmentMessages lc ms maxChars boundaries =
     (if maxChars \<le> 0 then Inl ''maxChars must be a positive integer''
      else let h = canonicalHistory ms; limit = enat (nat maxChars) in
        rbind (reconcileV1Boundaries lc (h_turns h) boundaries) (\<lambda>selectedV1.
        rbind (resolveV2Boundaries h boundaries) (\<lambda>resolvedV2.
        let selectedV2 = reconcileV2Boundaries lc resolvedV2 (frozen_turn selectedV1)
        in segment_loop (h_turns h) (v1_by_start selectedV1)
             (fragmented_turn (h_turns h) limit selectedV1 resolvedV2)
             (v2_by_turn selectedV2) limit [] 0 (h_turns h))))"

section \<open>Every message is in exactly one segment\<close>

lemma v1_by_start_SomeD:
  "v1_by_start selected i = Some b \<Longrightarrow> b \<in> set selected \<and> startIndex b = i"
  unfolding v1_by_start_def by (drule map_of_SomeD) auto

lemma v1_by_start_None: "v1_by_start selected i = None \<Longrightarrow> b \<in> set selected \<Longrightarrow> startIndex b \<noteq> i"
  unfolding v1_by_start_def map_of_eq_None_iff by force

lemma covered_rest:
  assumes "startIndex b = i" "i \<le> endIndex b" "turn # remaining = drop i turns"
  shows "js_slice (startIndex b) (Suc (endIndex b)) turns @ drop (endIndex b - i) remaining = turn # remaining"
    and "drop (endIndex b - i) remaining = drop (Suc (endIndex b)) turns"
proof -
  have "drop (endIndex b - i) remaining = drop (Suc (endIndex b - i)) (drop i turns)"
    by (simp add: assms(3) [symmetric])
  also have "\<dots> = drop (Suc (endIndex b)) turns" using assms(2) by simp
  finally show *: "drop (endIndex b - i) remaining = drop (Suc (endIndex b)) turns" .
  have "js_slice i (Suc (endIndex b)) turns @ drop (Suc (endIndex b)) turns = drop i turns"
    using assms(2) by (simp add: js_slice_def) (metis Suc_diff_le append_take_drop_id
        drop_drop le_add_diff_inverse2 le_SucI add.commute)
  with assms(1,3) * show "js_slice (startIndex b) (Suc (endIndex b)) turns @
      drop (endIndex b - i) remaining = turn # remaining" by simp
qed

text \<open>What the loop relies on: v1 spans start where they are found, and v2 offsets are in order.\<close>

definition v1_starts :: "(nat \<Rightarrow> interval option) \<Rightarrow> bool" where
  "v1_starts v1 \<longleftrightarrow> (\<forall>i b. v1 i = Some b \<longrightarrow> startIndex b = i \<and> i \<le> endIndex b)"

definition v2_ordered :: "(nat \<Rightarrow> v2_interval list) \<Rightarrow> bool" where
  "v2_ordered v2 \<longleftrightarrow> (\<forall>i. \<forall>b\<in>set (v2 i). v2_startOffset b \<le> v2_endOffset b)"

lemma segment_loop_ids:
  assumes "v1_starts v1" "v2_ordered v2" "0 < mc"
    and "remaining = drop i turns"
    and "segment_loop turns v1 frag v2 mc ordinary i remaining = Inr segs"
  shows "mset (segments_ids segs) = image_mset source_id (mset (turns_messages (ordinary @ remaining)))"
  using assms
proof (induction turns v1 frag v2 mc ordinary i remaining arbitrary: segs rule: segment_loop.induct)
  case (1 turns v1 frag v2 mc ordinary i)
  then show ?case by (simp add: packTurns_ids)
next
  case (2 turns v1 frag v2 mc ordinary i turn remaining)
  have rem: "remaining = drop (Suc i) turns"
    using "2.prems"(4) by (metis drop_Suc list.sel(3) tl_drop)
  show ?case
  proof (cases "v1 i")
    case (Some b)
    with "2.prems"(1) have b: "startIndex b = i" "i \<le> endIndex b" by (auto simp: v1_starts_def)
    let ?covered = "js_slice (startIndex b) (Suc (endIndex b)) turns"
    let ?rest = "drop (endIndex b - i) remaining"
    from "2.prems"(5) Some obtain before c s rest where before: "packTurns ordinary mc True = Inr before"
      and s: "makeV1Segment ?covered c (cb_projectionVersion (boundary b)) = Inr s"
      and rest: "segment_loop turns v1 frag v2 mc [] (Suc (endIndex b)) ?rest = Inr rest"
      and segs: "segs = before @ s # rest"
      by (auto simp: Let_def)
    note cr = covered_rest [OF b "2.prems"(4)]
    have IH: "mset (segments_ids rest) = image_mset source_id (mset (turns_messages ([] @ ?rest)))"
      by (rule "2.IH"(3) [OF Some refl refl "2.prems"(1-3) cr(2) rest])
    have "turns_messages (turn # remaining) = turns_messages (?covered @ ?rest)" by (simp only: cr(1))
    then show ?thesis
      using IH by (simp add: segs packTurns_ids [OF before "2.prems"(3)] makeV1Segment_ids [OF s])
  next
    case None
    show ?thesis
    proof (cases "frag i")
      case True
      with "2.prems"(5) None obtain before parts rest where before: "packTurns ordinary mc True = Inr before"
        and parts: "fragmentTurn turn (v2 i) mc = Inr parts"
        and rest: "segment_loop turns v1 frag v2 mc [] (Suc i) remaining = Inr rest"
        and segs: "segs = before @ parts @ rest" by auto
      have "mset (segments_ids rest) = image_mset source_id (mset (turns_messages ([] @ remaining)))"
        by (rule "2.IH"(1) [OF None True "2.prems"(1-3) rem rest])
      moreover have "\<forall>b\<in>set (v2 i). v2_startOffset b \<le> v2_endOffset b"
        using "2.prems"(2) by (simp add: v2_ordered_def)
      ultimately show ?thesis
        by (simp add: segs packTurns_ids [OF before "2.prems"(3)] fragmentTurn_ids [OF parts])
    next
      case False
      with "2.prems"(5) None have "segment_loop turns v1 frag v2 mc (ordinary @ [turn]) (Suc i) remaining = Inr segs"
        by simp
      from "2.IH"(2) [OF None False "2.prems"(1-3) rem this] show ?thesis by simp
    qed
  qed
qed

lemma segmentMessages_InrE:
  assumes "segmentMessages lc ms maxChars bs = Inr segs"
  obtains v1 v2 where "0 < maxChars"
    "reconcileV1Boundaries lc (h_turns (canonicalHistory ms)) bs = Inr v1"
    "resolveV2Boundaries (canonicalHistory ms) bs = Inr v2"
    "segment_loop (h_turns (canonicalHistory ms)) (v1_by_start v1)
       (fragmented_turn (h_turns (canonicalHistory ms)) (enat (nat maxChars)) v1 v2)
       (v2_by_turn (reconcileV2Boundaries lc v2 (frozen_turn v1))) (enat (nat maxChars)) [] 0
       (h_turns (canonicalHistory ms)) = Inr segs"
  using assms unfolding segmentMessages_def
  by (cases "maxChars \<le> 0") (auto simp: Let_def not_le)

lemma selected_v1_starts:
  "reconcileV1Boundaries lc turns bs = Inr v1 \<Longrightarrow> v1_starts (v1_by_start v1)"
  using reconciled_v1(1) [of lc turns bs v1] by (fastforce simp: v1_starts_def v1_span_def dest: v1_by_start_SomeD)

lemma selected_v2_spans:
  assumes "history_of ms h" "resolveV2Boundaries h bs = Inr v2"
    and "iv \<in> set (v2_by_turn (reconcileV2Boundaries lc v2 frozen) i)"
  shows "v2_span h iv" "\<not> frozen i" "v2_turnIndex iv = i"
proof -
  have "v2_span h iv" if "iv \<in> set v2" for iv using resolved_v2_spans [OF assms(1,2) that] by simp
  from reconciled_v2(1) [of v2 h lc frozen, OF this] assms(3)
  show "v2_span h iv" "\<not> frozen i" "v2_turnIndex iv = i" by (auto simp: v2_by_turn_def)
qed

lemma selected_v2_ordered:
  assumes "history_of ms h" "resolveV2Boundaries h bs = Inr v2"
  shows "v2_ordered (v2_by_turn (reconcileV2Boundaries lc v2 frozen))"
  using selected_v2_spans(1) [OF assms] by (auto simp: v2_ordered_def v2_span_def)

text \<open>
  C1. Whenever \<open>segmentMessages\<close> returns, its segments cover the transcript exactly: the source
  message IDs they list are, counted with multiplicity, the IDs of the messages that belong to a
  turn, so no message is lost, duplicated or invented, whatever boundaries were committed.
\<close>

theorem segmentMessages_partition:
  assumes "segmentMessages lc ms maxChars bs = Inr segs"
  shows "mset (segments_ids segs) = mset (segmented_ids ms)"
proof -
  let ?h = "canonicalHistory ms"
  have h: "history_of ms ?h" by (rule canonicalHistory_history_of)
  from assms obtain v1 v2 where limit: "0 < maxChars"
    and v1: "reconcileV1Boundaries lc (h_turns ?h) bs = Inr v1"
    and v2: "resolveV2Boundaries ?h bs = Inr v2"
    and loop: "segment_loop (h_turns ?h) (v1_by_start v1)
       (fragmented_turn (h_turns ?h) (enat (nat maxChars)) v1 v2)
       (v2_by_turn (reconcileV2Boundaries lc v2 (frozen_turn v1))) (enat (nat maxChars)) [] 0
       (h_turns ?h) = Inr segs"
    by (rule segmentMessages_InrE)
  have "mset (segments_ids segs) = image_mset source_id (mset (turns_messages ([] @ h_turns ?h)))"
    using limit by (intro segment_loop_ids [OF selected_v1_starts [OF v1] selected_v2_ordered [OF h v2] _ _ loop])
      (simp_all add: zero_enat_def)
  also have "\<dots> = image_mset source_id (mset (h_messages ?h))"
    using history_turns_partition [OF h] by (simp only: append_Nil)
  also have "\<dots> = mset (segmented_ids ms)"
    by (simp only: mset_map [symmetric] history_source_ids [OF h])
  finally show ?thesis .
qed

section \<open>When segmentation succeeds\<close>

lemma sorted_wrt_cases:
  "sorted_wrt P xs \<Longrightarrow> x \<in> set xs \<Longrightarrow> y \<in> set xs \<Longrightarrow> x = y \<or> P x y \<or> P y x"
  by (induction xs) auto

text \<open>The indices at which the loop stops are never strictly inside a selected v1 span.\<close>

definition span_free :: "interval list \<Rightarrow> nat \<Rightarrow> bool" where
  "span_free selected i \<longleftrightarrow> (\<forall>b\<in>set selected. startIndex b < i \<longrightarrow> endIndex b < i)"

lemma span_free_0: "span_free selected 0"
  by (simp add: span_free_def)

lemma span_free_Suc:
  "span_free selected i \<Longrightarrow> v1_by_start selected i = None \<Longrightarrow> span_free selected (Suc i)"
  by (fastforce simp: span_free_def less_Suc_eq dest: v1_by_start_None)

lemma span_free_not_frozen:
  "span_free selected i \<Longrightarrow> v1_by_start selected i = None \<Longrightarrow> \<not> frozen_turn selected i"
  by (fastforce simp: span_free_def frozen_turn_def le_less dest: v1_by_start_None)

lemma span_free_after:
  assumes "sorted_wrt (\<lambda>a b. endIndex a < startIndex b) selected" "b \<in> set selected"
    "startIndex b \<le> endIndex b"
  shows "span_free selected (Suc (endIndex b))"
  unfolding span_free_def
proof (intro ballI impI)
  fix a assume a: "a \<in> set selected" "startIndex a < Suc (endIndex b)"
  from sorted_wrt_cases [OF assms(1) a(1) assms(2)] a(2) assms(3)
  show "endIndex a < Suc (endIndex b)" by auto
qed

text \<open>What the loop needs of a turn outside every selected v1 span.\<close>

definition turn_ready ::
  "(nat \<Rightarrow> bool) \<Rightarrow> (nat \<Rightarrow> v2_interval list) \<Rightarrow> enat \<Rightarrow> nat \<Rightarrow> complete_turn \<Rightarrow> bool" where
  "turn_ready frag v2 mc i turn \<longleftrightarrow>
     (if frag i then \<exists>parts. fragmentTurn turn (v2 i) mc = Inr parts else t_charCount turn \<le> mc)"

lemma segment_loop_total:
  assumes "v1 = v1_by_start selected" "sorted_wrt (\<lambda>a b. endIndex a < startIndex b) selected"
    and "\<forall>b\<in>set selected. startIndex b \<le> endIndex b \<and> endIndex b < length turns"
    and "\<forall>t\<in>set turns. t_messages t \<noteq> []"
    and "\<forall>i<length turns. \<not> frozen_turn selected i \<longrightarrow> turn_ready frag v2 mc i (turns ! i)"
    and "0 < mc" "span_free selected i" "remaining = drop i turns"
    and "\<forall>t\<in>set ordinary. t_charCount t \<le> mc \<and> t_messages t \<noteq> []"
  shows "\<exists>segs. segment_loop turns v1 frag v2 mc ordinary i remaining = Inr segs"
  using assms
proof (induction turns v1 frag v2 mc ordinary i remaining rule: segment_loop.induct)
  case (1 turns v1 frag v2 mc ordinary i)
  then show ?case by (simp add: packTurns_total)
next
  case (2 turns v1 frag v2 mc ordinary i turn remaining)
  have i: "i < length turns" and turn: "turns ! i = turn"
    using "2.prems"(8) by (metis drop_eq_Nil list.distinct(1) not_le, metis drop_eq_Nil hd_drop_conv_nth list.distinct(1) list.sel(1) not_le)
  then have msgs: "t_messages turn \<noteq> []" using "2.prems"(4) nth_mem by blast
  have rem: "remaining = drop (Suc i) turns"
    using "2.prems"(8) by (metis drop_Suc list.sel(3) tl_drop)
  obtain before where before: "packTurns ordinary mc True = Inr before"
    using packTurns_total [OF "2.prems"(9,6)] by blast
  show ?case
  proof (cases "v1 i")
    case (Some b)
    with "2.prems"(1) have b: "b \<in> set selected" "startIndex b = i" by (auto dest: v1_by_start_SomeD)
    then have le: "i \<le> endIndex b" "endIndex b < length turns" using "2.prems"(3) by auto
    let ?covered = "js_slice (startIndex b) (Suc (endIndex b)) turns"
    have "?covered \<noteq> []" using i le b(2) by (intro slice_not_Nil) auto
    have "turn \<in> set ?covered" using i turn le b(2) by (auto simp: in_set_slice_iff)
    then have "turns_messages ?covered \<noteq> []" using msgs by auto
    then have made: "\<exists>s. makeV1Segment ?covered c pv = Inr s" for c pv
      using \<open>?covered \<noteq> []\<close> by (intro makeV1Segment_total)
    have "span_free selected (Suc (endIndex b))"
      using "2.prems"(2) b le by (intro span_free_after) auto
    moreover note covered_rest(2) [OF b(2) le(1) "2.prems"(8)]
    ultimately have "\<exists>rest. segment_loop turns v1 frag v2 mc [] (Suc (endIndex b))
        (drop (endIndex b - i) remaining) = Inr rest"
      by (intro "2.IH"(3) [OF Some refl refl "2.prems"(1-6)]) auto
    then show ?thesis using Some before made by (auto simp: Let_def rbind_eq_Inr_iff)
  next
    case None
    have free: "span_free selected (Suc i)" and "\<not> frozen_turn selected i"
      using "2.prems"(1,7) None by (auto intro: span_free_Suc dest: span_free_not_frozen)
    with "2.prems"(5) i turn have ready: "turn_ready frag v2 mc i turn" by auto
    show ?thesis
    proof (cases "frag i")
      case True
      with ready obtain parts where parts: "fragmentTurn turn (v2 i) mc = Inr parts"
        by (auto simp: turn_ready_def)
      have "\<exists>rest. segment_loop turns v1 frag v2 mc [] (Suc i) remaining = Inr rest"
        by (rule "2.IH"(1) [OF None True "2.prems"(1-6) free rem]) simp
      then show ?thesis using None True before parts by (auto simp: rbind_eq_Inr_iff)
    next
      case False
      with ready have "t_charCount turn \<le> mc" by (simp add: turn_ready_def)
      with "2.prems"(9) msgs have "\<forall>t\<in>set (ordinary @ [turn]). t_charCount t \<le> mc \<and> t_messages t \<noteq> []"
        by simp
      from "2.IH"(2) [OF None False "2.prems"(1-6) free rem this] show ?thesis using None False by simp
    qed
  qed
qed

subsection \<open>The turns of a transcript are ready\<close>

lemma distinct_turn_user:
  assumes "distinct users" "i < length users"
  shows "turn_of_user users (users ! i) = Some i"
  unfolding turn_of_user_def
  by (rule last_index_unique) (use assms in \<open>auto simp: nth_eq_iff_index_eq\<close>)

lemma history_turn_nonempty:
  assumes h: "history_of ms h" and d: "distinct (normal_user_ids ms)" and i: "i < length (h_turns h)"
  shows "t_messages (h_turns h ! i) \<noteq> []"
proof -
  let ?users = "normal_user_ids ms"
  from h i have i': "i < length ?users" by (simp add: history_of_def)
  then have "?users ! i \<in> set ?users" by simp
  then obtain m where m: "m \<in> set ms" "isNormalUserMessage m" "m_id m = ?users ! i"
    by (auto simp: normal_user_ids_def)
  then have t: "turn_of ?users m = Some i"
    using distinct_turn_user [OF d i'] by (simp add: turn_of_def)
  then have "m \<in> set (map ix_message (h_messages h))"
    using m by (simp add: history_messages [OF h] member_message_def)
  then obtain x where x: "x \<in> set (h_messages h)" "ix_message x = m" by auto
  with h t have "ix_turnIndex x = i" by (auto simp: history_of_def sources_ok_def)
  with x have "x \<in> set (turn_messages (h_messages h) i)" by (simp add: turn_messages_def)
  then show ?thesis using history_turn(3) [OF h i] by auto
qed

lemma offset_of_source:
  assumes "contiguous_turn turn" "k < length (t_messages turn)"
  shows "ix_sourceIndex (t_messages turn ! k) = ix_sourceIndex (t_messages turn ! 0) + k"
  using assms by (simp add: contiguous_turn_def)

lemma selected_spans_in:
  assumes "contiguous_turn (h_turns h ! i)" and "sorted_wrt (\<lambda>a b. endIndex a < startIndex b) bs"
    and "\<forall>b\<in>set bs. v2_span h b \<and> v2_turnIndex b = i"
    and "cursor \<le> length (t_messages (h_turns h ! i))" "\<forall>b\<in>set bs. cursor \<le> v2_startOffset b"
  shows "spans_in cursor bs (length (t_messages (h_turns h ! i)))"
  using assms(2-)
proof (induction bs arbitrary: cursor)
  case (Cons b bs)
  let ?ms = "t_messages (h_turns h ! i)" and ?base = "ix_sourceIndex (t_messages (h_turns h ! i) ! 0)"
  have off: "startIndex c = ?base + v2_startOffset c" "endIndex c = ?base + v2_endOffset c"
    "v2_startOffset c \<le> v2_endOffset c" "v2_endOffset c < length ?ms" if "c \<in> set (b # bs)" for c
  proof -
    from Cons.prems(2) that have c: "v2_span h c" "v2_turnIndex c = i" by auto
    then show le: "v2_startOffset c \<le> v2_endOffset c" "v2_endOffset c < length ?ms"
      by (auto simp: v2_span_def)
    show "startIndex c = ?base + v2_startOffset c" "endIndex c = ?base + v2_endOffset c"
      using c offset_of_source [OF assms(1)] le by (auto simp: v2_span_def)
  qed
  have "Suc (v2_endOffset b) \<le> v2_startOffset c" if "c \<in> set bs" for c
    using Cons.prems(1) off [of b] off [of c] that by auto
  then show ?case using Cons off [of b] by (auto intro!: Cons.IH)
qed simp

lemma fragmentTurn_total:
  assumes "t_messages turn \<noteq> []"
    and "contiguous_turn turn \<Longrightarrow> spans_in 0 bs (length (t_messages turn))"
    and "\<not> contiguous_turn turn \<Longrightarrow> bs = []"
  shows "\<exists>segs. fragmentTurn turn bs mc = Inr segs"
proof (cases "contiguous_turn turn")
  case True
  with assms show ?thesis by (simp add: fragmentTurn_def fragment_spans_total)
next
  case False
  have "\<exists>s. makeV1Segment [turn] (t_closed turn) None = Inr s"
    using assms(1) by (intro makeV1Segment_total) auto
  with False assms show ?thesis by (auto simp: fragmentTurn_def)
qed

lemma reconcileV1_total:
  assumes "\<forall>b\<in>set bs. \<exists>v. boundaryVersion b = Inr v"
  shows "\<exists>v1. reconcileV1Boundaries lc turns bs = Inr v1"
proof -
  have "\<exists>cs. v1_candidate turns b = Inr cs" if "b \<in> set bs" for b
    using assms that by (auto simp: v1_candidate_def split: option.splits)
  then obtain f where "\<And>b. b \<in> set bs \<Longrightarrow> v1_candidate turns b = Inr (f b)" by metis
  from rmap_total [of bs, OF this] show ?thesis by (simp add: reconcileV1Boundaries_def)
qed

lemma resolved_versions:
  assumes "resolveV2Boundaries h bs = Inr v2" "b \<in> set bs"
  shows "\<exists>v. boundaryVersion b = Inr v"
proof -
  from assms(1) obtain yss where "rmap (resolve_v2 h) bs = Inr yss" by (auto simp: resolveV2Boundaries_def)
  from rmap_InrD [OF this assms(2)] obtain ys where "resolve_v2 h b = Inr ys" by blast
  then show ?thesis by (auto simp: resolve_v2_def)
qed

lemma selected_turn_spans:
  assumes "history_of ms h" "resolveV2Boundaries h bs = Inr v2"
  shows "sorted_wrt (\<lambda>a b. endIndex a < startIndex b) (v2_by_turn (reconcileV2Boundaries lc v2 frozen) i)"
    and "b \<in> set (v2_by_turn (reconcileV2Boundaries lc v2 frozen) i) \<Longrightarrow>
      b \<in> set (reconcileV2Boundaries lc v2 frozen) \<and> v2_turnIndex b = i"
proof -
  have span: "v2_span h iv" if "iv \<in> set v2" for iv using resolved_v2_spans [OF assms that] by simp
  show "sorted_wrt (\<lambda>a b. endIndex a < startIndex b) (v2_by_turn (reconcileV2Boundaries lc v2 frozen) i)"
    unfolding v2_by_turn_def by (rule sorted_wrt_filter [OF reconciled_v2(2) [OF span]])
  assume b: "b \<in> set (v2_by_turn (reconcileV2Boundaries lc v2 frozen) i)"
  then show "b \<in> set (reconcileV2Boundaries lc v2 frozen) \<and> v2_turnIndex b = i"
    by (auto simp: v2_by_turn_def)
qed

lemma turns_ready:
  assumes h: "history_of ms h" and d: "distinct (normal_user_ids ms)"
    and v2: "resolveV2Boundaries h bs = Inr v2"
    and c: "\<forall>iv\<in>set (reconcileV2Boundaries lc v2 (frozen_turn v1)). contiguous_turn (h_turns h ! v2_turnIndex iv)"
    and i: "i < length (h_turns h)" "\<not> frozen_turn v1 i"
  shows "turn_ready (fragmented_turn (h_turns h) mc v1 v2)
    (v2_by_turn (reconcileV2Boundaries lc v2 (frozen_turn v1))) mc i (h_turns h ! i)"
proof -
  let ?bs = "v2_by_turn (reconcileV2Boundaries lc v2 (frozen_turn v1)) i"
  note sp = selected_turn_spans [OF h v2, where lc = lc and frozen = "frozen_turn v1" and i = i]
  have "\<exists>parts. fragmentTurn (h_turns h ! i) ?bs mc = Inr parts"
  proof (rule fragmentTurn_total)
    show "t_messages (h_turns h ! i) \<noteq> []" by (rule history_turn_nonempty [OF h d i(1)])
    show "spans_in 0 ?bs (length (t_messages (h_turns h ! i)))" if "contiguous_turn (h_turns h ! i)"
      by (rule selected_spans_in [OF that sp(1)]) (auto dest: selected_v2_spans [OF h v2])
    show "?bs = []" if "\<not> contiguous_turn (h_turns h ! i)"
    proof (rule ccontr)
      assume "?bs \<noteq> []"
      then have "hd ?bs \<in> set ?bs" by simp
      from sp(2) [OF this] c that show False by auto
    qed
  qed
  moreover have "t_charCount (h_turns h ! i) \<le> mc" if "\<not> fragmented_turn (h_turns h) mc v1 v2 i"
    using that i history_turn(1) [OF h i(1)] by (auto simp: fragmented_turn_def not_less)
  ultimately show ?thesis by (simp add: turn_ready_def)
qed

text \<open>
  C2. With a positive limit and distinct normal user IDs, \<open>segmentMessages\<close> fails only for a committed
  boundary: one \<open>boundaryVersion\<close> or \<open>resolveV2Boundaries\<close> rejects, or one that is selected for its turn
  although the turn's messages are not consecutive in the transcript. If every boundary resolves and the
  spans \<open>reconcileV2Boundaries\<close> selects outside the frozen turns lie in contiguous turns, it returns
  segments. So \<open>Cannot create an empty segment\<close>, \<open>Oversized turns must use source-message boundaries\<close>,
  \<open>Cannot fragment an empty turn\<close> and \<open>Selected V2 source boundaries overlap\<close> are unreachable there.
\<close>

theorem segmentMessages_total:
  assumes "0 < maxChars" and "distinct (normal_user_ids ms)"
    and "resolveV2Boundaries (canonicalHistory ms) bs = Inr v2"
    and "\<And>v1. reconcileV1Boundaries lc (h_turns (canonicalHistory ms)) bs = Inr v1 \<Longrightarrow>
      \<forall>iv\<in>set (reconcileV2Boundaries lc v2 (frozen_turn v1)). contiguous_turn (h_turns (canonicalHistory ms) ! v2_turnIndex iv)"
  shows "\<exists>segs. segmentMessages lc ms maxChars bs = Inr segs"
proof -
  let ?h = "canonicalHistory ms" and ?mc = "enat (nat maxChars)"
  have h: "history_of ms ?h" by (rule canonicalHistory_history_of)
  obtain v1 where v1: "reconcileV1Boundaries lc (h_turns ?h) bs = Inr v1"
    using reconcileV1_total resolved_versions [OF assms(3)] by metis
  note r1 = reconciled_v1 [OF v1]
  let ?frag = "fragmented_turn (h_turns ?h) ?mc v1 v2"
  let ?sel = "reconcileV2Boundaries lc v2 (frozen_turn v1)"
  have msgs: "\<forall>t\<in>set (h_turns ?h). t_messages t \<noteq> []"
    using history_turn_nonempty [OF h assms(2)] by (auto simp: in_set_conv_nth)
  have ready: "turn_ready ?frag (v2_by_turn ?sel) ?mc i (h_turns ?h ! i)"
    if "i < length (h_turns ?h)" "\<not> frozen_turn v1 i" for i
    by (rule turns_ready [OF h assms(2,3) assms(4) [OF v1] that])
  have "\<exists>segs. segment_loop (h_turns ?h) (v1_by_start v1) ?frag (v2_by_turn ?sel) ?mc [] 0 (h_turns ?h) = Inr segs"
    using r1 msgs ready assms(1)
    by (intro segment_loop_total [OF refl r1(2)]) (auto simp: v1_span_def span_free_0 zero_enat_def)
  then show ?thesis using assms(1,3) v1 by (simp add: segmentMessages_def Let_def)
qed

theorem segmentMessages_partition_witness:
  "\<exists>segs. segmentMessages (\<lambda>_ _. 0) sample_transcript 4 [] = Inr segs
    \<and> mset (segments_ids segs) = mset [[97], [98], [99], [100]]"
proof -
  have "\<not> isl (segmentMessages (\<lambda>_ _. 0) sample_transcript 4 [])" by code_simp
  then obtain segs where s: "segmentMessages (\<lambda>_ _. 0) sample_transcript 4 [] = Inr segs"
    by (cases "segmentMessages (\<lambda>_ _. 0) sample_transcript 4 []") simp_all
  have "segmented_ids sample_transcript = [[97], [98], [99], [100]]" by code_simp
  then show ?thesis using s segmentMessages_partition [OF s] by simp
qed

text \<open>A committed v2 boundary over the first two messages of the first turn.\<close>

definition sample_span :: committed_boundary where
  "sample_span = \<lparr>cb_id = None, cb_startUser = [97], cb_endUser = [97], cb_version = Some 2,
     cb_startSource = Some [97], cb_endSource = Some [98], cb_projectionVersion = None,
     cb_sourceEligible = None, cb_sourceFingerprint = None\<rparr>"

theorem segmentMessages_total_witness:
  "\<exists>segs. segmentMessages (\<lambda>_ _. 0) sample_transcript 4 [sample_span] = Inr segs"
proof -
  let ?h = "canonicalHistory sample_transcript" and ?lc = "\<lambda>_ _. 0 :: int"
  have "case reconcileV1Boundaries ?lc (h_turns ?h) [sample_span] of Inl _ \<Rightarrow> False
    | Inr v1 \<Rightarrow> (case resolveV2Boundaries ?h [sample_span] of Inl _ \<Rightarrow> False
        | Inr v2 \<Rightarrow> list_all (\<lambda>iv. contiguous_turn (h_turns ?h ! v2_turnIndex iv)) (reconcileV2Boundaries ?lc v2 (frozen_turn v1))
            \<and> reconcileV2Boundaries ?lc v2 (frozen_turn v1) \<noteq> [])"
    by code_simp
  then obtain v2 where v2: "resolveV2Boundaries ?h [sample_span] = Inr v2"
    "\<And>v1. reconcileV1Boundaries ?lc (h_turns ?h) [sample_span] = Inr v1 \<Longrightarrow>
      \<forall>iv\<in>set (reconcileV2Boundaries ?lc v2 (frozen_turn v1)). contiguous_turn (h_turns ?h ! v2_turnIndex iv)"
    by (cases "resolveV2Boundaries ?h [sample_span]") (auto simp: list_all_iff split: sum.splits)
  have "distinct (normal_user_ids sample_transcript)" by code_simp
  from segmentMessages_total [OF _ this v2] show ?thesis by simp
qed

end
