(* ===== verification/ReadBack.thy ===== *)
theory ReadBack
  imports Segmentation
begin

text \<open>
  \<open>readSegmentMessages\<close> of \<open>packages/shared/src/segmentation.ts\<close>: reading the messages of a stored
  boundary back from the transcript, and the round trip with \<open>segmentMessages\<close>.
\<close>

section \<open>Reading a boundary back\<close>

definition readSegmentMessages ::
  "message list \<Rightarrow> committed_boundary \<Rightarrow> reflection_message list result" where
  "readSegmentMessages ms b =
     (let h = canonicalHistory ms in
      rbind (boundaryVersion b) (\<lambda>v.
        if v = 2
        then rbind (resolve_v2 h b) (\<lambda>ivs.
             case ivs of
               [] \<Rightarrow> Inl ''V2 source boundary was not found''
             | iv # _ \<Rightarrow> Inr (fst (reflected (js_slice (startIndex iv) (Suc (endIndex iv)) (h_messages h)))))
        else case (turn_index_of (h_turns h) (cb_startUser b), turn_index_of (h_turns h) (cb_endUser b)) of
            (Some i, Some j) \<Rightarrow>
              (if i > j then Inl ''Segment user boundaries are out of order''
               else Inr (fst (reflected (concat (map t_messages (js_slice i (Suc j) (h_turns h)))))))
          | _ \<Rightarrow> Inl ''Segment user boundary was not found''))"

section \<open>The shape of a produced segment\<close>

text \<open>
  Every segment of \<open>segmentMessages\<close> covers a run of whole turns, or an exact span of one turn whose
  messages are consecutive in the transcript.
\<close>

definition v1_shape :: "canonical_history \<Rightarrow> segment \<Rightarrow> bool" where
  "v1_shape h s \<longleftrightarrow> (\<exists>i j c pv. i \<le> j \<and> j < length (h_turns h)
     \<and> makeV1Segment (js_slice i (Suc j) (h_turns h)) c pv = Inr s)"

definition v2_shape :: "canonical_history \<Rightarrow> nat \<Rightarrow> segment \<Rightarrow> bool" where
  "v2_shape h t s \<longleftrightarrow> contiguous_turn (h_turns h ! t)
     \<and> (\<exists>a b c pv. a \<le> b \<and> b < length (t_messages (h_turns h ! t))
          \<and> makeV2Segment (h_turns h ! t) (js_slice a (Suc b) (t_messages (h_turns h ! t))) c pv = Inr s)"

definition segment_shape :: "canonical_history \<Rightarrow> segment \<Rightarrow> bool" where
  "segment_shape h s \<longleftrightarrow> v1_shape h s \<or> (\<exists>t<length (h_turns h). v2_shape h t s)"

lemma packing_slice:
  "packing mc fc bs (js_slice k i xs) \<Longrightarrow> k \<le> i \<Longrightarrow> i \<le> length xs \<Longrightarrow> (b, c) \<in> set bs \<Longrightarrow>
   \<exists>p q. p \<le> q \<and> q < length xs \<and> b = js_slice p (Suc q) xs"
proof (induction bs arbitrary: k)
  case (Cons bc bs)
  obtain b' c' where bc: "bc = (b', c')" by fastforce
  with Cons.prems(1) have b': "b' \<noteq> []" "take (length b') (js_slice k i xs) = b'"
    and rest: "packing mc fc bs (drop (length b') (js_slice k i xs))"
    by (auto simp: Let_def)
  from b'(2) have "length b' \<le> length (js_slice k i xs)" by (metis length_take min.cobounded1 nat_le_linear take_all)
  then have len: "length b' \<le> i - k" using Cons.prems(3) by (simp add: length_slice)
  have b'_slice: "b' = js_slice k (k + length b') xs"
    using b'(2) len by (simp add: js_slice_def min_def)
  have drop: "drop (length b') (js_slice k i xs) = js_slice (k + length b') i xs"
    by (simp add: js_slice_def drop_take add.commute diff_diff_add)
  show ?case
  proof (cases "(b, c) = bc")
    case True
    have "k + length b' = Suc (k + length b' - 1)" "k + length b' - 1 < length xs"
      "k \<le> k + length b' - 1"
      using b'(1) len Cons.prems(2,3) by (cases b'; auto)+
    with True bc b'_slice show ?thesis by (intro exI [of _ k] exI [of _ "k + length b' - 1"]) auto
  next
    case False
    with Cons.prems(4) have "(b, c) \<in> set bs" by auto
    then show ?thesis using Cons.prems(2,3) len rest unfolding drop by (intro Cons.IH [of "k + length b'"]) auto
  qed
qed simp

lemma packTurns_shape:
  assumes "packTurns (js_slice k i (h_turns h)) mc fc = Inr segs" "0 < mc"
    and "k \<le> i" "i \<le> length (h_turns h)" "s \<in> set segs"
  shows "v1_shape h s"
proof -
  from packTurns_blocks [OF assms(1) packTurns_light [OF assms(1)] assms(2)] obtain bs where
    bs: "packing mc fc bs (js_slice k i (h_turns h))"
      "list_all2 (\<lambda>(b, c) s. makeV1Segment b c None = Inr s) bs segs" .
  from bs(2) assms(5) obtain b c where "(b, c) \<in> set bs" "makeV1Segment b c None = Inr s"
    by (fastforce simp: in_set_conv_nth list_all2_conv_all_nth)
  with packing_slice [OF bs(1) assms(3,4)] show ?thesis unfolding v1_shape_def by metis
qed

lemma slice_slice:
  "j \<le> length (js_slice a b xs) \<Longrightarrow> js_slice i j (js_slice a b xs) = js_slice (a + i) (a + j) xs"
proof -
  assume "j \<le> length (js_slice a b xs)"
  then have "j - i \<le> b - a - i" by (simp only: length_slice)
  then show ?thesis by (simp add: js_slice_def drop_take min_absorb1 add.commute diff_diff_add)
qed

lemma fragmentSourceRange_shape:
  assumes "fragmentSourceRange (h_turns h ! t) (js_slice a b (t_messages (h_turns h ! t))) mc fc = Inr segs"
    and "contiguous_turn (h_turns h ! t)" "s \<in> set segs"
  shows "v2_shape h t s"
proof -
  let ?ms = "t_messages (h_turns h ! t)"
  from fragmentSourceRange_made [OF assms(1)] assms(3) obtain i j c where
    r: "(i, j, c) \<in> set (fragment_ranges (js_slice a b ?ms) mc fc)"
    and s: "makeV2Segment (h_turns h ! t) (js_slice i j (js_slice a b ?ms)) c None = Inr s"
    by (fastforce simp: in_set_conv_nth list_all2_conv_all_nth)
  from tiling_bounds [OF fragment_ranges_ok(1) r] have ij: "i < j" "j \<le> length (js_slice a b ?ms)" by auto
  then have "a + i \<le> a + j - 1" "a + j - 1 < length ?ms" "Suc (a + j - 1) = a + j"
    by (auto simp: length_slice)
  with s assms(2) show ?thesis
    unfolding slice_slice [OF ij(2)] v2_shape_def by metis
qed

lemma fragment_spans_shape:
  assumes "fragment_spans (h_turns h ! t) mc cursor bs = Inr segs" "contiguous_turn (h_turns h ! t)"
    and "\<forall>b\<in>set bs. v2_startOffset b \<le> v2_endOffset b \<and> v2_endOffset b < length (t_messages (h_turns h ! t))"
    and "s \<in> set segs"
  shows "v2_shape h t s"
  using assms
proof (induction bs arbitrary: cursor segs)
  case Nil
  let ?ms = "t_messages (h_turns h ! t)"
  have "drop cursor ?ms = js_slice cursor (length ?ms) ?ms" by (simp add: slice_to_end)
  with Nil show ?case using fragmentSourceRange_shape by (metis fragment_spans.simps(1))
next
  case (Cons b bs)
  let ?ms = "t_messages (h_turns h ! t)"
  from Cons.prems(1) obtain before m c pv rest where
    before: "fragmentSourceRange (h_turns h ! t) (js_slice cursor (v2_startOffset b) ?ms) mc True = Inr before"
    and m: "makeV2Segment (h_turns h ! t) (js_slice (v2_startOffset b) (Suc (v2_endOffset b)) ?ms) c pv = Inr m"
    and rest: "fragment_spans (h_turns h ! t) mc (Suc (v2_endOffset b)) bs = Inr rest"
    and segs: "segs = before @ m # rest"
    by (auto simp: Let_def)
  from Cons.prems(4) consider "s \<in> set before" | "s = m" | "s \<in> set rest" by (auto simp: segs)
  then show ?case
  proof cases
    case 1
    then show ?thesis by (rule fragmentSourceRange_shape [OF before Cons.prems(2)])
  next
    case 2
    have "v2_startOffset b \<le> v2_endOffset b" "v2_endOffset b < length ?ms" using Cons.prems(3) by auto
    with m Cons.prems(2) show ?thesis unfolding 2 v2_shape_def by blast
  next
    case 3
    then show ?thesis using Cons.prems(2,3) by (intro Cons.IH [OF rest]) auto
  qed
qed

lemma fragmentTurn_shape:
  assumes "fragmentTurn (h_turns h ! t) bs mc = Inr segs" "t < length (h_turns h)"
    and "\<forall>b\<in>set bs. v2_startOffset b \<le> v2_endOffset b \<and> v2_endOffset b < length (t_messages (h_turns h ! t))"
    and "s \<in> set segs"
  shows "segment_shape h s"
proof (cases "contiguous_turn (h_turns h ! t)")
  case True
  with assms(1) have "fragment_spans (h_turns h ! t) mc 0 bs = Inr segs"
    by (auto simp: fragmentTurn_def split: if_splits)
  from fragment_spans_shape [OF this True assms(3,4)] assms(2) show ?thesis
    by (auto simp: segment_shape_def)
next
  case False
  with assms(1,4) have s: "makeV1Segment [h_turns h ! t] (t_closed (h_turns h ! t)) None = Inr s"
    by (auto simp: fragmentTurn_def split: if_splits)
  have "js_slice t (Suc t) (h_turns h) = [h_turns h ! t]"
    using assms(2) by (simp add: js_slice_def take_Suc hd_drop_conv_nth)
  with s have "makeV1Segment (js_slice t (Suc t) (h_turns h)) (t_closed (h_turns h ! t)) None = Inr s"
    by simp
  with assms(2) have "v1_shape h s" unfolding v1_shape_def by blast
  then show ?thesis by (simp add: segment_shape_def)
qed

lemma segment_loop_shape:
  assumes "turns = h_turns h" "v1_starts v1" "\<forall>i b. v1 i = Some b \<longrightarrow> endIndex b < length turns"
    and "\<forall>i b. b \<in> set (v2 i) \<longrightarrow> v2_startOffset b \<le> v2_endOffset b \<and> v2_endOffset b < length (t_messages (turns ! i))"
    and "0 < mc" "k \<le> i" "i \<le> length turns" "ordinary = js_slice k i turns" "remaining = drop i turns"
    and "segment_loop turns v1 frag v2 mc ordinary i remaining = Inr segs" "s \<in> set segs"
  shows "segment_shape h s"
  using assms
proof (induction turns v1 frag v2 mc ordinary i remaining arbitrary: k segs rule: segment_loop.induct)
  case (1 turns v1 frag v2 mc ordinary i)
  then have "packTurns (js_slice k i (h_turns h)) mc False = Inr segs" by simp
  from packTurns_shape [OF this] 1 show ?case by (simp add: segment_shape_def)
next
  case (2 turns v1 frag v2 mc ordinary i turn remaining)
  have i: "i < length turns" and turn: "turn = turns ! i"
    using "2.prems"(9) by (metis drop_eq_Nil list.distinct(1) not_le, metis drop_eq_Nil hd_drop_conv_nth list.distinct(1) list.sel(1) not_le)
  have rem: "remaining = drop (Suc i) turns"
    using "2.prems"(9) by (metis drop_Suc list.sel(3) tl_drop)
  have packed: "segment_shape h s" if "packTurns ordinary mc True = Inr before" "s \<in> set before" for before
    using packTurns_shape [of k i h mc True before s] that "2.prems"(1,5-8) by (simp add: segment_shape_def)
  show ?case
  proof (cases "v1 i")
    case (Some b)
    have b: "startIndex b = i" "i \<le> endIndex b" "endIndex b < length turns"
      using "2.prems"(2,3) Some by (auto simp: v1_starts_def)
    from "2.prems"(10) Some obtain before c m rest where before: "packTurns ordinary mc True = Inr before"
      and m: "makeV1Segment (js_slice (startIndex b) (Suc (endIndex b)) turns) c
          (cb_projectionVersion (boundary b)) = Inr m"
      and rest: "segment_loop turns v1 frag v2 mc [] (Suc (endIndex b))
          (drop (endIndex b - i) remaining) = Inr rest"
      and segs: "segs = before @ m # rest"
      by (auto simp: Let_def)
    from "2.prems"(11) consider "s \<in> set before" | "s = m" | "s \<in> set rest" by (auto simp: segs)
    then show ?thesis
    proof cases
      case 1
      then show ?thesis by (rule packed [OF before])
    next
      case 2
      have "v1_shape h s" using m b "2.prems"(1) unfolding 2 v1_shape_def by auto
      then show ?thesis by (simp add: segment_shape_def)
    next
      case 3
      show ?thesis
        by (rule "2.IH"(3) [OF Some refl refl "2.prems"(1-5), of "Suc (endIndex b)", OF _ _ _ _ rest 3])
          (use b covered_rest(2) [OF b(1,2) "2.prems"(9)] in auto)
    qed
  next
    case None
    show ?thesis
    proof (cases "frag i")
      case True
      with "2.prems"(10) None obtain before parts rest where before: "packTurns ordinary mc True = Inr before"
        and parts: "fragmentTurn turn (v2 i) mc = Inr parts"
        and rest: "segment_loop turns v1 frag v2 mc [] (Suc i) remaining = Inr rest"
        and segs: "segs = before @ parts @ rest" by auto
      from "2.prems"(11) consider "s \<in> set before" | "s \<in> set parts" | "s \<in> set rest" by (auto simp: segs)
      then show ?thesis
      proof cases
        case 1
        then show ?thesis by (rule packed [OF before])
      next
        case 2
        show ?thesis
          by (rule fragmentTurn_shape [OF parts [unfolded turn "2.prems"(1)] _ _ 2])
            (use i "2.prems"(1,4) in auto)
      next
        case 3
        show ?thesis
          by (rule "2.IH"(1) [OF None True "2.prems"(1-5), of "Suc i", OF _ _ _ rem rest 3]) (use i in auto)
      qed
    next
      case False
      have ord: "ordinary @ [turn] = js_slice k (Suc i) turns"
        using "2.prems"(6,8) i turn by (simp add: slice_Suc)
      have loop: "segment_loop turns v1 frag v2 mc (ordinary @ [turn]) (Suc i) remaining = Inr segs"
        using "2.prems"(10) None False by simp
      show ?thesis
        by (rule "2.IH"(2) [OF None False "2.prems"(1-5) _ _ ord rem loop "2.prems"(11)])
          (use i "2.prems"(6) in auto)
    qed
  qed
qed

lemma segmentMessages_shape:
  assumes "segmentMessages lc ms maxChars bs = Inr segs" "s \<in> set segs"
  shows "segment_shape (canonicalHistory ms) s"
proof -
  let ?h = "canonicalHistory ms"
  have h: "history_of ms ?h" by (rule canonicalHistory_history_of)
  from assms(1) obtain v1 v2 where limit: "0 < maxChars"
    and v1: "reconcileV1Boundaries lc (h_turns ?h) bs = Inr v1"
    and v2: "resolveV2Boundaries ?h bs = Inr v2"
    and loop: "segment_loop (h_turns ?h) (v1_by_start v1)
       (fragmented_turn (h_turns ?h) (enat (nat maxChars)) v1 v2)
       (v2_by_turn (reconcileV2Boundaries lc v2 (frozen_turn v1))) (enat (nat maxChars)) [] 0
       (h_turns ?h) = Inr segs"
    by (rule segmentMessages_InrE)
  have "\<forall>i b. v1_by_start v1 i = Some b \<longrightarrow> endIndex b < length (h_turns ?h)"
    using reconciled_v1(1) [OF v1] by (fastforce simp: v1_span_def dest: v1_by_start_SomeD)
  moreover have "\<forall>i b. b \<in> set (v2_by_turn (reconcileV2Boundaries lc v2 (frozen_turn v1)) i) \<longrightarrow>
      v2_startOffset b \<le> v2_endOffset b \<and> v2_endOffset b < length (t_messages (h_turns ?h ! i))"
  proof (intro allI impI)
    fix i b assume b: "b \<in> set (v2_by_turn (reconcileV2Boundaries lc v2 (frozen_turn v1)) i)"
    from selected_v2_spans [OF h v2 b] show "v2_startOffset b \<le> v2_endOffset b \<and>
        v2_endOffset b < length (t_messages (h_turns ?h ! i))" by (auto simp: v2_span_def)
  qed
  ultimately show ?thesis
    using limit assms(2)
    by (intro segment_loop_shape [OF refl selected_v1_starts [OF v1] _ _ _ _ _ _ _ loop, where k = 0])
      (simp_all add: zero_enat_def)
qed

section \<open>Reading a produced segment back\<close>

text \<open>The boundary a client stores for a segment.\<close>

definition boundary_of :: "segment \<Rightarrow> committed_boundary" where
  "boundary_of s = \<lparr>cb_id = None, cb_startUser = sg_startUserMessageId s,
     cb_endUser = sg_endUserMessageId s, cb_version = Some (sg_sourceBoundaryVersion s),
     cb_startSource = sg_startSourceMessageId s, cb_endSource = sg_endSourceMessageId s,
     cb_projectionVersion = sg_projectionVersion s, cb_sourceEligible = None,
     cb_sourceFingerprint = None\<rparr>"

lemma reflected_ordered [simp]: "reflected (orderedSourceMessages xs) = reflected xs"
  by (simp add: reflected_def ordered_sorted_id [OF ordered_sorted])

lemma turn_index_of_nth:
  assumes h: "history_of ms h" and d: "distinct (normal_user_ids ms)" and i: "i < length (h_turns h)"
  shows "turn_index_of (h_turns h) (t_userMessageId (h_turns h ! i)) = Some i"
proof -
  have len: "length (h_turns h) = length (normal_user_ids ms)" using h by (simp add: history_of_def)
  show ?thesis
    unfolding turn_index_of_def
    by (rule last_index_unique)
      (use i d len history_turn(2) [OF h] in \<open>auto simp: nth_eq_iff_index_eq\<close>)
qed

lemma read_v1:
  assumes h: "h = canonicalHistory ms" and d: "distinct (normal_user_ids ms)" and s: "v1_shape h s"
  shows "readSegmentMessages ms (boundary_of s) = Inr (sg_messages s)"
proof -
  have hist: "history_of ms h" unfolding h by (rule canonicalHistory_history_of)
  from s obtain i j c pv where ij: "i \<le> j" "j < length (h_turns h)"
    and mk: "makeV1Segment (js_slice i (Suc j) (h_turns h)) c pv = Inr s"
    by (auto simp: v1_shape_def)
  note f = makeV1Segment_Inr [OF mk]
  have "hd (js_slice i (Suc j) (h_turns h)) = h_turns h ! i"
    using ij by (simp add: js_slice_def hd_drop_conv_nth)
  moreover have "last (js_slice i (Suc j) (h_turns h)) = h_turns h ! j"
    using ij by (simp add: slice_Suc)
  ultimately have "turn_index_of (h_turns h) (cb_startUser (boundary_of s)) = Some i"
    "turn_index_of (h_turns h) (cb_endUser (boundary_of s)) = Some j"
    using turn_index_of_nth [OF hist d] ij by (simp_all add: boundary_of_def f)
  moreover have "boundaryVersion (boundary_of s) = Inr 1"
    by (simp add: boundaryVersion_def boundary_of_def f)
  ultimately show ?thesis
    using ij by (simp add: readSegmentMessages_def Let_def h [symmetric] f)
qed

lemma uniqueSourceIndex_distinct:
  assumes "distinct (map source_id sources)" "x \<in> set sources"
  shows "uniqueSourceIndex sources (source_id x) = Some (Some (ix_sourceIndex x))"
proof -
  have "filter (\<lambda>y. source_id y = source_id x) sources = [x]"
    using assms
  proof (induction sources)
    case (Cons y ys)
    show ?case
    proof (cases "y = x")
      case True
      with Cons.prems(1) have "source_id x \<notin> source_id ` set ys" by simp
      then have "filter (\<lambda>z. source_id z = source_id x) ys = []"
        unfolding filter_empty_conv by (metis image_eqI)
      with True show ?thesis by simp
    next
      case False
      with Cons.prems have "x \<in> set ys" "source_id y \<noteq> source_id x" by auto
      with Cons show ?thesis by simp
    qed
  qed simp
  then show ?thesis by (simp add: uniqueSourceIndex_def)
qed

lemma history_slice:
  assumes h: "history_of ms h" and t: "t < length (h_turns h)" and c: "contiguous_turn (h_turns h ! t)"
    and ab: "a \<le> b" "b < length (t_messages (h_turns h ! t))"
  defines "base \<equiv> ix_sourceIndex (t_messages (h_turns h ! t) ! 0)"
  shows "js_slice (base + a) (Suc (base + b)) (h_messages h) = js_slice a (Suc b) (t_messages (h_turns h ! t))"
    and "base + b < length (h_messages h)"
proof -
  let ?ms = "t_messages (h_turns h ! t)"
  have sub: "set ?ms \<subseteq> set (h_messages h)"
    using history_turn(3) [OF h t] by (auto simp: turn_messages_def)
  have at: "base + k < length (h_messages h) \<and> h_messages h ! (base + k) = ?ms ! k" if "k < length ?ms" for k
  proof -
    have "?ms ! k \<in> set (h_messages h)" using sub that by (meson nth_mem subsetD)
    from history_index_less [OF h this] offset_of_source [OF c that]
    show ?thesis by (simp add: base_def)
  qed
  from at ab(2) show *: "base + b < length (h_messages h)" by blast
  show "js_slice (base + a) (Suc (base + b)) (h_messages h) = js_slice a (Suc b) ?ms"
  proof (rule nth_equalityI)
    show "length (js_slice (base + a) (Suc (base + b)) (h_messages h)) = length (js_slice a (Suc b) ?ms)"
      using * ab by (simp add: length_slice min_def)
    fix n assume "n < length (js_slice (base + a) (Suc (base + b)) (h_messages h))"
    then have n: "n < Suc b - a" "a + n < length ?ms" using ab by (auto simp: length_slice)
    then show "js_slice (base + a) (Suc (base + b)) (h_messages h) ! n = js_slice a (Suc b) ?ms ! n"
      using at [of "a + n"] by (simp add: nth_slice add.assoc)
  qed
qed

lemma read_v2:
  assumes h: "h = canonicalHistory ms" and d: "distinct (normal_user_ids ms)"
    and ids: "distinct (segmented_ids ms)" "\<forall>i\<in>set (segmented_ids ms). trim i \<noteq> []"
    and t: "t < length (h_turns h)" and s: "v2_shape h t s"
  shows "readSegmentMessages ms (boundary_of s) = Inr (sg_messages s)"
proof -
  let ?turn = "h_turns h ! t" and ?ms = "t_messages (h_turns h ! t)"
  have hist: "history_of ms h" unfolding h by (rule canonicalHistory_history_of)
  from s obtain a b c pv where con: "contiguous_turn ?turn" and ab: "a \<le> b" "b < length ?ms"
    and mk: "makeV2Segment ?turn (js_slice a (Suc b) ?ms) c pv = Inr s"
    by (auto simp: v2_shape_def)
  define base where "base = ix_sourceIndex (?ms ! 0)"
  note sl = history_slice [OF hist t con ab, folded base_def]
  have sorted: "sorted (map ix_sourceIndex ?ms)"
    unfolding history_turn(3) [OF hist t] by (rule turn_messages_sorted [OF history_sorted [OF hist]])
  have ordered: "orderedSourceMessages (js_slice a (Suc b) ?ms) = js_slice a (Suc b) ?ms"
    by (rule ordered_sorted_id)
      (use sorted in \<open>simp add: js_slice_def sorted_wrt_take sorted_wrt_drop flip: take_map drop_map\<close>)
  have ends: "hd (js_slice a (Suc b) ?ms) = ?ms ! a" "last (js_slice a (Suc b) ?ms) = ?ms ! b"
    using ab by (simp_all add: slice_Suc) (simp add: js_slice_def hd_append hd_drop_conv_nth)
  note f = makeV2Segment_Inr [OF mk, unfolded ordered ends]
  have mem: "?ms ! k \<in> set (h_messages h)" if "k < length ?ms" for k
    using that nth_mem [OF that] history_turn(3) [OF hist t] by (auto simp: turn_messages_def)
  have idx: "ix_sourceIndex (?ms ! k) = base + k" if "k < length ?ms" for k
    using offset_of_source [OF con that] by (simp add: base_def)
  have uniq: "uniqueSourceIndex (h_messages h) (source_id (?ms ! k)) = Some (Some (base + k))"
    if "k < length ?ms" for k
    using uniqueSourceIndex_distinct [of "h_messages h" "?ms ! k"] ids(1) mem [OF that] idx [OF that]
    by (simp add: history_source_ids [OF hist])
  have trims: "trim (source_id (?ms ! k)) \<noteq> []" if "k < length ?ms" for k
    using ids(2) mem [OF that] by (simp flip: history_source_ids [OF hist])
  have version: "boundaryVersion (boundary_of s) = Inr 2"
    using ab trims [of a] trims [of b] by (simp add: boundaryVersion_def boundary_of_def f)
  have find: "find_index (\<lambda>x. ix_sourceIndex x = base + k) ?ms = Some k" if "k < length ?ms" for k
    by (rule find_index_unique) (use that idx in auto)
  have "locate_span h (boundary_of s) ?turn (base + a) (base + b) =
      Inr \<lparr>boundary = boundary_of s, startIndex = base + a, endIndex = base + b, key = [],
        v2_turnIndex = t, v2_startOffset = a, v2_endOffset = b\<rparr>"
  proof -
    have "js_slice a (Suc b) ?ms \<noteq> []" using ab by (intro slice_not_Nil) auto
    moreover have "ix_turnIndex x = t" if "x \<in> set (js_slice a (Suc b) ?ms)" for x
      using that set_slice_subset [of a "Suc b" ?ms] history_turn(3) [OF hist t]
      by (auto simp: turn_messages_def)
    ultimately show ?thesis
      using ab find [of a] find [of b]
      by (simp add: locate_span_def sl(1) [simplified] history_turn(1) [OF hist t] Let_def)
  qed
  then show ?thesis
    using ab uniq [of a] uniq [of b] turn_index_of_nth [OF hist d t] sl(1) version
    by (simp add: readSegmentMessages_def resolve_v2_def Let_def h [symmetric] boundary_of_def f)
qed

text \<open>
  C3. Round trip: when user IDs and message IDs are distinct and no message ID is blank, the
  boundary of every segment \<open>segmentMessages\<close> produces, v1 or v2, reads back with
  \<open>readSegmentMessages\<close> and yields exactly the messages the segment carries.
\<close>

theorem segment_read_back:
  assumes "segmentMessages lc ms maxChars bs = Inr segs" "s \<in> set segs"
    and "distinct (normal_user_ids ms)" "distinct (segmented_ids ms)"
    and "\<forall>i\<in>set (segmented_ids ms). trim i \<noteq> []"
  shows "readSegmentMessages ms (boundary_of s) = Inr (sg_messages s)"
  using segmentMessages_shape [OF assms(1,2)] read_v1 [OF refl assms(3)] read_v2 [OF refl assms(3-5)]
  unfolding segment_shape_def by blast

theorem segment_read_back_witness:
  "\<exists>s segs. segmentMessages (\<lambda>_ _. 0) sample_transcript 4 [] = Inr (s # segs)
    \<and> sg_sourceBoundaryVersion s = 2
    \<and> readSegmentMessages sample_transcript (boundary_of s) = Inr (sg_messages s)"
proof -
  have "case segmentMessages (\<lambda>_ _. 0) sample_transcript 4 [] of Inl _ \<Rightarrow> False
    | Inr segs \<Rightarrow> segs \<noteq> [] \<and> sg_sourceBoundaryVersion (hd segs) = 2" by code_simp
  then obtain s segs where s: "segmentMessages (\<lambda>_ _. 0) sample_transcript 4 [] = Inr (s # segs)"
    "sg_sourceBoundaryVersion s = 2"
    by (auto simp: neq_Nil_conv split: sum.splits)
  have "distinct (normal_user_ids sample_transcript)" "distinct (segmented_ids sample_transcript)"
    "\<forall>i\<in>set (segmented_ids sample_transcript). trim i \<noteq> []"
    by code_simp+
  from segment_read_back [OF s(1) _ this] s show ?thesis by auto
qed

end
