(* ===== verification/Contracts.thy ===== *)
theory Contracts
  imports Json
begin

text \<open>
  The wire contract of an ingested segment: the request data of \<open>packages/shared/src/contracts.ts\<close>,
  \<open>sources.ts\<close>, \<open>native.ts\<close> and \<open>ingestion.ts\<close>, the parsers that normalise and check a JSON value,
  the payload the server persists, and decoding it again. A TypeBox schema is modelled by the check
  it makes; \<open>ContractValidationError\<close> is \<open>Inl\<close> of the name it carries.
\<close>

section \<open>Data\<close>

datatype source_kind = OpencodeV1 | OpencodeV2

datatype identity_scheme = Legacy | SourceV1

record source_info =
  src_id :: jsstr
  src_kind :: source_kind
  src_scheme :: identity_scheme

text \<open>
  The three boundary shapes, discriminated in the code by \<open>source_boundary_version\<close>; the functions
  after them are the columns the server stores, \<open>None\<close> for \<open>null\<close>.
\<close>

datatype source_boundary =
    Boundary1 jsstr jsstr
  | Boundary2 jsstr jsstr jsstr jsstr
  | Boundary3 jsstr jsstr

fun boundary_version :: "source_boundary \<Rightarrow> nat" where
  "boundary_version (Boundary1 su eu) = 1"
| "boundary_version (Boundary2 su eu ss es) = 2"
| "boundary_version (Boundary3 ss es) = 3"

fun start_user :: "source_boundary \<Rightarrow> jsstr option" where
  "start_user (Boundary1 su eu) = Some su"
| "start_user (Boundary2 su eu ss es) = Some su"
| "start_user (Boundary3 ss es) = None"

fun end_user :: "source_boundary \<Rightarrow> jsstr option" where
  "end_user (Boundary1 su eu) = Some eu"
| "end_user (Boundary2 su eu ss es) = Some eu"
| "end_user (Boundary3 ss es) = None"

fun start_source :: "source_boundary \<Rightarrow> jsstr option" where
  "start_source (Boundary1 su eu) = None"
| "start_source (Boundary2 su eu ss es) = Some ss"
| "start_source (Boundary3 ss es) = Some ss"

fun end_source :: "source_boundary \<Rightarrow> jsstr option" where
  "end_source (Boundary1 su eu) = None"
| "end_source (Boundary2 su eu ss es) = Some es"
| "end_source (Boundary3 ss es) = Some es"

text \<open>\<open>im_type\<close> is the role of a v1 or v2 message; only native messages have an ID.\<close>

record ingest_message =
  im_id :: jsstr
  im_type :: jsstr
  im_text :: jsstr

record request_body =
  rb_session_id :: jsstr
  rb_boundary :: source_boundary
  rb_projection_version :: nat
  rb_processing_priority :: nat
  rb_messages :: "ingest_message list"

record ingest_request =
  rq_source_id :: jsstr
  rq_body :: request_body

section \<open>Reading JSON\<close>

definition MAX_MESSAGE_TEXT_CHARS :: nat where
  "MAX_MESSAGE_TEXT_CHARS = 1000000"

definition MAX_SEGMENT_TEXT_CHARS :: nat where
  "MAX_SEGMENT_TEXT_CHARS = 2000000"

definition trimProperty :: "jsstr \<Rightarrow> jsval \<Rightarrow> jsval" where
  "trimProperty k v =
     (case record_of v of
        None \<Rightarrow> v
      | Some ps \<Rightarrow> (case property ps k of Str s \<Rightarrow> Obj (set_prop ps k (Str (trim s))) | _ \<Rightarrow> v))"

definition trimProperties :: "string list \<Rightarrow> jsval \<Rightarrow> jsval" where
  "trimProperties ks v = foldl (\<lambda>v k. trimProperty (js k) v) v ks"

text \<open>\<open>IdentifierSchema\<close> and \<open>Type.Integer({ minimum: 0, maximum })\<close>.\<close>

definition ident :: "jsval \<Rightarrow> jsstr option" where
  "ident v = (case v of Str s \<Rightarrow> if 1 \<le> length s \<and> length s \<le> 500 then Some s else None | _ \<Rightarrow> None)"

definition small_nat :: "nat \<Rightarrow> jsval \<Rightarrow> nat option" where
  "small_nat top_value v =
     (case v of Num n \<Rightarrow> find (\<lambda>k. decimal k = n) [0..<Suc top_value] | _ \<Rightarrow> None)"

definition num :: "nat \<Rightarrow> jsval" where
  "num n = Num (decimal n)"

definition only_keys :: "string list \<Rightarrow> (jsstr \<times> jsval) list \<Rightarrow> bool" where
  "only_keys ks ps \<longleftrightarrow> fst ` set ps \<subseteq> js ` set ks"

definition prop_of :: "(jsstr \<times> jsval) list \<Rightarrow> string \<Rightarrow> jsval" where
  "prop_of ps k = property ps (js k)"

definition parseSourceId :: "jsval \<Rightarrow> jsstr result" where
  "parseSourceId v =
     (case v of
        Str s \<Rightarrow> let t = trim s in if 1 \<le> length t \<and> length t \<le> 500 then Inr t else Inl ''invalid source''
      | _ \<Rightarrow> Inl ''invalid source'')"

definition parseSourceInfo :: "source_info \<Rightarrow> source_info result" where
  "parseSourceInfo s = rbind (parseSourceId (Str (src_id s))) (\<lambda>i. Inr (s\<lparr>src_id := i\<rparr>))"

section \<open>Legacy segment requests\<close>

definition source_message :: "jsval \<Rightarrow> ingest_message option" where
  "source_message v =
     (case record_of v of
        None \<Rightarrow> None
      | Some ps \<Rightarrow>
          if \<not> only_keys [''role'', ''text''] ps then None
          else case (prop_of ps ''role'', prop_of ps ''text'') of
              (Str role, Str t) \<Rightarrow>
                if (role = js ''user'' \<or> role = js ''assistant'') \<and> length t \<le> 2 * MAX_MESSAGE_TEXT_CHARS
                then Some \<lparr>im_id = [], im_type = role, im_text = t\<rparr> else None
            | _ \<Rightarrow> None)"

fun all_some :: "'a option list \<Rightarrow> 'a list option" where
  "all_some [] = Some []"
| "all_some (None # xs) = None"
| "all_some (Some x # xs) = map_option (Cons x) (all_some xs)"

definition message_array :: "(jsval \<Rightarrow> ingest_message option) \<Rightarrow> jsval \<Rightarrow> ingest_message list option" where
  "message_array f v =
     (case v of
        Arr vs \<Rightarrow> if 1 \<le> length vs \<and> length vs \<le> 10000 then all_some (map f vs) else None
      | _ \<Rightarrow> None)"

text \<open>The two members of \<open>CanonicalSegmentCreateSchema\<close>.\<close>

definition legacy_boundary :: "(jsstr \<times> jsval) list \<Rightarrow> source_boundary option" where
  "legacy_boundary ps =
     (case (ident (prop_of ps ''start_user_message_id''), ident (prop_of ps ''end_user_message_id'')) of
        (Some su, Some eu) \<Rightarrow>
          if prop_of ps ''source_boundary_version'' = num 1
             \<and> prop_of ps ''start_source_message_id'' = Null \<and> prop_of ps ''end_source_message_id'' = Null
          then Some (Boundary1 su eu)
          else if prop_of ps ''source_boundary_version'' = num 2
          then (case (ident (prop_of ps ''start_source_message_id''),
                      ident (prop_of ps ''end_source_message_id'')) of
                  (Some ss, Some es) \<Rightarrow> Some (Boundary2 su eu ss es) | _ \<Rightarrow> None)
          else None
      | _ \<Rightarrow> None)"

definition legacy_keys :: "string list" where
  "legacy_keys = [''session_id'', ''start_user_message_id'', ''end_user_message_id'',
     ''source_boundary_version'', ''start_source_message_id'', ''end_source_message_id'',
     ''projection_version'', ''processing_priority'', ''messages'']"

definition canonical_segment :: "jsval \<Rightarrow> request_body option" where
  "canonical_segment v =
     (case record_of v of
        None \<Rightarrow> None
      | Some ps \<Rightarrow>
          if \<not> only_keys legacy_keys ps then None
          else case (ident (prop_of ps ''session_id''), legacy_boundary ps,
                     small_nat 2 (prop_of ps ''projection_version''),
                     small_nat 100 (prop_of ps ''processing_priority''),
                     message_array source_message (prop_of ps ''messages'')) of
              (Some sid, Some b, Some pv, Some pri, Some ms) \<Rightarrow>
                Some \<lparr>rb_session_id = sid, rb_boundary = b, rb_projection_version = pv,
                  rb_processing_priority = pri, rb_messages = ms\<rparr>
            | _ \<Rightarrow> None)"

definition text_limits :: "ingest_message list \<Rightarrow> bool" where
  "text_limits ms \<longleftrightarrow> (\<forall>m\<in>set ms. codePointLength (im_text m) \<le> MAX_MESSAGE_TEXT_CHARS)
     \<and> foldl (\<lambda>n m. n + codePointLength (im_text m)) 0 ms \<le> MAX_SEGMENT_TEXT_CHARS"

definition or_null :: "jsval \<Rightarrow> jsval" where
  "or_null v = (if v = Undefined then Null else v)"

text \<open>The defaults \<open>parseSegmentCreate\<close> fills in: a boundary, a projection version, a priority.\<close>

definition default_boundary :: "jsval \<Rightarrow> jsval" where
  "default_boundary v =
     (case record_of v of
        None \<Rightarrow> v
      | Some ps \<Rightarrow>
          if js ''source_boundary_version'' \<notin> fst ` set ps \<and> js ''start_source_message_id'' \<notin> fst ` set ps
             \<and> js ''end_source_message_id'' \<notin> fst ` set ps
          then Obj (set_prop (set_prop (set_prop ps (js ''source_boundary_version'') (num 1))
                 (js ''start_source_message_id'') Null) (js ''end_source_message_id'') Null)
          else if prop_of ps ''source_boundary_version'' = num 1
          then Obj (set_prop (set_prop ps (js ''start_source_message_id'')
                   (or_null (prop_of ps ''start_source_message_id'')))
                 (js ''end_source_message_id'') (or_null (prop_of ps ''end_source_message_id'')))
          else v)"

definition default_projection :: "jsval \<Rightarrow> jsval" where
  "default_projection v =
     (case record_of v of
        None \<Rightarrow> v
      | Some ps \<Rightarrow> (case prop_of ps ''projection_version'' of
            Undefined \<Rightarrow> Obj (set_prop ps (js ''projection_version'') (num 0))
          | Boolean b \<Rightarrow> Obj (set_prop ps (js ''projection_version'') (num (if b then 1 else 0)))
          | _ \<Rightarrow> v))"

definition default_priority :: "jsval \<Rightarrow> jsval" where
  "default_priority v =
     (case record_of v of
        None \<Rightarrow> v
      | Some ps \<Rightarrow> if prop_of ps ''processing_priority'' = Undefined
                   then Obj (set_prop ps (js ''processing_priority'') (num 0)) else v)"

definition legacy_trimmed :: "string list" where
  "legacy_trimmed = [''session_id'', ''start_user_message_id'', ''end_user_message_id'',
     ''start_source_message_id'', ''end_source_message_id'']"

text \<open>An exact source boundary lies inside one user turn.\<close>

fun same_user :: "source_boundary \<Rightarrow> bool" where
  "same_user (Boundary2 su eu ss es) \<longleftrightarrow> su = eu"
| "same_user _ = True"

definition parseSegmentCreate :: "jsval \<Rightarrow> request_body result" where
  "parseSegmentCreate v =
     (case canonical_segment (default_priority (default_projection (default_boundary
             (trimProperties legacy_trimmed v)))) of
        None \<Rightarrow> Inl ''segment request''
      | Some body \<Rightarrow>
          if \<not> text_limits (rb_messages body) \<or> \<not> same_user (rb_boundary body) then Inl ''segment request''
          else Inr body)"

definition without_source_id :: "(jsstr \<times> jsval) list \<Rightarrow> jsval" where
  "without_source_id ps = Obj (filter (\<lambda>p. fst p \<noteq> js ''source_id'') ps)"

definition decodePersistedSegment :: "jsval \<Rightarrow> jsstr \<Rightarrow> ingest_request result" where
  "decodePersistedSegment v assigned =
     rbind (parseSourceId (Str assigned)) (\<lambda>sourceId.
     let owned = (\<lambda>body. Inr \<lparr>rq_source_id = sourceId, rq_body = body\<rparr>) in
     case record_of v of
       None \<Rightarrow> rbind (parseSegmentCreate v) owned
     | Some ps \<Rightarrow>
         if js ''source_id'' \<notin> fst ` set ps then rbind (parseSegmentCreate v) owned
         else rbind (parseSourceId (prop_of ps ''source_id'')) (\<lambda>persisted.
           if persisted \<noteq> sourceId then Inl ''persisted segment source''
           else rbind (parseSegmentCreate (without_source_id ps)) owned))"

section \<open>Native segment requests\<close>

definition native_types :: "string list" where
  "native_types = [''user'', ''assistant'', ''synthetic'', ''shell'', ''skill'', ''system'',
     ''compaction'', ''idle'', ''agent-switched'', ''model-switched'', ''location-switched'']"

definition native_message :: "jsval \<Rightarrow> ingest_message option" where
  "native_message v =
     (case record_of v of
        None \<Rightarrow> None
      | Some ps \<Rightarrow>
          if \<not> only_keys [''id'', ''type'', ''text''] ps then None
          else case (ident (prop_of ps ''id''), prop_of ps ''type'', prop_of ps ''text'') of
              (Some i, Str ty, Str t) \<Rightarrow>
                if ty \<in> js ` set native_types \<and> length t \<le> 2 * MAX_MESSAGE_TEXT_CHARS
                then Some \<lparr>im_id = i, im_type = ty, im_text = t\<rparr> else None
            | _ \<Rightarrow> None)"

definition native_keys :: "string list" where
  "native_keys = [''source_id'', ''session_id'', ''source_boundary_version'', ''start_source_message_id'',
     ''end_source_message_id'', ''projection_version'', ''processing_priority'', ''messages'']"

definition native_segment :: "jsval \<Rightarrow> ingest_request option" where
  "native_segment v =
     (case record_of v of
        None \<Rightarrow> None
      | Some ps \<Rightarrow>
          if \<not> only_keys native_keys ps \<or> prop_of ps ''source_boundary_version'' \<noteq> num 3
             \<or> prop_of ps ''projection_version'' \<noteq> num 3 then None
          else case (ident (prop_of ps ''source_id''), ident (prop_of ps ''session_id''),
                     ident (prop_of ps ''start_source_message_id''),
                     ident (prop_of ps ''end_source_message_id''),
                     small_nat 100 (prop_of ps ''processing_priority''),
                     message_array native_message (prop_of ps ''messages'')) of
              (Some owner, Some sid, Some ss, Some es, Some pri, Some ms) \<Rightarrow>
                if trim owner = [] then None
                else Some \<lparr>rq_source_id = owner, rq_body = \<lparr>rb_session_id = sid,
                  rb_boundary = Boundary3 ss es, rb_projection_version = 3,
                  rb_processing_priority = pri, rb_messages = ms\<rparr>\<rparr>
            | _ \<Rightarrow> None)"

definition native_trimmed :: "string list" where
  "native_trimmed = [''source_id'', ''session_id'', ''start_source_message_id'', ''end_source_message_id'']"

definition normalizeNativeSegmentCreate :: "jsval \<Rightarrow> jsval" where
  "normalizeNativeSegmentCreate v =
     (let normalized = trimProperties native_trimmed v in
      case record_of normalized of
        None \<Rightarrow> normalized
      | Some ps \<Rightarrow> (case prop_of ps ''messages'' of
            Arr ms \<Rightarrow> Obj (set_prop ps (js ''messages'') (Arr (map (trimProperty (js ''id'')) ms)))
          | _ \<Rightarrow> normalized))"

definition parseNativeSegmentCreate :: "jsval \<Rightarrow> ingest_request result" where
  "parseNativeSegmentCreate v =
     (case native_segment (normalizeNativeSegmentCreate v) of
        None \<Rightarrow> Inl ''native segment request''
      | Some r \<Rightarrow>
          let ms = rb_messages (rq_body r); b = rb_boundary (rq_body r) in
          if \<not> distinct (map im_id ms) \<or> \<not> text_limits ms
             \<or> ms = [] \<or> Some (im_id (hd ms)) \<noteq> start_source b \<or> Some (im_id (last ms)) \<noteq> end_source b
          then Inl ''native segment request'' else Inr r)"

section \<open>Persisted payloads\<close>

definition hasNativeBoundary :: "jsval \<Rightarrow> bool" where
  "hasNativeBoundary v = (get_prop v (js ''source_boundary_version'') = num 3)"

definition decodePersistedIngestSegment :: "jsval \<Rightarrow> jsstr \<Rightarrow> ingest_request result" where
  "decodePersistedIngestSegment v assigned =
     (if \<not> hasNativeBoundary v then decodePersistedSegment v assigned
      else rbind (parseNativeSegmentCreate v) (\<lambda>native.
           rbind (parseSourceId (Str assigned)) (\<lambda>sourceId.
             if rq_source_id native \<noteq> sourceId then Inl ''persisted native segment source''
             else Inr native)))"

text \<open>The request as the JSON object it is; \<open>persistedRequest\<close> drops the owner of legacy ones.\<close>

definition message_json :: "ingest_message \<Rightarrow> jsval" where
  "message_json m = Obj [field ''role'' (Str (im_type m)), field ''text'' (Str (im_text m))]"

definition native_message_json :: "ingest_message \<Rightarrow> jsval" where
  "native_message_json m =
     Obj [field ''id'' (Str (im_id m)), field ''type'' (Str (im_type m)), field ''text'' (Str (im_text m))]"

definition nullable :: "jsstr option \<Rightarrow> jsval" where
  "nullable x = (case x of None \<Rightarrow> Null | Some s \<Rightarrow> Str s)"

definition persisted_props :: "ingest_request \<Rightarrow> (jsstr \<times> jsval) list" where
  "persisted_props r =
     (let body = rq_body r; b = rb_boundary body in
      (if boundary_version b = 3 then [field ''source_id'' (Str (rq_source_id r))]
       else [field ''start_user_message_id'' (nullable (start_user b)),
             field ''end_user_message_id'' (nullable (end_user b))])
      @ [field ''session_id'' (Str (rb_session_id body)),
         field ''source_boundary_version'' (num (boundary_version b)),
         field ''start_source_message_id'' (nullable (start_source b)),
         field ''end_source_message_id'' (nullable (end_source b)),
         field ''projection_version'' (num (rb_projection_version body)),
         field ''processing_priority'' (num (rb_processing_priority body)),
         field ''messages'' (Arr (map (if boundary_version b = 3 then native_message_json else message_json)
            (rb_messages body)))])"

definition persistedRequest :: "ingest_request \<Rightarrow> jsval" where
  "persistedRequest r = Obj (persisted_props r)"

text \<open>A request as the client sends it: the owner is always present.\<close>

definition request_json :: "ingest_request \<Rightarrow> jsval" where
  "request_json r =
     Obj (field ''source_id'' (Str (rq_source_id r))
       # filter (\<lambda>p. fst p \<noteq> js ''source_id'') (persisted_props r))"

definition parseSourceSegmentCreate :: "jsval \<Rightarrow> ingest_request result" where
  "parseSourceSegmentCreate v =
     (case record_of v of
        None \<Rightarrow> Inl ''source segment request''
      | Some ps \<Rightarrow>
          if js ''source_id'' \<notin> fst ` set ps then Inl ''source segment request''
          else rbind (parseSourceId (prop_of ps ''source_id'')) (\<lambda>sourceId.
               rbind (parseSegmentCreate (without_source_id ps)) (\<lambda>body.
                 Inr \<lparr>rq_source_id = sourceId, rq_body = body\<rparr>)))"

definition parseIngestSegmentCreate :: "jsval \<Rightarrow> ingest_request result" where
  "parseIngestSegmentCreate v =
     (if hasNativeBoundary v then parseNativeSegmentCreate v else parseSourceSegmentCreate v)"

definition ownedIngestRequest :: "ingest_request \<Rightarrow> jsstr \<Rightarrow> ingest_request result" where
  "ownedIngestRequest r sourceId =
     (if boundary_version (rb_boundary (rq_body r)) \<noteq> 3
      then decodePersistedSegment (persistedRequest r) sourceId
      else rbind (parseNativeSegmentCreate (persistedRequest r)) (\<lambda>native.
           rbind (parseSourceId (Str sourceId)) (\<lambda>assigned.
             if rq_source_id native \<noteq> assigned then Inl ''native segment request source''
             else Inr native)))"

section \<open>Well-formed requests\<close>

definition ident_ok :: "jsstr \<Rightarrow> bool" where
  "ident_ok s \<longleftrightarrow> 1 \<le> length s \<and> length s \<le> 500 \<and> trim s = s"

definition legacy_message_ok :: "ingest_message \<Rightarrow> bool" where
  "legacy_message_ok m \<longleftrightarrow> im_id m = [] \<and> (im_type m = js ''user'' \<or> im_type m = js ''assistant'')
     \<and> length (im_text m) \<le> 2 * MAX_MESSAGE_TEXT_CHARS"

definition native_message_ok :: "ingest_message \<Rightarrow> bool" where
  "native_message_ok m \<longleftrightarrow> ident_ok (im_id m) \<and> im_type m \<in> js ` set native_types
     \<and> length (im_text m) \<le> 2 * MAX_MESSAGE_TEXT_CHARS"

fun boundary_ok :: "source_boundary \<Rightarrow> ingest_message list \<Rightarrow> bool" where
  "boundary_ok (Boundary1 su eu) ms \<longleftrightarrow> ident_ok su \<and> ident_ok eu"
| "boundary_ok (Boundary2 su eu ss es) ms \<longleftrightarrow> ident_ok su \<and> eu = su \<and> ident_ok ss \<and> ident_ok es"
| "boundary_ok (Boundary3 ss es) ms \<longleftrightarrow> ident_ok ss \<and> ident_ok es \<and> distinct (map im_id ms)
     \<and> im_id (hd ms) = ss \<and> im_id (last ms) = es"

text \<open>What a parsed request satisfies; \<open>valid_request\<close> is the contract the rest relies on.\<close>

definition valid_request :: "ingest_request \<Rightarrow> bool" where
  "valid_request r \<longleftrightarrow>
     (let body = rq_body r; b = rb_boundary body; ms = rb_messages body in
      ident_ok (rq_source_id r) \<and> ident_ok (rb_session_id body) \<and> boundary_ok b ms
      \<and> (if boundary_version b = 3 then rb_projection_version body = 3 else rb_projection_version body \<le> 2)
      \<and> rb_processing_priority body \<le> 100
      \<and> 1 \<le> length ms \<and> length ms \<le> 10000
      \<and> (\<forall>m\<in>set ms. if boundary_version b = 3 then native_message_ok m else legacy_message_ok m)
      \<and> text_limits ms)"

section \<open>Round trip\<close>

lemma set_prop_same:
  "distinct (map fst ps) \<Longrightarrow> map_of ps k = Some v \<Longrightarrow> set_prop ps k v = ps"
proof -
  assume d: "distinct (map fst ps)" and m: "map_of ps k = Some v"
  have "(k', if k' = k then v else v') = (k', v')" if "(k', v') \<in> set ps" for k' v'
    using m map_of_is_SomeI [OF d that] by auto
  then have "map (\<lambda>(k', v'). (k', if k' = k then v else v')) ps = ps"
    by (intro map_idI) auto
  moreover have "k \<in> fst ` set ps" using map_of_SomeD [OF m] by force
  ultimately show ?thesis by (simp add: set_prop_def)
qed

lemma property_set_prop_same:
  "distinct (map fst ps) \<Longrightarrow> property ps k = v \<Longrightarrow> v \<noteq> Undefined \<Longrightarrow> set_prop ps k v = ps"
  by (auto simp: property_def intro: set_prop_same split: option.splits)

text \<open>Properties that are already trimmed are left alone.\<close>

definition trimmed_at :: "(jsstr \<times> jsval) list \<Rightarrow> string \<Rightarrow> bool" where
  "trimmed_at ps k \<longleftrightarrow> (\<forall>s. prop_of ps k = Str s \<longrightarrow> trim s = s)"

lemma trimProperty_trimmed:
  "distinct (map fst ps) \<Longrightarrow> trimmed_at ps k \<Longrightarrow> trimProperty (js k) (Obj ps) = Obj ps"
  by (auto simp: trimProperty_def trimmed_at_def prop_of_def property_set_prop_same split: jsval.splits)

lemma trimProperties_trimmed:
  "distinct (map fst ps) \<Longrightarrow> \<forall>k\<in>set ks. trimmed_at ps k \<Longrightarrow> trimProperties ks (Obj ps) = Obj ps"
  by (induction ks) (simp_all add: trimProperties_def trimProperty_trimmed)

lemma small_nat_num [simp]: "n \<le> t \<Longrightarrow> small_nat t (num n) = Some n"
proof -
  assume "n \<le> t"
  moreover have "decimal k = decimal n \<longleftrightarrow> k = n" for k by (auto dest: decimal_inject)
  ultimately have "find (\<lambda>k. decimal k = decimal n) [0..<Suc t] = Some n"
    unfolding find_Some_iff by (intro exI [of _ n]) (auto simp del: upt_Suc)
  then show ?thesis by (simp add: small_nat_def num_def del: upt_Suc)
qed

lemma num_inject [simp]: "num m = num n \<longleftrightarrow> m = n"
  by (auto simp: num_def dest: decimal_inject)

lemma num_not [simp]: "num n \<noteq> Null" "num n \<noteq> Undefined" "num n \<noteq> Str s" "Null \<noteq> num n" "Undefined \<noteq> num n"
  by (simp_all add: num_def)

lemma ident_Str [simp]: "ident_ok s \<Longrightarrow> ident (Str s) = Some s"
  by (simp add: ident_def ident_ok_def)

lemma parseSourceId_ok [simp]: "ident_ok s \<Longrightarrow> parseSourceId (Str s) = Inr s"
  by (simp add: parseSourceId_def ident_ok_def)

lemma all_some_map: "(\<And>m. m \<in> set ms \<Longrightarrow> f (g m) = Some m) \<Longrightarrow> all_some (map f (map g ms)) = Some ms"
  by (induction ms) simp_all

lemma source_message_json [simp]: "legacy_message_ok m \<Longrightarrow> source_message (message_json m) = Some m"
  by (cases m) (auto simp: source_message_def message_json_def only_keys_def prop_of_def property_def
      field_def legacy_message_ok_def)

lemma native_message_json [simp]: "native_message_ok m \<Longrightarrow> native_message (native_message_json m) = Some m"
  by (cases m) (auto simp: native_message_def native_message_json_def only_keys_def prop_of_def
      property_def field_def native_message_ok_def)

lemma trim_native_id [simp]:
  "native_message_ok m \<Longrightarrow> trimProperty (js ''id'') (native_message_json m) = native_message_json m"
  unfolding native_message_json_def
  by (rule trimProperty_trimmed)
    (auto simp: trimmed_at_def prop_of_def property_def field_def native_message_ok_def ident_ok_def)

text \<open>The database reorders the keys of a payload; lookups see only the association.\<close>

definition same_object :: "(jsstr \<times> jsval) list \<Rightarrow> (jsstr \<times> jsval) list \<Rightarrow> bool" where
  "same_object ps qs \<longleftrightarrow> distinct (map fst ps) \<and> distinct (map fst qs) \<and> set ps = set qs"

lemma same_object_prop_of: "same_object ps qs \<Longrightarrow> prop_of ps k = prop_of qs k"
  using map_of_inject_set [of ps qs] by (simp add: same_object_def prop_of_def property_def)

lemma same_object_keys: "same_object ps qs \<Longrightarrow> only_keys ks ps = only_keys ks qs"
  by (simp add: same_object_def only_keys_def)

lemma persisted_props_distinct: "distinct (map fst (persisted_props r))"
  by (simp add: persisted_props_def field_def Let_def)

lemma persisted_lookup:
  fixes r defines "b \<equiv> rb_boundary (rq_body r)"
  shows "prop_of (persisted_props r) ''session_id'' = Str (rb_session_id (rq_body r))"
    "prop_of (persisted_props r) ''source_boundary_version'' = num (boundary_version b)"
    "prop_of (persisted_props r) ''start_source_message_id'' = nullable (start_source b)"
    "prop_of (persisted_props r) ''end_source_message_id'' = nullable (end_source b)"
    "prop_of (persisted_props r) ''projection_version'' = num (rb_projection_version (rq_body r))"
    "prop_of (persisted_props r) ''processing_priority'' = num (rb_processing_priority (rq_body r))"
    "prop_of (persisted_props r) ''messages'' = Arr (map (if boundary_version b = 3 then native_message_json
        else message_json) (rb_messages (rq_body r)))"
    "boundary_version b = 3 \<Longrightarrow> prop_of (persisted_props r) ''source_id'' = Str (rq_source_id r)"
    "boundary_version b \<noteq> 3 \<Longrightarrow> prop_of (persisted_props r) ''start_user_message_id'' = nullable (start_user b)"
    "boundary_version b \<noteq> 3 \<Longrightarrow> prop_of (persisted_props r) ''end_user_message_id'' = nullable (end_user b)"
    "boundary_version b \<noteq> 3 \<Longrightarrow> js ''source_id'' \<notin> fst ` set (persisted_props r)"
    "boundary_version b = 3 \<Longrightarrow> only_keys native_keys (persisted_props r)"
    "boundary_version b \<noteq> 3 \<Longrightarrow> only_keys legacy_keys (persisted_props r)"
  unfolding b_def
  by (simp_all add: persisted_props_def prop_of_def property_def field_def Let_def only_keys_def
      native_keys_def legacy_keys_def)

lemma js_keys: "js ''source_boundary_version'' \<in> fst ` set (persisted_props r)"
  by (simp add: persisted_props_def field_def Let_def)

lemma decode_legacy:
  assumes v: "valid_request r" and nb: "boundary_version (rb_boundary (rq_body r)) \<noteq> 3"
    and same: "same_object ps (persisted_props r)"
  shows "parseSegmentCreate (Obj ps) = Inr (rq_body r)"
proof -
  note look = persisted_lookup [of r] and eq = same_object_prop_of [OF same]
  have d: "distinct (map fst ps)" using same by (simp add: same_object_def)
  have keys: "fst ` set ps = fst ` set (persisted_props r)" using same by (simp add: same_object_def)
  have "\<forall>k\<in>set legacy_trimmed. trimmed_at ps k"
    using v nb by (cases "rb_boundary (rq_body r)")
      (auto simp: legacy_trimmed_def trimmed_at_def eq look nullable_def valid_request_def Let_def ident_ok_def)
  then have 1: "trimProperties legacy_trimmed (Obj ps) = Obj ps" by (rule trimProperties_trimmed [OF d])
  have 2: "default_boundary (Obj ps) = Obj ps"
  proof (cases "boundary_version (rb_boundary (rq_body r)) = 1")
    case True
    then have "property ps (js ''start_source_message_id'') = Null"
      "property ps (js ''end_source_message_id'') = Null"
      using look(3,4) by (cases "rb_boundary (rq_body r)"; simp add: eq [unfolded prop_of_def] prop_of_def nullable_def)+
    then show ?thesis
      using js_keys [of r] keys d
      by (simp add: default_boundary_def prop_of_def or_null_def property_set_prop_same)
  next
    case False
    then show ?thesis using js_keys [of r] keys by (simp add: default_boundary_def eq look)
  qed
  have 3: "default_projection (Obj ps) = Obj ps"
    by (simp add: default_projection_def eq look num_def)
  have 4: "default_priority (Obj ps) = Obj ps"
    by (simp add: default_priority_def eq look)
  have msgs: "message_array source_message (Arr (map message_json (rb_messages (rq_body r)))) =
      Some (rb_messages (rq_body r))"
    using v nb all_some_map [of "rb_messages (rq_body r)" source_message message_json]
    by (simp add: message_array_def valid_request_def Let_def)
  have bound: "legacy_boundary ps = Some (rb_boundary (rq_body r))"
    using v nb by (cases "rb_boundary (rq_body r)")
      (simp_all add: legacy_boundary_def eq look nullable_def valid_request_def Let_def)
  have "canonical_segment (Obj ps) = Some (rq_body r)"
    using v nb by (simp add: canonical_segment_def same_object_keys [OF same] look msgs bound eq valid_request_def Let_def)
  moreover have "same_user (rb_boundary (rq_body r))"
    using v nb by (cases "rb_boundary (rq_body r)") (simp_all add: valid_request_def Let_def)
  ultimately show ?thesis using v by (simp add: parseSegmentCreate_def 1 2 3 4 valid_request_def Let_def)
qed

lemma decode_native:
  assumes v: "valid_request r" and nb: "boundary_version (rb_boundary (rq_body r)) = 3"
    and same: "same_object ps (persisted_props r)"
  shows "parseNativeSegmentCreate (Obj ps) = Inr r"
proof -
  note look = persisted_lookup [of r] and eq = same_object_prop_of [OF same]
  have d: "distinct (map fst ps)" using same by (simp add: same_object_def)
  from nb obtain ss es where b: "rb_boundary (rq_body r) = Boundary3 ss es"
    by (cases "rb_boundary (rq_body r)") auto
  have v': "ident_ok (rq_source_id r)" "ident_ok (rb_session_id (rq_body r))" "ident_ok ss" "ident_ok es"
    "rb_projection_version (rq_body r) = 3" "rb_processing_priority (rq_body r) \<le> 100"
    "1 \<le> length (rb_messages (rq_body r))" "length (rb_messages (rq_body r)) \<le> 10000"
    "\<forall>m\<in>set (rb_messages (rq_body r)). native_message_ok m" "text_limits (rb_messages (rq_body r))"
    "distinct (map im_id (rb_messages (rq_body r)))" "im_id (hd (rb_messages (rq_body r))) = ss"
    "im_id (last (rb_messages (rq_body r))) = es"
    using v b by (simp_all add: valid_request_def Let_def)
  have "\<forall>k\<in>set native_trimmed. trimmed_at ps k"
    using v' b by (auto simp: native_trimmed_def trimmed_at_def eq look nullable_def ident_ok_def)
  then have 1: "trimProperties native_trimmed (Obj ps) = Obj ps" by (rule trimProperties_trimmed [OF d])
  let ?ms = "map native_message_json (rb_messages (rq_body r))"
  have msgs: "prop_of ps ''messages'' = Arr ?ms" using nb by (simp add: eq look)
  have "map (trimProperty (js ''id'')) ?ms = ?ms" using v'(9) by simp
  then have 2: "normalizeNativeSegmentCreate (Obj ps) = Obj ps"
    using msgs d by (simp add: normalizeNativeSegmentCreate_def 1 Let_def prop_of_def property_set_prop_same)
  have arr: "message_array native_message (Arr ?ms) = Some (rb_messages (rq_body r))"
    using v' all_some_map [of "rb_messages (rq_body r)" native_message native_message_json]
    by (simp add: message_array_def)
  have rec: "\<lparr>rq_source_id = rq_source_id r, rq_body = \<lparr>rb_session_id = rb_session_id (rq_body r),
      rb_boundary = Boundary3 ss es, rb_projection_version = 3,
      rb_processing_priority = rb_processing_priority (rq_body r),
      rb_messages = rb_messages (rq_body r)\<rparr>\<rparr> = r"
    using b v'(5) by (cases r; cases "rq_body r") simp_all
  have "trim (rq_source_id r) \<noteq> []" using v'(1) by (auto simp: ident_ok_def)
  then have "native_segment (Obj ps) = Some r"
    using v'(1-6) nb b rec
    by (simp add: native_segment_def same_object_keys [OF same] look eq arr nullable_def)
  moreover have "rb_messages (rq_body r) \<noteq> []" using v'(7) by auto
  ultimately show ?thesis using v' b by (simp add: parseNativeSegmentCreate_def 2 Let_def)
qed

text \<open>
  C7. Round trip of a persisted request: for every well-formed request, legacy or native, the
  payload the server stores decodes, for the request's own source, to the same request, in
  whatever order the database returns the payload's keys.
\<close>

theorem persisted_request_round_trip:
  assumes "valid_request r" and "same_object ps (persisted_props r)"
  shows "decodePersistedIngestSegment (Obj ps) (rq_source_id r) = Inr r"
proof -
  have owner: "ident_ok (rq_source_id r)" using assms(1) by (simp add: valid_request_def Let_def)
  have version: "hasNativeBoundary (Obj ps) \<longleftrightarrow> boundary_version (rb_boundary (rq_body r)) = 3"
    using same_object_prop_of [OF assms(2)] persisted_lookup(2) [of r]
    by (simp add: hasNativeBoundary_def flip: prop_of_def)
  show ?thesis
  proof (cases "boundary_version (rb_boundary (rq_body r)) = 3")
    case True
    then show ?thesis
      using owner version decode_native [OF assms(1) True assms(2)]
      by (simp add: decodePersistedIngestSegment_def)
  next
    case False
    moreover have "js ''source_id'' \<notin> fst ` set ps"
      using persisted_lookup(11) [of r] False assms(2) by (simp add: same_object_def)
    ultimately show ?thesis
      using owner version decode_legacy [OF assms(1) False assms(2)]
      by (simp add: decodePersistedIngestSegment_def decodePersistedSegment_def Let_def)
  qed
qed

section \<open>Sample requests\<close>

definition sample_request :: ingest_request where
  "sample_request = \<lparr>rq_source_id = js ''s'', rq_body = \<lparr>rb_session_id = js ''t'',
     rb_boundary = Boundary2 (js ''u'') (js ''u'') (js ''a'') (js ''b''), rb_projection_version = 2,
     rb_processing_priority = 7, rb_messages =
       [\<lparr>im_id = [], im_type = js ''user'', im_text = js ''hi''\<rparr>]\<rparr>\<rparr>"

definition sample_native :: ingest_request where
  "sample_native = \<lparr>rq_source_id = js ''s'', rq_body = \<lparr>rb_session_id = js ''t'',
     rb_boundary = Boundary3 (js ''a'') (js ''b''), rb_projection_version = 3,
     rb_processing_priority = 0, rb_messages =
       [\<lparr>im_id = js ''a'', im_type = js ''user'', im_text = js ''hi''\<rparr>,
        \<lparr>im_id = js ''b'', im_type = js ''idle'', im_text = []\<rparr>]\<rparr>\<rparr>"

lemma sample_trim:
  "trim (js ''s'') = js ''s''" "trim (js ''t'') = js ''t''" "trim (js ''u'') = js ''u''"
  "trim (js ''a'') = js ''a''" "trim (js ''b'') = js ''b''"
  by code_simp+

lemma sample_texts: "codePointLength (js ''hi'') = 2" "codePointLength [] = 0" "length (js ''hi'') = 2"
  by code_simp+

lemma length_js [simp]: "length (js s) = length s"
  by (simp add: js_def)

lemma valid_sample_request: "valid_request sample_request"
  by (simp add: valid_request_def sample_request_def Let_def ident_ok_def sample_trim sample_texts
      legacy_message_ok_def text_limits_def MAX_MESSAGE_TEXT_CHARS_def MAX_SEGMENT_TEXT_CHARS_def)

lemma valid_sample_native: "valid_request sample_native"
  by (simp add: valid_request_def sample_native_def Let_def ident_ok_def sample_trim sample_texts
      native_message_ok_def native_types_def text_limits_def MAX_MESSAGE_TEXT_CHARS_def
      MAX_SEGMENT_TEXT_CHARS_def)

theorem persisted_request_round_trip_witness:
  "decodePersistedIngestSegment (Obj (rev (persisted_props sample_request))) (js ''s'') = Inr sample_request"
proof -
  have "same_object (rev (persisted_props sample_request)) (persisted_props sample_request)"
    using persisted_props_distinct [of sample_request] by (simp add: same_object_def rev_map [symmetric])
  from persisted_request_round_trip [OF valid_sample_request this]
  show ?thesis by (simp add: sample_request_def)
qed

end
