(* ===== verification/Identity.thy ===== *)
theory Identity
  imports Contracts
begin

text \<open>
  Identities of \<open>packages/shared/src/domain.ts\<close>, \<open>sources.ts\<close>, \<open>native.ts\<close> and \<open>ingestion.ts\<close>: the
  segment IDs and content fingerprints of ingested requests. SHA-256 and UUIDv5 come from \<open>node:crypto\<close> and \<open>uuid\<close>: they are the parameter
  \<open>cr\<close>, functions of the bytes hashed.
\<close>

section \<open>Data\<close>

record crypto =
  sha256_hex :: "nat list \<Rightarrow> jsstr"
  uuid5 :: "nat list \<Rightarrow> jsstr \<Rightarrow> jsstr"

section \<open>Segment identities\<close>

definition SEGMENT_NAMESPACE :: jsstr where
  "SEGMENT_NAMESPACE = js ''b14d5f2c-4cce-4f37-9e32-ea30c1fd1b42''"

definition ENTITY_NAMESPACE :: jsstr where
  "ENTITY_NAMESPACE = js ''966769b5-ab08-4b02-8948-7db052586124''"

definition CLAIM_NAMESPACE :: jsstr where
  "CLAIM_NAMESPACE = js ''194eb982-5e16-4011-bdcb-f13a86934da4''"

definition legacy_segment_name :: "jsstr \<Rightarrow> jsstr \<Rightarrow> jsstr" where
  "legacy_segment_name sessionId startUserMessageId = sessionId @ 0 # startUserMessageId"

definition segmentIdFor :: "crypto \<Rightarrow> jsstr \<Rightarrow> jsstr \<Rightarrow> jsstr" where
  "segmentIdFor cr sessionId startUserMessageId =
     uuid5 cr (utf8 (legacy_segment_name sessionId startUserMessageId)) SEGMENT_NAMESPACE"

definition segmentIdForRequest :: "crypto \<Rightarrow> request_body \<Rightarrow> jsstr result" where
  "segmentIdForRequest cr r =
     (case rb_boundary r of
        Boundary1 su eu \<Rightarrow> Inr (segmentIdFor cr (rb_session_id r) su)
      | _ \<Rightarrow> (case start_source (rb_boundary r) of
            None \<Rightarrow> Inl ''V2 segment identity requires a start source cursor''
          | Some ss \<Rightarrow> Inr (uuid5 cr (utf8 (js ''reflection-segment-v2:''
                @ frames [rb_session_id r, ss])) SEGMENT_NAMESPACE)))"

text \<open>The cursor a source-prefixed segment is identified by.\<close>

definition start_cursor :: "source_boundary \<Rightarrow> jsstr option" where
  "start_cursor b = (case b of Boundary1 su eu \<Rightarrow> Some su | _ \<Rightarrow> start_source b)"

definition source_segment_name :: "jsstr \<Rightarrow> jsstr \<Rightarrow> nat \<Rightarrow> jsstr \<Rightarrow> jsstr" where
  "source_segment_name sourceId sessionId version cursor =
     js ''reflection-source-segment-v1:'' @ frames [sourceId, sessionId, decimal version, cursor]"

definition sourceSegmentIdForRequest ::
  "crypto \<Rightarrow> ingest_request \<Rightarrow> source_info \<Rightarrow> jsstr result" where
  "sourceSegmentIdForRequest cr r source =
     rbind (parseSourceInfo source) (\<lambda>parsed.
     rbind (parseSourceId (Str (rq_source_id r))) (\<lambda>requestSource.
       if requestSource \<noteq> src_id parsed
       then Inl ''segment request source does not match registered source''
       else if src_scheme parsed = Legacy then segmentIdForRequest cr (rq_body r)
       else case start_cursor (rb_boundary (rq_body r)) of
           None \<Rightarrow> Inl ''V2 segment identity requires a start source cursor''
         | Some cursor \<Rightarrow> Inr (uuid5 cr (utf8 (source_segment_name requestSource
               (rb_session_id (rq_body r)) (boundary_version (rb_boundary (rq_body r))) cursor))
               SEGMENT_NAMESPACE)))"

definition nativeSegmentIdForRequest ::
  "crypto \<Rightarrow> ingest_request \<Rightarrow> source_info \<Rightarrow> jsstr result" where
  "nativeSegmentIdForRequest cr r registry =
     rbind (parseNativeSegmentCreate (persistedRequest r)) (\<lambda>parsed.
     rbind (parseSourceInfo registry) (\<lambda>source.
       if src_kind source \<noteq> OpencodeV2 \<or> src_scheme source \<noteq> SourceV1
       then Inl ''native segment identity requires an opencode-v2 source-v1 registry entry''
       else if rq_source_id parsed \<noteq> src_id source
       then Inl ''segment request source does not match registered source''
       else case start_source (rb_boundary (rq_body parsed)) of
           None \<Rightarrow> Inl ''native segment request''
         | Some cursor \<Rightarrow> Inr (uuid5 cr (utf8 (source_segment_name (rq_source_id parsed)
               (rb_session_id (rq_body parsed)) 3 cursor)) SEGMENT_NAMESPACE)))"

definition ingestSegmentIdForRequest ::
  "crypto \<Rightarrow> ingest_request \<Rightarrow> source_info \<Rightarrow> jsstr result" where
  "ingestSegmentIdForRequest cr r source =
     (if boundary_version (rb_boundary (rq_body r)) = 3 then nativeSegmentIdForRequest cr r source
      else sourceSegmentIdForRequest cr r source)"

section \<open>Content fingerprints\<close>

definition message_frames :: "ingest_message list \<Rightarrow> jsstr" where
  "message_frames ms =
     decimal (length ms) @ colon # frames (concat (map (\<lambda>m. [im_type m, im_text m]) ms))"

definition native_message_frames :: "ingest_message list \<Rightarrow> jsstr" where
  "native_message_frames ms =
     decimal (length ms) @ colon # frames (concat (map (\<lambda>m. [im_id m, im_type m, im_text m]) ms))"

definition source_preimage :: "request_body \<Rightarrow> jsstr" where
  "source_preimage r =
     (case rb_boundary r of
        Boundary1 su eu \<Rightarrow> js ''reflection-source-v1:'' @ frames [rb_session_id r, su, eu]
          @ message_frames (rb_messages r)
      | Boundary2 su eu ss es \<Rightarrow> js ''reflection-source-v2:''
          @ frames [rb_session_id r, su, eu, decimal 2, ss, es] @ message_frames (rb_messages r)
      | Boundary3 ss es \<Rightarrow> [])"

definition sourceFingerprint :: "crypto \<Rightarrow> request_body \<Rightarrow> jsstr" where
  "sourceFingerprint cr r = sha256_hex cr (utf8 (source_preimage r))"

definition native_preimage :: "ingest_request \<Rightarrow> jsstr" where
  "native_preimage r =
     js ''reflection-source-v3:''
     @ frames [rq_source_id r, rb_session_id (rq_body r), decimal 3,
         decimal (rb_projection_version (rq_body r)),
         the (start_source (rb_boundary (rq_body r))), the (end_source (rb_boundary (rq_body r)))]
     @ native_message_frames (rb_messages (rq_body r))"

definition nativeSourceFingerprint :: "crypto \<Rightarrow> ingest_request \<Rightarrow> jsstr" where
  "nativeSourceFingerprint cr r = sha256_hex cr (utf8 (native_preimage r))"

definition ingest_preimage :: "ingest_request \<Rightarrow> jsstr" where
  "ingest_preimage r =
     (if boundary_version (rb_boundary (rq_body r)) = 3 then native_preimage r
      else source_preimage (rq_body r))"

definition ingestSourceFingerprint :: "crypto \<Rightarrow> ingest_request \<Rightarrow> jsstr" where
  "ingestSourceFingerprint cr r =
     (if boundary_version (rb_boundary (rq_body r)) = 3 then nativeSourceFingerprint cr r
      else sourceFingerprint cr (rq_body r))"

text \<open>Fingerprints of a committed summary; \<open>[...value].length\<close> counts code points.\<close>

definition projection_preimage :: "jsstr \<Rightarrow> jsstr \<Rightarrow> jsstr \<Rightarrow> nat \<Rightarrow> jsstr" where
  "projection_preimage segmentId endUserMessageId summary projectionVersion =
     segmentId @ colon # decimal (codePointLength endUserMessageId) @ colon # endUserMessageId
     @ colon # decimal (codePointLength summary) @ colon # summary
     @ colon # decimal projectionVersion"

definition projectionFingerprint :: "crypto \<Rightarrow> jsstr \<Rightarrow> jsstr \<Rightarrow> jsstr \<Rightarrow> nat \<Rightarrow> jsstr" where
  "projectionFingerprint cr segmentId endUserMessageId summary projectionVersion =
     sha256_hex cr (utf8 (projection_preimage segmentId endUserMessageId summary projectionVersion))"

definition projection_preimage_v2 :: "jsstr \<Rightarrow> jsstr \<Rightarrow> jsstr \<Rightarrow> jsstr \<Rightarrow> nat \<Rightarrow> jsstr" where
  "projection_preimage_v2 segmentId endUser endSource summary projectionVersion =
     js ''reflection-projection-v2:''
     @ frames [segmentId, decimal 2, endUser, endSource, summary, decimal projectionVersion]"

definition projection_preimage_v3 :: "jsstr \<Rightarrow> jsstr \<Rightarrow> jsstr \<Rightarrow> nat \<Rightarrow> jsstr" where
  "projection_preimage_v3 segmentId endSource summary projectionVersion =
     js ''reflection-projection-v3:''
     @ frames [segmentId, decimal 3, endSource, summary, decimal projectionVersion]"

definition ingestProjectionFingerprintForBoundary ::
  "crypto \<Rightarrow> jsstr \<Rightarrow> source_boundary \<Rightarrow> jsstr \<Rightarrow> nat \<Rightarrow> jsstr" where
  "ingestProjectionFingerprintForBoundary cr segmentId b summary projectionVersion =
     (case b of
        Boundary1 su eu \<Rightarrow> projectionFingerprint cr segmentId eu summary projectionVersion
      | Boundary2 su eu ss es \<Rightarrow>
          sha256_hex cr (utf8 (projection_preimage_v2 segmentId eu es summary projectionVersion))
      | Boundary3 ss es \<Rightarrow>
          sha256_hex cr (utf8 (projection_preimage_v3 segmentId es summary projectionVersion)))"

definition claimIdFor :: "crypto \<Rightarrow> jsstr \<Rightarrow> nat \<Rightarrow> jsstr" where
  "claimIdFor cr segmentId index = uuid5 cr (utf8 (segmentId @ 0 # decimal index)) CLAIM_NAMESPACE"

section \<open>Preimages are uniquely decodable\<close>

lemma utf8_ascii_prefix:
  "ascii p \<Longrightarrow> clean_start s \<Longrightarrow> utf8 (p @ s) = map unat p @ utf8 s"
  by (simp add: utf8_append utf8_ascii)

lemma prefix_inject:
  assumes "utf8 (js a @ s) = utf8 (js b @ t)" "length a = length b"
    and "ascii (js a)" "ascii (js b)" "clean_start s" "clean_start t"
  shows "a = b \<and> utf8 s = utf8 t"
proof -
  have "map unat (js a) @ utf8 s = map unat (js b) @ utf8 t"
    using assms by (simp add: utf8_ascii_prefix)
  moreover have "length (map unat (js a)) = length (map unat (js b))"
    using assms(2) by (simp add: js_def)
  ultimately have "map unat (js a) = map unat (js b)" "utf8 s = utf8 t" by auto
  then have "js a = js b" by (metis list.inj_map_strong word_unat_eq_iff)
  with \<open>utf8 s = utf8 t\<close> show ?thesis by simp
qed

lemma ascii_prefixes [simp]:
  "ascii (js ''reflection-source-v1:'')" "ascii (js ''reflection-source-v2:'')"
  "ascii (js ''reflection-source-v3:'')" "ascii (js ''reflection-source-segment-v1:'')"
  by code_simp+

definition message_bytes :: "ingest_message \<Rightarrow> nat list \<times> nat list" where
  "message_bytes m = (utf8 (im_type m), utf8 (im_text m))"

definition native_message_bytes :: "ingest_message \<Rightarrow> nat list \<times> nat list \<times> nat list" where
  "native_message_bytes m = (utf8 (im_id m), message_bytes m)"

lemma pairs_inject:
  "length ms = length ms' \<Longrightarrow>
   map utf8 (concat (map (\<lambda>m. [im_type m, im_text m]) ms)) =
   map utf8 (concat (map (\<lambda>m. [im_type m, im_text m]) ms')) \<Longrightarrow>
   map message_bytes ms = map message_bytes ms'"
  by (induction ms ms' rule: list_induct2) (simp_all add: message_bytes_def)

lemma triples_inject:
  "length ms = length ms' \<Longrightarrow>
   map utf8 (concat (map (\<lambda>m. [im_id m, im_type m, im_text m]) ms)) =
   map utf8 (concat (map (\<lambda>m. [im_id m, im_type m, im_text m]) ms')) \<Longrightarrow>
   map native_message_bytes ms = map native_message_bytes ms'"
  by (induction ms ms' rule: list_induct2) (simp_all add: native_message_bytes_def message_bytes_def)

lemma length_concat_pairs: "length (concat (map (\<lambda>m. [f m, g m]) ms)) = 2 * length ms"
  by (induction ms) simp_all

lemma length_concat_triples: "length (concat (map (\<lambda>m. [f m, g m, h m]) ms)) = 3 * length ms"
  by (induction ms) simp_all

lemma clean_message_frames [simp]:
  "clean_start (message_frames ms)" "clean_start (native_message_frames ms)"
  by (simp_all add: message_frames_def native_message_frames_def)

lemma message_frames_inject:
  assumes "utf8 (message_frames ms) = utf8 (message_frames ms')"
  shows "map message_bytes ms = map message_bytes ms'"
proof -
  from assms have n: "length ms = length ms'" and
    f: "utf8 (frames (concat (map (\<lambda>m. [im_type m, im_text m]) ms)) ) =
        utf8 (frames (concat (map (\<lambda>m. [im_type m, im_text m]) ms')))"
    unfolding message_frames_def by (auto dest: utf8_count_inject)
  have "map utf8 (concat (map (\<lambda>m. [im_type m, im_text m]) ms)) =
      map utf8 (concat (map (\<lambda>m. [im_type m, im_text m]) ms'))"
    using frames_inject [of _ _ "[]" "[]"] f by (simp add: length_concat_pairs n)
  with n show ?thesis by (rule pairs_inject)
qed

lemma native_message_frames_inject:
  assumes "utf8 (native_message_frames ms) = utf8 (native_message_frames ms')"
  shows "map native_message_bytes ms = map native_message_bytes ms'"
proof -
  from assms have n: "length ms = length ms'" and
    f: "utf8 (frames (concat (map (\<lambda>m. [im_id m, im_type m, im_text m]) ms)) ) =
        utf8 (frames (concat (map (\<lambda>m. [im_id m, im_type m, im_text m]) ms')))"
    unfolding native_message_frames_def by (auto dest: utf8_count_inject)
  have "map utf8 (concat (map (\<lambda>m. [im_id m, im_type m, im_text m]) ms)) =
      map utf8 (concat (map (\<lambda>m. [im_id m, im_type m, im_text m]) ms'))"
    using frames_inject [of _ _ "[]" "[]"] f by (simp add: length_concat_triples n)
  with n show ?thesis by (rule triples_inject)
qed

section \<open>What a fingerprint identifies\<close>

text \<open>
  The content two requests share, byte for byte as they are hashed: the boundary with its cursors,
  the session and every message; for a native request also the source, the projection version and
  the message IDs. The owner of a legacy request and its projection version are not part of it.
\<close>

fun boundary_bytes :: "source_boundary \<Rightarrow> nat \<times> nat list list" where
  "boundary_bytes (Boundary1 su eu) = (1, map utf8 [su, eu])"
| "boundary_bytes (Boundary2 su eu ss es) = (2, map utf8 [su, eu, ss, es])"
| "boundary_bytes (Boundary3 ss es) = (3, map utf8 [ss, es])"

definition same_content :: "ingest_request \<Rightarrow> ingest_request \<Rightarrow> bool" where
  "same_content r r' \<longleftrightarrow>
     boundary_bytes (rb_boundary (rq_body r)) = boundary_bytes (rb_boundary (rq_body r'))
     \<and> utf8 (rb_session_id (rq_body r)) = utf8 (rb_session_id (rq_body r'))
     \<and> map message_bytes (rb_messages (rq_body r)) = map message_bytes (rb_messages (rq_body r'))
     \<and> (boundary_version (rb_boundary (rq_body r)) = 3 \<longrightarrow>
          utf8 (rq_source_id r) = utf8 (rq_source_id r')
          \<and> rb_projection_version (rq_body r) = rb_projection_version (rq_body r')
          \<and> map native_message_bytes (rb_messages (rq_body r)) =
            map native_message_bytes (rb_messages (rq_body r')))"

text \<open>The prefix of a preimage and the frames after it.\<close>

definition preimage_tag :: "source_boundary \<Rightarrow> string" where
  "preimage_tag b = (case b of Boundary1 su eu \<Rightarrow> ''reflection-source-v1:''
     | Boundary2 su eu ss es \<Rightarrow> ''reflection-source-v2:'' | Boundary3 ss es \<Rightarrow> ''reflection-source-v3:'')"

definition preimage_fields :: "ingest_request \<Rightarrow> jsstr list" where
  "preimage_fields r = (let body = rq_body r in case rb_boundary body of
     Boundary1 su eu \<Rightarrow> [rb_session_id body, su, eu]
   | Boundary2 su eu ss es \<Rightarrow> [rb_session_id body, su, eu, decimal 2, ss, es]
   | Boundary3 ss es \<Rightarrow> [rq_source_id r, rb_session_id body, decimal 3,
       decimal (rb_projection_version body), ss, es])"

definition preimage_messages :: "ingest_request \<Rightarrow> jsstr" where
  "preimage_messages r = (if boundary_version (rb_boundary (rq_body r)) = 3
     then native_message_frames (rb_messages (rq_body r)) else message_frames (rb_messages (rq_body r)))"

lemma ingest_preimage_shape:
  "ingest_preimage r = js (preimage_tag (rb_boundary (rq_body r)))
     @ frames (preimage_fields r) @ preimage_messages r"
  by (cases "rb_boundary (rq_body r)")
    (simp_all add: ingest_preimage_def source_preimage_def native_preimage_def preimage_tag_def
      preimage_fields_def preimage_messages_def Let_def)

lemma clean_preimage [simp]: "clean_start (preimage_messages r)"
  by (simp add: preimage_messages_def)

lemma ascii_tag [simp]: "ascii (js (preimage_tag b))"
  by (cases b) (simp_all add: preimage_tag_def)

lemma tag_version: "preimage_tag b = preimage_tag b' \<longleftrightarrow> boundary_version b = boundary_version b'"
  by (cases b; cases b') (simp_all add: preimage_tag_def)

lemma tag_length: "length (preimage_tag b) = 21"
  by (cases b) (simp_all add: preimage_tag_def)

lemma utf8_decimal_inject: "utf8 (decimal m) = utf8 (decimal n) \<Longrightarrow> m = n"
proof -
  assume "utf8 (decimal m) = utf8 (decimal n)"
  then have "map unat (decimal m) = map unat (decimal n)" by (simp add: utf8_ascii)
  then have "decimal m = decimal n" by (metis list.inj_map_strong word_unat_eq_iff)
  then show ?thesis by (rule decimal_inject)
qed

lemma native_bytes_imp: "map native_message_bytes ms = map native_message_bytes ms' \<Longrightarrow>
  map message_bytes ms = map message_bytes ms'"
proof -
  assume "map native_message_bytes ms = map native_message_bytes ms'"
  then have "map snd (map native_message_bytes ms) = map snd (map native_message_bytes ms')" by simp
  then show ?thesis by (simp add: native_message_bytes_def comp_def)
qed

lemma ingest_preimage_decodes:
  assumes "utf8 (ingest_preimage r) = utf8 (ingest_preimage r')"
  shows "same_content r r'"
proof -
  let ?b = "rb_boundary (rq_body r)" and ?b' = "rb_boundary (rq_body r')"
  from prefix_inject [OF assms [unfolded ingest_preimage_shape]]
  have tag: "preimage_tag ?b = preimage_tag ?b'"
    and rest: "utf8 (frames (preimage_fields r) @ preimage_messages r) =
        utf8 (frames (preimage_fields r') @ preimage_messages r')"
    by (simp_all add: tag_length)
  then have v: "boundary_version ?b = boundary_version ?b'" by (simp add: tag_version)
  then have "length (preimage_fields r) = length (preimage_fields r')"
    by (cases ?b; cases ?b') (simp_all add: preimage_fields_def Let_def)
  from frames_inject [OF this rest]
  have f: "map utf8 (preimage_fields r) = map utf8 (preimage_fields r')"
    and m: "utf8 (preimage_messages r) = utf8 (preimage_messages r')" by simp_all
  show ?thesis
  proof (cases "boundary_version ?b = 3")
    case True
    then obtain ss es ss' es' where b: "?b = Boundary3 ss es" "?b' = Boundary3 ss' es'"
      using v by (cases ?b; cases ?b') auto
    have ms: "map native_message_bytes (rb_messages (rq_body r)) =
        map native_message_bytes (rb_messages (rq_body r'))"
      using m by (intro native_message_frames_inject) (simp add: preimage_messages_def b)
    have "utf8 (decimal (rb_projection_version (rq_body r))) =
        utf8 (decimal (rb_projection_version (rq_body r')))"
      using f by (simp add: preimage_fields_def b Let_def)
    from utf8_decimal_inject [OF this] show ?thesis
      using f native_bytes_imp [OF ms] ms by (simp add: same_content_def preimage_fields_def b Let_def)
  next
    case False
    with v have nv: "boundary_version ?b' \<noteq> 3" by simp
    have ms: "map message_bytes (rb_messages (rq_body r)) = map message_bytes (rb_messages (rq_body r'))"
      using m False nv by (intro message_frames_inject) (simp add: preimage_messages_def)
    have "boundary_bytes ?b = boundary_bytes ?b' \<and>
        utf8 (rb_session_id (rq_body r)) = utf8 (rb_session_id (rq_body r'))"
    proof (cases ?b)
      case (Boundary1 su eu)
      then obtain su' eu' where b': "?b' = Boundary1 su' eu'" using v nv by (cases ?b') auto
      show ?thesis using f by (simp add: preimage_fields_def Boundary1 b' Let_def)
    next
      case (Boundary2 su eu ss es)
      then obtain su' eu' ss' es' where b': "?b' = Boundary2 su' eu' ss' es'" using v nv by (cases ?b') auto
      show ?thesis using f by (simp add: preimage_fields_def Boundary2 b' Let_def)
    next
      case (Boundary3 ss es)
      with False show ?thesis by simp
    qed
    with ms False show ?thesis unfolding same_content_def by blast
  qed
qed

text \<open>
  C8. Equal source fingerprints mean equal content: whenever two requests, of any boundary
  versions, have the same fingerprint, they agree byte for byte on everything the fingerprint is
  meant to cover, or their preimages are an explicit SHA-256 collision. Length-prefixed frames make
  the concatenation uniquely decodable, so no field can be shifted into its neighbour.
\<close>

theorem fingerprint_identifies_content:
  assumes "ingestSourceFingerprint cr r = ingestSourceFingerprint cr r'"
  shows "same_content r r' \<or> (\<exists>a b. a \<noteq> b \<and> sha256_hex cr a = sha256_hex cr b
    \<and> a = utf8 (ingest_preimage r) \<and> b = utf8 (ingest_preimage r'))"
proof (cases "utf8 (ingest_preimage r) = utf8 (ingest_preimage r')")
  case True
  then show ?thesis by (simp add: ingest_preimage_decodes)
next
  case False
  have "ingestSourceFingerprint cr q = sha256_hex cr (utf8 (ingest_preimage q))" for q
    by (simp add: ingestSourceFingerprint_def ingest_preimage_def nativeSourceFingerprint_def
        sourceFingerprint_def)
  with assms False show ?thesis by auto
qed

text \<open>The name whose UUIDv5 is the segment ID of a request on a source-prefixed entry.\<close>

definition segment_name :: "ingest_request \<Rightarrow> jsstr" where
  "segment_name r = source_segment_name (rq_source_id r) (rb_session_id (rq_body r))
     (boundary_version (rb_boundary (rq_body r))) (the (start_cursor (rb_boundary (rq_body r))))"

lemma source_segment_name_inject:
  assumes "utf8 (source_segment_name s t v c) = utf8 (source_segment_name s' t' v' c')"
  shows "utf8 s = utf8 s' \<and> utf8 t = utf8 t' \<and> v = v' \<and> utf8 c = utf8 c'"
proof -
  from prefix_inject [OF assms [unfolded source_segment_name_def]]
  have "utf8 (frames [s, t, decimal v, c]) = utf8 (frames [s', t', decimal v', c'])"
    by simp
  then have "map utf8 [s, t, decimal v, c] = map utf8 [s', t', decimal v', c']"
    using frames_inject [of "[s, t, decimal v, c]" "[s', t', decimal v', c']" "[]" "[]"] by simp
  then show ?thesis by (auto dest: utf8_decimal_inject)
qed

lemma source_v1_name:
  assumes "ingestSegmentIdForRequest cr q s = Inr i" "src_scheme s = SourceV1" "valid_request q"
    and "start_cursor (rb_boundary (rq_body q)) = Some d"
  shows "i = uuid5 cr (utf8 (source_segment_name (rq_source_id q) (rb_session_id (rq_body q))
    (boundary_version (rb_boundary (rq_body q))) d)) SEGMENT_NAMESPACE"
proof -
  have owner: "ident_ok (rq_source_id q)" using assms(3) by (simp add: valid_request_def Let_def)
  show ?thesis
  proof (cases "boundary_version (rb_boundary (rq_body q)) = 3")
    case True
    have "same_object (persisted_props q) (persisted_props q)"
      by (simp add: same_object_def persisted_props_distinct)
    then have "parseNativeSegmentCreate (persistedRequest q) = Inr q"
      unfolding persistedRequest_def by (rule decode_native [OF assms(3) True])
    with True assms show ?thesis
      by (cases "rb_boundary (rq_body q)")
        (auto simp: ingestSegmentIdForRequest_def nativeSegmentIdForRequest_def start_cursor_def split: if_splits)
  next
    case False
    with assms owner show ?thesis
      by (auto simp: ingestSegmentIdForRequest_def sourceSegmentIdForRequest_def parseSourceInfo_def
          split: if_splits)
  qed
qed

text \<open>
  C9. On a source-prefixed registry entry a segment ID identifies the source, the session, the
  boundary version and the start cursor: two requests get the same ID only if they agree on these,
  byte for byte, or their names are an explicit UUIDv5 collision.
\<close>

theorem segment_id_identifies_start:
  assumes "ingestSegmentIdForRequest cr r source = Inr i" "ingestSegmentIdForRequest cr r' source' = Inr i"
    and "src_scheme source = SourceV1" "src_scheme source' = SourceV1"
    and "valid_request r" "valid_request r'"
  shows "(utf8 (rq_source_id r) = utf8 (rq_source_id r')
      \<and> utf8 (rb_session_id (rq_body r)) = utf8 (rb_session_id (rq_body r'))
      \<and> boundary_version (rb_boundary (rq_body r)) = boundary_version (rb_boundary (rq_body r'))
      \<and> map_option utf8 (start_cursor (rb_boundary (rq_body r))) =
        map_option utf8 (start_cursor (rb_boundary (rq_body r'))))
    \<or> (\<exists>a b. a \<noteq> b \<and> uuid5 cr a SEGMENT_NAMESPACE = uuid5 cr b SEGMENT_NAMESPACE
        \<and> a = utf8 (segment_name r) \<and> b = utf8 (segment_name r'))"
proof -
  obtain c where c: "start_cursor (rb_boundary (rq_body r)) = Some c"
    by (cases "rb_boundary (rq_body r)") (auto simp: start_cursor_def)
  obtain c' where c': "start_cursor (rb_boundary (rq_body r')) = Some c'"
    by (cases "rb_boundary (rq_body r')") (auto simp: start_cursor_def)
  have name: "i = uuid5 cr (utf8 (source_segment_name (rq_source_id q) (rb_session_id (rq_body q))
        (boundary_version (rb_boundary (rq_body q))) d)) SEGMENT_NAMESPACE"
    if "ingestSegmentIdForRequest cr q s = Inr i" "src_scheme s = SourceV1" "valid_request q"
      "start_cursor (rb_boundary (rq_body q)) = Some d" for q s d
    by (rule source_v1_name [OF that])
  show ?thesis
  proof (cases "utf8 (source_segment_name (rq_source_id r) (rb_session_id (rq_body r))
        (boundary_version (rb_boundary (rq_body r))) c) =
      utf8 (source_segment_name (rq_source_id r') (rb_session_id (rq_body r'))
        (boundary_version (rb_boundary (rq_body r'))) c')")
    case True
    from source_segment_name_inject [OF this] c c' show ?thesis by auto
  next
    case False
    then have "utf8 (segment_name r) \<noteq> utf8 (segment_name r')"
      using c c' by (simp add: segment_name_def)
    moreover have "i = uuid5 cr (utf8 (segment_name r)) SEGMENT_NAMESPACE"
      "i = uuid5 cr (utf8 (segment_name r')) SEGMENT_NAMESPACE"
      using name [OF assms(1,3,5) c] name [OF assms(2,4,6) c'] c c' by (simp_all add: segment_name_def)
    ultimately show ?thesis by metis
  qed
qed

definition plain_crypto :: crypto where
  "plain_crypto = \<lparr>sha256_hex = map of_nat, uuid5 = (\<lambda>bytes ns. ns @ map of_nat bytes)\<rparr>"

definition urgent_native :: ingest_request where
  "urgent_native = sample_native\<lparr>rq_body := (rq_body sample_native)\<lparr>rb_processing_priority := 7\<rparr>\<rparr>"

lemma valid_urgent_native: "valid_request urgent_native"
  by (simp add: valid_request_def urgent_native_def sample_native_def Let_def ident_ok_def sample_trim sample_texts
      native_message_ok_def native_types_def text_limits_def MAX_MESSAGE_TEXT_CHARS_def
      MAX_SEGMENT_TEXT_CHARS_def)

theorem fingerprint_identifies_content_witness:
  "same_content sample_native urgent_native
   \<or> (\<exists>a b. a \<noteq> b \<and> sha256_hex plain_crypto a = sha256_hex plain_crypto b
        \<and> a = utf8 (ingest_preimage sample_native) \<and> b = utf8 (ingest_preimage urgent_native))"
  by (rule fingerprint_identifies_content)
    (simp add: ingestSourceFingerprint_def nativeSourceFingerprint_def native_preimage_def urgent_native_def sample_native_def)

definition sample_source :: source_info where
  "sample_source = \<lparr>src_id = js ''s'', src_kind = OpencodeV2, src_scheme = SourceV1\<rparr>"

lemma sample_native_id:
  assumes "q = sample_native \<or> q = urgent_native"
  shows "ingestSegmentIdForRequest plain_crypto q sample_source =
    Inr (uuid5 plain_crypto (utf8 (source_segment_name (js ''s'') (js ''t'') 3 (js ''a''))) SEGMENT_NAMESPACE)"
proof -
  have q: "valid_request q" "boundary_version (rb_boundary (rq_body q)) = 3"
    using assms valid_sample_native valid_urgent_native by (auto simp: sample_native_def urgent_native_def)
  have "same_object (persisted_props q) (persisted_props q)"
    by (simp add: same_object_def persisted_props_distinct)
  then have "parseNativeSegmentCreate (persistedRequest q) = Inr q"
    unfolding persistedRequest_def by (rule decode_native [OF q])
  moreover have "parseSourceInfo sample_source = Inr sample_source"
    by (simp add: parseSourceInfo_def sample_source_def parseSourceId_def sample_trim ident_def ident_ok_def)
  ultimately show ?thesis
    using assms by (auto simp: ingestSegmentIdForRequest_def nativeSegmentIdForRequest_def sample_native_def
      urgent_native_def sample_source_def)
qed

theorem segment_id_identifies_start_witness:
  "(utf8 (rq_source_id sample_native) = utf8 (rq_source_id urgent_native)
      \<and> utf8 (rb_session_id (rq_body sample_native)) = utf8 (rb_session_id (rq_body urgent_native))
      \<and> boundary_version (rb_boundary (rq_body sample_native)) = boundary_version (rb_boundary (rq_body urgent_native))
      \<and> map_option utf8 (start_cursor (rb_boundary (rq_body sample_native))) =
        map_option utf8 (start_cursor (rb_boundary (rq_body urgent_native))))
    \<or> (\<exists>a b. a \<noteq> b \<and> uuid5 plain_crypto a SEGMENT_NAMESPACE = uuid5 plain_crypto b SEGMENT_NAMESPACE
        \<and> a = utf8 (segment_name sample_native) \<and> b = utf8 (segment_name urgent_native))"
  by (rule segment_id_identifies_start [OF sample_native_id [OF disjI1] sample_native_id [OF disjI2]])
    (simp_all add: sample_source_def valid_sample_native valid_urgent_native)
end
