(* ===== verification/Resolution.thy ===== *)
theory Resolution
  imports Identity Complex_Main
begin

text \<open>
  Extracted claims and their triage, from \<open>packages/shared/src/contracts.ts\<close> and \<open>domain.ts\<close>: what an
  extraction result may hold, and \<open>validateResolutionResult\<close>, which turns a model's answer into a plan
  that names only entities the request offered. \<open>caseFold\<close> of the package \<open>unicode-case-folding\<close> is
  the parameter \<open>cf\<close>. A confidence, a finite number, is a rational.
\<close>

section \<open>Extraction results\<close>

record extracted_claim =
  cl_subject :: jsstr
  cl_predicate :: jsstr
  cl_confidence :: rat
  cl_object_entity :: "jsstr option"
  cl_object_value :: "jsstr option"

record extraction =
  ex_summary :: jsstr
  ex_claims :: "extracted_claim list"

definition lower_unit :: "16 word \<Rightarrow> bool" where
  "lower_unit u \<longleftrightarrow> 97 \<le> u \<and> u \<le> 122"

definition upper_unit :: "16 word \<Rightarrow> bool" where
  "upper_unit u \<longleftrightarrow> 65 \<le> u \<and> u \<le> 90"

text \<open>\<open>/[a-z][A-Z]/\<close>\<close>

fun camel_case :: "jsstr \<Rightarrow> bool" where
  "camel_case (u # v # s) = (lower_unit u \<and> upper_unit v \<or> camel_case (v # s))"
| "camel_case _ = False"

definition short_text :: "nat \<Rightarrow> jsstr \<Rightarrow> bool" where
  "short_text n s \<longleftrightarrow> 1 \<le> length s \<and> length s \<le> n"

definition extracted_claim_ok :: "extracted_claim \<Rightarrow> bool" where
  "extracted_claim_ok c \<longleftrightarrow>
     short_text 500 (cl_subject c) \<and> short_text 500 (cl_predicate c) \<and> 95 \<notin> set (cl_predicate c)
     \<and> 0 \<le> cl_confidence c \<and> cl_confidence c \<le> 1
     \<and> (case (cl_object_entity c, cl_object_value c) of
          (Some e, None) \<Rightarrow> short_text 500 e
        | (None, Some v) \<Rightarrow> short_text 10000 v
        | _ \<Rightarrow> False)"

definition parseExtractionResult :: "extraction \<Rightarrow> extraction result" where
  "parseExtractionResult e =
     (if length (ex_summary e) > 1000 \<or> length (ex_claims e) > 25
         \<or> \<not> list_all extracted_claim_ok (ex_claims e)
         \<or> list_ex (\<lambda>c. camel_case (cl_predicate c)) (ex_claims e)
      then Inl ''invalid normalized extraction result'' else Inr e)"

section \<open>Report subjects\<close>

text \<open>
  \<open>REPORT_SUBJECT_PATTERN\<close>: \<open>\b(inspection|review|...)\b\<close> without case. A word unit is a letter, a
  digit or an underscore; a boundary is where word units start or end.
\<close>

definition MAX_REPORT_SUBJECT_CLAIMS :: nat where
  "MAX_REPORT_SUBJECT_CLAIMS = 3"

definition word_unit :: "16 word \<Rightarrow> bool" where
  "word_unit u \<longleftrightarrow> lower_unit u \<or> upper_unit u \<or> (48 \<le> u \<and> u \<le> 57) \<or> u = 95"

definition word_at :: "jsstr \<Rightarrow> nat \<Rightarrow> bool" where
  "word_at s i \<longleftrightarrow> i < length s \<and> word_unit (s ! i)"

definition word_boundary :: "jsstr \<Rightarrow> nat \<Rightarrow> bool" where
  "word_boundary s i \<longleftrightarrow> (i > 0 \<and> word_at s (i - 1)) \<noteq> word_at s i"

definition fold_lower :: "16 word \<Rightarrow> 16 word" where
  "fold_lower u = (if upper_unit u then u + 32 else u)"

definition REPORT_SUBJECT_PATTERN :: "jsstr list" where
  "REPORT_SUBJECT_PATTERN = map js [''inspection'', ''review'', ''report'', ''audit'', ''assessment'',
     ''investigation'', ''walkthrough'', ''validation run'', ''patch application'']"

definition report_subject :: "jsstr \<Rightarrow> bool" where
  "report_subject s \<longleftrightarrow>
     list_ex (\<lambda>i. word_boundary s i \<and> list_ex (\<lambda>p.
       map fold_lower (take (length p) (drop i s)) = p \<and> word_boundary s (i + length p))
       REPORT_SUBJECT_PATTERN) [0..<length s]"

fun keep_report_subjects :: "nat \<Rightarrow> extracted_claim list \<Rightarrow> extracted_claim list" where
  "keep_report_subjects n [] = []"
| "keep_report_subjects n (c # cs) =
     (if \<not> report_subject (cl_subject c) then c # keep_report_subjects n cs
      else if Suc n \<le> MAX_REPORT_SUBJECT_CLAIMS then c # keep_report_subjects (Suc n) cs
      else keep_report_subjects (Suc n) cs)"

definition boundReportSubjectClaims :: "extraction \<Rightarrow> extraction \<times> nat" where
  "boundReportSubjectClaims e =
     (let claims = keep_report_subjects 0 (ex_claims e)
      in (e\<lparr>ex_claims := claims\<rparr>, length (ex_claims e) - length claims))"

lemma keep_report_subjects_filter:
  "filter (\<lambda>c. report_subject (cl_subject c)) (keep_report_subjects n cs) =
     take (MAX_REPORT_SUBJECT_CLAIMS - n) (filter (\<lambda>c. report_subject (cl_subject c)) cs)"
  by (induction n cs rule: keep_report_subjects.induct) (auto simp: Suc_diff_le take_Cons')

lemma keep_report_subjects_others:
  "filter (\<lambda>c. \<not> report_subject (cl_subject c)) (keep_report_subjects n cs) =
     filter (\<lambda>c. \<not> report_subject (cl_subject c)) cs"
  by (induction n cs rule: keep_report_subjects.induct) auto

text \<open>
  \<open>boundReportSubjectClaims\<close> keeps the first three claims about report artefacts, drops the later
  ones, and leaves every other claim in place.
\<close>

theorem boundReportSubjectClaims_exact:
  "filter (\<lambda>c. report_subject (cl_subject c)) (ex_claims (fst (boundReportSubjectClaims e))) =
     take 3 (filter (\<lambda>c. report_subject (cl_subject c)) (ex_claims e))
   \<and> filter (\<lambda>c. \<not> report_subject (cl_subject c)) (ex_claims (fst (boundReportSubjectClaims e))) =
     filter (\<lambda>c. \<not> report_subject (cl_subject c)) (ex_claims e)"
  using keep_report_subjects_filter [of 0] keep_report_subjects_others [of 0]
  by (simp add: boundReportSubjectClaims_def Let_def MAX_REPORT_SUBJECT_CLAIMS_def)

section \<open>Names\<close>

text \<open>\<open>[\p{White_Space}\u001c-\u001f]\<close>\<close>

definition name_space :: "16 word \<Rightarrow> bool" where
  "name_space u \<longleftrightarrow> (9 \<le> u \<and> u \<le> 13) \<or> (28 \<le> u \<and> u \<le> 32) \<or> u = 0x85 \<or> u = 0xA0 \<or> u = 0x1680
     \<or> (0x2000 \<le> u \<and> u \<le> 0x200A) \<or> u = 0x2028 \<or> u = 0x2029 \<or> u = 0x202F \<or> u = 0x205F \<or> u = 0x3000"

function words_of :: "jsstr \<Rightarrow> jsstr list" where
  "words_of [] = []"
| "words_of (u # s) =
     (if name_space u then words_of s
      else (u # takeWhile (\<lambda>v. \<not> name_space v) s) # words_of (dropWhile (\<lambda>v. \<not> name_space v) s))"
  by pat_completeness auto
termination
  by (relation "measure length") (auto simp: less_Suc_eq_le length_dropWhile_le)

definition normalizeName :: "(jsstr \<Rightarrow> jsstr) \<Rightarrow> jsstr \<Rightarrow> jsstr" where
  "normalizeName cf value = join [32] (words_of (cf value))"

text \<open>An ID of a new entity names its segment, its source content and its mention.\<close>

definition mention_fields :: "jsstr \<Rightarrow> jsstr \<Rightarrow> jsstr \<Rightarrow> extracted_claim \<Rightarrow> jsstr list" where
  "mention_fields segmentId fingerprint mentionId c =
     [segmentId, fingerprint, mentionId, cl_subject c, cl_predicate c,
      (if cl_object_entity c = None then js ''literal'' else js ''entity''),
      (case cl_object_entity c of Some e \<Rightarrow> e | None \<Rightarrow> the (cl_object_value c))]"

definition new_mention_name :: "jsstr \<Rightarrow> jsstr \<Rightarrow> jsstr \<Rightarrow> extracted_claim \<Rightarrow> jsstr" where
  "new_mention_name segmentId fingerprint mentionId c =
     js ''reflection-new-mention-v1:'' @ frames (mention_fields segmentId fingerprint mentionId c)"

definition newMentionEntityIdFor ::
  "crypto \<Rightarrow> jsstr \<Rightarrow> jsstr \<Rightarrow> jsstr \<Rightarrow> extracted_claim \<Rightarrow> jsstr result" where
  "newMentionEntityIdFor cr segmentId fingerprint mentionId c =
     (if (cl_object_entity c = None) = (cl_object_value c = None)
      then Inl ''new mention identity requires exactly one entity object or literal value''
      else Inr (uuid5 cr (utf8 (new_mention_name segmentId fingerprint mentionId c)) ENTITY_NAMESPACE))"

definition equivalenceKey ::
  "crypto \<Rightarrow> (jsstr \<Rightarrow> jsstr) \<Rightarrow> jsstr \<Rightarrow> jsstr \<Rightarrow> jsstr option \<Rightarrow> jsstr option \<Rightarrow> jsstr result" where
  "equivalenceKey cr cf subjectId predicate objectEntityId objectValue =
     (if (objectEntityId = None) = (objectValue = None)
      then Inl ''equivalence key requires exactly one entity object or literal value''
      else let objectKey = (case objectEntityId of
              Some i \<Rightarrow> js ''entity:'' @ i
            | None \<Rightarrow> js ''literal:'' @ normalizeName cf (the objectValue))
        in Inr (sha256_hex cr (utf8 (subjectId @ 0 # normalizeName cf predicate @ 0 # objectKey))))"

section \<open>Candidates, mentions and decisions\<close>

record entity_candidate =
  ec_id :: jsstr
  ec_canonicalName :: jsstr
  ec_description :: jsstr
  ec_aliases :: "jsstr list"

record mention_context =
  mc_mentionId :: jsstr
  mc_role :: jsstr
  mc_text :: jsstr
  mc_supportingClaim :: jsstr
  mc_candidates :: "entity_candidate list"

datatype claim_action = Keep | Drop | Review

datatype claim_reason = Supported | UnstableScope | LifecycleMismatch | Unsupported | Transient

record claim_decision =
  cd_claim_id :: jsstr
  cd_action :: claim_action
  cd_reason :: claim_reason

record mention_resolution =
  rs_mention_id :: jsstr
  rs_candidate :: "jsstr option"
  rs_same_new :: "jsstr option"

record resolution_result =
  rr_claims :: "claim_decision list"
  rr_resolutions :: "mention_resolution list"

datatype substitution_outcome = OtherMentionCandidate | NewEntity

record substitution =
  sb_mentionId :: jsstr
  sb_candidate :: jsstr
  sb_outcome :: substitution_outcome

record validated_mention =
  vm_context :: mention_context
  vm_resolution :: mention_resolution
  vm_selected :: "entity_candidate option"

record resolution_plan =
  rp_kept :: "(nat \<times> extracted_claim) list"
  rp_mentions :: "validated_mention list"
  rp_substitutions :: "substitution list"

text \<open>
  \<open>parseResolutionResult\<close> on a value of the schema's shape: the two patterns, the two limits, and that
  an action is the one its reason calls for.
\<close>

definition decimal_unit :: "16 word \<Rightarrow> bool" where
  "decimal_unit u \<longleftrightarrow> 48 \<le> u \<and> u \<le> 57"

definition hex_unit :: "16 word \<Rightarrow> bool" where
  "hex_unit u \<longleftrightarrow> decimal_unit u \<or> 65 \<le> u \<and> u \<le> 70 \<or> 97 \<le> u \<and> u \<le> 102"

text \<open>\<open>^c[0-9]+$\<close> and \<open>UUID_PATTERN\<close>.\<close>

definition claim_id_ok :: "jsstr \<Rightarrow> bool" where
  "claim_id_ok s \<longleftrightarrow> (case s of [] \<Rightarrow> False | u # ds \<Rightarrow> u = 99 \<and> ds \<noteq> [] \<and> list_all decimal_unit ds)"

definition uuid_ok :: "jsstr \<Rightarrow> bool" where
  "uuid_ok s \<longleftrightarrow> length s = 36
     \<and> list_all (\<lambda>i. if i \<in> {8, 13, 18, 23} then s ! i = 45 else hex_unit (s ! i)) [0..<36]
     \<and> 49 \<le> s ! 14 \<and> s ! 14 \<le> 53 \<and> s ! 19 \<in> {56, 57, 65, 66, 97, 98}"

definition expected_action :: "claim_reason \<Rightarrow> claim_action" where
  "expected_action r = (case r of Supported \<Rightarrow> Keep | UnstableScope \<Rightarrow> Review | _ \<Rightarrow> Drop)"

definition resolution_schema :: "resolution_result \<Rightarrow> bool" where
  "resolution_schema r \<longleftrightarrow>
     length (rr_claims r) \<le> 25 \<and> length (rr_resolutions r) \<le> 1000
     \<and> list_all (\<lambda>d. claim_id_ok (cd_claim_id d)) (rr_claims r)
     \<and> list_all (\<lambda>m. case rs_candidate m of None \<Rightarrow> True | Some i \<Rightarrow> uuid_ok i) (rr_resolutions r)"

definition parseResolutionResult :: "resolution_result \<Rightarrow> resolution_result result" where
  "parseResolutionResult r =
     (if \<not> resolution_schema r then Inl ''resolution result''
      else if list_ex (\<lambda>d. cd_action d \<noteq> expected_action (cd_reason d)) (rr_claims r)
      then Inl ''claim action does not match its reason'' else Inr r)"

fun first_by_id :: "entity_candidate list \<Rightarrow> entity_candidate list \<Rightarrow> entity_candidate list" where
  "first_by_id seen [] = seen"
| "first_by_id seen (c # cs) =
     (if \<exists>d\<in>set seen. ec_id d = ec_id c then first_by_id seen cs else first_by_id (seen @ [c]) cs)"

definition unionCandidates :: "entity_candidate list \<Rightarrow> entity_candidate list \<Rightarrow> entity_candidate list" where
  "unionCandidates trigram vector = first_by_id [] (take 5 trigram @ take 5 vector)"

definition claim_key :: "nat \<Rightarrow> jsstr" where
  "claim_key i = js ''c'' @ decimal i"

definition kept_claim :: "claim_decision list \<Rightarrow> nat \<times> extracted_claim \<Rightarrow> bool" where
  "kept_claim decisions p = (case find (\<lambda>d. cd_claim_id d = claim_key (fst p)) decisions of
     None \<Rightarrow> False | Some d \<Rightarrow> cd_action d = Keep)"

definition validateClaimDecisions ::
  "extracted_claim list \<Rightarrow> resolution_result \<Rightarrow> (nat \<times> extracted_claim) list result" where
  "validateClaimDecisions proposed result =
     (let ids = map cd_claim_id (rr_claims result) in
      if \<not> distinct ids then Inl ''claim triage returned duplicate claim IDs''
      else if length ids \<noteq> length proposed \<or> list_ex (\<lambda>i. i \<notin> set (map claim_key [0..<length proposed])) ids
      then Inl ''claim triage must return every proposed claim exactly once''
      else Inr (filter (kept_claim (rr_claims result)) (zip [0..<length proposed] proposed)))"

definition subject_key :: "nat \<Rightarrow> jsstr" where
  "subject_key i = claim_key i @ js ''.subject''"

definition object_key :: "nat \<Rightarrow> jsstr" where
  "object_key i = claim_key i @ js ''.object''"

definition kept_mention_ids :: "(nat \<times> extracted_claim) list \<Rightarrow> jsstr list" where
  "kept_mention_ids kept = concat (map (\<lambda>(i, c).
     subject_key i # (if cl_object_entity c = None then [] else [object_key i])) kept)"

definition resolution_for :: "mention_resolution list \<Rightarrow> jsstr \<Rightarrow> mention_resolution option" where
  "resolution_for rs i = find (\<lambda>r. rs_mention_id r = i) rs"

definition request_candidate :: "mention_context list \<Rightarrow> jsstr \<Rightarrow> entity_candidate option" where
  "request_candidate contexts i = find (\<lambda>c. ec_id c = i) (concat (map mc_candidates contexts))"

text \<open>
  The candidate a resolution selects: the mention's own, another mention's, or none. The last two
  are recorded as substitutions.
\<close>

definition select_candidate ::
  "mention_context list \<Rightarrow> mention_context \<Rightarrow> mention_resolution
     \<Rightarrow> entity_candidate option \<times> substitution list \<times> mention_resolution" where
  "select_candidate contexts context r =
     (case rs_candidate r of
        None \<Rightarrow> (None, [], r)
      | Some i \<Rightarrow>
          (case find (\<lambda>c. ec_id c = i) (mc_candidates context) of
             Some c \<Rightarrow> (Some c, [], r)
           | None \<Rightarrow>
               (case request_candidate contexts i of
                  Some c \<Rightarrow> (Some c, [\<lparr>sb_mentionId = mc_mentionId context, sb_candidate = i,
                    sb_outcome = OtherMentionCandidate\<rparr>], r)
                | None \<Rightarrow> (None, [\<lparr>sb_mentionId = mc_mentionId context, sb_candidate = i,
                    sb_outcome = NewEntity\<rparr>], r\<lparr>rs_candidate := None\<rparr>))))"

text \<open>
  The group check reads the model's own resolutions, so a substituted mention can neither join nor
  anchor a group. \<open>expected\<close> and \<open>contextIndexes\<close> map an ID to the last kept context that has it.
\<close>

definition last_context :: "mention_context list \<Rightarrow> jsstr \<Rightarrow> nat option" where
  "last_context keptContexts i = last_index (\<lambda>c. mc_mentionId c = i) keptContexts"

definition valid_group ::
  "(jsstr \<Rightarrow> jsstr) \<Rightarrow> mention_context list \<Rightarrow> mention_resolution list \<Rightarrow> mention_context
     \<Rightarrow> mention_resolution \<Rightarrow> jsstr \<Rightarrow> bool" where
  "valid_group cf keptContexts resolutions context original g \<longleftrightarrow>
     rs_candidate original = None
     \<and> (case (last_context keptContexts g, last_context keptContexts (mc_mentionId context),
             resolution_for resolutions g) of
          (Some k, Some n, Some r) \<Rightarrow>
            rs_candidate r = None \<and> rs_same_new r = None \<and> k < n
            \<and> normalizeName cf (mc_text (keptContexts ! k)) = normalizeName cf (mc_text context)
        | _ \<Rightarrow> False)"

definition validate_mention ::
  "(jsstr \<Rightarrow> jsstr) \<Rightarrow> mention_context list \<Rightarrow> mention_context list \<Rightarrow> mention_resolution list
     \<Rightarrow> mention_context \<Rightarrow> (validated_mention \<times> substitution list) result" where
  "validate_mention cf contexts keptContexts resolutions context =
     (case resolution_for resolutions (mc_mentionId context) of
        None \<Rightarrow> Inl ''resolution missing''
      | Some original \<Rightarrow>
          let (selected, subs, r) = select_candidate contexts context original in
          if (case rs_same_new r of None \<Rightarrow> True
              | Some g \<Rightarrow> valid_group cf keptContexts resolutions context original g)
          then Inr (\<lparr>vm_context = context, vm_resolution = r, vm_selected = selected\<rparr>, subs)
          else Inl ''entity resolution returned an invalid new-entity group'')"

definition kept_contexts ::
  "(nat \<times> extracted_claim) list \<Rightarrow> mention_context list \<Rightarrow> mention_context list" where
  "kept_contexts kept contexts = filter (\<lambda>c. mc_mentionId c \<in> set (kept_mention_ids kept)) contexts"

definition validateResolutionResult ::
  "(jsstr \<Rightarrow> jsstr) \<Rightarrow> extracted_claim list \<Rightarrow> mention_context list \<Rightarrow> resolution_result
     \<Rightarrow> resolution_plan result" where
  "validateResolutionResult cf proposed contexts result =
     rbind (validateClaimDecisions proposed result) (\<lambda>kept.
     let keptContexts = kept_contexts kept contexts;
         expected = remdups (map mc_mentionId keptContexts);
         ids = map rs_mention_id (rr_resolutions result) in
     if \<not> distinct ids then Inl ''entity resolution returned duplicate mention IDs''
     else if length ids \<noteq> length expected \<or> list_ex (\<lambda>i. i \<notin> set expected) ids
     then Inl ''entity resolution must return every mention exactly once''
     else rbind (rmap (validate_mention cf contexts keptContexts (rr_resolutions result)) keptContexts) (\<lambda>vs.
       Inr \<lparr>rp_kept = kept, rp_mentions = map fst vs, rp_substitutions = concat (map snd vs)\<rparr>))"

section \<open>Every claim is decided once\<close>

lemma claim_key_inject: "claim_key i = claim_key j \<longleftrightarrow> i = j"
  by (auto simp: claim_key_def dest: decimal_inject)

lemma distinct_claim_keys: "distinct (map claim_key [0..<n])"
  by (simp add: distinct_map inj_on_def claim_key_inject)

lemma find_SomeD: "find p xs = Some x \<Longrightarrow> x \<in> set xs \<and> p x"
  by (induction xs) (auto split: if_splits)

lemma find_unique:
  assumes "distinct (map f xs)" "x \<in> set xs" "f x = k"
  shows "find (\<lambda>x. f x = k) xs = Some x"
  using assms by (induction xs) auto

lemma index_zip: "(i, c) \<in> set (zip [0..<length xs] xs) \<longleftrightarrow> i < length xs \<and> c = xs ! i"
  by (auto simp: set_zip intro!: exI [of _ i])

text \<open>
  When \<open>validateClaimDecisions\<close> accepts a triage, every proposed claim has exactly one decision,
  no decision is about anything else, and the kept claims are, in order, those decided \<open>keep\<close>.
\<close>

theorem validateClaimDecisions_exact:
  assumes "validateClaimDecisions proposed result = Inr kept"
  shows "set (map cd_claim_id (rr_claims result)) = claim_key ` {0..<length proposed}
    \<and> (\<forall>i<length proposed. \<exists>!d. d \<in> set (rr_claims result) \<and> cd_claim_id d = claim_key i)
    \<and> (\<forall>i c. (i, c) \<in> set kept \<longleftrightarrow> i < length proposed \<and> c = proposed ! i
        \<and> (\<exists>d\<in>set (rr_claims result). cd_claim_id d = claim_key i \<and> cd_action d = Keep))
    \<and> sorted_wrt (\<lambda>a b. fst a < fst b) kept"
proof -
  let ?ids = "map cd_claim_id (rr_claims result)"
  from assms have ids: "distinct ?ids" "length ?ids = length proposed"
    "set ?ids \<subseteq> set (map claim_key [0..<length proposed])"
    and kept: "kept = filter (kept_claim (rr_claims result)) (zip [0..<length proposed] proposed)"
    by (auto simp: validateClaimDecisions_def Let_def list_ex_iff split: if_splits)
  have all: "set ?ids = set (map claim_key [0..<length proposed])"
  proof (rule card_subset_eq [OF _ ids(3)])
    show "card (set ?ids) = card (set (map claim_key [0..<length proposed]))"
      using ids(2) distinct_card [OF ids(1)] distinct_card [OF distinct_claim_keys [of "length proposed"]] by simp
  qed simp
  have one: "d = d'" if "d \<in> set (rr_claims result)" "d' \<in> set (rr_claims result)" "cd_claim_id d = cd_claim_id d'" for d d'
    using ids(1) that by (auto simp: distinct_map inj_on_def)
  have ex: "\<exists>!d. d \<in> set (rr_claims result) \<and> cd_claim_id d = claim_key i" if "i < length proposed" for i
  proof -
    have "claim_key i \<in> set ?ids" unfolding all using that by simp
    with one show ?thesis by auto
  qed
  have keep: "kept_claim (rr_claims result) (i, c) \<longleftrightarrow>
      (\<exists>d\<in>set (rr_claims result). cd_claim_id d = claim_key i \<and> cd_action d = Keep)" for i c
  proof (cases "find (\<lambda>d. cd_claim_id d = claim_key i) (rr_claims result)")
    case None
    then have "\<not> (\<exists>d. d \<in> set (rr_claims result) \<and> cd_claim_id d = claim_key i)"
      by (rule find_None_iff [THEN iffD1])
    then show ?thesis unfolding kept_claim_def fst_conv None option.case by blast
  next
    case (Some d)
    from find_SomeD [OF this] have d: "d \<in> set (rr_claims result)" "cd_claim_id d = claim_key i" by simp_all
    have "kept_claim (rr_claims result) (i, c) \<longleftrightarrow> cd_action d = Keep" by (simp add: kept_claim_def Some)
    with d one [OF d(1)] show ?thesis by metis
  qed
  have "sorted_wrt (\<lambda>a b. fst a < fst b) (zip [0..<length proposed] proposed)"
    by (simp add: sorted_wrt_iff_nth_less)
  then have "sorted_wrt (\<lambda>a b. fst a < fst b) kept" unfolding kept by (rule sorted_wrt_filter)
  moreover have "(i, c) \<in> set kept \<longleftrightarrow> i < length proposed \<and> c = proposed ! i
      \<and> (\<exists>d\<in>set (rr_claims result). cd_claim_id d = claim_key i \<and> cd_action d = Keep)" for i c
    unfolding kept set_filter mem_Collect_eq keep index_zip by blast
  moreover have "set ?ids = claim_key ` {0..<length proposed}" unfolding all by simp
  ultimately show ?thesis using ex by blast
qed

section \<open>A plan names only what the request offered\<close>

definition offered :: "mention_context list \<Rightarrow> entity_candidate set" where
  "offered contexts = (\<Union>c\<in>set contexts. set (mc_candidates c))"

lemma select_candidate_sound:
  assumes sel: "select_candidate contexts context r = (selected, subs, r')" and c: "context \<in> set contexts"
  shows "case selected of Some c \<Rightarrow> rs_candidate r' = Some (ec_id c) \<and> c \<in> offered contexts
         | None \<Rightarrow> rs_candidate r' = None"
    and "rs_same_new r' = rs_same_new r" and "rs_candidate r = None \<Longrightarrow> selected = None \<and> r' = r"
proof -
  have own: "x \<in> offered contexts \<and> ec_id x = i" if "find (\<lambda>c. ec_id c = i) (mc_candidates context) = Some x" for i x
    using find_SomeD [OF that] c by (auto simp: offered_def)
  have other: "x \<in> offered contexts \<and> ec_id x = i" if "request_candidate contexts i = Some x" for i x
    using find_SomeD [OF that [unfolded request_candidate_def]] by (auto simp: offered_def)
  show "case selected of Some c \<Rightarrow> rs_candidate r' = Some (ec_id c) \<and> c \<in> offered contexts
         | None \<Rightarrow> rs_candidate r' = None"
  proof (cases "rs_candidate r")
    case None
    with sel show ?thesis by (auto simp: select_candidate_def)
  next
    case (Some i)
    show ?thesis
    proof (cases "find (\<lambda>c. ec_id c = i) (mc_candidates context)")
      case (Some x)
      with \<open>rs_candidate r = Some i\<close> sel have "selected = Some x" "r' = r" by (simp_all add: select_candidate_def)
      with \<open>rs_candidate r = Some i\<close> own [OF Some] show ?thesis by simp
    next
      case None
      show ?thesis
      proof (cases "request_candidate contexts i")
        case (Some x)
        with \<open>rs_candidate r = Some i\<close> None sel have "selected = Some x" "r' = r"
          by (simp_all add: select_candidate_def)
        with \<open>rs_candidate r = Some i\<close> other [OF Some] show ?thesis by simp
      next
        case no: None
        with \<open>rs_candidate r = Some i\<close> None sel have "selected = None" "r' = r\<lparr>rs_candidate := None\<rparr>"
          by (simp_all add: select_candidate_def)
        then show ?thesis by simp
      qed
    qed
  qed
  show "rs_same_new r' = rs_same_new r" "rs_candidate r = None \<Longrightarrow> selected = None \<and> r' = r"
    using sel by (auto simp: select_candidate_def split: option.splits)
qed

lemma validate_mention_InrE:
  assumes "validate_mention cf contexts keptContexts resolutions context = Inr (vm, subs)"
  obtains r where "resolution_for resolutions (mc_mentionId context) = Some r"
    "select_candidate contexts context r = (vm_selected vm, subs, vm_resolution vm)"
    "vm_context vm = context"
    "\<And>g. rs_same_new (vm_resolution vm) = Some g \<Longrightarrow> valid_group cf keptContexts resolutions context r g"
  using assms
  by (auto simp: validate_mention_def split: option.splits prod.splits if_splits)

lemma rmap_nth: "rmap f xs = Inr ys \<Longrightarrow> n < length xs \<Longrightarrow> f (xs ! n) = Inr (ys ! n)"
  by (simp add: rmap_Inr_iff list_all2_conv_all_nth)

lemma validateResolutionResult_InrE:
  assumes "validateResolutionResult cf proposed contexts result = Inr plan"
  obtains keptContexts vs where "validateClaimDecisions proposed result = Inr (rp_kept plan)"
    "keptContexts = kept_contexts (rp_kept plan) contexts"
    "rmap (validate_mention cf contexts keptContexts (rr_resolutions result)) keptContexts = Inr vs"
    "rp_mentions plan = map fst vs" "rp_substitutions plan = concat (map snd vs)"
    "distinct (map rs_mention_id (rr_resolutions result))"
  using assms by (auto simp: validateResolutionResult_def Let_def split: if_splits)

text \<open>What a plan promises about its \<open>n\<close>-th mention.\<close>

definition mention_sound :: "mention_context list \<Rightarrow> validated_mention \<Rightarrow> bool" where
  "mention_sound contexts m \<longleftrightarrow>
     (case vm_selected m of
        None \<Rightarrow> rs_candidate (vm_resolution m) = None
      | Some c \<Rightarrow> rs_candidate (vm_resolution m) = Some (ec_id c) \<and> c \<in> offered contexts)"

definition anchored :: "(jsstr \<Rightarrow> jsstr) \<Rightarrow> validated_mention list \<Rightarrow> nat \<Rightarrow> jsstr \<Rightarrow> bool" where
  "anchored cf ms n g \<longleftrightarrow>
     (\<exists>k<n. mc_mentionId (vm_context (ms ! k)) = g \<and> vm_selected (ms ! k) = None
        \<and> rs_same_new (vm_resolution (ms ! k)) = None
        \<and> normalizeName cf (mc_text (vm_context (ms ! k))) = normalizeName cf (mc_text (vm_context (ms ! n))))"

lemma plan_mentions:
  assumes "rmap (validate_mention cf contexts keptContexts resolutions) keptContexts = Inr vs"
    and "keptContexts = kept_contexts kept contexts"
  shows "map vm_context (map fst vs) = keptContexts"
    and "\<And>n. n < length vs \<Longrightarrow> validate_mention cf contexts keptContexts resolutions (keptContexts ! n)
      = Inr (map fst vs ! n, snd (vs ! n))"
    and "\<And>n. n < length vs \<Longrightarrow> keptContexts ! n \<in> set contexts"
proof -
  have len: "length vs = length keptContexts" by (rule rmap_length [OF assms(1)])
  show v: "validate_mention cf contexts keptContexts resolutions (keptContexts ! n)
      = Inr (map fst vs ! n, snd (vs ! n))" if "n < length vs" for n
    using rmap_nth [OF assms(1), of n] that len by simp
  show "map vm_context (map fst vs) = keptContexts"
  proof (rule nth_equalityI)
    fix n assume "n < length (map vm_context (map fst vs))"
    then have n: "n < length vs" by simp
    from v [OF n] obtain r where "vm_context (map fst vs ! n) = keptContexts ! n"
      by (rule validate_mention_InrE)
    with n show "map vm_context (map fst vs) ! n = keptContexts ! n" by simp
  qed (simp add: len)
  show "keptContexts ! n \<in> set contexts" if "n < length vs" for n
    using nth_mem [of n keptContexts] that len assms(2) by (auto simp: kept_contexts_def)
qed

text \<open>
  C12. A plan names only what the request offered, and its new-entity groups are well-founded. Every
  mention of the plan is a kept one, in order; a selected candidate was in some mention's list and is
  the one the resolution names, and no other ID survives; a mention that joins a group creates no
  candidate entity and names an earlier mention with the same normalised text that starts its own
  new entity.
\<close>

theorem validateResolutionResult_sound:
  assumes "validateResolutionResult cf proposed contexts result = Inr plan"
    and "distinct (map mc_mentionId contexts)"
  shows "map vm_context (rp_mentions plan) = kept_contexts (rp_kept plan) contexts
    \<and> (\<forall>m\<in>set (rp_mentions plan). mention_sound contexts m)
    \<and> (\<forall>n<length (rp_mentions plan). \<forall>g. rs_same_new (vm_resolution (rp_mentions plan ! n)) = Some g \<longrightarrow>
        vm_selected (rp_mentions plan ! n) = None \<and> anchored cf (rp_mentions plan) n g)"
proof -
  from assms(1) obtain keptContexts vs where kc: "keptContexts = kept_contexts (rp_kept plan) contexts"
    and vs: "rmap (validate_mention cf contexts keptContexts (rr_resolutions result)) keptContexts = Inr vs"
    and ms: "rp_mentions plan = map fst vs"
    by (rule validateResolutionResult_InrE)
  note pm = plan_mentions [OF vs kc]
  have len: "length vs = length keptContexts" by (rule rmap_length [OF vs])
  have distinct: "distinct (map mc_mentionId keptContexts)"
    unfolding kc kept_contexts_def by (rule distinct_map_filter [OF assms(2)])
  have sound: "mention_sound contexts (map fst vs ! n)" if n: "n < length vs" for n
  proof -
    from pm(2) [OF n] obtain r where
      "select_candidate contexts (keptContexts ! n) r = (vm_selected (map fst vs ! n), snd (vs ! n), vm_resolution (map fst vs ! n))"
      by (rule validate_mention_InrE)
    from select_candidate_sound(1) [OF this pm(3) [OF n]] show ?thesis
      by (auto simp: mention_sound_def split: option.splits)
  qed
  have at: "vm_context (map fst vs ! n) = keptContexts ! n" if "n < length vs" for n
    using pm(1) that by (metis length_map nth_map)
  have group: "vm_selected (map fst vs ! n) = None \<and> anchored cf (map fst vs) n g"
    if n: "n < length vs" and g: "rs_same_new (vm_resolution (map fst vs ! n)) = Some g" for n g
  proof -
    obtain r where sel: "select_candidate contexts (keptContexts ! n) r =
        (vm_selected (map fst vs ! n), snd (vs ! n), vm_resolution (map fst vs ! n))"
      and vg: "valid_group cf keptContexts (rr_resolutions result) (keptContexts ! n) r g"
      by (rule validate_mention_InrE [OF pm(2) [OF n]]) (use g in blast)
    from vg obtain k m q where k: "last_context keptContexts g = Some k"
      and m: "last_context keptContexts (mc_mentionId (keptContexts ! n)) = Some m"
      and q: "resolution_for (rr_resolutions result) g = Some q" "rs_candidate q = None" "rs_same_new q = None"
      and lt: "k < m" and same: "normalizeName cf (mc_text (keptContexts ! k)) = normalizeName cf (mc_text (keptContexts ! n))"
      and r: "rs_candidate r = None"
      by (auto simp: valid_group_def split: option.splits)
    have k': "k < length keptContexts" "mc_mentionId (keptContexts ! k) = g"
      using last_index_SomeD [OF k [unfolded last_context_def]] by auto
    have "m < length keptContexts" "mc_mentionId (keptContexts ! m) = mc_mentionId (keptContexts ! n)"
      using last_index_SomeD [OF m [unfolded last_context_def]] by auto
    with distinct n len have "m = n" by (metis (no_types, lifting) length_map nth_eq_iff_index_eq nth_map)
    from k'(1) len have kv: "k < length vs" by simp
    from pm(2) [OF kv] obtain q' where q': "resolution_for (rr_resolutions result) (mc_mentionId (keptContexts ! k)) = Some q'"
      and ksel: "select_candidate contexts (keptContexts ! k) q' =
        (vm_selected (map fst vs ! k), snd (vs ! k), vm_resolution (map fst vs ! k))"
      by (rule validate_mention_InrE)
    from q' q(1) k'(2) have "q' = q" by simp
    with select_candidate_sound(3) [OF ksel pm(3) [OF kv]] q(2,3)
    have "vm_selected (map fst vs ! k) = None" "rs_same_new (vm_resolution (map fst vs ! k)) = None" by auto
    moreover from select_candidate_sound(3) [OF sel pm(3) [OF n] r] have "vm_selected (map fst vs ! n) = None" by simp
    ultimately show ?thesis
      using lt \<open>m = n\<close> k'(2) same unfolding anchored_def at [OF n] by (metis at [OF kv])
  qed
  have "map vm_context (rp_mentions plan) = kept_contexts (rp_kept plan) contexts" using pm(1) ms kc by simp
  moreover have "\<forall>m\<in>set (rp_mentions plan). mention_sound contexts m"
    unfolding ms all_set_conv_all_nth using sound by simp
  ultimately show ?thesis using group unfolding ms by simp
qed

section \<open>Candidate lists and new identities\<close>

lemma first_by_id_props:
  assumes "distinct (map ec_id seen)"
  shows "distinct (map ec_id (first_by_id seen cs)) \<and> set (first_by_id seen cs) \<subseteq> set seen \<union> set cs
    \<and> ec_id ` set (first_by_id seen cs) = ec_id ` (set seen \<union> set cs)
    \<and> length (first_by_id seen cs) \<le> length seen + length cs"
  using assms
proof (induction cs arbitrary: seen)
  case Nil
  then show ?case by simp
next
  case (Cons c cs)
  show ?case
  proof (cases "\<exists>d\<in>set seen. ec_id d = ec_id c")
    case True
    then have "ec_id c \<in> ec_id ` set seen" by (metis imageI)
    with True Cons.IH [OF Cons.prems] show ?thesis by auto
  next
    case False
    then have "distinct (map ec_id (seen @ [c]))" using Cons.prems by auto
    from Cons.IH [OF this] False show ?thesis by auto
  qed
qed

text \<open>
  \<open>unionCandidates\<close> lists at most ten candidates with distinct IDs, exactly those of the first
  five of each list.
\<close>

theorem unionCandidates_union:
  "distinct (map ec_id (unionCandidates trigram vector))
   \<and> set (unionCandidates trigram vector) \<subseteq> set (take 5 trigram) \<union> set (take 5 vector)
   \<and> ec_id ` set (unionCandidates trigram vector) = ec_id ` (set (take 5 trigram) \<union> set (take 5 vector))
   \<and> length (unionCandidates trigram vector) \<le> 10"
  using first_by_id_props [of "[]" "take 5 trigram @ take 5 vector"]
  by (auto simp: unionCandidates_def)

lemma ascii_new_mention: "ascii (js ''reflection-new-mention-v1:'')"
  by code_simp

lemma new_mention_name_inject:
  assumes "utf8 (new_mention_name s f m c) = utf8 (new_mention_name s' f' m' c')"
  shows "map utf8 (mention_fields s f m c) = map utf8 (mention_fields s' f' m' c')"
proof -
  from prefix_inject [OF assms [unfolded new_mention_name_def]]
  have "utf8 (frames (mention_fields s f m c)) = utf8 (frames (mention_fields s' f' m' c'))"
    by (simp add: ascii_new_mention)
  moreover have "length (mention_fields s f m c) = length (mention_fields s' f' m' c')"
    by (simp add: mention_fields_def)
  ultimately show ?thesis
    using frames_inject [of "mention_fields s f m c" "mention_fields s' f' m' c'" "[]" "[]"] by simp
qed

text \<open>
  The ID of a new entity identifies the segment, the source content, the mention and the claim's
  subject, predicate and object: two mentions share an ID only if these agree byte for byte, or
  their names are an explicit UUIDv5 collision.
\<close>

theorem new_entity_id_identifies_mention:
  assumes "newMentionEntityIdFor cr s f m c = Inr i" "newMentionEntityIdFor cr s' f' m' c' = Inr i"
  shows "map utf8 (mention_fields s f m c) = map utf8 (mention_fields s' f' m' c')
    \<or> (\<exists>a b. a \<noteq> b \<and> uuid5 cr a ENTITY_NAMESPACE = uuid5 cr b ENTITY_NAMESPACE
        \<and> a = utf8 (new_mention_name s f m c) \<and> b = utf8 (new_mention_name s' f' m' c'))"
proof (cases "utf8 (new_mention_name s f m c) = utf8 (new_mention_name s' f' m' c')")
  case True
  then show ?thesis using new_mention_name_inject by blast
next
  case False
  with assms show ?thesis by (auto simp: newMentionEntityIdFor_def split: if_splits)
qed

section \<open>A concrete triage\<close>

definition sample_claim :: extracted_claim where
  "sample_claim = \<lparr>cl_subject = js ''Ann'', cl_predicate = js ''uses'', cl_confidence = 1,
     cl_object_entity = Some (js ''ann''), cl_object_value = None\<rparr>"

definition sample_context :: "jsstr \<Rightarrow> mention_context" where
  "sample_context i = \<lparr>mc_mentionId = i, mc_role = js ''subject'', mc_text = js ''Ann'',
     mc_supportingClaim = [], mc_candidates = []\<rparr>"

definition sample_result :: resolution_result where
  "sample_result = \<lparr>rr_claims = [\<lparr>cd_claim_id = js ''c0'', cd_action = Keep, cd_reason = Supported\<rparr>],
     rr_resolutions =
       [\<lparr>rs_mention_id = js ''c0.subject'', rs_candidate = None, rs_same_new = None\<rparr>,
        \<lparr>rs_mention_id = js ''c0.object'', rs_candidate = None, rs_same_new = Some (js ''c0.subject'')\<rparr>]\<rparr>"

definition sample_contexts :: "mention_context list" where
  "sample_contexts = [sample_context (js ''c0.subject''), sample_context (js ''c0.object'')]"

definition sample_plan :: resolution_plan where
  "sample_plan = \<lparr>rp_kept = [(0, sample_claim)], rp_mentions =
     map (\<lambda>(c, r). \<lparr>vm_context = c, vm_resolution = r, vm_selected = None\<rparr>)
       (zip sample_contexts (rr_resolutions sample_result)), rp_substitutions = []\<rparr>"

lemma sample_decisions: "validateClaimDecisions [sample_claim] sample_result = Inr [(0, sample_claim)]"
  by code_simp

lemma sample_plan_ok: "validateResolutionResult (\<lambda>s. s) [sample_claim] sample_contexts sample_result = Inr sample_plan"
  by code_simp

lemma sample_contexts_distinct: "distinct (map mc_mentionId sample_contexts)"
  by code_simp

theorem validateClaimDecisions_exact_witness:
  "validateClaimDecisions [sample_claim] sample_result = Inr [(0, sample_claim)]
   \<and> set (map cd_claim_id (rr_claims sample_result)) = claim_key ` {0..<1}"
  using sample_decisions validateClaimDecisions_exact [OF sample_decisions] by simp

theorem validateResolutionResult_sound_witness:
  "rs_same_new (vm_resolution (rp_mentions sample_plan ! 1)) = Some (js ''c0.subject'')
   \<and> anchored (\<lambda>s. s) (rp_mentions sample_plan) 1 (js ''c0.subject'')"
proof -
  have "rs_same_new (vm_resolution (rp_mentions sample_plan ! 1)) = Some (js ''c0.subject'')"
    "1 < length (rp_mentions sample_plan)"
    by (simp_all add: sample_plan_def sample_contexts_def sample_result_def)
  with validateResolutionResult_sound [OF sample_plan_ok sample_contexts_distinct] show ?thesis by blast
qed

end
