(* ===== verification/JobStore.thy ===== *)
theory JobStore
  imports Resolution
begin

text \<open>
  The job tables of \<open>server/src/database.ts\<close> and the row predicates its transactions share. A table
  is the list of its rows; an \<open>UPDATE ... WHERE\<close> is \<open>update_jobs\<close>, \<open>now()\<close> is \<open>d_now\<close>. The three
  boundary column groups of a row are the \<open>source_boundary\<close> its \<open>CHECK\<close> constraint admits. The
  source-ownership checks of \<open>server/src/source-ownership.ts\<close> are here because every transaction
  starts with them.
\<close>

section \<open>Rows\<close>

datatype db_error = OwnershipError string | DbError string

datatype job_status = Pending | Running | Succeeded | Failed | Superseded

record prepared_claim =
  pc_id :: jsstr
  pc_subject :: jsstr
  pc_subject_entity_id :: jsstr
  pc_predicate :: jsstr
  pc_confidence :: rat
  pc_object_entity :: "jsstr option"
  pc_object_entity_id :: "jsstr option"
  pc_object_value :: "jsstr option"
  pc_equivalence_key :: jsstr

text \<open>
  The staged extraction of a target: the four columns are set and cleared together. The validation
  fingerprint is computed by the SQL function \<open>reflection_extraction_validation_fingerprint\<close>, the
  parameter \<open>vfp\<close>.
\<close>

record staged_extraction =
  st_result :: extraction
  st_validation_version :: nat
  st_validation_fingerprint :: jsstr
  st_summary_fingerprint :: jsstr

record job_row =
  j_id :: nat
  j_source_id :: "jsstr option"
  j_segment_id :: jsstr
  j_session_id :: jsstr
  j_boundary :: source_boundary
  j_projection_version :: nat
  j_payload :: "jsval option"
  j_status :: job_status
  j_attempts :: nat
  j_lease_id :: "jsstr option"
  j_error :: "jsstr option"
  j_generation :: nat
  j_fingerprint :: "jsstr option"
  j_priority :: nat
  j_started_at :: "nat option"
  j_finished_at :: "nat option"
  j_next_attempt_at :: nat

record target_row =
  tg_source_id :: "jsstr option"
  tg_segment_id :: jsstr
  tg_job_id :: nat
  tg_boundary :: source_boundary
  tg_projection_version :: nat
  tg_payload :: jsval
  tg_generation :: nat
  tg_fingerprint :: "jsstr option"
  tg_staged :: "staged_extraction option"
  tg_priority :: nat
  tg_updated_at :: nat

record segment_row =
  s_source_id :: "jsstr option"
  s_id :: jsstr
  s_session_id :: jsstr
  s_boundary :: source_boundary
  s_projection_version :: nat
  s_generation :: nat
  s_fingerprint :: "jsstr option"
  s_summary :: jsstr
  s_commit_fingerprint :: "jsstr option"
  s_claims :: "prepared_claim list"

text \<open>The entity tables, without the embedding columns.\<close>

record entity_row =
  en_id :: jsstr
  en_canonical_name :: jsstr
  en_normalized_name :: jsstr
  en_description :: jsstr

record alias_row =
  al_entity_id :: jsstr
  al_alias :: jsstr
  al_normalized_alias :: jsstr

record db =
  d_sources :: "source_info list"
  d_jobs :: "job_row list"
  d_targets :: "target_row list"
  d_segments :: "segment_row list"
  d_entities :: "entity_row list"
  d_aliases :: "alias_row list"
  d_next_id :: nat
  d_now :: nat

text \<open>A claim handed to a worker (\<open>ClaimedJob\<close>).\<close>

record claimed_job =
  cj_id :: nat
  cj_segmentId :: jsstr
  cj_leaseId :: jsstr
  cj_sourceGeneration :: nat
  cj_sourceFingerprint :: jsstr
  cj_attempts :: nat
  cj_sourceId :: jsstr
  cj_request :: ingest_request
  cj_extractionResult :: "extraction option"

definition EXTRACTION_VALIDATION_VERSION :: nat where
  "EXTRACTION_VALIDATION_VERSION = 3"

definition PROJECTION_SAFE_VERSION :: nat where
  "PROJECTION_SAFE_VERSION = 1"

type_synonym 'a tx = "db_error + 'a \<times> db"

section \<open>Statements\<close>

definition update_jobs :: "(job_row \<Rightarrow> bool) \<Rightarrow> (job_row \<Rightarrow> job_row) \<Rightarrow> db \<Rightarrow> db" where
  "update_jobs p f d = d\<lparr>d_jobs := map (\<lambda>j. if p j then f j else j) (d_jobs d)\<rparr>"

definition update_targets :: "(target_row \<Rightarrow> bool) \<Rightarrow> (target_row \<Rightarrow> target_row) \<Rightarrow> db \<Rightarrow> db" where
  "update_targets p f d = d\<lparr>d_targets := map (\<lambda>t. if p t then f t else t) (d_targets d)\<rparr>"

definition delete_targets :: "(target_row \<Rightarrow> bool) \<Rightarrow> db \<Rightarrow> db" where
  "delete_targets p d = d\<lparr>d_targets := filter (\<lambda>t. \<not> p t) (d_targets d)\<rparr>"

definition find_job :: "nat \<Rightarrow> db \<Rightarrow> job_row option" where
  "find_job i d = find (\<lambda>j. j_id j = i) (d_jobs d)"

definition find_target :: "jsstr \<Rightarrow> db \<Rightarrow> target_row option" where
  "find_target seg d = find (\<lambda>t. tg_segment_id t = seg) (d_targets d)"

definition find_segment :: "jsstr \<Rightarrow> db \<Rightarrow> segment_row option" where
  "find_segment seg d = find (\<lambda>s. s_id s = seg) (d_segments d)"

definition db_lift :: "'a result \<Rightarrow> db_error + 'a" where
  "db_lift r = (case r of Inl e \<Rightarrow> Inl (DbError e) | Inr x \<Rightarrow> Inr x)"

section \<open>Sources and ownership\<close>

definition registeredSource :: "db \<Rightarrow> jsstr \<Rightarrow> db_error + source_info" where
  "registeredSource d sourceId =
     (if trim sourceId \<noteq> sourceId \<or> sourceId = [] then Inl (DbError ''unknown source'')
      else case find (\<lambda>s. src_id s = sourceId) (d_sources d) of
          None \<Rightarrow> Inl (DbError ''unknown source'')
        | Some s \<Rightarrow> db_lift (parseSourceInfo s))"

definition legacy_source :: "db \<Rightarrow> source_info option" where
  "legacy_source d = find (\<lambda>s. src_scheme s = Legacy) (d_sources d)"

text \<open>\<open>effectiveOwnerSql\<close>: \<open>COALESCE(source_id, <the legacy source>)\<close>.\<close>

definition effective_owner :: "db \<Rightarrow> jsstr option \<Rightarrow> jsstr option" where
  "effective_owner d owner = (case owner of Some s \<Rightarrow> Some s | None \<Rightarrow> map_option src_id (legacy_source d))"

definition effectiveSource :: "db \<Rightarrow> jsstr option \<Rightarrow> db_error + source_info" where
  "effectiveSource d owner =
     (case owner of
        Some s \<Rightarrow> registeredSource d s
      | None \<Rightarrow> (case legacy_source d of
            None \<Rightarrow> Inl (DbError ''unowned rows require a registered legacy source'')
          | Some s \<Rightarrow> db_lift (parseSourceInfo s)))"

definition native_source :: "source_info \<Rightarrow> bool" where
  "native_source s \<longleftrightarrow> src_kind s = OpencodeV2 \<and> src_scheme s = SourceV1"

text \<open>
  The columns \<open>validateSegmentOwnership\<close> compares, for a row of any of the three tables. A column a
  table lacks is \<open>None\<close> and is not compared; \<open>ow_job\<close> is the job a target references.
\<close>

record owned_row =
  ow_source_id :: "jsstr option"
  ow_boundary :: source_boundary
  ow_payload :: "jsval option"
  ow_session_id :: "jsstr option"
  ow_start_user :: "jsstr option option"
  ow_projection_version :: nat
  ow_fingerprint :: "jsstr option"
  ow_job :: "nat option"

definition job_owned :: "job_row \<Rightarrow> owned_row" where
  "job_owned j = \<lparr>ow_source_id = j_source_id j, ow_boundary = j_boundary j, ow_payload = j_payload j,
     ow_session_id = Some (j_session_id j), ow_start_user = Some (start_user (j_boundary j)),
     ow_projection_version = j_projection_version j, ow_fingerprint = j_fingerprint j, ow_job = None\<rparr>"

definition target_owned :: "target_row \<Rightarrow> owned_row" where
  "target_owned t = \<lparr>ow_source_id = tg_source_id t, ow_boundary = tg_boundary t,
     ow_payload = Some (tg_payload t), ow_session_id = None, ow_start_user = None,
     ow_projection_version = tg_projection_version t, ow_fingerprint = tg_fingerprint t,
     ow_job = Some (tg_job_id t)\<rparr>"

definition segment_owned :: "segment_row \<Rightarrow> owned_row" where
  "segment_owned s = \<lparr>ow_source_id = s_source_id s, ow_boundary = s_boundary s, ow_payload = None,
     ow_session_id = Some (s_session_id s), ow_start_user = Some (start_user (s_boundary s)),
     ow_projection_version = s_projection_version s, ow_fingerprint = s_fingerprint s, ow_job = None\<rparr>"

definition fields_match :: "owned_row \<Rightarrow> ingest_request \<Rightarrow> bool" where
  "fields_match row r \<longleftrightarrow>
     (let body = rq_body r; b = rb_boundary body in
      (ow_session_id row = None \<or> ow_session_id row = Some (rb_session_id body))
      \<and> (ow_start_user row = None \<or> ow_start_user row = Some (start_user b))
      \<and> end_user (ow_boundary row) = end_user b \<and> start_source (ow_boundary row) = start_source b
      \<and> end_source (ow_boundary row) = end_source b
      \<and> ow_projection_version row = rb_projection_version body)"

definition check_payload ::
  "crypto \<Rightarrow> jsstr \<Rightarrow> source_info \<Rightarrow> owned_row \<Rightarrow> jsval \<Rightarrow> db_error + unit" where
  "check_payload cr segmentId owner row payload =
     (case decodePersistedIngestSegment payload (src_id owner) of
        Inl e \<Rightarrow> Inl (OwnershipError ''invalid persisted segment payload'')
      | Inr request \<Rightarrow>
          let v = boundary_version (rb_boundary (rq_body request)) in
          if v \<noteq> boundary_version (ow_boundary row)
          then Inl (OwnershipError ''persisted payload has mismatched source boundary version'')
          else if v = 3 \<and> \<not> native_source owner
          then Inl (OwnershipError ''native payload has incompatible source registry entry'')
          else rbind (db_lift (ingestSegmentIdForRequest cr request owner)) (\<lambda>i.
            if i \<noteq> segmentId then Inl (OwnershipError ''persisted payload has mismatched segment identity'')
            else if \<not> fields_match row request
            then Inl (OwnershipError ''persisted payload has mismatched request identity'')
            else if ow_fingerprint row \<noteq> None \<and> ow_fingerprint row \<noteq> Some (ingestSourceFingerprint cr request)
            then Inl (OwnershipError ''persisted payload has mismatched fingerprint'')
            else Inr ()))"

definition check_target_job :: "db \<Rightarrow> jsstr \<Rightarrow> source_info \<Rightarrow> nat \<Rightarrow> db_error + unit" where
  "check_target_job d segmentId owner i =
     (case find_job i d of
        None \<Rightarrow> Inl (OwnershipError ''target references a job with different ownership'')
      | Some job \<Rightarrow>
          if j_segment_id job \<noteq> segmentId
          then Inl (OwnershipError ''target references a job with different ownership'')
          else rbind (effectiveSource d (j_source_id job)) (\<lambda>s.
            if src_id s \<noteq> src_id owner
            then Inl (OwnershipError ''target references a job with different ownership'')
            else Inr ()))"

definition check_owned_row ::
  "crypto \<Rightarrow> db \<Rightarrow> jsstr \<Rightarrow> source_info option \<Rightarrow> owned_row \<Rightarrow> db_error + source_info" where
  "check_owned_row cr d segmentId source row =
     rbind (effectiveSource d (ow_source_id row)) (\<lambda>owner.
       if (case source of None \<Rightarrow> False | Some s \<Rightarrow> src_id s \<noteq> src_id owner)
       then Inl (OwnershipError ''contradictory segment ownership'')
       else if ow_payload row = None \<and> boundary_version (ow_boundary row) = 3 \<and> \<not> native_source owner
       then Inl (OwnershipError ''native row has incompatible source registry entry'')
       else rbind (case ow_payload row of None \<Rightarrow> Inr () | Some p \<Rightarrow> check_payload cr segmentId owner row p)
         (\<lambda>_. rbind (case ow_job row of None \<Rightarrow> Inr () | Some i \<Rightarrow> check_target_job d segmentId owner i)
         (\<lambda>_. Inr owner)))"

definition owned_rows :: "db \<Rightarrow> jsstr \<Rightarrow> owned_row list" where
  "owned_rows d segmentId =
     map segment_owned (filter (\<lambda>s. s_id s = segmentId) (d_segments d))
     @ map job_owned (filter (\<lambda>j. j_segment_id j = segmentId) (d_jobs d))
     @ map target_owned (filter (\<lambda>t. tg_segment_id t = segmentId) (d_targets d))"

fun check_owned_rows ::
  "crypto \<Rightarrow> db \<Rightarrow> jsstr \<Rightarrow> source_info option \<Rightarrow> owned_row list \<Rightarrow> db_error + source_info option" where
  "check_owned_rows cr d segmentId source [] = Inr source"
| "check_owned_rows cr d segmentId source (row # rows) =
     rbind (check_owned_row cr d segmentId source row) (\<lambda>owner.
       check_owned_rows cr d segmentId (Some owner) rows)"

definition validateSegmentOwnership ::
  "crypto \<Rightarrow> db \<Rightarrow> jsstr \<Rightarrow> source_info option \<Rightarrow> db_error + source_info option" where
  "validateSegmentOwnership cr d segmentId expected =
     check_owned_rows cr d segmentId expected (owned_rows d segmentId)"

section \<open>Matching rows with requests and claims\<close>

text \<open>\<open>boundaryMatchesRequest\<close> compares every boundary column except the start user.\<close>

definition boundary_matches :: "source_boundary \<Rightarrow> source_boundary \<Rightarrow> bool" where
  "boundary_matches b b' \<longleftrightarrow> end_user b = end_user b' \<and> boundary_version b = boundary_version b'
     \<and> start_source b = start_source b' \<and> end_source b = end_source b'"

definition request_boundary :: "ingest_request \<Rightarrow> source_boundary" where
  "request_boundary r = rb_boundary (rq_body r)"

definition targetMatchesRequest ::
  "crypto \<Rightarrow> target_row option \<Rightarrow> ingest_request \<Rightarrow> jsstr \<Rightarrow> jsstr \<Rightarrow> source_info \<Rightarrow> bool" where
  "targetMatchesRequest cr target request segmentId fingerprint source =
     (case target of
        None \<Rightarrow> False
      | Some t \<Rightarrow>
          tg_projection_version t = rb_projection_version (rq_body request)
          \<and> tg_fingerprint t = Some fingerprint
          \<and> boundary_matches (tg_boundary t) (request_boundary request)
          \<and> (case decodePersistedIngestSegment (tg_payload t) (src_id source) of
               Inl e \<Rightarrow> False
             | Inr persisted \<Rightarrow>
                 rb_session_id (rq_body persisted) = rb_session_id (rq_body request)
                 \<and> start_user (request_boundary persisted) = start_user (request_boundary request)
                 \<and> boundary_matches (request_boundary persisted) (request_boundary request)
                 \<and> rb_projection_version (rq_body persisted) = rb_projection_version (rq_body request)
                 \<and> ingestSegmentIdForRequest cr persisted source = Inr segmentId
                 \<and> ingestSourceFingerprint cr persisted = fingerprint))"

definition failedTargetMatchesJob ::
  "crypto \<Rightarrow> target_row option \<Rightarrow> job_row \<Rightarrow> source_info \<Rightarrow> bool" where
  "failedTargetMatchesJob cr target job source =
     (case target of
        None \<Rightarrow> False
      | Some t \<Rightarrow>
          tg_job_id t = j_id job \<and> tg_generation t = j_generation job
          \<and> tg_fingerprint t = j_fingerprint job \<and> tg_projection_version t = j_projection_version job
          \<and> (case decodePersistedIngestSegment (tg_payload t) (src_id source) of
               Inl e \<Rightarrow> False
             | Inr r \<Rightarrow>
                 boundary_matches (tg_boundary t) (request_boundary r)
                 \<and> boundary_matches (j_boundary job) (request_boundary r)
                 \<and> rb_projection_version (rq_body r) = j_projection_version job
                 \<and> rb_session_id (rq_body r) = j_session_id job
                 \<and> start_user (request_boundary r) = start_user (j_boundary job)
                 \<and> ingestSegmentIdForRequest cr r source = Inr (j_segment_id job)
                 \<and> Some (ingestSourceFingerprint cr r) = j_fingerprint job))"

definition targetMatchesJob ::
  "crypto \<Rightarrow> target_row option \<Rightarrow> claimed_job \<Rightarrow> source_info \<Rightarrow> bool" where
  "targetMatchesJob cr target job source =
     (case target of
        None \<Rightarrow> False
      | Some t \<Rightarrow>
          tg_job_id t = cj_id job
          \<and> tg_projection_version t = rb_projection_version (rq_body (cj_request job))
          \<and> tg_generation t = cj_sourceGeneration job
          \<and> tg_fingerprint t = Some (cj_sourceFingerprint job)
          \<and> boundary_matches (tg_boundary t) (request_boundary (cj_request job))
          \<and> targetMatchesRequest cr target (cj_request job) (cj_segmentId job)
               (cj_sourceFingerprint job) source)"

definition persistedJobMatchesClaim :: "job_row \<Rightarrow> claimed_job \<Rightarrow> bool" where
  "persistedJobMatchesClaim j job \<longleftrightarrow>
     j_session_id j = rb_session_id (rq_body (cj_request job))
     \<and> start_user (j_boundary j) = start_user (request_boundary (cj_request job))
     \<and> boundary_matches (j_boundary j) (request_boundary (cj_request job))
     \<and> j_projection_version j = rb_projection_version (rq_body (cj_request job))
     \<and> j_generation j = cj_sourceGeneration job
     \<and> j_fingerprint j = Some (cj_sourceFingerprint job)"

text \<open>\<open>STAGED_TARGET_ELIGIBILITY_SQL\<close>: the staged extraction is valid for the target's own source.\<close>

definition staged_eligible ::
  "crypto \<Rightarrow> (extraction \<Rightarrow> nat \<Rightarrow> jsstr option \<Rightarrow> jsstr) \<Rightarrow> db \<Rightarrow> target_row \<Rightarrow> bool" where
  "staged_eligible cr vfp d t =
     (case tg_staged t of
        None \<Rightarrow> False
      | Some st \<Rightarrow>
          (case effective_owner d (tg_source_id t) of
             None \<Rightarrow> False
           | Some owner \<Rightarrow> (case decodePersistedIngestSegment (tg_payload t) owner of
               Inl e \<Rightarrow> False
             | Inr r \<Rightarrow> tg_fingerprint t = Some (ingestSourceFingerprint cr r)))
          \<and> st_validation_version st = EXTRACTION_VALIDATION_VERSION
          \<and> st_validation_fingerprint st = vfp (st_result st) (st_validation_version st) (tg_fingerprint t)
          \<and> trim (ex_summary (st_result st)) \<noteq> []
          \<and> st_summary_fingerprint st = ingestProjectionFingerprintForBoundary cr (tg_segment_id t)
               (tg_boundary t) (ex_summary (st_result st)) (tg_projection_version t))"

text \<open>The committed summary carries its own fingerprint (\<open>projection_safe\<close>).\<close>

definition projection_safe :: "crypto \<Rightarrow> segment_row \<Rightarrow> bool" where
  "projection_safe cr s \<longleftrightarrow> s_commit_fingerprint s =
     Some (ingestProjectionFingerprintForBoundary cr (s_id s) (s_boundary s) (s_summary s) (s_projection_version s))"

end
