(* ===== verification/Enqueue.thy ===== *)
theory Enqueue
  imports JobStore
begin

text \<open>
  \<open>Database.enqueue\<close> of \<open>server/src/database.ts\<close>: registering a request as the latest target of its
  segment. Each branch of the transaction is one definition; \<open>enqueue\<close> composes them in order.
\<close>

section \<open>Reading the segment's rows\<close>

definition owned_by :: "source_info \<Rightarrow> jsstr option \<Rightarrow> bool" where
  "owned_by source owner \<longleftrightarrow>
     owner = Some (src_id source) \<or> src_scheme source = Legacy \<and> owner = None"

text \<open>The unique key of a boundary within a source: \<open>ON CONFLICT (source_id, session_id, ...)\<close>, and whether a table satisfies it.\<close>

definition same_boundary_key :: "job_row \<Rightarrow> job_row \<Rightarrow> bool" where
  "same_boundary_key a b \<longleftrightarrow>
     j_source_id a \<noteq> None \<and> j_source_id a = j_source_id b \<and> j_session_id a = j_session_id b
     \<and> boundary_version (j_boundary a) = boundary_version (j_boundary b)
     \<and> (if boundary_version (j_boundary a) = 1
        then start_user (j_boundary a) = start_user (j_boundary b)
          \<and> end_user (j_boundary a) = end_user (j_boundary b)
        else start_source (j_boundary a) = start_source (j_boundary b)
          \<and> end_source (j_boundary a) = end_source (j_boundary b))"

fun unique_boundaries :: "job_row list \<Rightarrow> bool" where
  "unique_boundaries [] = True"
| "unique_boundaries (j # jobs) = (\<not> (\<exists>k\<in>set jobs. same_boundary_key j k) \<and> unique_boundaries jobs)"

definition adopt_group :: "source_info \<Rightarrow> jsstr \<Rightarrow> db \<Rightarrow> db" where
  "adopt_group source segmentId d =
     d\<lparr>d_segments := map (\<lambda>s. if s_id s = segmentId \<and> s_source_id s = None
           then s\<lparr>s_source_id := Some (src_id source)\<rparr> else s) (d_segments d),
       d_jobs := map (\<lambda>j. if j_segment_id j = segmentId \<and> j_source_id j = None
           then j\<lparr>j_source_id := Some (src_id source)\<rparr> else j) (d_jobs d),
       d_targets := map (\<lambda>t. if tg_segment_id t = segmentId \<and> tg_source_id t = None
           then t\<lparr>tg_source_id := Some (src_id source)\<rparr> else t) (d_targets d)\<rparr>"

text \<open>An adopted row may meet the key of a row its source already owns; the statement then fails.\<close>

definition adopt ::
  "source_info \<Rightarrow> jsstr \<Rightarrow> db \<Rightarrow> db_error + db" where
  "adopt source segmentId d =
     (let d' = adopt_group source segmentId d in
      if unique_boundaries (d_jobs d) \<and> \<not> unique_boundaries (d_jobs d')
      then Inl (DbError ''duplicate key value'') else Inr d')"

definition segment_jobs :: "source_info \<Rightarrow> jsstr \<Rightarrow> db \<Rightarrow> job_row list" where
  "segment_jobs source segmentId d =
     filter (\<lambda>j. j_segment_id j = segmentId \<and> owned_by source (j_source_id j)) (d_jobs d)"

definition segment_target :: "source_info \<Rightarrow> jsstr \<Rightarrow> db \<Rightarrow> target_row option" where
  "segment_target source segmentId d =
     find (\<lambda>t. tg_segment_id t = segmentId \<and> owned_by source (tg_source_id t)) (d_targets d)"

definition current_segment :: "source_info \<Rightarrow> jsstr \<Rightarrow> db \<Rightarrow> segment_row option" where
  "current_segment source segmentId d =
     find (\<lambda>s. s_id s = segmentId \<and> owned_by source (s_source_id s)) (d_segments d)"

definition boundary_job :: "ingest_request \<Rightarrow> job_row list \<Rightarrow> job_row option" where
  "boundary_job request jobs =
     find (\<lambda>j. boundary_matches (j_boundary j) (request_boundary request)) jobs"

text \<open>\<open>#jobRow\<close>, and the error of a missing one.\<close>

definition jobRow :: "db \<Rightarrow> nat \<Rightarrow> source_info \<Rightarrow> job_row option" where
  "jobRow d i source = (case find_job i d of
     None \<Rightarrow> None | Some j \<Rightarrow> if owned_by source (j_source_id j) then Some j else None)"

definition respond :: "string \<Rightarrow> nat \<Rightarrow> source_info \<Rightarrow> db \<Rightarrow> job_row tx" where
  "respond err i source d =
     (case jobRow d i source of None \<Rightarrow> Inl (DbError err) | Some j \<Rightarrow> Inr (j, d))"

section \<open>Inserting jobs\<close>

text \<open>The columns an \<open>INSERT INTO extraction_jobs\<close> takes from the request, and the defaults.\<close>

definition fresh_job ::
  "db \<Rightarrow> source_info \<Rightarrow> jsstr \<Rightarrow> jsstr \<Rightarrow> ingest_request \<Rightarrow> job_row" where
  "fresh_job d source segmentId fingerprint request =
     \<lparr>j_id = d_next_id d, j_source_id = Some (src_id source), j_segment_id = segmentId,
      j_session_id = rb_session_id (rq_body request), j_boundary = request_boundary request,
      j_projection_version = rb_projection_version (rq_body request), j_payload = None,
      j_status = Pending, j_attempts = 0, j_lease_id = None, j_error = None, j_generation = 0,
      j_fingerprint = Some fingerprint, j_priority = rb_processing_priority (rq_body request),
      j_started_at = None, j_finished_at = None, j_next_attempt_at = d_now d\<rparr>"

definition append_job :: "job_row \<Rightarrow> db \<Rightarrow> db" where
  "append_job j d = d\<lparr>d_jobs := d_jobs d @ [j], d_next_id := Suc (d_next_id d)\<rparr>"

definition insert_job :: "job_row \<Rightarrow> db \<Rightarrow> nat tx" where
  "insert_job j d =
     (if \<exists>c\<in>set (d_jobs d). same_boundary_key c j then Inl (DbError ''duplicate key value'')
      else Inr (j_id j, append_job j d))"

text \<open>
  \<open>INSERT ... ON CONFLICT DO UPDATE ... WHERE status <> 'running' AND segment_id = EXCLUDED\<close>: the
  ID of the inserted or updated row, or nothing.
\<close>

definition upsert_job :: "job_row \<Rightarrow> db \<Rightarrow> nat option \<times> db" where
  "upsert_job new d =
     (case find (\<lambda>c. same_boundary_key c new) (d_jobs d) of
        None \<Rightarrow> (Some (j_id new), append_job new d)
      | Some c \<Rightarrow>
          if j_status c \<noteq> Running \<and> j_segment_id c = j_segment_id new
          then (Some (j_id c), update_jobs (\<lambda>j. j_id j = j_id c) (\<lambda>j. new\<lparr>j_id := j_id j\<rparr>) d)
          else (None, d))"

section \<open>Branches\<close>

definition lower_version ::
  "ingest_request \<Rightarrow> segment_row option \<Rightarrow> target_row option \<Rightarrow> job_row option \<Rightarrow> bool" where
  "lower_version request current target bjob \<longleftrightarrow>
     (let v = rb_projection_version (rq_body request) in
      (case current of None \<Rightarrow> False | Some s \<Rightarrow> v < s_projection_version s)
      \<or> (case target of None \<Rightarrow> False | Some t \<Rightarrow> v < tg_projection_version t)
      \<or> (case bjob of None \<Rightarrow> False | Some j \<Rightarrow> v < j_projection_version j))"

definition ignore_lower_version ::
  "source_info \<Rightarrow> jsstr \<Rightarrow> jsstr \<Rightarrow> ingest_request \<Rightarrow> job_row option \<Rightarrow> db \<Rightarrow> job_row tx" where
  "ignore_lower_version source segmentId fingerprint request bjob d =
     rbind (case bjob of
        Some j \<Rightarrow> Inr (j_id j, d)
      | None \<Rightarrow> insert_job ((fresh_job d source segmentId fingerprint request)
          \<lparr>j_status := Superseded, j_finished_at := Some (d_now d),
            j_error := Some (js ''snapshot was superseded'')\<rparr>) d) (\<lambda>(i, d).
     respond ''ignored job disappeared during enqueue'' i source d)"

definition with_priority :: "nat \<Rightarrow> ingest_request \<Rightarrow> ingest_request" where
  "with_priority p r = r\<lparr>rq_body := (rq_body r)\<lparr>rb_processing_priority := p\<rparr>\<rparr>"

definition refresh_target ::
  "crypto \<Rightarrow> (extraction \<Rightarrow> nat \<Rightarrow> jsstr option \<Rightarrow> jsstr) \<Rightarrow> source_info \<Rightarrow> jsstr \<Rightarrow> ingest_request
     \<Rightarrow> job_row list \<Rightarrow> target_row \<Rightarrow> db \<Rightarrow> job_row tx" where
  "refresh_target cr vfp source segmentId request jobs target d =
     (let targetFailed = (case find (\<lambda>j. j_id j = tg_job_id target) jobs of
            None \<Rightarrow> False | Some j \<Rightarrow> j_status j = Failed);
          reset = tg_staged target \<noteq> None \<and> \<not> staged_eligible cr vfp d target \<and> targetFailed;
          priority = max (tg_priority target) (rb_processing_priority (rq_body request));
          exactPayload = persistedRequest (with_priority priority request);
          d1 = update_targets (\<lambda>t. tg_segment_id t = segmentId) (\<lambda>t. t\<lparr>tg_payload := exactPayload,
            tg_priority := priority, tg_staged := (if reset then None else tg_staged t)\<rparr>) d;
          d2 = update_jobs (\<lambda>j. j_id j = tg_job_id target) (\<lambda>j.
            let j1 = (if j_status j = Running then j
                      else j\<lparr>j_payload := Some exactPayload, j_priority := priority\<rparr>)
            in if reset then j1\<lparr>j_status := Pending, j_attempts := 0, j_error := None,
                 j_lease_id := None, j_started_at := None, j_finished_at := None,
                 j_next_attempt_at := d_now d\<rparr> else j1) d1
      in respond ''target job disappeared during enqueue'' (tg_job_id target) source d2)"

definition already_committed ::
  "crypto \<Rightarrow> jsstr \<Rightarrow> ingest_request \<Rightarrow> segment_row option \<Rightarrow> target_row option \<Rightarrow> bool" where
  "already_committed cr fingerprint request current target \<longleftrightarrow>
     (case current of
        None \<Rightarrow> False
      | Some s \<Rightarrow>
          target = None
          \<and> start_user (s_boundary s) = start_user (request_boundary request)
          \<and> boundary_matches (s_boundary s) (request_boundary request)
          \<and> s_fingerprint s = Some fingerprint
          \<and> s_projection_version s = rb_projection_version (rq_body request)
          \<and> (rb_projection_version (rq_body request) < PROJECTION_SAFE_VERSION \<or> projection_safe cr s)
          \<and> trim (s_summary s) \<noteq> [])"

text \<open>
  The \<open>UPDATE\<close> sets every boundary column but the start user, which \<open>already_committed\<close> and the
  boundary job's own columns agree on.
\<close>

definition settle_committed ::
  "source_info \<Rightarrow> jsstr \<Rightarrow> jsstr \<Rightarrow> ingest_request \<Rightarrow> segment_row \<Rightarrow> job_row option \<Rightarrow> db \<Rightarrow> job_row tx" where
  "settle_committed source segmentId fingerprint request current bjob d =
     rbind (case bjob of
        None \<Rightarrow> insert_job ((fresh_job d source segmentId fingerprint request)
          \<lparr>j_status := Succeeded, j_generation := s_generation current, j_finished_at := Some (d_now d)\<rparr>) d
      | Some b \<Rightarrow> Inr (j_id b, update_jobs (\<lambda>j. j_id j = j_id b \<and> j_status j \<noteq> Running)
          (\<lambda>j. j\<lparr>j_status := Succeeded, j_lease_id := None, j_payload := None,
            j_projection_version := rb_projection_version (rq_body request),
            j_generation := s_generation current, j_fingerprint := Some fingerprint,
            j_priority := max (j_priority j) (rb_processing_priority (rq_body request)),
            j_error := None, j_started_at := None,
            j_finished_at := (case j_finished_at j of None \<Rightarrow> Some (d_now d) | x \<Rightarrow> x)\<rparr>) d)) (\<lambda>(i, d).
     respond ''settled job disappeared during enqueue'' i source d)"

definition next_generation :: "segment_row option \<Rightarrow> target_row option \<Rightarrow> job_row list \<Rightarrow> nat" where
  "next_generation current target jobs =
     foldl max 0 ((case current of None \<Rightarrow> 0 | Some s \<Rightarrow> s_generation s)
       # (case target of None \<Rightarrow> 0 | Some t \<Rightarrow> tg_generation t) # map j_generation jobs) + 1"

definition replace_target ::
  "source_info \<Rightarrow> jsstr \<Rightarrow> jsstr \<Rightarrow> ingest_request \<Rightarrow> nat \<Rightarrow> nat \<Rightarrow> db \<Rightarrow> db" where
  "replace_target source segmentId fingerprint request generation i d =
     (let new = \<lparr>tg_source_id = Some (src_id source), tg_segment_id = segmentId, tg_job_id = i,
            tg_boundary = request_boundary request,
            tg_projection_version = rb_projection_version (rq_body request),
            tg_payload = persistedRequest request, tg_generation = generation,
            tg_fingerprint = Some fingerprint, tg_staged = None,
            tg_priority = rb_processing_priority (rq_body request), tg_updated_at = d_now d\<rparr>
      in if \<exists>t\<in>set (d_targets d). tg_segment_id t = segmentId
         then update_targets (\<lambda>t. tg_segment_id t = segmentId)
                (\<lambda>t. new\<lparr>tg_source_id := tg_source_id t\<rparr>) d
         else d\<lparr>d_targets := d_targets d @ [new]\<rparr>)"

definition supersede_others :: "nat \<Rightarrow> job_row list \<Rightarrow> db \<Rightarrow> db" where
  "supersede_others i jobs d =
     update_jobs (\<lambda>j. \<exists>k\<in>set jobs. j_id k = j_id j \<and> j_id k \<noteq> i
         \<and> (j_status k = Pending \<or> j_status k = Failed))
       (\<lambda>j. j\<lparr>j_status := Superseded, j_payload := None, j_lease_id := None,
         j_error := Some (js ''snapshot was superseded''), j_started_at := None,
         j_finished_at := Some (d_now d)\<rparr>) d"

definition enqueue_new ::
  "source_info \<Rightarrow> jsstr \<Rightarrow> jsstr \<Rightarrow> ingest_request \<Rightarrow> segment_row option \<Rightarrow> target_row option
     \<Rightarrow> job_row list \<Rightarrow> db \<Rightarrow> job_row tx" where
  "enqueue_new source segmentId fingerprint request current target jobs d =
     (let generation = next_generation current target jobs;
          (inserted, d1) = upsert_job ((fresh_job d source segmentId fingerprint request)
             \<lparr>j_payload := Some (persistedRequest request), j_generation := generation\<rparr>) d
      in rbind (case inserted of
            Some i \<Rightarrow> Inr i
          | None \<Rightarrow> (case boundary_job request jobs of
              Some b \<Rightarrow> Inr (j_id b)
            | None \<Rightarrow> Inl (DbError ''running boundary job disappeared during enqueue''))) (\<lambda>i.
         respond ''target job disappeared during enqueue'' i source
           (supersede_others i jobs
             (replace_target source segmentId fingerprint request generation i d1))))"

section \<open>The transaction\<close>

definition enqueue_segment ::
  "crypto \<Rightarrow> (extraction \<Rightarrow> nat \<Rightarrow> jsstr option \<Rightarrow> jsstr) \<Rightarrow> source_info \<Rightarrow> jsstr \<Rightarrow> ingest_request
     \<Rightarrow> db \<Rightarrow> job_row tx" where
  "enqueue_segment cr vfp source segmentId request d =
     (let fingerprint = ingestSourceFingerprint cr request;
          jobs = segment_jobs source segmentId d;
          target = segment_target source segmentId d;
          current = current_segment source segmentId d;
          bjob = boundary_job request jobs
      in if lower_version request current target bjob
         then ignore_lower_version source segmentId fingerprint request bjob d
         else case target of
             Some t \<Rightarrow>
               if targetMatchesRequest cr target request segmentId fingerprint source
               then refresh_target cr vfp source segmentId request jobs t d
               else enqueue_new source segmentId fingerprint request current target jobs d
           | None \<Rightarrow> (case current of
               Some s \<Rightarrow>
                 if already_committed cr fingerprint request current target
                 then settle_committed source segmentId fingerprint request s bjob d
                 else enqueue_new source segmentId fingerprint request current target jobs d
             | None \<Rightarrow> enqueue_new source segmentId fingerprint request current target jobs d))"

definition enqueue ::
  "crypto \<Rightarrow> (extraction \<Rightarrow> nat \<Rightarrow> jsstr option \<Rightarrow> jsstr) \<Rightarrow> ingest_request \<Rightarrow> db \<Rightarrow> job_row tx" where
  "enqueue cr vfp request0 d =
     rbind (db_lift (parseIngestSegmentCreate (request_json request0))) (\<lambda>request.
     rbind (registeredSource d (rq_source_id request)) (\<lambda>source.
     if boundary_version (request_boundary request) = 3 \<and> \<not> native_source source
     then Inl (DbError ''native ingestion requires an opencode-v2 source-v1 registry entry'')
     else rbind (db_lift (ingestSegmentIdForRequest cr request source)) (\<lambda>segmentId.
       rbind (validateSegmentOwnership cr d segmentId (Some source)) (\<lambda>_.
       rbind (adopt source segmentId d) (\<lambda>d1.
         enqueue_segment cr vfp source segmentId request d1)))))"

end
