(* ===== verification/ClaimJob.thy ===== *)
theory ClaimJob
  imports Enqueue
begin

text \<open>
  Handing jobs to workers, from \<open>server/src/database.ts\<close>: \<open>claimOldestJob\<close>, recovery of jobs a
  stopped worker left running, and the operator's retry and supersede of a failed job.
\<close>

section \<open>Failed jobs\<close>

definition lockCurrentFailedTargetJob ::
  "crypto \<Rightarrow> nat \<Rightarrow> source_info \<Rightarrow> db \<Rightarrow> db_error + (job_row \<times> target_row) option" where
  "lockCurrentFailedTargetJob cr i source d =
     (case find_job i d of
        None \<Rightarrow> Inr None
      | Some job \<Rightarrow>
          if effective_owner d (j_source_id job) \<noteq> Some (src_id source) then Inr None
          else rbind (validateSegmentOwnership cr d (j_segment_id job) (Some source)) (\<lambda>_.
            let target = find_target (j_segment_id job) d in
            if j_status job = Superseded
            then Inl (DbError ''job cannot be retried because a newer snapshot exists for the segment'')
            else if j_status job \<noteq> Failed \<or> j_lease_id job \<noteq> None
            then Inl (DbError ''only terminal failed jobs can be retried'')
            else if \<not> failedTargetMatchesJob cr target job source
            then Inl (DbError ''job cannot be retried because a newer snapshot exists for the segment'')
            else Inr (Some (job, the target))))"

definition persistedPayload :: "jsval \<Rightarrow> jsstr \<Rightarrow> db_error + jsval" where
  "persistedPayload p sourceId =
     rbind (db_lift (decodePersistedIngestSegment p sourceId)) (\<lambda>r. Inr (persistedRequest r))"

text \<open>
  The columns a job takes over from its segment's target when it is queued again: in \<open>retryFailedJob\<close>
  and in \<open>#requeueLatestTarget\<close>. The start user is not among them: the job keeps its own.
\<close>

definition take_target :: "nat \<Rightarrow> target_row \<Rightarrow> jsval \<Rightarrow> job_row \<Rightarrow> job_row" where
  "take_target at_time t payload j = j\<lparr>j_boundary := (case tg_boundary t of
         Boundary1 su eu \<Rightarrow> Boundary1 (case start_user (j_boundary j) of None \<Rightarrow> su | Some s \<Rightarrow> s) eu
       | Boundary2 su eu ss es \<Rightarrow> Boundary2 (case start_user (j_boundary j) of None \<Rightarrow> su | Some s \<Rightarrow> s) eu ss es
       | b \<Rightarrow> b),
     j_projection_version := tg_projection_version t, j_payload := Some payload,
     j_generation := tg_generation t, j_fingerprint := tg_fingerprint t, j_priority := tg_priority t,
     j_status := Pending, j_attempts := 0, j_lease_id := None, j_error := None, j_started_at := None,
     j_finished_at := None, j_next_attempt_at := at_time\<rparr>"

definition retryFailedJob ::
  "crypto \<Rightarrow> jsstr \<Rightarrow> nat \<Rightarrow> bool \<Rightarrow> db \<Rightarrow> job_row option tx" where
  "retryFailedJob cr sourceId i restartExtraction d =
     rbind (registeredSource d sourceId) (\<lambda>source.
     rbind (lockCurrentFailedTargetJob cr i source d) (\<lambda>context.
     case context of
       None \<Rightarrow> Inr (None, d)
     | Some (job, target) \<Rightarrow>
         let d1 = (if restartExtraction then update_targets
               (\<lambda>t. tg_segment_id t = j_segment_id job \<and> tg_job_id t = j_id job)
               (\<lambda>t. t\<lparr>tg_staged := None\<rparr>) d else d);
             failed = (\<lambda>j. j_id j = i \<and> j_status j = Failed \<and> j_lease_id j = None)
         in rbind (persistedPayload (tg_payload target) (src_id source)) (\<lambda>payload.
            if length (filter failed (d_jobs d1)) \<noteq> 1 then Inl (DbError ''failed job changed while retrying'')
            else rbind (respond ''retried job disappeared'' i source
                   (update_jobs failed (take_target (d_now d1) target payload) d1)) (\<lambda>(row, d2).
              Inr (Some row, d2)))))"

definition supersedeFailedJob :: "crypto \<Rightarrow> jsstr \<Rightarrow> nat \<Rightarrow> db \<Rightarrow> job_row option tx" where
  "supersedeFailedJob cr sourceId i d =
     rbind (registeredSource d sourceId) (\<lambda>source.
     rbind (lockCurrentFailedTargetJob cr i source d) (\<lambda>context.
     case context of
       None \<Rightarrow> Inr (None, d)
     | Some (job, target) \<Rightarrow>
         let failed = (\<lambda>j. j_id j = i \<and> j_status j = Failed \<and> j_lease_id j = None);
             owned = (\<lambda>t. tg_segment_id t = j_segment_id job \<and> tg_job_id t = j_id job);
             d1 = update_jobs failed (\<lambda>j. j\<lparr>j_payload := None, j_status := Superseded,
               j_error := Some (js ''snapshot was superseded''), j_lease_id := None,
               j_started_at := None, j_finished_at := Some (d_now d)\<rparr>) d
         in if length (filter failed (d_jobs d)) \<noteq> 1 then Inl (DbError ''failed job changed while superseding'')
            else if length (filter owned (d_targets d1)) \<noteq> 1
            then Inl (DbError ''failed target changed while superseding'')
            else rbind (respond ''superseded job disappeared'' i source (delete_targets owned d1))
              (\<lambda>(row, d2). Inr (Some row, d2))))"

section \<open>Recovery\<close>

definition quarantinePersistedGroup :: "jsstr \<Rightarrow> db \<Rightarrow> db" where
  "quarantinePersistedGroup segmentId d =
     update_jobs (\<lambda>j. j_segment_id j = segmentId \<and> (j_status j = Pending \<or> j_status j = Running))
       (\<lambda>j. j\<lparr>j_status := Failed, j_lease_id := None, j_finished_at := Some (d_now d),
         j_error := Some (js ''OwnershipValidationError: persisted segment group quarantined'')\<rparr>) d"

text \<open>\<open>targets.payload - 'source_id'\<close> for legacy boundaries.\<close>

definition recovered_payload :: "target_row \<Rightarrow> jsval" where
  "recovered_payload t =
     (if boundary_version (tg_boundary t) = 3 then tg_payload t
      else case record_of (tg_payload t) of None \<Rightarrow> tg_payload t | Some ps \<Rightarrow> without_source_id ps)"

definition same_target_columns :: "target_row \<Rightarrow> job_row \<Rightarrow> bool" where
  "same_target_columns t j \<longleftrightarrow> tg_generation t = j_generation j \<and> tg_fingerprint t = j_fingerprint j
     \<and> tg_projection_version t = j_projection_version j
     \<and> boundary_matches (tg_boundary t) (j_boundary j)"

definition recover_job :: "db \<Rightarrow> job_row \<Rightarrow> job_row" where
  "recover_job d j =
     (case find_target (j_segment_id j) d of
        Some t \<Rightarrow>
          if tg_job_id t = j_id j
          then (take_target (d_now d) t (recovered_payload t) j)
            \<lparr>j_attempts := (if same_target_columns t j then j_attempts j else 0),
             j_error := Some (js ''worker stopped before completing the job'')\<rparr>
          else j\<lparr>j_payload := None, j_status := Superseded, j_lease_id := None, j_started_at := None,
             j_finished_at := Some (d_now d), j_next_attempt_at := d_now d,
             j_error := Some (js ''superseded while worker was stopped'')\<rparr>
      | None \<Rightarrow> j\<lparr>j_payload := None, j_status := Superseded, j_lease_id := None, j_started_at := None,
             j_finished_at := Some (d_now d), j_next_attempt_at := d_now d,
             j_error := Some (js ''superseded while worker was stopped'')\<rparr>)"

definition running_in :: "jsstr \<Rightarrow> job_row \<Rightarrow> bool" where
  "running_in segmentId j \<longleftrightarrow> j_segment_id j = segmentId \<and> j_status j = Running"

definition recover_segment :: "crypto \<Rightarrow> jsstr \<Rightarrow> db \<Rightarrow> nat tx" where
  "recover_segment cr segmentId d =
     (case validateSegmentOwnership cr d segmentId None of
        Inl (OwnershipError e) \<Rightarrow> Inr (0, quarantinePersistedGroup segmentId d)
      | Inl e \<Rightarrow> Inl e
      | Inr _ \<Rightarrow> Inr (length (filter (running_in segmentId) (d_jobs d)),
                      update_jobs (running_in segmentId) (recover_job d) d))"

text \<open>
  One transaction per segment, in \<open>ORDER BY segment_id\<close>: those before a failing one stay committed.
\<close>

fun recover_segments :: "crypto \<Rightarrow> jsstr list \<Rightarrow> nat \<Rightarrow> db \<Rightarrow> (db_error + nat) \<times> db" where
  "recover_segments cr [] n d = (Inr n, d)"
| "recover_segments cr (seg # segs) n d =
     (case recover_segment cr seg d of
        Inl e \<Rightarrow> (Inl e, d)
      | Inr (k, d') \<Rightarrow> recover_segments cr segs (n + k) d')"

definition recoverRunningJobs :: "crypto \<Rightarrow> db \<Rightarrow> (db_error + nat) \<times> db" where
  "recoverRunningJobs cr d =
     recover_segments cr (remdups (sort (map j_segment_id (filter (\<lambda>j. j_status j = Running) (d_jobs d))))) 0 d"

section \<open>Claiming\<close>

text \<open>The target row a job is joined with: every column must agree, and SQL \<open>=\<close> fails on null.\<close>

definition joined_target :: "db \<Rightarrow> job_row \<Rightarrow> target_row option" where
  "joined_target d j =
     find (\<lambda>t. tg_segment_id t = j_segment_id j \<and> tg_job_id t = j_id j
       \<and> tg_fingerprint t \<noteq> None \<and> same_target_columns t j) (d_targets d)"

definition eligible ::
  "db \<Rightarrow> (jsstr \<times> jsstr) list \<Rightarrow> job_row \<Rightarrow> bool" where
  "eligible d excluded j \<longleftrightarrow>
     j_status j = Pending \<and> j_next_attempt_at j \<le> d_now d
     \<and> (joined_target d j \<noteq> None \<or> j_fingerprint j = None)
     \<and> \<not> (\<exists>(src, session)\<in>set excluded.
          Some src = effective_owner d (j_source_id j) \<and> session = j_session_id j)
     \<and> \<not> (\<exists>r\<in>set (d_jobs d). j_segment_id r = j_segment_id j \<and> j_status r = Running)"

text \<open>\<open>ORDER BY updated_at NULLS LAST, id\<close>.\<close>

definition updated_at :: "db \<Rightarrow> job_row \<Rightarrow> nat option" where
  "updated_at d j = map_option tg_updated_at (joined_target d j)"

definition older :: "db \<Rightarrow> job_row \<Rightarrow> job_row \<Rightarrow> bool" where
  "older d a b \<longleftrightarrow>
     (case (updated_at d a, updated_at d b) of
        (Some x, Some y) \<Rightarrow> x < y \<or> x = y \<and> j_id a < j_id b
      | (Some x, None) \<Rightarrow> True
      | (None, Some y) \<Rightarrow> False
      | (None, None) \<Rightarrow> j_id a < j_id b)"

definition same_session :: "db \<Rightarrow> job_row \<Rightarrow> job_row \<Rightarrow> bool" where
  "same_session d a b \<longleftrightarrow> effective_owner d (j_source_id a) = effective_owner d (j_source_id b)
     \<and> j_session_id a = j_session_id b"

definition job_urgency :: "db \<Rightarrow> job_row \<Rightarrow> nat" where
  "job_urgency d j = (case joined_target d j of None \<Rightarrow> j_priority j | Some t \<Rightarrow> tg_priority t)"

text \<open>
  \<open>session_rank = 1\<close> and \<open>session_urgency\<close>: the oldest eligible job of each session, and the
  highest priority of any eligible job of its session.
\<close>

definition first_of_session :: "db \<Rightarrow> job_row list \<Rightarrow> job_row \<Rightarrow> bool" where
  "first_of_session d js_eligible j \<longleftrightarrow>
     \<not> (\<exists>k\<in>set js_eligible. same_session d k j \<and> older d k j)"

definition session_urgency :: "db \<Rightarrow> job_row list \<Rightarrow> job_row \<Rightarrow> nat" where
  "session_urgency d js_eligible j =
     foldl max 0 (map (job_urgency d) (filter (\<lambda>k. same_session d k j) js_eligible))"

definition precedes :: "db \<Rightarrow> job_row list \<Rightarrow> job_row \<Rightarrow> job_row \<Rightarrow> bool" where
  "precedes d js_eligible a b \<longleftrightarrow>
     session_urgency d js_eligible a > session_urgency d js_eligible b
     \<or> session_urgency d js_eligible a = session_urgency d js_eligible b \<and> older d a b"

definition claim_candidate :: "db \<Rightarrow> (jsstr \<times> jsstr) list \<Rightarrow> job_row option" where
  "claim_candidate d excluded =
     (let es = filter (eligible d excluded) (d_jobs d);
          firsts = filter (first_of_session d es) es
      in find (\<lambda>j. \<not> (\<exists>k\<in>set firsts. precedes d es k j)) firsts)"

fun truncateCodePoints :: "nat \<Rightarrow> jsstr \<Rightarrow> jsstr" where
  "truncateCodePoints 0 s = []"
| "truncateCodePoints (Suc n) [] = []"
| "truncateCodePoints (Suc n) [u] = [u]"
| "truncateCodePoints (Suc n) (u # v # s) =
     (if is_high u \<and> is_low v then u # v # truncateCodePoints n s
      else u # truncateCodePoints n (v # s))"

definition reject_pending :: "jsstr \<Rightarrow> nat \<Rightarrow> db \<Rightarrow> db" where
  "reject_pending err i d =
     update_jobs (\<lambda>j. j_id j = i \<and> j_status j = Pending) (\<lambda>j. j\<lparr>j_status := Failed,
       j_attempts := j_attempts j + 1, j_lease_id := None, j_error := Some err,
       j_finished_at := Some (d_now d)\<rparr>) d"

text \<open>The checks of a pending row against the request its payload decodes to.\<close>

definition request_matches_job ::
  "crypto \<Rightarrow> ingest_request \<Rightarrow> source_info \<Rightarrow> job_row \<Rightarrow> db_error + bool" where
  "request_matches_job cr r source j =
     (if rb_session_id (rq_body r) \<noteq> j_session_id j
         \<or> start_user (request_boundary r) \<noteq> start_user (j_boundary j)
         \<or> \<not> boundary_matches (request_boundary r) (j_boundary j)
         \<or> rb_projection_version (rq_body r) \<noteq> j_projection_version j
         \<or> rb_processing_priority (rq_body r) \<noteq> j_priority j then Inr False
      else rbind (db_lift (ingestSegmentIdForRequest cr r source)) (\<lambda>i.
        Inr (i = j_segment_id j \<and> j_fingerprint j = Some (ingestSourceFingerprint cr r))))"

definition start_claim ::
  "crypto \<Rightarrow> (extraction \<Rightarrow> nat \<Rightarrow> jsstr option \<Rightarrow> jsstr) \<Rightarrow> jsstr \<Rightarrow> source_info \<Rightarrow> ingest_request
     \<Rightarrow> job_row \<Rightarrow> db \<Rightarrow> claimed_job option tx" where
  "start_claim cr vfp leaseId source request j d =
     (let staged = (case joined_target d j of
            None \<Rightarrow> None
          | Some t \<Rightarrow> if staged_eligible cr vfp d t then map_option st_result (tg_staged t) else None);
          claim = (\<lambda>k. j_id k = j_id j \<and> j_status k = Pending)
      in if filter claim (d_jobs d) = [] then Inl (DbError ''claimed job disappeared'')
         else Inr (Some \<lparr>cj_id = j_id j, cj_segmentId = j_segment_id j, cj_leaseId = leaseId,
             cj_sourceGeneration = j_generation j, cj_sourceFingerprint = the (j_fingerprint j),
             cj_attempts = j_attempts j + 1, cj_sourceId = src_id source, cj_request = request,
             cj_extractionResult = staged\<rparr>,
           update_jobs claim (\<lambda>k. k\<lparr>j_status := Running, j_attempts := j_attempts k + 1,
             j_lease_id := Some leaseId, j_started_at := Some (d_now d), j_finished_at := None,
             j_error := None\<rparr>) d))"

definition claim_pending ::
  "crypto \<Rightarrow> (extraction \<Rightarrow> nat \<Rightarrow> jsstr option \<Rightarrow> jsstr) \<Rightarrow> jsstr \<Rightarrow> source_info \<Rightarrow> job_row
     \<Rightarrow> db \<Rightarrow> claimed_job option tx" where
  "claim_pending cr vfp leaseId source j d =
     (case j_payload j of
        None \<Rightarrow> Inr (None, reject_pending (js ''invalid persisted payload: payload is null'') (j_id j) d)
      | Some payload \<Rightarrow>
          (case decodePersistedIngestSegment payload (src_id source) of
             Inl e \<Rightarrow> Inr (None, reject_pending
               (truncateCodePoints 4000 (js ''invalid persisted payload: invalid '' @ js e)) (j_id j) d)
           | Inr request \<Rightarrow>
               rbind (request_matches_job cr request source j) (\<lambda>ok.
                 if \<not> ok then Inr (None, reject_pending
                   (js ''invalid persisted payload: source identity mismatch'') (j_id j) d)
                 else start_claim cr vfp leaseId source request j d)))"

text \<open>
  \<open>leaseId\<close> is the fresh UUID \<open>randomUUID()\<close> returns. The row is read again under the segment lock;
  in one transaction it is the selected one.
\<close>

definition claimOldestJob ::
  "crypto \<Rightarrow> (extraction \<Rightarrow> nat \<Rightarrow> jsstr option \<Rightarrow> jsstr) \<Rightarrow> jsstr \<Rightarrow> (jsstr \<times> jsstr) list
     \<Rightarrow> db \<Rightarrow> claimed_job option tx" where
  "claimOldestJob cr vfp leaseId excluded d =
     rbind (rmap (\<lambda>(src, session). registeredSource d src) excluded) (\<lambda>_.
     case claim_candidate d excluded of
       None \<Rightarrow> Inr (None, d)
     | Some pending \<Rightarrow>
         rbind (effectiveSource d (j_source_id pending)) (\<lambda>source.
         case validateSegmentOwnership cr d (j_segment_id pending) (Some source) of
           Inl (OwnershipError e) \<Rightarrow> Inr (None, quarantinePersistedGroup (j_segment_id pending) d)
         | Inl e \<Rightarrow> Inl e
         | Inr _ \<Rightarrow>
             (case find_job (j_id pending) d of
                None \<Rightarrow> Inr (None, d)
              | Some refreshed \<Rightarrow>
                  if j_status refreshed \<noteq> Pending \<or> j_generation refreshed \<noteq> j_generation pending
                     \<or> j_fingerprint refreshed \<noteq> j_fingerprint pending
                     \<or> j_projection_version refreshed \<noteq> j_projection_version pending
                     \<or> j_payload refreshed \<noteq> j_payload pending
                  then Inr (None, d)
                  else claim_pending cr vfp leaseId source pending d)))"

end
