(* ===== verification/Engine.thy ===== *)
theory Engine
  imports ClaimJob
begin

text \<open>
  \<open>ExtractionEngine.resolve\<close> of \<open>server/src/extraction.ts\<close>: from an extraction and the model's answer
  to the segment the commit writes. The model and the candidate search are parameters: \<open>candidates\<close>
  gives \<open>entityCandidates\<close> of a mention, \<open>answer\<close> the parsed response for the claims and contexts.
  Embeddings, and the check that the embedding service returned as many as asked, are left out.
\<close>

section \<open>Data\<close>

record prepared_entity =
  pe_id :: jsstr
  pe_canonicalName :: jsstr
  pe_normalizedName :: jsstr
  pe_description :: jsstr
  pe_aliases :: "jsstr list"
  pe_isNew :: bool

record prepared_segment =
  pp_id :: jsstr
  pp_session_id :: jsstr
  pp_boundary :: source_boundary
  pp_summary :: jsstr
  pp_entities :: "prepared_entity list"
  pp_claims :: "prepared_claim list"
  pp_projection_version :: nat

record context_spec =
  sp_mentionId :: jsstr
  sp_role :: jsstr
  sp_text :: jsstr
  sp_supportingClaim :: jsstr
  sp_claim :: extracted_claim

definition MAX_ENTITY_DESCRIPTION_CODE_POINTS :: nat where
  "MAX_ENTITY_DESCRIPTION_CODE_POINTS = 2000"

section \<open>Mentions\<close>

definition claimText :: "extracted_claim \<Rightarrow> jsstr result" where
  "claimText c =
     (case (cl_object_entity c, cl_object_value c) of
        (Some e, _) \<Rightarrow> Inr (cl_subject c @ js '' | '' @ cl_predicate c @ js '' | '' @ e)
      | (None, Some v) \<Rightarrow> Inr (cl_subject c @ js '' | '' @ cl_predicate c @ js '' | '' @ v)
      | (None, None) \<Rightarrow> Inl ''extracted claim has no object'')"

definition claim_specs :: "nat \<times> extracted_claim \<Rightarrow> context_spec list result" where
  "claim_specs p =
     (let (i, c) = p in rbind (claimText c) (\<lambda>supporting.
        Inr (\<lparr>sp_mentionId = subject_key i, sp_role = js ''subject'', sp_text = cl_subject c,
              sp_supportingClaim = supporting, sp_claim = c\<rparr>
          # (case cl_object_entity c of
               None \<Rightarrow> []
             | Some e \<Rightarrow> [\<lparr>sp_mentionId = object_key i, sp_role = js ''object'', sp_text = e,
                 sp_supportingClaim = supporting, sp_claim = c\<rparr>]))))"

definition context_specs :: "extracted_claim list \<Rightarrow> context_spec list result" where
  "context_specs cs = rbind (rmap claim_specs (zip [0..<length cs] cs)) (\<lambda>sss. Inr (concat sss))"

definition spec_context :: "(jsstr \<Rightarrow> entity_candidate list) \<Rightarrow> context_spec \<Rightarrow> mention_context" where
  "spec_context candidates s = \<lparr>mc_mentionId = sp_mentionId s, mc_role = sp_role s, mc_text = sp_text s,
     mc_supportingClaim = sp_supportingClaim s, mc_candidates = candidates (sp_text s)\<rparr>"

definition claim_of_mention :: "context_spec list \<Rightarrow> jsstr \<Rightarrow> extracted_claim option" where
  "claim_of_mention specs i = map_of (rev (map (\<lambda>s. (sp_mentionId s, sp_claim s)) specs)) i"

section \<open>Entities\<close>

fun unique_from :: "(jsstr \<Rightarrow> jsstr) \<Rightarrow> jsstr list \<Rightarrow> jsstr list \<Rightarrow> jsstr list" where
  "unique_from cf seen [] = []"
| "unique_from cf seen (a # as) =
     (if normalizeName cf a \<in> set seen then unique_from cf seen as
      else trim a # unique_from cf (normalizeName cf a # seen) as)"

definition uniqueAliases :: "(jsstr \<Rightarrow> jsstr) \<Rightarrow> jsstr list \<Rightarrow> jsstr list" where
  "uniqueAliases cf as = unique_from cf [] as"

text \<open>The entity one mention stands for, before it meets an earlier mention of the same entity.\<close>

definition mention_entity ::
  "crypto \<Rightarrow> (jsstr \<Rightarrow> jsstr) \<Rightarrow> claimed_job \<Rightarrow> context_spec list \<Rightarrow> (jsstr \<rightharpoonup> prepared_entity)
     \<Rightarrow> validated_mention \<Rightarrow> prepared_entity result" where
  "mention_entity cr cf job specs occurrence m =
     (let context = vm_context m; mention = mc_text context in
      case vm_selected m of
        Some c \<Rightarrow> Inr \<lparr>pe_id = ec_id c, pe_canonicalName = ec_canonicalName c,
          pe_normalizedName = normalizeName cf (ec_canonicalName c), pe_description = ec_description c,
          pe_aliases = uniqueAliases cf [mention], pe_isNew = False\<rparr>
      | None \<Rightarrow> (case rs_same_new (vm_resolution m) of
            None \<Rightarrow> (case claim_of_mention specs (mc_mentionId context) of
                None \<Rightarrow> Inl ''claim of mention missing''
              | Some c \<Rightarrow> rbind (newMentionEntityIdFor cr (cj_segmentId job) (cj_sourceFingerprint job)
                    (mc_mentionId context) c) (\<lambda>i.
                  Inr \<lparr>pe_id = i, pe_canonicalName = mention, pe_normalizedName = normalizeName cf mention,
                    pe_description = truncateCodePoints MAX_ENTITY_DESCRIPTION_CODE_POINTS
                      (js ''Entity named '' @ mention @ js '' in claim: '' @ mc_supportingClaim context @ js ''.''),
                    pe_aliases = uniqueAliases cf [mention, mention], pe_isNew = True\<rparr>))
          | Some g \<Rightarrow> (case occurrence g of
                None \<Rightarrow> Inl ''validated new-entity group missing''
              | Some e \<Rightarrow> Inr (e\<lparr>pe_aliases := uniqueAliases cf (pe_aliases e @ [mention])\<rparr>))))"

definition merge_entity ::
  "(jsstr \<Rightarrow> jsstr) \<Rightarrow> prepared_entity list \<Rightarrow> prepared_entity \<Rightarrow> prepared_entity" where
  "merge_entity cf es e =
     (case find (\<lambda>p. pe_id p = pe_id e) es of
        None \<Rightarrow> e
      | Some p \<Rightarrow> p\<lparr>pe_aliases := uniqueAliases cf (pe_aliases p @ pe_aliases e)\<rparr>)"

text \<open>\<open>Map.set\<close> keeps the place of a key it already has.\<close>

definition set_entity :: "prepared_entity list \<Rightarrow> prepared_entity \<Rightarrow> prepared_entity list" where
  "set_entity es e =
     (if \<exists>p\<in>set es. pe_id p = pe_id e then map (\<lambda>p. if pe_id p = pe_id e then e else p) es else es @ [e])"

fun prepare_entities ::
  "crypto \<Rightarrow> (jsstr \<Rightarrow> jsstr) \<Rightarrow> claimed_job \<Rightarrow> context_spec list \<Rightarrow> validated_mention list
     \<Rightarrow> prepared_entity list \<Rightarrow> (jsstr \<rightharpoonup> prepared_entity)
     \<Rightarrow> (prepared_entity list \<times> (jsstr \<rightharpoonup> prepared_entity)) result" where
  "prepare_entities cr cf job specs [] es occurrence = Inr (es, occurrence)"
| "prepare_entities cr cf job specs (m # ms) es occurrence =
     rbind (mention_entity cr cf job specs occurrence m) (\<lambda>e0.
       let e = merge_entity cf es e0
       in prepare_entities cr cf job specs ms (set_entity es e)
            (occurrence(mc_mentionId (vm_context m) \<mapsto> e)))"

section \<open>Claims\<close>

definition prepare_claim ::
  "crypto \<Rightarrow> (jsstr \<Rightarrow> jsstr) \<Rightarrow> claimed_job \<Rightarrow> (jsstr \<rightharpoonup> prepared_entity) \<Rightarrow> nat \<times> extracted_claim
     \<Rightarrow> prepared_claim result" where
  "prepare_claim cr cf job occurrence p =
     (let (i, c) = p in
      case occurrence (subject_key i) of
        None \<Rightarrow> Inl ''missing subject entity''
      | Some s \<Rightarrow>
          if cl_object_entity c \<noteq> None \<and> occurrence (object_key i) = None then Inl ''missing object entity''
          else let objectEntityId = (if cl_object_entity c = None then None
                     else map_option pe_id (occurrence (object_key i)))
            in rbind (equivalenceKey cr cf (pe_id s) (cl_predicate c) objectEntityId (cl_object_value c)) (\<lambda>k.
              Inr \<lparr>pc_id = claimIdFor cr (cj_segmentId job) i, pc_subject = cl_subject c,
                pc_subject_entity_id = pe_id s, pc_predicate = cl_predicate c,
                pc_confidence = cl_confidence c, pc_object_entity = cl_object_entity c,
                pc_object_entity_id = objectEntityId, pc_object_value = cl_object_value c,
                pc_equivalence_key = k\<rparr>))"

definition resolve ::
  "crypto \<Rightarrow> (jsstr \<Rightarrow> jsstr) \<Rightarrow> (jsstr \<Rightarrow> entity_candidate list)
     \<Rightarrow> (extracted_claim list \<Rightarrow> mention_context list \<Rightarrow> resolution_result)
     \<Rightarrow> claimed_job \<Rightarrow> extraction \<Rightarrow> prepared_segment result" where
  "resolve cr cf candidates answer job extracted =
     rbind (context_specs (ex_claims extracted)) (\<lambda>specs.
     let contexts = map (spec_context candidates) specs in
     rbind (if contexts = [] then Inr \<lparr>rp_kept = [], rp_mentions = [], rp_substitutions = []\<rparr>
            else validateResolutionResult cf (ex_claims extracted) contexts
                   (answer (ex_claims extracted) contexts)) (\<lambda>plan.
     rbind (prepare_entities cr cf job specs (rp_mentions plan) [] (\<lambda>_. None)) (\<lambda>(es, occurrence).
     rbind (rmap (prepare_claim cr cf job occurrence) (rp_kept plan)) (\<lambda>cs.
       Inr \<lparr>pp_id = cj_segmentId job, pp_session_id = rb_session_id (rq_body (cj_request job)),
         pp_boundary = request_boundary (cj_request job), pp_summary = ex_summary extracted,
         pp_entities = es, pp_claims = cs,
         pp_projection_version = rb_projection_version (rq_body (cj_request job))\<rparr>))))"

end
