(* ===== verification/FinishJob.thy ===== *)
theory FinishJob
  imports Engine
begin

text \<open>
  What a worker does with its claim, from \<open>server/src/database.ts\<close>: reporting a failed attempt,
  publishing an extraction, committing a resolution. Every transaction re-reads the job under the
  segment lock and is fenced by the lease and by the segment's latest target.
\<close>

section \<open>Fencing\<close>

definition validateClaim :: "crypto \<Rightarrow> claimed_job \<Rightarrow> db \<Rightarrow> db_error + source_info" where
  "validateClaim cr job d =
     rbind (registeredSource d (cj_sourceId job)) (\<lambda>source.
     rbind (db_lift (ownedIngestRequest (cj_request job) (src_id source))) (\<lambda>request.
     rbind (db_lift (ingestSegmentIdForRequest cr request source)) (\<lambda>i.
     if i \<noteq> cj_segmentId job \<or> ingestSourceFingerprint cr request \<noteq> cj_sourceFingerprint job
     then Inl (DbError ''claimed source identity mismatch'')
     else case find_job (cj_id job) d of
         None \<Rightarrow> Inl (DbError ''claim does not match assigned job ownership'')
       | Some row \<Rightarrow>
           if j_segment_id row \<noteq> cj_segmentId job
              \<or> effective_owner d (j_source_id row) \<noteq> Some (src_id source)
           then Inl (DbError ''claim does not match assigned job ownership'')
           else rbind (validateSegmentOwnership cr d (cj_segmentId job) (Some source)) (\<lambda>_.
             Inr source))))"

definition holds_lease :: "claimed_job \<Rightarrow> job_row \<Rightarrow> bool" where
  "holds_lease job j \<longleftrightarrow> j_id j = cj_id job \<and> j_status j = Running \<and> j_lease_id j = Some (cj_leaseId job)"

definition lease_count :: "claimed_job \<Rightarrow> db \<Rightarrow> nat" where
  "lease_count job d = length (filter (holds_lease job) (d_jobs d))"

definition current_claim :: "claimed_job \<Rightarrow> db \<Rightarrow> job_row option" where
  "current_claim job d =
     (case find_job (cj_id job) d of
        None \<Rightarrow> None
      | Some j \<Rightarrow> if j_status j = Running \<and> j_lease_id j = Some (cj_leaseId job) then Some j else None)"

section \<open>Requeueing the latest target\<close>

definition supersede_row :: "db \<Rightarrow> job_row \<Rightarrow> job_row" where
  "supersede_row d j = j\<lparr>j_status := Superseded, j_lease_id := None, j_payload := None,
     j_started_at := None, j_finished_at := Some (d_now d),
     j_error := Some (js ''snapshot was superseded'')\<rparr>"

definition supersede_claim :: "claimed_job \<Rightarrow> db \<Rightarrow> db_error + db" where
  "supersede_claim job d =
     (if lease_count job d \<noteq> 1 then Inl (DbError ''job lease changed while superseding extraction'')
      else Inr (update_jobs (holds_lease job) (supersede_row d) d))"

definition requeueLatestTarget :: "claimed_job \<Rightarrow> target_row option \<Rightarrow> db \<Rightarrow> db_error + db" where
  "requeueLatestTarget job target d =
     (case target of
        None \<Rightarrow> supersede_claim job d
      | Some t \<Rightarrow>
          if tg_job_id t = cj_id job
          then rbind (persistedPayload (tg_payload t) (cj_sourceId job)) (\<lambda>payload.
            if lease_count job d \<noteq> 1 then Inl (DbError ''job lease changed while requeueing latest target'')
            else Inr (update_jobs (holds_lease job) (take_target (d_now d) t payload) d))
          else rbind (supersede_claim job d) (\<lambda>d1.
            rbind (persistedPayload (tg_payload t) (cj_sourceId job)) (\<lambda>payload.
              Inr (update_jobs (\<lambda>j. j_id j = tg_job_id t \<and> j_status j \<noteq> Running)
                (take_target (d_now d) t payload) d1))))"

section \<open>Failed attempts\<close>

text \<open>
  \<open>retryAfterSeconds\<close> is \<open>None\<close> for a terminal failure. The last statement drops a target whose
  content the segment already has.
\<close>

definition redundant_target :: "crypto \<Rightarrow> db \<Rightarrow> jsstr \<Rightarrow> target_row \<Rightarrow> bool" where
  "redundant_target cr d segmentId t \<longleftrightarrow>
     tg_segment_id t = segmentId \<and> tg_staged t = None
     \<and> (\<exists>s\<in>set (d_segments d). s_id s = tg_segment_id t \<and> s_generation s = tg_generation t
          \<and> s_fingerprint s \<noteq> None \<and> s_fingerprint s = tg_fingerprint t
          \<and> boundary_matches (s_boundary s) (tg_boundary t)
          \<and> s_projection_version s \<ge> tg_projection_version t \<and> projection_safe cr s)"

definition attempt_row :: "jsstr \<Rightarrow> nat option \<Rightarrow> db \<Rightarrow> job_row \<Rightarrow> job_row" where
  "attempt_row err retryAfterSeconds d j = j\<lparr>
     j_status := (if retryAfterSeconds = None then Failed else Pending), j_lease_id := None,
     j_error := Some (truncateCodePoints 4000 err), j_started_at := None,
     j_finished_at := (if retryAfterSeconds = None then Some (d_now d) else None),
     j_next_attempt_at := (case retryAfterSeconds of None \<Rightarrow> d_now d | Some s \<Rightarrow> d_now d + s)\<rparr>"

definition finishFailedAttempt ::
  "crypto \<Rightarrow> claimed_job \<Rightarrow> jsstr \<Rightarrow> nat option \<Rightarrow> db \<Rightarrow> bool tx" where
  "finishFailedAttempt cr job err retryAfterSeconds d =
     rbind (validateClaim cr job d) (\<lambda>source.
     case current_claim job d of
       None \<Rightarrow> Inr (False, d)
     | Some current \<Rightarrow>
         if \<not> persistedJobMatchesClaim current job then Inr (False, d)
         else let target = find_target (cj_segmentId job) d in
           if \<not> targetMatchesJob cr target job source
           then rbind (requeueLatestTarget job target d) (\<lambda>d1. Inr (True, d1))
           else let d1 = update_jobs (holds_lease job) (attempt_row err retryAfterSeconds d) d;
                  updated = lease_count job d
             in Inr (updated = 1,
                  if updated = 1 \<and> retryAfterSeconds = None
                  then delete_targets (redundant_target cr d1 (cj_segmentId job)) d1 else d1))"

section \<open>Publishing an extraction\<close>

definition extractionResultForPersistence :: "extraction \<Rightarrow> db_error + extraction" where
  "extractionResultForPersistence value =
     rbind (db_lift (parseExtractionResult value)) (\<lambda>result.
     if trim (ex_summary result) = []
     then Inl (DbError ''extraction summary must contain non-whitespace text'') else Inr result)"

definition claim_target :: "claimed_job \<Rightarrow> target_row \<Rightarrow> bool" where
  "claim_target job t \<longleftrightarrow>
     tg_segment_id t = cj_segmentId job \<and> tg_job_id t = cj_id job
     \<and> tg_generation t = cj_sourceGeneration job \<and> tg_fingerprint t = Some (cj_sourceFingerprint job)
     \<and> tg_projection_version t = rb_projection_version (rq_body (cj_request job))
     \<and> boundary_matches (tg_boundary t) (request_boundary (cj_request job))"

definition publishExtraction ::
  "crypto \<Rightarrow> (extraction \<Rightarrow> nat \<Rightarrow> jsstr option \<Rightarrow> jsstr) \<Rightarrow> claimed_job \<Rightarrow> extraction \<Rightarrow> db \<Rightarrow> bool tx" where
  "publishExtraction cr vfp job value d =
     rbind (extractionResultForPersistence value) (\<lambda>result.
     let summaryFingerprint = ingestProjectionFingerprintForBoundary cr (cj_segmentId job)
           (request_boundary (cj_request job)) (ex_summary result)
           (rb_projection_version (rq_body (cj_request job))) in
     rbind (validateClaim cr job d) (\<lambda>source.
     case current_claim job d of
       None \<Rightarrow> Inr (False, d)
     | Some current \<Rightarrow>
         let target = find_target (cj_segmentId job) d in
         if \<not> persistedJobMatchesClaim current job then Inr (False, d)
         else if \<not> targetMatchesJob cr target job source
         then rbind (requeueLatestTarget job target d) (\<lambda>d1. Inr (False, d1))
         else if length (filter (claim_target job) (d_targets d)) \<noteq> 1
         then Inl (DbError ''latest target changed while publishing extraction'')
         else Inr (True, update_targets (claim_target job) (\<lambda>t. t\<lparr>tg_staged := Some
             \<lparr>st_result = result, st_validation_version = EXTRACTION_VALIDATION_VERSION,
              st_validation_fingerprint = vfp result EXTRACTION_VALIDATION_VERSION (tg_fingerprint t),
              st_summary_fingerprint = summaryFingerprint\<rparr>\<rparr>) d)))"

section \<open>Committing a resolution\<close>

definition prepared_matches_claim :: "prepared_segment \<Rightarrow> claimed_job \<Rightarrow> extraction \<Rightarrow> bool" where
  "prepared_matches_claim p job result \<longleftrightarrow>
     pp_id p = cj_segmentId job \<and> pp_session_id p = rb_session_id (rq_body (cj_request job))
     \<and> start_user (pp_boundary p) = start_user (request_boundary (cj_request job))
     \<and> boundary_matches (pp_boundary p) (request_boundary (cj_request job))
     \<and> pp_summary p = ex_summary result
     \<and> pp_projection_version p = rb_projection_version (rq_body (cj_request job))"

definition succeed_rows :: "(job_row \<Rightarrow> bool) \<Rightarrow> db \<Rightarrow> db" where
  "succeed_rows p d = update_jobs p (\<lambda>j. j\<lparr>j_status := Succeeded, j_lease_id := None,
     j_payload := None, j_error := None, j_finished_at := Some (d_now d)\<rparr>) d"

text \<open>The \<open>UPDATE\<close> of the committing branch is fenced by the claimed source as well.\<close>

definition claimed_row :: "claimed_job \<Rightarrow> job_row \<Rightarrow> bool" where
  "claimed_row job j \<longleftrightarrow>
     holds_lease job j \<and> j_generation j = cj_sourceGeneration job
     \<and> j_fingerprint j = Some (cj_sourceFingerprint job)
     \<and> j_projection_version j = rb_projection_version (rq_body (cj_request job))
     \<and> boundary_matches (j_boundary j) (request_boundary (cj_request job))"

text \<open>\<open>DELETE FROM segment_targets\<close> with every fence on the staged extraction.\<close>

definition committed_target ::
  "(extraction \<Rightarrow> nat \<Rightarrow> jsstr option \<Rightarrow> jsstr) \<Rightarrow> claimed_job \<Rightarrow> extraction \<Rightarrow> jsstr \<Rightarrow> target_row \<Rightarrow> bool" where
  "committed_target vfp job result fingerprint t \<longleftrightarrow>
     claim_target job t
     \<and> (case tg_staged t of
          None \<Rightarrow> False
        | Some st \<Rightarrow> st_result st = result \<and> st_validation_version st = EXTRACTION_VALIDATION_VERSION
            \<and> st_validation_fingerprint st = vfp (st_result st) (st_validation_version st) (tg_fingerprint t)
            \<and> st_summary_fingerprint st = fingerprint)"

text \<open>
  The entity tables follow the segment's claims. New entities are inserted or refreshed, aliases are
  added once per normalised form, and an entity the old claims named is deleted when no claim names it
  any more; its aliases go with it (\<open>ON DELETE CASCADE\<close>).
\<close>

definition claim_entity_ids :: "prepared_claim \<Rightarrow> jsstr list" where
  "claim_entity_ids c = pc_subject_entity_id c
     # (case pc_object_entity_id c of None \<Rightarrow> [] | Some i \<Rightarrow> [i])"

definition segment_entity_ids :: "jsstr \<Rightarrow> db \<Rightarrow> jsstr list" where
  "segment_entity_ids seg d =
     concat (map claim_entity_ids (concat (map s_claims (filter (\<lambda>s. s_id s = seg) (d_segments d)))))"

definition upsert_entity :: "prepared_entity \<Rightarrow> entity_row list \<Rightarrow> entity_row list" where
  "upsert_entity e rows =
     (let new = \<lparr>en_id = pe_id e, en_canonical_name = pe_canonicalName e,
            en_normalized_name = pe_normalizedName e, en_description = pe_description e\<rparr>
      in if \<exists>r\<in>set rows. en_id r = pe_id e then map (\<lambda>r. if en_id r = pe_id e then new else r) rows
         else rows @ [new])"

definition insert_alias :: "(jsstr \<Rightarrow> jsstr) \<Rightarrow> jsstr \<Rightarrow> alias_row list \<Rightarrow> jsstr \<Rightarrow> alias_row list" where
  "insert_alias cf entity rows alias =
     (if \<exists>a\<in>set rows. al_entity_id a = entity \<and> al_normalized_alias a = normalizeName cf alias then rows
      else rows @ [\<lparr>al_entity_id = entity, al_alias = alias, al_normalized_alias = normalizeName cf alias\<rparr>])"

definition insert_aliases :: "(jsstr \<Rightarrow> jsstr) \<Rightarrow> prepared_entity list \<Rightarrow> alias_row list \<Rightarrow> alias_row list" where
  "insert_aliases cf es rows = foldl (\<lambda>rows e. foldl (insert_alias cf (pe_id e)) rows (pe_aliases e)) rows es"

definition entity_exists :: "db \<Rightarrow> jsstr \<Rightarrow> bool" where
  "entity_exists d i \<longleftrightarrow> (\<exists>r\<in>set (d_entities d). en_id r = i)"

definition put_entities :: "(jsstr \<Rightarrow> jsstr) \<Rightarrow> prepared_entity list \<Rightarrow> db \<Rightarrow> db_error + db" where
  "put_entities cf es d =
     (let d1 = d\<lparr>d_entities := foldl (\<lambda>rows e. upsert_entity e rows) (d_entities d) (filter pe_isNew es)\<rparr>
      in if list_all (\<lambda>e. pe_aliases e = [] \<or> entity_exists d1 (pe_id e)) es
         then Inr (d1\<lparr>d_aliases := insert_aliases cf es (d_aliases d1)\<rparr>)
         else Inl (DbError ''entity_aliases violates a foreign key''))"

text \<open>The constraints an \<open>INSERT INTO claims\<close> meets once the segment's old claims are deleted.\<close>

definition claim_row_ok :: "db \<Rightarrow> jsstr \<Rightarrow> prepared_claim \<Rightarrow> bool" where
  "claim_row_ok d seg c \<longleftrightarrow>
     list_all (entity_exists d) (claim_entity_ids c)
     \<and> 0 \<le> pc_confidence c \<and> pc_confidence c \<le> 1
     \<and> (if pc_object_value c = None then pc_object_entity c \<noteq> None \<and> pc_object_entity_id c \<noteq> None
        else pc_object_entity c = None \<and> pc_object_entity_id c = None)
     \<and> \<not> (\<exists>s\<in>set (d_segments d). s_id s \<noteq> seg \<and> (\<exists>k\<in>set (s_claims s). pc_id k = pc_id c))"

definition committed_row :: "claimed_job \<Rightarrow> prepared_segment \<Rightarrow> jsstr \<Rightarrow> segment_row" where
  "committed_row job p fingerprint =
     \<lparr>s_source_id = Some (cj_sourceId job), s_id = pp_id p, s_session_id = pp_session_id p,
      s_boundary = pp_boundary p, s_projection_version = pp_projection_version p,
      s_generation = cj_sourceGeneration job, s_fingerprint = Some (cj_sourceFingerprint job),
      s_summary = pp_summary p, s_commit_fingerprint = Some fingerprint, s_claims = pp_claims p\<rparr>"

text \<open>\<open>INSERT ... ON CONFLICT (id) DO UPDATE\<close>.\<close>

definition upsert_segment :: "segment_row \<Rightarrow> segment_row list \<Rightarrow> segment_row list" where
  "upsert_segment new rows =
     (if \<exists>s\<in>set rows. s_id s = s_id new then map (\<lambda>s. if s_id s = s_id new then new else s) rows
      else rows @ [new])"

definition put_segment :: "claimed_job \<Rightarrow> prepared_segment \<Rightarrow> jsstr \<Rightarrow> db \<Rightarrow> db_error + db" where
  "put_segment job p fingerprint d =
     (if distinct (map pc_id (pp_claims p)) \<and> list_all (claim_row_ok d (pp_id p)) (pp_claims p)
      then Inr (d\<lparr>d_segments := upsert_segment (committed_row job p fingerprint) (d_segments d)\<rparr>)
      else Inl (DbError ''claims violates a constraint''))"

definition named_by_claim :: "db \<Rightarrow> jsstr \<Rightarrow> bool" where
  "named_by_claim d i \<longleftrightarrow>
     (\<exists>s\<in>set (d_segments d). \<exists>c\<in>set (s_claims s). i \<in> set (claim_entity_ids c))"

definition drop_orphans :: "jsstr list \<Rightarrow> db \<Rightarrow> db" where
  "drop_orphans ids d =
     (let orphan = (\<lambda>i. i \<in> set ids \<and> \<not> named_by_claim d i)
      in d\<lparr>d_entities := filter (\<lambda>r. \<not> orphan (en_id r)) (d_entities d),
           d_aliases := filter (\<lambda>a. \<not> orphan (al_entity_id a)) (d_aliases d)\<rparr>)"

text \<open>The fenced part of the commit, after the checks on the staged extraction.\<close>

definition commit_staged ::
  "(jsstr \<Rightarrow> jsstr) \<Rightarrow> (extraction \<Rightarrow> nat \<Rightarrow> jsstr option \<Rightarrow> jsstr) \<Rightarrow> claimed_job \<Rightarrow> extraction
     \<Rightarrow> prepared_segment \<Rightarrow> jsstr \<Rightarrow> db \<Rightarrow> bool tx" where
  "commit_staged cf vfp job result p fingerprint d =
     (let committed = committed_target vfp job result fingerprint in
      if (case find_segment (pp_id p) d of None \<Rightarrow> False
          | Some s \<Rightarrow> s_projection_version s > pp_projection_version p)
      then if lease_count job d \<noteq> 1 then Inl (DbError ''job lease changed before resolution committed'')
           else Inr (True, delete_targets committed (succeed_rows (holds_lease job) d))
      else rbind (put_entities cf (pp_entities p) d) (\<lambda>d1.
           rbind (put_segment job p fingerprint d1) (\<lambda>d2.
           let d3 = drop_orphans (segment_entity_ids (pp_id p) d) d2 in
           if length (filter (claimed_row job) (d_jobs d3)) \<noteq> 1
           then Inl (DbError ''job lease changed before resolution committed'')
           else if length (filter committed (d_targets d3)) \<noteq> 1
           then Inl (DbError ''latest target changed before resolution committed'')
           else Inr (True, delete_targets committed (succeed_rows (claimed_row job) d3)))))"

definition commitResolution ::
  "crypto \<Rightarrow> (jsstr \<Rightarrow> jsstr) \<Rightarrow> (extraction \<Rightarrow> nat \<Rightarrow> jsstr option \<Rightarrow> jsstr) \<Rightarrow> claimed_job \<Rightarrow> extraction
     \<Rightarrow> prepared_segment \<Rightarrow> db \<Rightarrow> bool tx" where
  "commitResolution cr cf vfp job value p d =
     rbind (extractionResultForPersistence value) (\<lambda>result.
     if \<not> prepared_matches_claim p job result
     then Inl (DbError ''prepared resolution does not match its claimed source'')
     else let fingerprint = ingestProjectionFingerprintForBoundary cr (pp_id p) (pp_boundary p)
            (ex_summary result) (pp_projection_version p) in
     rbind (validateClaim cr job d) (\<lambda>source.
     case current_claim job d of
       None \<Rightarrow> Inl (DbError ''job lease changed before resolution committed'')
     | Some current \<Rightarrow>
         let target = find_target (cj_segmentId job) d in
         if \<not> persistedJobMatchesClaim current job then Inr (False, d)
         else if \<not> targetMatchesJob cr target job source
         then rbind (requeueLatestTarget job target d) (\<lambda>d1. Inr (False, d1))
         else case tg_staged (the target) of
             None \<Rightarrow> Inl (DbError ''staged extraction is missing or does not match'')
           | Some st \<Rightarrow>
               if \<not> staged_eligible cr vfp d (the target) \<or> st_summary_fingerprint st \<noteq> fingerprint
               then Inl (DbError ''staged extraction is missing or does not match'')
               else if st_result st \<noteq> result
               then Inl (DbError ''staged extraction result changed before resolution'')
               else commit_staged cf vfp job result p fingerprint d))"

end
