(* ===== verification/QueueInvariant.thy ===== *)
theory QueueInvariant
  imports FinishJob
begin

text \<open>
  The invariant of the job tables and that every transaction of \<open>server/src/database.ts\<close> keeps it: job
  IDs are unique, a job is running exactly when it holds a lease, a segment has at most one running
  job and one target, a target's job belongs to the target's segment, and no job of a segment is of
  a later generation than the segment's target.
\<close>

named_theorems queue_simps \<open>how statements change the tables\<close>

section \<open>The invariant\<close>

definition lease_ok :: "job_row \<Rightarrow> bool" where
  "lease_ok j \<longleftrightarrow> (j_status j = Running) = (j_lease_id j \<noteq> None)"

definition base_ok :: "db \<Rightarrow> bool" where
  "base_ok d \<longleftrightarrow>
     distinct (map j_id (d_jobs d)) \<and> (\<forall>j\<in>set (d_jobs d). j_id j < d_next_id d)
     \<and> (\<forall>j\<in>set (d_jobs d). lease_ok j)
     \<and> (\<forall>a\<in>set (d_jobs d). \<forall>b\<in>set (d_jobs d). j_status a = Running \<and> j_status b = Running
          \<and> j_segment_id a = j_segment_id b \<longrightarrow> j_id a = j_id b)
     \<and> distinct (map tg_segment_id (d_targets d))
     \<and> (\<forall>t\<in>set (d_targets d). \<exists>j\<in>set (d_jobs d). j_id j = tg_job_id t \<and> j_segment_id j = tg_segment_id t)"

definition gen_ok :: "db \<Rightarrow> bool" where
  "gen_ok d \<longleftrightarrow> (\<forall>t\<in>set (d_targets d). \<forall>j\<in>set (d_jobs d).
     j_segment_id j = tg_segment_id t \<longrightarrow> j_generation j \<le> tg_generation t)"

definition queue_ok :: "db \<Rightarrow> bool" where
  "queue_ok d \<longleftrightarrow> base_ok d \<and> gen_ok d"

lemma update_jobs_simps [queue_simps]:
  "d_jobs (update_jobs p f d) = map (\<lambda>j. if p j then f j else j) (d_jobs d)"
  "d_targets (update_jobs p f d) = d_targets d" "d_next_id (update_jobs p f d) = d_next_id d"
  "d_segments (update_jobs p f d) = d_segments d" "d_now (update_jobs p f d) = d_now d"
  "d_sources (update_jobs p f d) = d_sources d"
  by (simp_all add: update_jobs_def)

lemma update_targets_simps [queue_simps]:
  "d_targets (update_targets p f d) = map (\<lambda>t. if p t then f t else t) (d_targets d)"
  "d_jobs (update_targets p f d) = d_jobs d" "d_next_id (update_targets p f d) = d_next_id d"
  "d_segments (update_targets p f d) = d_segments d" "d_now (update_targets p f d) = d_now d"
  "d_sources (update_targets p f d) = d_sources d"
  by (simp_all add: update_targets_def)

lemma delete_targets_simps [queue_simps]:
  "d_targets (delete_targets p d) = filter (\<lambda>t. \<not> p t) (d_targets d)"
  "d_jobs (delete_targets p d) = d_jobs d" "d_next_id (delete_targets p d) = d_next_id d"
  "d_segments (delete_targets p d) = d_segments d"
  by (simp_all add: delete_targets_def)

text \<open>An update of jobs keeps the invariant if it does so row by row and starts no job.\<close>

definition keeps_row :: "(job_row \<Rightarrow> job_row) \<Rightarrow> job_row \<Rightarrow> bool" where
  "keeps_row f j \<longleftrightarrow> j_id (f j) = j_id j \<and> j_segment_id (f j) = j_segment_id j \<and> lease_ok (f j)
     \<and> (j_status (f j) = Running \<longrightarrow> j_status j = Running)"

lemma map_cond_ids:
  "(\<And>j. j \<in> set xs \<Longrightarrow> p j \<Longrightarrow> g (f j) = g j) \<Longrightarrow> map g (map (\<lambda>j. if p j then f j else j) xs) = map g xs"
  by (induction xs) auto

lemma ball_mapI: "(\<And>x. x \<in> set xs \<Longrightarrow> P (f x)) \<Longrightarrow> \<forall>y\<in>set (map f xs). P y"
  by auto

lemma base_okI:
  assumes "distinct (map j_id (d_jobs d))" "\<forall>j\<in>set (d_jobs d). j_id j < d_next_id d"
    and "\<forall>j\<in>set (d_jobs d). lease_ok j"
    and "\<And>a b. a \<in> set (d_jobs d) \<Longrightarrow> b \<in> set (d_jobs d) \<Longrightarrow> j_status a = Running \<Longrightarrow> j_status b = Running
      \<Longrightarrow> j_segment_id a = j_segment_id b \<Longrightarrow> j_id a = j_id b"
    and "distinct (map tg_segment_id (d_targets d))"
    and "\<forall>t\<in>set (d_targets d). \<exists>j\<in>set (d_jobs d). j_id j = tg_job_id t \<and> j_segment_id j = tg_segment_id t"
  shows "base_ok d"
  unfolding base_ok_def by (intro conjI assms(1-3,5,6)) (blast intro: assms(4))

lemma base_okD:
  assumes "base_ok d"
  shows base_ids: "distinct (map j_id (d_jobs d))" and base_next: "\<And>j. j \<in> set (d_jobs d) \<Longrightarrow> j_id j < d_next_id d"
    and base_lease: "\<And>j. j \<in> set (d_jobs d) \<Longrightarrow> lease_ok j"
    and base_running: "\<And>a b. a \<in> set (d_jobs d) \<Longrightarrow> b \<in> set (d_jobs d) \<Longrightarrow> j_status a = Running
      \<Longrightarrow> j_status b = Running \<Longrightarrow> j_segment_id a = j_segment_id b \<Longrightarrow> j_id a = j_id b"
    and base_targets: "distinct (map tg_segment_id (d_targets d))"
    and base_refs: "\<And>t. t \<in> set (d_targets d)
      \<Longrightarrow> \<exists>j\<in>set (d_jobs d). j_id j = tg_job_id t \<and> j_segment_id j = tg_segment_id t"
  using assms unfolding base_ok_def by blast+

lemma base_update_jobs:
  assumes ok: "base_ok d" and keeps: "\<And>j. j \<in> set (d_jobs d) \<Longrightarrow> p j \<Longrightarrow> keeps_row f j"
  shows "base_ok (update_jobs p f d)"
proof -
  let ?f = "\<lambda>j. if p j then f j else j"
  have k: "keeps_row ?f j" if "j \<in> set (d_jobs d)" for j
    using keeps [OF that] base_lease [OF ok that] by (auto simp: keeps_row_def)
  have ids: "map j_id (map ?f (d_jobs d)) = map j_id (d_jobs d)"
    using keeps by (intro map_cond_ids) (auto simp: keeps_row_def)
  show ?thesis
  proof (rule base_okI; unfold update_jobs_simps)
    show "distinct (map j_id (map ?f (d_jobs d)))" unfolding ids by (rule base_ids [OF ok])
    show "\<forall>j\<in>set (map ?f (d_jobs d)). j_id j < d_next_id d"
      using k base_next [OF ok] unfolding keeps_row_def by (intro ball_mapI) metis
    show "\<forall>j\<in>set (map ?f (d_jobs d)). lease_ok j"
      using k unfolding keeps_row_def by (intro ball_mapI) blast
    fix a b assume "a \<in> set (map ?f (d_jobs d))" "b \<in> set (map ?f (d_jobs d))"
      and r: "j_status a = Running" "j_status b = Running" "j_segment_id a = j_segment_id b"
    then obtain a' b' where a': "a' \<in> set (d_jobs d)" "a = ?f a'" and b': "b' \<in> set (d_jobs d)" "b = ?f b'"
      by auto
    from k [OF a'(1)] k [OF b'(1)] r have "j_status a' = Running" "j_status b' = Running"
      "j_segment_id a' = j_segment_id b'" unfolding a'(2) b'(2) keeps_row_def by metis+
    then have "j_id a' = j_id b'" by (rule base_running [OF ok a'(1) b'(1)])
    with k [OF a'(1)] k [OF b'(1)] show "j_id a = j_id b" unfolding a'(2) b'(2) keeps_row_def by metis
  next
    show "distinct (map tg_segment_id (d_targets d))" by (rule base_targets [OF ok])
    show "\<forall>t\<in>set (d_targets d). \<exists>j\<in>set (map ?f (d_jobs d)). j_id j = tg_job_id t \<and> j_segment_id j = tg_segment_id t"
    proof
      fix t assume "t \<in> set (d_targets d)"
      then obtain j where j: "j \<in> set (d_jobs d)" "j_id j = tg_job_id t" "j_segment_id j = tg_segment_id t"
        using base_refs [OF ok] by blast
      with k [OF j(1)] have "j_id (?f j) = tg_job_id t" "j_segment_id (?f j) = tg_segment_id t"
        unfolding keeps_row_def by metis+
      moreover from j(1) have "?f j \<in> set (map ?f (d_jobs d))" by force
      ultimately show "\<exists>j\<in>set (map ?f (d_jobs d)). j_id j = tg_job_id t \<and> j_segment_id j = tg_segment_id t"
        by blast
    qed
  qed
qed

definition bounded_row :: "db \<Rightarrow> job_row \<Rightarrow> bool" where
  "bounded_row d j \<longleftrightarrow> (\<forall>t\<in>set (d_targets d). j_segment_id j = tg_segment_id t \<longrightarrow> j_generation j \<le> tg_generation t)"

lemma gen_ok_bounded: "gen_ok d \<longleftrightarrow> (\<forall>j\<in>set (d_jobs d). bounded_row d j)"
  by (auto simp: gen_ok_def bounded_row_def)

lemma queue_update_jobs:
  assumes ok: "queue_ok d" and rows: "\<And>j. j \<in> set (d_jobs d) \<Longrightarrow> p j \<Longrightarrow> keeps_row f j \<and> bounded_row d (f j)"
  shows "queue_ok (update_jobs p f d)"
proof -
  from ok have base: "base_ok d" and gen: "\<forall>j\<in>set (d_jobs d). bounded_row d j"
    by (simp_all add: queue_ok_def gen_ok_bounded)
  have "base_ok (update_jobs p f d)"
    by (rule base_update_jobs [OF base conjunct1 [OF rows]])
  moreover have "bounded_row (update_jobs p f d) (if p j then f j else j)" if "j \<in> set (d_jobs d)" for j
    using conjunct2 [OF rows [OF that]] bspec [OF gen that]
    unfolding bounded_row_def update_jobs_simps by (cases "p j") simp_all
  then have "gen_ok (update_jobs p f d)"
    unfolding gen_ok_bounded update_jobs_simps(1) by (rule ball_mapI)
  ultimately show ?thesis by (simp add: queue_ok_def)
qed

text \<open>Most updates leave the generation alone.\<close>

lemma queue_update_jobs_same:
  assumes "queue_ok d" and "\<And>j. j \<in> set (d_jobs d) \<Longrightarrow> p j \<Longrightarrow> keeps_row f j \<and> j_generation (f j) = j_generation j"
  shows "queue_ok (update_jobs p f d)"
proof (rule queue_update_jobs [OF assms(1)])
  fix j assume j: "j \<in> set (d_jobs d)" "p j"
  with assms(1) have "bounded_row d j" by (simp add: queue_ok_def gen_ok_bounded)
  with assms(2) [OF j] show "keeps_row f j \<and> bounded_row d (f j)"
    by (simp add: keeps_row_def bounded_row_def)
qed

lemma base_update_targets:
  assumes ok: "base_ok d" and rows: "\<And>t. t \<in> set (d_targets d) \<Longrightarrow> p t \<Longrightarrow> tg_segment_id (f t) = tg_segment_id t
      \<and> (\<exists>j\<in>set (d_jobs d). j_id j = tg_job_id (f t) \<and> j_segment_id j = tg_segment_id t)"
  shows "base_ok (update_targets p f d)"
proof -
  have segs: "map tg_segment_id (map (\<lambda>t. if p t then f t else t) (d_targets d)) = map tg_segment_id (d_targets d)"
    by (rule map_cond_ids, rule conjunct1 [OF rows])
  have "\<exists>j\<in>set (d_jobs d). j_id j = tg_job_id (if p t then f t else t)
      \<and> j_segment_id j = tg_segment_id (if p t then f t else t)" if t: "t \<in> set (d_targets d)" for t
  proof (cases "p t")
    case True
    with rows [OF t True] show ?thesis by simp
  next
    case False
    with ok t show ?thesis unfolding base_ok_def by simp
  qed
  then have refs: "\<forall>t\<in>set (map (\<lambda>t. if p t then f t else t) (d_targets d)).
      \<exists>j\<in>set (d_jobs d). j_id j = tg_job_id t \<and> j_segment_id j = tg_segment_id t"
    by (rule ball_mapI)
  from ok show ?thesis
    unfolding base_ok_def update_targets_simps segs by (intro conjI refs) blast+
qed

lemma queue_update_targets:
  assumes ok: "queue_ok d" and rows: "\<And>t. t \<in> set (d_targets d) \<Longrightarrow> p t \<Longrightarrow> tg_segment_id (f t) = tg_segment_id t
      \<and> tg_job_id (f t) = tg_job_id t \<and> tg_generation (f t) = tg_generation t"
  shows "queue_ok (update_targets p f d)"
proof -
  from ok have base: "base_ok d" and gen: "gen_ok d" by (simp_all add: queue_ok_def)
  have "base_ok (update_targets p f d)"
  proof (rule base_update_targets [OF base])
    fix t assume t: "t \<in> set (d_targets d)" "p t"
    from base t(1) show "tg_segment_id (f t) = tg_segment_id t
        \<and> (\<exists>j\<in>set (d_jobs d). j_id j = tg_job_id (f t) \<and> j_segment_id j = tg_segment_id t)"
      using rows [OF t] unfolding base_ok_def by simp
  qed
  moreover have "\<forall>j\<in>set (d_jobs d). j_segment_id j = tg_segment_id (if p t then f t else t)
      \<longrightarrow> j_generation j \<le> tg_generation (if p t then f t else t)" if t: "t \<in> set (d_targets d)" for t
    using gen t rows [OF t] unfolding gen_ok_def by (cases "p t") simp_all
  then have "gen_ok (update_targets p f d)" unfolding gen_ok_def update_targets_simps by (rule ball_mapI)
  ultimately show ?thesis by (simp add: queue_ok_def)
qed

lemma base_delete_targets:
  assumes ok: "base_ok d"
  shows "base_ok (delete_targets p d)"
proof (rule base_okI; unfold delete_targets_simps)
  show "distinct (map tg_segment_id (filter (\<lambda>t. \<not> p t) (d_targets d)))"
    by (rule distinct_map_filter [OF base_targets [OF ok]])
  show "\<forall>t\<in>set (filter (\<lambda>t. \<not> p t) (d_targets d)). \<exists>j\<in>set (d_jobs d). j_id j = tg_job_id t \<and> j_segment_id j = tg_segment_id t"
    using base_refs [OF ok] by simp
qed (use base_ids [OF ok] base_next [OF ok] base_lease [OF ok] base_running [OF ok] in blast)+

lemma queue_delete_targets: "queue_ok d \<Longrightarrow> queue_ok (delete_targets p d)"
  unfolding queue_ok_def gen_ok_def delete_targets_simps by (auto intro: base_delete_targets)

lemma append_job_simps [queue_simps]:
  "d_jobs (append_job j d) = d_jobs d @ [j]" "d_next_id (append_job j d) = Suc (d_next_id d)"
  "d_targets (append_job j d) = d_targets d" "d_segments (append_job j d) = d_segments d"
  by (simp_all add: append_job_def)

lemma base_append_job:
  assumes ok: "base_ok d" and new: "j_id j = d_next_id d" "lease_ok j" "j_status j \<noteq> Running"
  shows "base_ok (append_job j d)"
proof (rule base_okI; unfold append_job_simps)
  show "distinct (map j_id (d_jobs d @ [j]))"
    using base_ids [OF ok] base_next [OF ok] new(1) by force
  show "\<forall>k\<in>set (d_jobs d @ [j]). j_id k < Suc (d_next_id d)"
    using base_next [OF ok] new(1) by (simp add: less_SucI)
  show "\<forall>k\<in>set (d_jobs d @ [j]). lease_ok k" using base_lease [OF ok] new(2) by simp
  fix a b assume "a \<in> set (d_jobs d @ [j])" "b \<in> set (d_jobs d @ [j])" "j_status a = Running"
    "j_status b = Running" "j_segment_id a = j_segment_id b"
  then show "j_id a = j_id b" using new(3) base_running [OF ok, of a b] by auto
next
  show "distinct (map tg_segment_id (d_targets d))" by (rule base_targets [OF ok])
  show "\<forall>t\<in>set (d_targets d). \<exists>k\<in>set (d_jobs d @ [j]). j_id k = tg_job_id t \<and> j_segment_id k = tg_segment_id t"
    using base_refs [OF ok] by simp
qed

lemma queue_append_job:
  assumes ok: "queue_ok d" and new: "j_id j = d_next_id d" "lease_ok j" "j_status j \<noteq> Running" "bounded_row d j"
  shows "queue_ok (append_job j d)"
proof -
  from ok have base: "base_ok d" and gen: "\<forall>j\<in>set (d_jobs d). bounded_row d j"
    by (simp_all add: queue_ok_def gen_ok_bounded)
  have "bounded_row (append_job j d) k = bounded_row d k" for k
    by (simp add: bounded_row_def append_job_simps)
  with gen new(4) have "gen_ok (append_job j d)" by (simp add: gen_ok_bounded append_job_simps)
  with base_append_job [OF base new(1-3)] show ?thesis by (simp add: queue_ok_def)
qed

lemma find_jobD: "find_job i d = Some j \<Longrightarrow> j \<in> set (d_jobs d) \<and> j_id j = i"
  by (auto simp: find_job_def find_Some_iff)

lemma find_targetD: "find_target seg d = Some t \<Longrightarrow> t \<in> set (d_targets d) \<and> tg_segment_id t = seg"
  by (auto simp: find_target_def find_Some_iff)

lemma same_id_same_job:
  "base_ok d \<Longrightarrow> a \<in> set (d_jobs d) \<Longrightarrow> b \<in> set (d_jobs d) \<Longrightarrow> j_id a = j_id b \<Longrightarrow> a = b"
  using base_ids [of d] by (auto simp: distinct_map inj_on_def)

lemma same_segment_same_target:
  "base_ok d \<Longrightarrow> a \<in> set (d_targets d) \<Longrightarrow> b \<in> set (d_targets d) \<Longrightarrow> tg_segment_id a = tg_segment_id b \<Longrightarrow> a = b"
  using base_targets [of d] by (auto simp: distinct_map inj_on_def)

text \<open>Taking over the columns of the segment's own target respects the bound.\<close>

lemma take_target_row:
  assumes "base_ok d" "t \<in> set (d_targets d)" "tg_segment_id t = j_segment_id j"
  shows "keeps_row (take_target w t p) j" "bounded_row d (take_target w t p j)"
proof -
  show "keeps_row (take_target w t p) j" by (simp add: keeps_row_def take_target_def lease_ok_def)
  show "bounded_row d (take_target w t p j)"
    unfolding bounded_row_def
  proof (intro ballI impI)
    fix t' assume t': "t' \<in> set (d_targets d)" "j_segment_id (take_target w t p j) = tg_segment_id t'"
    then have "t' = t" using same_segment_same_target [OF assms(1) t'(1) assms(2)] assms(3)
      by (simp add: take_target_def)
    then show "j_generation (take_target w t p j) \<le> tg_generation t'" by (simp add: take_target_def)
  qed
qed

end
