(* ===== verification/QueueSteps.thy ===== *)
theory QueueSteps
  imports QueueInvariant
begin

text \<open>
  Every transaction of the job queue keeps \<open>queue_ok\<close>: one lemma per transaction of \<open>Enqueue\<close>,
  \<open>ClaimJob\<close> and \<open>FinishJob\<close>. Only \<open>start_claim\<close> starts a job, and \<open>eligible\<close> lets it do so only in
  a segment where nothing runs.
\<close>

section \<open>Shared facts\<close>

lemma queue_okD: "queue_ok d \<Longrightarrow> base_ok d" "queue_ok d \<Longrightarrow> gen_ok d"
  by (simp_all add: queue_ok_def)

lemma queue_ok_cong:
  assumes "d_jobs d' = d_jobs d" "d_targets d' = d_targets d" "d_next_id d' = d_next_id d"
  shows "queue_ok d' = queue_ok d"
  unfolding queue_ok_def base_ok_def gen_ok_def assms by simp

lemma db_lift_Inr: "db_lift r = Inr x \<longleftrightarrow> r = Inr x"
  by (simp add: db_lift_def split: sum.splits)

lemma respond_InrD: "respond err i source d = Inr (j, d') \<Longrightarrow> d' = d \<and> j \<in> set (d_jobs d) \<and> j_id j = i"
  by (auto simp: respond_def jobRow_def dest: find_jobD split: option.splits if_splits)

lemma bounded_update_targets:
  assumes "\<And>t. t \<in> set (d_targets d) \<Longrightarrow> p t \<Longrightarrow> tg_segment_id (f t) = tg_segment_id t \<and> tg_generation (f t) = tg_generation t"
  shows "bounded_row (update_targets p f d) j = bounded_row d j"
proof -
  have "\<And>t. t \<in> set (d_targets d) \<Longrightarrow> tg_segment_id (if p t then f t else t) = tg_segment_id t
      \<and> tg_generation (if p t then f t else t) = tg_generation t"
    using assms by simp
  then show ?thesis unfolding bounded_row_def update_targets_simps set_map ball_simps(9) by simp
qed

lemma queue_bounded: "queue_ok d \<Longrightarrow> j \<in> set (d_jobs d) \<Longrightarrow> bounded_row d j"
  by (simp add: queue_ok_def gen_ok_bounded)

section \<open>Ownership makes every row of a segment visible\<close>

lemma registeredSource_id: "registeredSource d i = Inr s \<Longrightarrow> src_id s = i"
  by (auto simp: registeredSource_def parseSourceInfo_def parseSourceId_def db_lift_def Let_def
      dest!: find_SomeD split: if_splits option.splits sum.splits)

lemma effectiveSource_id: "effectiveSource d (Some i) = Inr s \<Longrightarrow> src_id s = i"
  by (simp add: effectiveSource_def registeredSource_id)

lemma check_owned_rowD:
  assumes "check_owned_row cr d seg (Some source) row = Inr owner" "ow_source_id row = Some i"
  shows "i = src_id source" "src_id owner = src_id source"
  using assms by (auto simp: check_owned_row_def split: if_splits dest: effectiveSource_id)

lemma check_owned_row_owner:
  "check_owned_row cr d seg (Some source) row = Inr owner \<Longrightarrow> src_id owner = src_id source"
  by (auto simp: check_owned_row_def split: if_splits)

lemma check_owned_rowsD:
  assumes "check_owned_rows cr d seg (Some source) rows = Inr s" "row \<in> set rows" "ow_source_id row = Some i"
  shows "i = src_id source"
  using assms
proof (induction rows arbitrary: source)
  case Nil
  then show ?case by simp
next
  case (Cons r rows)
  from Cons.prems(1) obtain owner where r: "check_owned_row cr d seg (Some source) r = Inr owner"
    and rest: "check_owned_rows cr d seg (Some owner) rows = Inr s" by auto
  show ?case
  proof (cases "row = r")
    case True
    with check_owned_rowD(1) [OF r] Cons.prems(3) show ?thesis by simp
  next
    case False
    with Cons.prems(2) have "row \<in> set rows" by simp
    from Cons.IH [OF rest this Cons.prems(3)] check_owned_row_owner [OF r] show ?thesis by simp
  qed
qed

lemma in_owned_rows:
  "j \<in> set (d_jobs d) \<Longrightarrow> j_segment_id j = seg \<Longrightarrow> job_owned j \<in> set (owned_rows d seg)"
  "t \<in> set (d_targets d) \<Longrightarrow> tg_segment_id t = seg \<Longrightarrow> target_owned t \<in> set (owned_rows d seg)"
  by (auto simp: owned_rows_def)

lemma owned_source: "ow_source_id (job_owned j) = j_source_id j" "ow_source_id (target_owned t) = tg_source_id t"
  by (simp_all add: job_owned_def target_owned_def)

lemma owned_segment_rows:
  assumes "validateSegmentOwnership cr d seg (Some source) = Inr s"
  shows "j \<in> set (d_jobs d) \<Longrightarrow> j_segment_id j = seg \<Longrightarrow> j_source_id j = None \<or> j_source_id j = Some (src_id source)"
    and "t \<in> set (d_targets d) \<Longrightarrow> tg_segment_id t = seg \<Longrightarrow> tg_source_id t = None \<or> tg_source_id t = Some (src_id source)"
  using check_owned_rowsD [OF assms [unfolded validateSegmentOwnership_def] in_owned_rows(1), of j]
    check_owned_rowsD [OF assms [unfolded validateSegmentOwnership_def] in_owned_rows(2), of t]
  unfolding owned_source by (cases "j_source_id j"; cases "tg_source_id t"; simp)+

text \<open>After adoption, what \<open>enqueue\<close> selects for the segment is all there is.\<close>

definition visible :: "source_info \<Rightarrow> jsstr \<Rightarrow> db \<Rightarrow> bool" where
  "visible source seg d \<longleftrightarrow>
     (\<forall>j\<in>set (d_jobs d). j_segment_id j = seg \<longrightarrow> j_source_id j = Some (src_id source))
     \<and> (\<forall>t\<in>set (d_targets d). tg_segment_id t = seg \<longrightarrow> tg_source_id t = Some (src_id source))"

lemma adopt_group_simps [queue_simps]:
  "d_jobs (adopt_group source seg d) = map (\<lambda>j. if j_segment_id j = seg \<and> j_source_id j = None
     then j\<lparr>j_source_id := Some (src_id source)\<rparr> else j) (d_jobs d)"
  "d_targets (adopt_group source seg d) = map (\<lambda>t. if tg_segment_id t = seg \<and> tg_source_id t = None
     then t\<lparr>tg_source_id := Some (src_id source)\<rparr> else t) (d_targets d)"
  "d_next_id (adopt_group source seg d) = d_next_id d"
  by (simp_all add: adopt_group_def)

lemma adopt_group_visible:
  assumes "validateSegmentOwnership cr d seg (Some source) = Inr s"
  shows "visible source seg (adopt_group source seg d)"
  unfolding visible_def
proof (intro conjI ballI impI)
  fix j assume "j \<in> set (d_jobs (adopt_group source seg d))" "j_segment_id j = seg"
  then obtain k where k: "k \<in> set (d_jobs d)"
      "j = (if j_segment_id k = seg \<and> j_source_id k = None then k\<lparr>j_source_id := Some (src_id source)\<rparr> else k)"
    unfolding adopt_group_simps set_map by blast
  with \<open>j_segment_id j = seg\<close> have "j_segment_id k = seg" by (simp split: if_splits)
  with owned_segment_rows(1) [OF assms k(1)] k(2) show "j_source_id j = Some (src_id source)" by (simp split: if_splits)
next
  fix t assume "t \<in> set (d_targets (adopt_group source seg d))" "tg_segment_id t = seg"
  then obtain k where k: "k \<in> set (d_targets d)"
      "t = (if tg_segment_id k = seg \<and> tg_source_id k = None then k\<lparr>tg_source_id := Some (src_id source)\<rparr> else k)"
    unfolding adopt_group_simps set_map by blast
  with \<open>tg_segment_id t = seg\<close> have "tg_segment_id k = seg" by (simp split: if_splits)
  with owned_segment_rows(2) [OF assms k(1)] k(2) show "tg_source_id t = Some (src_id source)" by (simp split: if_splits)
qed

lemma visible_jobs:
  "visible source seg d \<Longrightarrow> segment_jobs source seg d = filter (\<lambda>j. j_segment_id j = seg) (d_jobs d)"
  unfolding segment_jobs_def by (rule filter_cong [OF refl]) (auto simp: visible_def owned_by_def)

lemma visible_target:
  assumes "visible source seg d"
  shows "segment_target source seg d = find_target seg d"
proof -
  have "find (\<lambda>t. tg_segment_id t = seg \<and> owned_by source (tg_source_id t)) ts = find (\<lambda>t. tg_segment_id t = seg) ts"
    if "set ts \<subseteq> set (d_targets d)" for ts
    using that assms by (induction ts) (auto simp: visible_def owned_by_def)
  then show ?thesis by (simp add: segment_target_def find_target_def)
qed

lemma adopt_group_queue:
  assumes "queue_ok d"
  shows "queue_ok (adopt_group source seg d)"
proof -
  let ?d = "update_targets (\<lambda>t. tg_segment_id t = seg \<and> tg_source_id t = None)
      (\<lambda>t. t\<lparr>tg_source_id := Some (src_id source)\<rparr>)
      (update_jobs (\<lambda>j. j_segment_id j = seg \<and> j_source_id j = None) (\<lambda>j. j\<lparr>j_source_id := Some (src_id source)\<rparr>) d)"
  have "lease_ok j" if "j \<in> set (d_jobs d)" for j by (rule base_lease [OF queue_okD(1) [OF assms] that])
  then have "queue_ok ?d"
    by (intro queue_update_targets queue_update_jobs_same assms) (simp_all add: keeps_row_def lease_ok_def)
  then show ?thesis
    by (subst queue_ok_cong [of _ ?d]) (simp_all add: adopt_group_def queue_simps)
qed

section \<open>Enqueue\<close>

lemma fresh_job_simps [simp]:
  "j_id (fresh_job d source seg fp r) = d_next_id d" "j_segment_id (fresh_job d source seg fp r) = seg"
  "j_status (fresh_job d source seg fp r) = Pending" "j_lease_id (fresh_job d source seg fp r) = None"
  "j_generation (fresh_job d source seg fp r) = 0" "j_source_id (fresh_job d source seg fp r) = Some (src_id source)"
  by (simp_all add: fresh_job_def)

lemma insert_job_queue:
  assumes "insert_job j d = Inr (i, d')" "queue_ok d" "j_id j = d_next_id d" "j_status j \<noteq> Running"
    "j_lease_id j = None" "bounded_row d j"
  shows "queue_ok d'"
  using assms by (auto simp: insert_job_def lease_ok_def split: if_splits intro!: queue_append_job)

lemma ignore_lower_version_queue:
  assumes "ignore_lower_version source seg fp request bjob d = Inr (j, d')" "queue_ok d"
  shows "queue_ok d'"
proof (cases bjob)
  case None
  with assms(1) obtain i d1 where i: "insert_job ((fresh_job d source seg fp request)
      \<lparr>j_status := Superseded, j_finished_at := Some (d_now d),
       j_error := Some (js ''snapshot was superseded'')\<rparr>) d = Inr (i, d1)" and "d' = d1"
    by (auto simp: ignore_lower_version_def dest: respond_InrD)
  with insert_job_queue [OF i assms(2)] show ?thesis by (simp add: bounded_row_def)
next
  case (Some b)
  with assms show ?thesis by (auto simp: ignore_lower_version_def dest: respond_InrD)
qed

lemma refresh_target_queue:
  assumes "refresh_target cr vfp source seg request jobs target d = Inr (j, d')" "queue_ok d"
  shows "queue_ok d'"
proof -
  have lease: "lease_ok j" if "j \<in> set (d_jobs d)" for j by (rule base_lease [OF queue_okD(1) [OF assms(2)] that])
  from assms(1) show ?thesis
    unfolding refresh_target_def Let_def
    by (drule_tac respond_InrD, elim conjE, hypsubst)
      (intro queue_update_jobs_same queue_update_targets assms(2),
       auto simp: keeps_row_def lease_ok_def queue_simps dest: lease [unfolded lease_ok_def])
qed

lemma settle_committed_queue:
  assumes "settle_committed source seg fp request current bjob d = Inr (j, d')" "queue_ok d"
    and none: "find_target seg d = None" and b: "\<And>b. bjob = Some b \<Longrightarrow> b \<in> set (d_jobs d) \<and> j_segment_id b = seg"
  shows "queue_ok d'"
proof -
  have free: "bounded_row d k" if "j_segment_id k = seg" for k
    using none that by (auto simp: bounded_row_def find_target_def find_None_iff)
  show ?thesis
  proof (cases bjob)
    case None
    with assms(1) obtain i d1 where i: "insert_job ((fresh_job d source seg fp request)
        \<lparr>j_status := Succeeded, j_generation := s_generation current, j_finished_at := Some (d_now d)\<rparr>) d
        = Inr (i, d1)" and "d' = d1"
      by (auto simp: settle_committed_def dest: respond_InrD)
    with insert_job_queue [OF i assms(2)] show ?thesis by (simp add: free)
  next
    case (Some bj)
    note bj = b [OF Some]
    let ?f = "\<lambda>j. j\<lparr>j_status := Succeeded, j_lease_id := None, j_payload := None,
            j_projection_version := rb_projection_version (rq_body request),
            j_generation := s_generation current, j_fingerprint := Some fp,
            j_priority := max (j_priority j) (rb_processing_priority (rq_body request)),
            j_error := None, j_started_at := None,
            j_finished_at := (case j_finished_at j of None \<Rightarrow> Some (d_now d) | x \<Rightarrow> x)\<rparr>"
    from assms(1) Some have d': "d' = update_jobs (\<lambda>j. j_id j = j_id bj \<and> j_status j \<noteq> Running) ?f d"
      by (auto simp: settle_committed_def dest: respond_InrD)
    show ?thesis
      unfolding d'
    proof (rule queue_update_jobs [OF assms(2)])
      fix k assume "k \<in> set (d_jobs d)" "j_id k = j_id bj \<and> j_status k \<noteq> Running"
      then have "k = bj" using same_id_same_job [OF queue_okD(1) [OF assms(2)]] bj by blast
      then show "keeps_row ?f k \<and> bounded_row d (?f k)"
        using bj by (simp add: keeps_row_def lease_ok_def free)
    qed
  qed
qed

lemma next_generation_gt:
  assumes "j \<in> set jobs"
  shows "j_generation j < next_generation current target jobs"
proof -
  have "foldl max a xs \<ge> a \<and> (\<forall>x\<in>set xs. x \<le> foldl max a xs)" for a :: nat and xs
  proof (induction xs arbitrary: a)
    case (Cons x xs)
    from Cons.IH [of "max a x"] show ?case by auto
  qed simp
  with assms show ?thesis by (simp add: next_generation_def less_Suc_eq_le)
qed

lemma upsert_job_facts:
  assumes up: "upsert_job new d = (r, d')" and base: "base_ok d"
    and new: "j_id new = d_next_id d" "j_status new = Pending" "j_lease_id new = None"
  shows "base_ok d'" "d_targets d' = d_targets d"
    and "\<And>i. r = Some i \<Longrightarrow> \<exists>j\<in>set (d_jobs d'). j_id j = i \<and> j_segment_id j = j_segment_id new"
    and "\<And>j. j \<in> set (d_jobs d) \<Longrightarrow> \<exists>k\<in>set (d_jobs d'). j_id k = j_id j \<and> j_segment_id k = j_segment_id j"
    and "\<And>j. j \<in> set (d_jobs d') \<Longrightarrow> j \<in> set (d_jobs d) \<or> j_segment_id j = j_segment_id new \<and> j_generation j = j_generation new"
proof -
  consider (fresh) "r = Some (j_id new)" "d' = append_job new d"
    | (update) c where "c \<in> set (d_jobs d)" "j_status c \<noteq> Running" "j_segment_id c = j_segment_id new"
        "r = Some (j_id c)" "d' = update_jobs (\<lambda>j. j_id j = j_id c) (\<lambda>j. new\<lparr>j_id := j_id j\<rparr>) d"
    | (blocked) "r = None" "d' = d"
  proof (cases "find (\<lambda>c. same_boundary_key c new) (d_jobs d)")
    case None
    with up have "r = Some (j_id new)" "d' = append_job new d" by (simp_all add: upsert_job_def)
    then show ?thesis by (rule fresh)
  next
    case (Some c)
    then have c: "c \<in> set (d_jobs d)" using find_SomeD by metis
    show ?thesis
    proof (cases "j_status c \<noteq> Running \<and> j_segment_id c = j_segment_id new")
      case True
      with up Some have "r = Some (j_id c)" "d' = update_jobs (\<lambda>j. j_id j = j_id c) (\<lambda>j. new\<lparr>j_id := j_id j\<rparr>) d"
        by (simp_all add: upsert_job_def)
      with c True show ?thesis by (intro update) simp_all
    next
      case False
      with up Some have "r = None" "d' = d" by (auto simp: upsert_job_def split: if_splits)
      then show ?thesis by (rule blocked)
    qed
  qed
  then have all: "base_ok d' \<and> d_targets d' = d_targets d
    \<and> (\<forall>i. r = Some i \<longrightarrow> (\<exists>j\<in>set (d_jobs d'). j_id j = i \<and> j_segment_id j = j_segment_id new))
    \<and> (\<forall>j\<in>set (d_jobs d). \<exists>k\<in>set (d_jobs d'). j_id k = j_id j \<and> j_segment_id k = j_segment_id j)
    \<and> (\<forall>j\<in>set (d_jobs d'). j \<in> set (d_jobs d) \<or> j_segment_id j = j_segment_id new \<and> j_generation j = j_generation new)"
  proof cases
    case fresh
    with base_append_job [OF base new(1)] new show ?thesis by (auto simp: append_job_simps lease_ok_def)
  next
    case update
    have row: "k = c" if "k \<in> set (d_jobs d)" "j_id k = j_id c" for k
      by (rule same_id_same_job [OF base that(1) update(1) that(2)])
    have "base_ok d'"
      unfolding update(5)
    proof (rule base_update_jobs [OF base])
      fix j assume "j \<in> set (d_jobs d)" "j_id j = j_id c"
      then have "j = c" by (rule row)
      then show "keeps_row (\<lambda>j. new\<lparr>j_id := j_id j\<rparr>) j"
        using update(3) new by (simp add: keeps_row_def lease_ok_def)
    qed
    have jobs: "d_jobs d' = map (\<lambda>j. if j_id j = j_id c then new\<lparr>j_id := j_id j\<rparr> else j) (d_jobs d)"
      by (simp add: update(5) queue_simps)
    have kept: "\<exists>k\<in>set (d_jobs d'). j_id k = j_id j \<and> j_segment_id k = j_segment_id j" if j: "j \<in> set (d_jobs d)" for j
    proof (cases "j_id j = j_id c")
      case True
      with row [OF j] update(3) have "j_segment_id j = j_segment_id new" by simp
      moreover from True j have "new\<lparr>j_id := j_id j\<rparr> \<in> set (d_jobs d')" unfolding jobs by force
      ultimately show ?thesis by (intro bexI [of _ "new\<lparr>j_id := j_id j\<rparr>"]) simp_all
    next
      case False
      with j have "j \<in> set (d_jobs d')" unfolding jobs by force
      then show ?thesis by blast
    qed
    have rows: "j \<in> set (d_jobs d) \<or> j_segment_id j = j_segment_id new \<and> j_generation j = j_generation new"
      if "j \<in> set (d_jobs d')" for j
    proof -
      from that obtain k where "k \<in> set (d_jobs d)" "j = (if j_id k = j_id c then new\<lparr>j_id := j_id k\<rparr> else k)"
        unfolding jobs set_map by blast
      then show ?thesis by (cases "j_id k = j_id c") simp_all
    qed
    have "d_targets d' = d_targets d" by (simp add: update(5) queue_simps)
    moreover have "\<exists>j\<in>set (d_jobs d'). j_id j = i \<and> j_segment_id j = j_segment_id new" if "r = Some i" for i
      using kept [OF update(1)] that update(3,4) by simp
    ultimately show ?thesis using \<open>base_ok d'\<close> kept rows by blast
  next
    case blocked
    with base show ?thesis by blast
  qed
  then show "base_ok d'" "d_targets d' = d_targets d"
    and "\<And>i. r = Some i \<Longrightarrow> \<exists>j\<in>set (d_jobs d'). j_id j = i \<and> j_segment_id j = j_segment_id new"
    and "\<And>j. j \<in> set (d_jobs d) \<Longrightarrow> \<exists>k\<in>set (d_jobs d'). j_id k = j_id j \<and> j_segment_id k = j_segment_id j"
    and "\<And>j. j \<in> set (d_jobs d') \<Longrightarrow> j \<in> set (d_jobs d) \<or> j_segment_id j = j_segment_id new \<and> j_generation j = j_generation new"
    by blast+
qed

lemma replace_target_queue:
  assumes base: "base_ok d" and job: "\<exists>j\<in>set (d_jobs d). j_id j = i \<and> j_segment_id j = seg"
    and others: "\<And>j t. j \<in> set (d_jobs d) \<Longrightarrow> j_segment_id j \<noteq> seg \<Longrightarrow> bounded_row d j"
    and own: "\<And>j. j \<in> set (d_jobs d) \<Longrightarrow> j_segment_id j = seg \<Longrightarrow> j_generation j \<le> g"
  shows "queue_ok (replace_target source seg fp request g i d)"
proof -
  let ?new = "\<lparr>tg_source_id = Some (src_id source), tg_segment_id = seg, tg_job_id = i,
            tg_boundary = request_boundary request,
            tg_projection_version = rb_projection_version (rq_body request),
            tg_payload = persistedRequest request, tg_generation = g,
            tg_fingerprint = Some fp, tg_staged = None,
            tg_priority = rb_processing_priority (rq_body request), tg_updated_at = d_now d\<rparr>"
  let ?d = "replace_target source seg fp request g i d"
  have jobs: "d_jobs ?d = d_jobs d" "d_next_id ?d = d_next_id d"
    by (simp_all add: replace_target_def Let_def queue_simps)
  have targets: "t \<in> set (d_targets ?d) \<Longrightarrow>
      (tg_segment_id t = seg \<and> tg_generation t = g) \<or> (tg_segment_id t \<noteq> seg \<and> t \<in> set (d_targets d))" for t
    by (auto simp: replace_target_def Let_def queue_simps split: if_splits)
  have "base_ok ?d"
  proof (cases "\<exists>t\<in>set (d_targets d). tg_segment_id t = seg")
    case True
    then have eq: "?d = update_targets (\<lambda>t. tg_segment_id t = seg) (\<lambda>t. ?new\<lparr>tg_source_id := tg_source_id t\<rparr>) d"
      by (simp add: replace_target_def)
    show ?thesis unfolding eq using job by (intro base_update_targets [OF base]) simp
  next
    case False
    then have eq: "d_targets ?d = d_targets d @ [?new]" by (simp add: replace_target_def)
    show ?thesis
    proof (rule base_okI; unfold jobs eq)
      show "distinct (map tg_segment_id (d_targets d @ [?new]))" using base_targets [OF base] False by auto
      show "\<forall>t\<in>set (d_targets d @ [?new]). \<exists>j\<in>set (d_jobs d). j_id j = tg_job_id t \<and> j_segment_id j = tg_segment_id t"
        using base_refs [OF base] job by simp
    qed (use base_ids [OF base] base_next [OF base] base_lease [OF base] base_running [OF base] in blast)+
  qed
  moreover have "gen_ok ?d"
    unfolding gen_ok_def jobs
  proof (intro ballI impI)
    fix t j assume t: "t \<in> set (d_targets ?d)" and j: "j \<in> set (d_jobs d)" "j_segment_id j = tg_segment_id t"
    from targets [OF t] show "j_generation j \<le> tg_generation t"
    proof
      assume "tg_segment_id t = seg \<and> tg_generation t = g"
      with own [OF j(1)] j(2) show ?thesis by simp
    next
      assume "tg_segment_id t \<noteq> seg \<and> t \<in> set (d_targets d)"
      with others [OF j(1)] j(2) show ?thesis by (simp add: bounded_row_def)
    qed
  qed
  ultimately show ?thesis by (simp add: queue_ok_def)
qed

lemma supersede_others_queue: "queue_ok d \<Longrightarrow> queue_ok (supersede_others i jobs d)"
  unfolding supersede_others_def
  by (rule queue_update_jobs_same) (simp_all add: keeps_row_def lease_ok_def)

lemma enqueue_new_queue:
  assumes run: "enqueue_new source seg fp request current target jobs d = Inr (j, d')" and ok: "queue_ok d"
    and jobs: "jobs = filter (\<lambda>j. j_segment_id j = seg) (d_jobs d)"
  shows "queue_ok d'"
proof -
  define g where "g = next_generation current target jobs"
  define new where "new = (fresh_job d source seg fp request)\<lparr>j_payload := Some (persistedRequest request), j_generation := g\<rparr>"
  obtain r d1 where up: "upsert_job new d = (r, d1)" by fastforce
  obtain i where i: "r = Some i \<or> r = None \<and> (\<exists>b. boundary_job request jobs = Some b \<and> i = j_id b)"
    and d': "d' = supersede_others i jobs (replace_target source seg fp request g i d1)"
    using run up unfolding enqueue_new_def g_def [symmetric] Let_def new_def
    by (auto split: option.splits dest: respond_InrD)
  have n: "j_id new = d_next_id d" "j_status new = Pending" "j_lease_id new = None" "j_segment_id new = seg"
    "j_generation new = g" by (simp_all add: new_def)
  note base = queue_okD(1) [OF ok]
  note facts = upsert_job_facts [OF up base n(1-3)]
  have "\<exists>k\<in>set (d_jobs d1). j_id k = i \<and> j_segment_id k = seg"
    using i
  proof
    assume "r = Some i"
    from facts(3) [OF this] n(4) show ?thesis by simp
  next
    assume "r = None \<and> (\<exists>b. boundary_job request jobs = Some b \<and> i = j_id b)"
    then obtain b where "boundary_job request jobs = Some b" "i = j_id b" by blast
    then have "b \<in> set (d_jobs d)" "j_segment_id b = seg"
      using find_SomeD unfolding boundary_job_def jobs by fastforce+
    with facts(4) [of b] \<open>i = j_id b\<close> show ?thesis by simp
  qed
  moreover have "bounded_row d1 k" if k: "k \<in> set (d_jobs d1)" "j_segment_id k \<noteq> seg" for k
  proof -
    from facts(5) [OF k(1)] k(2) n(4) have "k \<in> set (d_jobs d)" by auto
    from queue_bounded [OF ok this] show ?thesis by (simp add: bounded_row_def facts(2))
  qed
  moreover have "j_generation k \<le> g" if k: "k \<in> set (d_jobs d1)" "j_segment_id k = seg" for k
    using facts(5) [OF k(1)]
  proof
    assume "k \<in> set (d_jobs d)"
    with k(2) have "k \<in> set jobs" by (simp add: jobs)
    from next_generation_gt [OF this, of current target] show ?thesis by (simp add: g_def)
  next
    assume "j_segment_id k = j_segment_id new \<and> j_generation k = j_generation new"
    then show ?thesis by (simp add: n(5))
  qed
  ultimately have "queue_ok (replace_target source seg fp request g i d1)"
    by (intro replace_target_queue [OF facts(1)])
  then show ?thesis unfolding d' by (rule supersede_others_queue)
qed

text \<open>The four branches of \<open>enqueue\<close>.\<close>

lemma enqueue_segment_cases:
  assumes run: "enqueue_segment cr vfp source seg request d = Inr (j, d')"
  obtains (ignored) fp b where "ignore_lower_version source seg fp request b d = Inr (j, d')"
  | (refreshed) t where "refresh_target cr vfp source seg request (segment_jobs source seg d) t d = Inr (j, d')"
  | (new) fp c t where "enqueue_new source seg fp request c t (segment_jobs source seg d) d = Inr (j, d')"
  | (settled) fp c where "segment_target source seg d = None"
      "settle_committed source seg fp request c (boundary_job request (segment_jobs source seg d)) d = Inr (j, d')"
proof (cases "lower_version request (current_segment source seg d) (segment_target source seg d)
    (boundary_job request (segment_jobs source seg d))")
  case True
  with run ignored show ?thesis by (simp add: enqueue_segment_def Let_def)
next
  case high: False
  show ?thesis
  proof (cases "segment_target source seg d")
    case (Some t)
    show ?thesis
    proof (cases "targetMatchesRequest cr (Some t) request seg (ingestSourceFingerprint cr request) source")
      case True
      with run high Some refreshed show ?thesis by (simp add: enqueue_segment_def Let_def)
    next
      case False
      with run high Some new show ?thesis by (simp add: enqueue_segment_def Let_def)
    qed
  next
    case None
    show ?thesis
    proof (cases "current_segment source seg d")
      case cur: None
      with run high None new show ?thesis by (simp add: enqueue_segment_def Let_def)
    next
      case (Some c)
      show ?thesis
      proof (cases "already_committed cr (ingestSourceFingerprint cr request) request (Some c) None")
        case True
        with run high None Some settled [OF None] show ?thesis by (simp add: enqueue_segment_def Let_def)
      next
        case False
        with run high None Some new show ?thesis by (simp add: enqueue_segment_def Let_def)
      qed
    qed
  qed
qed

lemma enqueue_segment_queue:
  assumes run: "enqueue_segment cr vfp source seg request d = Inr (j, d')" and ok: "queue_ok d"
    and vis: "visible source seg d"
  shows "queue_ok d'"
proof -
  let ?jobs = "segment_jobs source seg d"
  have jobs: "?jobs = filter (\<lambda>j. j_segment_id j = seg) (d_jobs d)" by (rule visible_jobs [OF vis])
  have bj: "b \<in> set (d_jobs d) \<and> j_segment_id b = seg" if "boundary_job request ?jobs = Some b" for b
    using find_SomeD [OF that [unfolded boundary_job_def]] by (auto simp: jobs)
  from run show ?thesis
  proof (cases rule: enqueue_segment_cases)
    case (ignored fp b)
    then show ?thesis using ignore_lower_version_queue ok by blast
  next
    case (refreshed t)
    then show ?thesis using refresh_target_queue ok by blast
  next
    case (new fp c t)
    then show ?thesis using enqueue_new_queue [OF _ ok jobs] by blast
  next
    case (settled fp c)
    from settle_committed_queue [OF settled(2) ok _ bj] settled(1) visible_target [OF vis] show ?thesis by simp
  qed
qed

lemma adopt_InrD: "adopt source seg d = Inr d' \<Longrightarrow> d' = adopt_group source seg d"
  by (simp add: adopt_def Let_def split: if_splits)

lemma enqueue_InrE:
  assumes "enqueue cr vfp request0 d = Inr (j, d')"
  obtains request source seg s where "parseIngestSegmentCreate (request_json request0) = Inr request"
    "registeredSource d (rq_source_id request) = Inr source"
    "ingestSegmentIdForRequest cr request source = Inr seg"
    "validateSegmentOwnership cr d seg (Some source) = Inr s"
    "enqueue_segment cr vfp source seg request (adopt_group source seg d) = Inr (j, d')"
proof -
  from assms obtain request source seg s d1 where facts: "parseIngestSegmentCreate (request_json request0) = Inr request"
    "registeredSource d (rq_source_id request) = Inr source"
    "ingestSegmentIdForRequest cr request source = Inr seg"
    "validateSegmentOwnership cr d seg (Some source) = Inr s"
    and d1: "adopt source seg d = Inr d1" "enqueue_segment cr vfp source seg request d1 = Inr (j, d')"
    unfolding enqueue_def by (auto simp: db_lift_Inr split: if_splits)
  from d1 have "enqueue_segment cr vfp source seg request (adopt_group source seg d) = Inr (j, d')"
    using adopt_InrD by metis
  with facts show thesis by (rule that)
qed

theorem enqueue_queue: "enqueue cr vfp request d = Inr (j, d') \<Longrightarrow> queue_ok d \<Longrightarrow> queue_ok d'"
  by (erule enqueue_InrE) (blast intro: enqueue_segment_queue adopt_group_queue adopt_group_visible)

end
