(* ===== verification/QueueClaims.thy ===== *)
theory QueueClaims
  imports QueueSteps
begin

text \<open>
  The other transactions of the queue keep \<open>queue_ok\<close>: claiming, recovery, the operator's actions and
  the three ways a worker finishes its claim.
\<close>

section \<open>Claiming\<close>

lemma rows_same:
  "lease_ok (f j) \<Longrightarrow> j_id (f j) = j_id j \<Longrightarrow> j_segment_id (f j) = j_segment_id j \<Longrightarrow> j_status (f j) \<noteq> Running
   \<Longrightarrow> j_generation (f j) = j_generation j \<Longrightarrow> keeps_row f j \<and> j_generation (f j) = j_generation j"
  by (simp add: keeps_row_def)

lemma reject_pending_queue: "queue_ok d \<Longrightarrow> queue_ok (reject_pending err i d)"
  unfolding reject_pending_def
  by (rule queue_update_jobs_same) (simp_all add: keeps_row_def lease_ok_def)

lemma quarantine_queue: "queue_ok d \<Longrightarrow> queue_ok (quarantinePersistedGroup seg d)"
  unfolding quarantinePersistedGroup_def
  by (rule queue_update_jobs_same) (simp_all add: keeps_row_def lease_ok_def)

text \<open>Only a job of a segment in which nothing runs may be started.\<close>

lemma queue_start_job:
  assumes ok: "queue_ok d" and j: "j \<in> set (d_jobs d)"
    and idle: "\<And>r. r \<in> set (d_jobs d) \<Longrightarrow> j_segment_id r = j_segment_id j \<Longrightarrow> j_status r \<noteq> Running"
    and p: "\<And>k. p k \<Longrightarrow> j_id k = j_id j"
    and f: "\<And>k. j_id (f k) = j_id k" "\<And>k. j_segment_id (f k) = j_segment_id k" "\<And>k. lease_ok (f k)"
      "\<And>k. j_generation (f k) = j_generation k"
  shows "queue_ok (update_jobs p f d)"
proof -
  let ?f = "\<lambda>k. if p k then f k else k"
  note base = queue_okD(1) [OF ok]
  have keep: "j_id (?f k) = j_id k" "j_segment_id (?f k) = j_segment_id k" "j_generation (?f k) = j_generation k" for k
    using f by simp_all
  have same: "k = j" if "k \<in> set (d_jobs d)" "p k" for k
    by (rule same_id_same_job [OF base that(1) j p [OF that(2)]])
  have ids: "map j_id (map ?f (d_jobs d)) = map j_id (d_jobs d)"
    by (rule map_cond_ids) (rule f(1))
  have "base_ok (update_jobs p f d)"
  proof (rule base_okI; unfold update_jobs_simps)
    show "distinct (map j_id (map ?f (d_jobs d)))" unfolding ids by (rule base_ids [OF base])
    show "\<forall>j\<in>set (map ?f (d_jobs d)). j_id j < d_next_id d"
      by (rule ball_mapI) (use keep(1) base_next [OF base] in metis)
    show "\<forall>j\<in>set (map ?f (d_jobs d)). lease_ok j"
      by (rule ball_mapI) (use f(3) base_lease [OF base] in simp)
    fix a b assume "a \<in> set (map ?f (d_jobs d))" "b \<in> set (map ?f (d_jobs d))"
      and r: "j_status a = Running" "j_status b = Running" "j_segment_id a = j_segment_id b"
    then obtain a' b' where a: "a' \<in> set (d_jobs d)" "a = ?f a'" and b: "b' \<in> set (d_jobs d)" "b = ?f b'"
      unfolding set_map by blast
    from r(3) keep(2) have seg: "j_segment_id a' = j_segment_id b'" unfolding a(2) b(2) by metis
    have "j_id a' = j_id b'"
    proof (cases "p a'"; cases "p b'")
      assume "p a'" "p b'"
      then show ?thesis using p by metis
    next
      assume "p a'" "\<not> p b'"
      with same [OF a(1)] seg idle [OF b(1)] r(2) show ?thesis unfolding b(2) by simp
    next
      assume "\<not> p a'" "p b'"
      with same [OF b(1)] seg idle [OF a(1)] r(1) show ?thesis unfolding a(2) by simp
    next
      assume "\<not> p a'" "\<not> p b'"
      with base_running [OF base a(1) b(1)] seg r show ?thesis unfolding a(2) b(2) by simp
    qed
    with keep(1) show "j_id a = j_id b" unfolding a(2) b(2) by metis
  next
    show "distinct (map tg_segment_id (d_targets d))" by (rule base_targets [OF base])
    show "\<forall>t\<in>set (d_targets d). \<exists>k\<in>set (map ?f (d_jobs d)). j_id k = tg_job_id t \<and> j_segment_id k = tg_segment_id t"
      unfolding set_map using base_refs [OF base] keep(1,2) by (metis (no_types, lifting) image_eqI)
  qed
  moreover have "gen_ok (update_jobs p f d)"
    unfolding gen_ok_bounded update_jobs_simps
  proof (rule ball_mapI)
    fix k assume "k \<in> set (d_jobs d)"
    from queue_bounded [OF ok this] show "bounded_row (update_jobs p f d) (?f k)"
      using keep(2,3) [of k] unfolding bounded_row_def update_jobs_simps by (metis (lifting))
  qed
  ultimately show ?thesis by (simp add: queue_ok_def)
qed

lemma start_claim_queue:
  assumes "start_claim cr vfp lease source r j d = Inr (c, d')" "queue_ok d" "j \<in> set (d_jobs d)" "eligible d ex j"
  shows "queue_ok d'"
proof -
  from assms(1) have d': "d' = update_jobs (\<lambda>k. j_id k = j_id j \<and> j_status k = Pending)
      (\<lambda>k. k\<lparr>j_status := Running, j_attempts := j_attempts k + 1,
             j_lease_id := Some lease, j_started_at := Some (d_now d), j_finished_at := None,
             j_error := None\<rparr>) d"
    by (simp add: start_claim_def Let_def split: if_splits)
  show ?thesis unfolding d'
    by (rule queue_start_job [OF assms(2,3)]) (use assms(4) in \<open>auto simp: eligible_def lease_ok_def\<close>)
qed

lemma claim_pending_queue:
  assumes run: "claim_pending cr vfp lease source j d = Inr (c, d')"
    and ok: "queue_ok d" and j: "j \<in> set (d_jobs d)" "eligible d ex j"
  shows "queue_ok d'"
proof (cases "j_payload j")
  case None
  with run reject_pending_queue [OF ok] show ?thesis by (auto simp: claim_pending_def)
next
  case payload: (Some p)
  show ?thesis
  proof (cases "decodePersistedIngestSegment p (src_id source)")
    case (Inl e)
    with run payload reject_pending_queue [OF ok] show ?thesis by (auto simp: claim_pending_def)
  next
    case (Inr r)
    with run payload obtain b where "request_matches_job cr r source j = Inr b"
      "(if \<not> b then Inr (None, reject_pending
                   (js ''invalid persisted payload: source identity mismatch'') (j_id j) d)
                 else start_claim cr vfp lease source r j d) = Inr (c, d')"
      by (auto simp: claim_pending_def)
    then show ?thesis
      using start_claim_queue [OF _ ok j] reject_pending_queue [OF ok] by (cases b) auto
  qed
qed

lemma claim_candidateD: "claim_candidate d ex = Some j \<Longrightarrow> j \<in> set (d_jobs d) \<and> eligible d ex j"
  unfolding claim_candidate_def Let_def by (drule find_SomeD) simp

theorem claimOldestJob_queue:
  assumes run: "claimOldestJob cr vfp lease ex d = Inr (c, d')" and ok: "queue_ok d"
  shows "queue_ok d'"
proof (cases "claim_candidate d ex")
  case None
  with run ok show ?thesis by (auto simp: claimOldestJob_def)
next
  case (Some j)
  note j = claim_candidateD [OF Some]
  from run Some obtain source where source: "effectiveSource d (j_source_id j) = Inr source"
    by (auto simp: claimOldestJob_def)
  show ?thesis
  proof (cases "validateSegmentOwnership cr d (j_segment_id j) (Some source)")
    case (Inl e)
    with run Some source quarantine_queue [OF ok] show ?thesis
      by (cases e) (auto simp: claimOldestJob_def)
  next
    case (Inr s)
    show ?thesis
    proof (cases "find_job (j_id j) d")
      case None
      with run Some source Inr ok show ?thesis by (auto simp: claimOldestJob_def)
    next
      case (Some row)
      with run \<open>claim_candidate d ex = Some j\<close> source Inr
      have "d' = d \<or> claim_pending cr vfp lease source j d = Inr (c, d')"
        by (auto simp: claimOldestJob_def split: if_splits)
      with ok claim_pending_queue [OF _ ok] j show ?thesis by blast
    qed
  qed
qed

section \<open>Recovery\<close>

lemma recover_job_row:
  assumes ok: "queue_ok d" and j: "j \<in> set (d_jobs d)"
  shows "keeps_row (recover_job d) j \<and> bounded_row d (recover_job d j)"
proof -
  note bound = queue_bounded [OF ok j]
  have other: ?thesis if "recover_job d j = j\<lparr>j_payload := None, j_status := Superseded, j_lease_id := None,
      j_started_at := None, j_finished_at := Some (d_now d), j_next_attempt_at := d_now d,
      j_error := Some (js ''superseded while worker was stopped'')\<rparr>"
    unfolding keeps_row_def that using bound by (simp add: lease_ok_def bounded_row_def)
  show ?thesis
  proof (cases "find_target (j_segment_id j) d")
    case None
    then show ?thesis by (intro other) (simp add: recover_job_def)
  next
    case (Some t)
    show ?thesis
    proof (cases "tg_job_id t = j_id j")
      case True
      from find_targetD [OF Some] have t: "t \<in> set (d_targets d)" "tg_segment_id t = j_segment_id j" by auto
      note row = take_target_row [OF queue_okD(1) [OF ok] t]
      from Some True have eq: "recover_job d j = (take_target (d_now d) t (recovered_payload t) j)
            \<lparr>j_attempts := (if same_target_columns t j then j_attempts j else 0),
             j_error := Some (js ''worker stopped before completing the job'')\<rparr>"
        by (simp add: recover_job_def)
      show ?thesis
        using row [of "d_now d" "recovered_payload t"]
        unfolding eq keeps_row_def lease_ok_def bounded_row_def by simp
    next
      case False
      with Some show ?thesis by (intro other) (simp add: recover_job_def)
    qed
  qed
qed

lemma recover_segment_queue:
  assumes "recover_segment cr seg d = Inr (n, d')" "queue_ok d"
  shows "queue_ok d'"
proof (cases "validateSegmentOwnership cr d seg None")
  case (Inl e)
  with assms quarantine_queue show ?thesis by (cases e) (auto simp: recover_segment_def)
next
  case (Inr s)
  with assms have d': "d' = update_jobs (running_in seg) (recover_job d) d" by (simp add: recover_segment_def)
  show ?thesis unfolding d' by (rule queue_update_jobs [OF assms(2)]) (rule recover_job_row [OF assms(2)])
qed

lemma recover_segments_queue: "recover_segments cr segs n d = (r, d') \<Longrightarrow> queue_ok d \<Longrightarrow> queue_ok d'"
proof (induction segs arbitrary: n d)
  case (Cons seg segs)
  show ?case
  proof (cases "recover_segment cr seg d")
    case (Inl e)
    with Cons.prems show ?thesis by simp
  next
    case (Inr x)
    then obtain k d1 where x: "recover_segment cr seg d = Inr (k, d1)" by (cases x) simp
    with Cons.prems(1) have "recover_segments cr segs (n + k) d1 = (r, d')" by simp
    from Cons.IH [OF this recover_segment_queue [OF x Cons.prems(2)]] show ?thesis .
  qed
qed simp

theorem recoverRunningJobs_queue: "recoverRunningJobs cr d = (r, d') \<Longrightarrow> queue_ok d \<Longrightarrow> queue_ok d'"
  unfolding recoverRunningJobs_def by (rule recover_segments_queue)

section \<open>Operator actions\<close>

lemma lockCurrentFailedD:
  assumes "lockCurrentFailedTargetJob cr i source d = Inr (Some (job, t))"
  shows "job \<in> set (d_jobs d)" "j_id job = i" "j_status job = Failed" "t \<in> set (d_targets d)"
    "tg_segment_id t = j_segment_id job" "failedTargetMatchesJob cr (Some t) job source"
    "tg_job_id t = i"
proof -
  from assms have job: "find_job i d = Some job" and st: "j_status job = Failed"
    and m: "failedTargetMatchesJob cr (find_target (j_segment_id job) d) job source"
    and t: "t = the (find_target (j_segment_id job) d)"
    by (auto simp: lockCurrentFailedTargetJob_def Let_def split: option.splits if_splits)
  from m obtain t' where t': "find_target (j_segment_id job) d = Some t'"
    by (auto simp: failedTargetMatchesJob_def split: option.splits)
  with t have "t' = t" by simp
  with t' m find_targetD [OF t'] show "t \<in> set (d_targets d)" "tg_segment_id t = j_segment_id job"
    "failedTargetMatchesJob cr (Some t) job source" by simp_all
  then show "tg_job_id t = i" using find_jobD [OF job] by (simp add: failedTargetMatchesJob_def)
  from find_jobD [OF job] st show "job \<in> set (d_jobs d)" "j_id job = i" "j_status job = Failed" by simp_all
qed

text \<open>Requeueing the rows of a segment on the segment's target.\<close>

lemma take_target_queue:
  assumes ok: "queue_ok d" and t: "t \<in> set (d_targets d)"
    and p: "\<And>j. j \<in> set (d_jobs d) \<Longrightarrow> p j \<Longrightarrow> j_segment_id j = tg_segment_id t"
  shows "queue_ok (update_jobs p (take_target w t payload) d)"
proof (rule queue_update_jobs [OF ok])
  fix j assume "j \<in> set (d_jobs d)" "p j"
  with p have "tg_segment_id t = j_segment_id j" by simp
  from take_target_row [OF queue_okD(1) [OF ok] t this]
  show "keeps_row (take_target w t payload) j \<and> bounded_row d (take_target w t payload j)" by blast
qed

lemma take_target_cong:
  "tg_boundary t = tg_boundary t' \<Longrightarrow> tg_projection_version t = tg_projection_version t'
   \<Longrightarrow> tg_generation t = tg_generation t' \<Longrightarrow> tg_fingerprint t = tg_fingerprint t'
   \<Longrightarrow> tg_priority t = tg_priority t' \<Longrightarrow> take_target w t p = take_target w t' p"
  by (intro ext) (simp add: take_target_def)

lemma clear_staged_queue: "queue_ok d \<Longrightarrow> queue_ok (update_targets p (\<lambda>t. t\<lparr>tg_staged := s t\<rparr>) d)"
  by (rule queue_update_targets) simp_all

definition failed_row :: "nat \<Rightarrow> job_row \<Rightarrow> bool" where
  "failed_row i j \<longleftrightarrow> j_id j = i \<and> j_status j = Failed \<and> j_lease_id j = None"

lemma retryFailedJob_cases:
  assumes run: "retryFailedJob cr sid i restart d = Inr (r, d')"
  obtains (missing) "r = None" "d' = d"
  | (retried) source job t payload row d1 where
      "lockCurrentFailedTargetJob cr i source d = Inr (Some (job, t))" "r = Some row"
      "d1 = (if restart then update_targets (\<lambda>t. tg_segment_id t = j_segment_id job \<and> tg_job_id t = j_id job)
         (\<lambda>t. t\<lparr>tg_staged := None\<rparr>) d else d)"
      "d' = update_jobs (failed_row i) (take_target (d_now d1) t payload) d1" "row \<in> set (d_jobs d')" "j_id row = i"
proof -
  from run obtain source where source: "registeredSource d sid = Inr source" by (auto simp: retryFailedJob_def)
  from run source obtain context0 where context0: "lockCurrentFailedTargetJob cr i source d = Inr context0"
    by (auto simp: retryFailedJob_def)
  show thesis
  proof (cases context0)
    case None
    with run source context0 missing show ?thesis by (simp add: retryFailedJob_def)
  next
    case (Some jt)
    then obtain job t where jt: "context0 = Some (job, t)" by (cases jt) simp
    define d1 where "d1 = (if restart then update_targets
        (\<lambda>t. tg_segment_id t = j_segment_id job \<and> tg_job_id t = j_id job) (\<lambda>t. t\<lparr>tg_staged := None\<rparr>) d else d)"
    from run source context0 jt obtain payload row where
      "respond ''retried job disappeared'' i source (update_jobs (failed_row i) (take_target (d_now d1) t payload) d1)
         = Inr (row, d')" "r = Some row"
      unfolding failed_row_def by (auto simp: retryFailedJob_def Let_def d1_def split: if_splits)
    with retried [OF context0 [unfolded jt] _ d1_def] show ?thesis using respond_InrD by metis
  qed
qed

theorem retryFailedJob_queue:
  assumes run: "retryFailedJob cr sid i restart d = Inr (r, d')" and ok: "queue_ok d"
  shows "queue_ok d'"
  using run
proof (cases rule: retryFailedJob_cases)
  case missing
  with ok show ?thesis by simp
next
  case (retried source job t payload row d1)
  note c = lockCurrentFailedD [OF retried(1)]
  let ?q = "\<lambda>t. restart \<and> tg_segment_id t = j_segment_id job \<and> tg_job_id t = j_id job"
  have ok1: "queue_ok d1" unfolding retried(3) using ok by (cases restart) (simp_all add: clear_staged_queue)
  have jobs: "d_jobs d1 = d_jobs d" by (simp add: retried(3) queue_simps)
  obtain t1 where t1: "t1 \<in> set (d_targets d1)" "tg_segment_id t1 = tg_segment_id t"
    "take_target (d_now d1) t payload = take_target (d_now d1) t1 payload"
  proof (cases "?q t")
    case True
    show ?thesis
    proof (rule that [of "t\<lparr>tg_staged := None\<rparr>"])
      show "t\<lparr>tg_staged := None\<rparr> \<in> set (d_targets d1)"
        using True c(4) by (force simp: retried(3) queue_simps)
      show "take_target (d_now d1) t payload = take_target (d_now d1) (t\<lparr>tg_staged := None\<rparr>) payload"
        by (rule take_target_cong) simp_all
    qed simp
  next
    case False
    with c(4) have "t \<in> set (d_targets d1)" by (force simp: retried(3) queue_simps)
    with that show ?thesis by blast
  qed
  show ?thesis
    unfolding retried(4) t1(3)
  proof (rule take_target_queue [OF ok1 t1(1)])
    fix j assume "j \<in> set (d_jobs d1)" "failed_row i j"
    then have "j = job" using same_id_same_job [OF queue_okD(1) [OF ok]] c(1,2) jobs failed_row_def by metis
    with c(5) t1(2) show "j_segment_id j = tg_segment_id t1" by simp
  qed
qed

definition dismissed_row :: "db \<Rightarrow> job_row \<Rightarrow> job_row" where
  "dismissed_row d j = j\<lparr>j_payload := None, j_status := Superseded,
     j_error := Some (js ''snapshot was superseded''), j_lease_id := None,
     j_started_at := None, j_finished_at := Some (d_now d)\<rparr>"

lemma supersedeFailedJob_cases:
  assumes run: "supersedeFailedJob cr sid i d = Inr (r, d')"
  obtains (missing) "r = None" "d' = d"
  | (dismissed) source job t row where
      "lockCurrentFailedTargetJob cr i source d = Inr (Some (job, t))" "r = Some row"
      "d' = delete_targets (\<lambda>t. tg_segment_id t = j_segment_id job \<and> tg_job_id t = j_id job)
         (update_jobs (failed_row i) (dismissed_row d) d)"
proof -
  from run obtain source where source: "registeredSource d sid = Inr source" by (auto simp: supersedeFailedJob_def)
  from run source obtain context0 where context0: "lockCurrentFailedTargetJob cr i source d = Inr context0"
    by (auto simp: supersedeFailedJob_def)
  show thesis
  proof (cases context0)
    case None
    with run source context0 missing show ?thesis by (simp add: supersedeFailedJob_def)
  next
    case (Some jt)
    then obtain job t where jt: "context0 = Some (job, t)" by (cases jt) simp
    from run source context0 jt obtain row where
      "respond ''superseded job disappeared'' i source
         (delete_targets (\<lambda>t. tg_segment_id t = j_segment_id job \<and> tg_job_id t = j_id job)
         (update_jobs (failed_row i) (dismissed_row d) d)) = Inr (row, d')" "r = Some row"
      unfolding failed_row_def dismissed_row_def by (auto simp: supersedeFailedJob_def Let_def split: if_splits)
    then show ?thesis by (intro dismissed [OF context0 [unfolded jt]]) (simp_all add: respond_InrD)
  qed
qed

theorem supersedeFailedJob_queue:
  assumes run: "supersedeFailedJob cr sid i d = Inr (r, d')" and ok: "queue_ok d"
  shows "queue_ok d'"
  using run
proof (cases rule: supersedeFailedJob_cases)
  case missing
  with ok show ?thesis by simp
next
  case (dismissed source job t row)
  show ?thesis unfolding dismissed(3)
    by (intro queue_delete_targets queue_update_jobs_same ok) (simp_all add: dismissed_row_def keeps_row_def lease_ok_def)
qed

end
