(* ===== verification/QueueFinish.thy ===== *)
theory QueueFinish
  imports QueueClaims
begin

text \<open>
  Finishing a claim keeps \<open>queue_ok\<close>, and the fences do what they are for: without the lease no
  transaction changes a row, and a commit that reports success has committed the staged extraction
  of the segment's latest target.
\<close>

section \<open>Requeueing\<close>

lemma supersede_claim_eq:
  "supersede_claim job d = Inr d' \<Longrightarrow> d' = update_jobs (holds_lease job) (supersede_row d) d \<and> lease_count job d = 1"
  by (simp add: supersede_claim_def split: if_splits)

lemma supersede_claim_queue:
  assumes "supersede_claim job d = Inr d'" "queue_ok d"
  shows "queue_ok d'"
  unfolding conjunct1 [OF supersede_claim_eq [OF assms(1)]]
  by (rule queue_update_jobs_same [OF assms(2)]) (simp_all add: supersede_row_def keeps_row_def lease_ok_def)

lemma target_job_segment:
  assumes ok: "queue_ok d" and t: "t \<in> set (d_targets d)" and j: "j \<in> set (d_jobs d)" "j_id j = tg_job_id t"
  shows "j_segment_id j = tg_segment_id t"
proof -
  from base_refs [OF queue_okD(1) [OF ok] t] obtain k where k: "k \<in> set (d_jobs d)" "j_id k = tg_job_id t"
    "j_segment_id k = tg_segment_id t" by blast
  from same_id_same_job [OF queue_okD(1) [OF ok] j(1) k(1)] j(2) k show ?thesis by simp
qed

lemma requeueLatestTarget_queue:
  assumes run: "requeueLatestTarget job (find_target seg d) d = Inr d'" and ok: "queue_ok d"
  shows "queue_ok d'"
proof (cases "find_target seg d")
  case None
  with run supersede_claim_queue [OF _ ok] show ?thesis by (simp add: requeueLatestTarget_def)
next
  case (Some t)
  from find_targetD [OF Some] have t: "t \<in> set (d_targets d)" by simp
  show ?thesis
  proof (cases "tg_job_id t = cj_id job")
    case True
    with run Some obtain payload where d': "d' = update_jobs (holds_lease job) (take_target (d_now d) t payload) d"
      by (auto simp: requeueLatestTarget_def split: if_splits)
    show ?thesis unfolding d'
      by (rule take_target_queue [OF ok t]) (use True in \<open>auto simp: holds_lease_def intro: target_job_segment [OF ok t]\<close>)
  next
    case False
    with run Some obtain payload d1 where d1: "supersede_claim job d = Inr d1"
      and d': "d' = update_jobs (\<lambda>j. j_id j = tg_job_id t \<and> j_status j \<noteq> Running) (take_target (d_now d) t payload) d1"
      by (auto simp: requeueLatestTarget_def)
    note ok1 = supersede_claim_queue [OF d1 ok]
    from supersede_claim_eq [OF d1] t have t1: "t \<in> set (d_targets d1)" by (simp add: queue_simps)
    show ?thesis unfolding d'
      by (rule take_target_queue [OF ok1 t1]) (auto intro: target_job_segment [OF ok1 t1])
  qed
qed

section \<open>Failed attempts and publishing\<close>

text \<open>A transaction answers a stale claim with false and changes nothing.\<close>

definition stale_claim :: "claimed_job \<Rightarrow> db \<Rightarrow> bool" where
  "stale_claim job d \<longleftrightarrow> (case current_claim job d of None \<Rightarrow> True | Some j \<Rightarrow> \<not> persistedJobMatchesClaim j job)"

lemma finishFailedAttempt_cases:
  assumes run: "finishFailedAttempt cr job err retry d = Inr (b, d')"
  obtains (stale) "b = False" "d' = d" "stale_claim job d"
  | (requeued) source where "validateClaim cr job d = Inr source"
      "\<not> targetMatchesJob cr (find_target (cj_segmentId job) d) job source" "b"
      "requeueLatestTarget job (find_target (cj_segmentId job) d) d = Inr d'"
  | (updated) source where "validateClaim cr job d = Inr source"
      "targetMatchesJob cr (find_target (cj_segmentId job) d) job source"
      "b = (lease_count job d = 1)"
      "d' = (let d1 = update_jobs (holds_lease job) (attempt_row err retry d) d
             in if b \<and> retry = None then delete_targets (redundant_target cr d1 (cj_segmentId job)) d1 else d1)"
proof -
  from run obtain source where source: "validateClaim cr job d = Inr source"
    by (auto simp: finishFailedAttempt_def)
  show thesis
  proof (cases "current_claim job d")
    case None
    with run source stale show ?thesis by (simp add: finishFailedAttempt_def stale_claim_def)
  next
    case (Some current)
    show ?thesis
    proof (cases "persistedJobMatchesClaim current job")
      case False
      with run source Some stale show ?thesis by (simp add: finishFailedAttempt_def stale_claim_def)
    next
      case persisted: True
      show ?thesis
      proof (cases "targetMatchesJob cr (find_target (cj_segmentId job) d) job source")
        case True
        with run source Some persisted have "b = (lease_count job d = 1)"
          "d' = (let d1 = update_jobs (holds_lease job) (attempt_row err retry d) d
             in if b \<and> retry = None then delete_targets (redundant_target cr d1 (cj_segmentId job)) d1 else d1)"
          by (auto simp: finishFailedAttempt_def Let_def)
        with updated [OF source True] show ?thesis by blast
      next
        case False
        with run source Some persisted requeued [OF source] show ?thesis
          by (auto simp: finishFailedAttempt_def Let_def)
      qed
    qed
  qed
qed

theorem finishFailedAttempt_queue:
  assumes run: "finishFailedAttempt cr job err retry d = Inr (b, d')" and ok: "queue_ok d"
  shows "queue_ok d'"
  using run
proof (cases rule: finishFailedAttempt_cases)
  case stale
  with ok show ?thesis by simp
next
  case requeued
  from requeueLatestTarget_queue [OF requeued(4) ok] show ?thesis .
next
  case updated
  have "queue_ok (update_jobs (holds_lease job) (attempt_row err retry d) d)"
    by (rule queue_update_jobs_same [OF ok]) (simp_all add: attempt_row_def keeps_row_def lease_ok_def)
  then show ?thesis unfolding updated(4) Let_def by (split if_split) (blast intro: queue_delete_targets)
qed

lemma publishExtraction_cases:
  assumes run: "publishExtraction cr vfp job value0 d = Inr (b, d')"
  obtains (stale) "b = False" "d' = d" "stale_claim job d"
  | (requeued) "b = False" "requeueLatestTarget job (find_target (cj_segmentId job) d) d = Inr d'"
  | (published) source result where "b" "validateClaim cr job d = Inr source"
      "extractionResultForPersistence value0 = Inr result" "current_claim job d \<noteq> None"
      "targetMatchesJob cr (find_target (cj_segmentId job) d) job source"
      "d' = update_targets (claim_target job) (\<lambda>t. t\<lparr>tg_staged := Some
             \<lparr>st_result = result, st_validation_version = EXTRACTION_VALIDATION_VERSION,
              st_validation_fingerprint = vfp result EXTRACTION_VALIDATION_VERSION (tg_fingerprint t),
              st_summary_fingerprint = ingestProjectionFingerprintForBoundary cr (cj_segmentId job)
                (request_boundary (cj_request job)) (ex_summary result)
                (rb_projection_version (rq_body (cj_request job)))\<rparr>\<rparr>) d"
proof -
  from run obtain result source where result: "extractionResultForPersistence value0 = Inr result"
    and source: "validateClaim cr job d = Inr source"
    by (auto simp: publishExtraction_def Let_def)
  show thesis
  proof (cases "current_claim job d")
    case None
    with run result source stale show ?thesis by (simp add: publishExtraction_def Let_def stale_claim_def)
  next
    case (Some current)
    show ?thesis
    proof (cases "persistedJobMatchesClaim current job")
      case False
      with run result source Some stale show ?thesis by (simp add: publishExtraction_def Let_def stale_claim_def)
    next
      case persisted: True
      show ?thesis
      proof (cases "targetMatchesJob cr (find_target (cj_segmentId job) d) job source")
        case True
        with run result source Some persisted published [OF _ source result] show ?thesis
          by (simp add: publishExtraction_def Let_def split: if_splits)
      next
        case False
        with run result source Some persisted requeued show ?thesis
          by (auto simp: publishExtraction_def Let_def)
      qed
    qed
  qed
qed

theorem publishExtraction_queue:
  assumes run: "publishExtraction cr vfp job value0 d = Inr (b, d')" and ok: "queue_ok d"
  shows "queue_ok d'"
  using run
proof (cases rule: publishExtraction_cases)
  case stale
  with ok show ?thesis by simp
next
  case requeued
  from requeueLatestTarget_queue [OF requeued(2) ok] show ?thesis .
next
  case published
  show ?thesis unfolding published(6) by (rule queue_update_targets [OF ok]) simp_all
qed

section \<open>Committing\<close>

text \<open>Entity rows and segment rows are not part of the queue.\<close>

lemma put_entities_frame:
  "put_entities cf es d = Inr d' \<Longrightarrow> d_jobs d' = d_jobs d \<and> d_targets d' = d_targets d \<and> d_next_id d' = d_next_id d
     \<and> d_segments d' = d_segments d \<and> d_sources d' = d_sources d \<and> d_now d' = d_now d"
  by (auto simp: put_entities_def Let_def split: if_splits)

lemma put_segment_frame:
  "put_segment job p fp d = Inr d' \<Longrightarrow> d_jobs d' = d_jobs d \<and> d_targets d' = d_targets d \<and> d_next_id d' = d_next_id d
     \<and> d_entities d' = d_entities d \<and> d_aliases d' = d_aliases d \<and> d_sources d' = d_sources d \<and> d_now d' = d_now d"
  by (auto simp: put_segment_def Let_def split: if_splits)

lemma drop_orphans_frame:
  "d_jobs (drop_orphans is d) = d_jobs d" "d_targets (drop_orphans is d) = d_targets d"
  "d_next_id (drop_orphans is d) = d_next_id d" "d_segments (drop_orphans is d) = d_segments d"
  by (simp_all add: drop_orphans_def Let_def)

lemma succeed_rows_queue: "queue_ok d \<Longrightarrow> queue_ok (succeed_rows p d)"
  unfolding succeed_rows_def
  by (rule queue_update_jobs_same) (simp_all add: keeps_row_def lease_ok_def)

lemma commit_staged_cases:
  assumes run: "commit_staged cf vfp job result p fp d = Inr (b, d')"
  obtains (older) s where "b" "find_segment (pp_id p) d = Some s" "s_projection_version s > pp_projection_version p"
      "lease_count job d = 1"
      "d' = delete_targets (committed_target vfp job result fp) (succeed_rows (holds_lease job) d)"
  | (written) d1 d2 where "b" "put_entities cf (pp_entities p) d = Inr d1" "put_segment job p fp d1 = Inr d2"
      "length (filter (claimed_row job) (d_jobs d)) = 1"
      "length (filter (committed_target vfp job result fp) (d_targets d)) = 1"
      "d' = delete_targets (committed_target vfp job result fp)
         (succeed_rows (claimed_row job) (drop_orphans (segment_entity_ids (pp_id p) d) d2))"
proof (cases "case find_segment (pp_id p) d of None \<Rightarrow> False | Some s \<Rightarrow> s_projection_version s > pp_projection_version p")
  case True
  then obtain s where "find_segment (pp_id p) d = Some s" "s_projection_version s > pp_projection_version p"
    by (auto split: option.splits)
  with run older show ?thesis by (simp add: commit_staged_def Let_def split: if_splits)
next
  case False
  with run obtain d1 d2 where w: "put_entities cf (pp_entities p) d = Inr d1" "put_segment job p fp d1 = Inr d2"
    and rest: "(let d3 = drop_orphans (segment_entity_ids (pp_id p) d) d2 in
           if length (filter (claimed_row job) (d_jobs d3)) \<noteq> 1
           then Inl (DbError ''job lease changed before resolution committed'')
           else if length (filter (committed_target vfp job result fp) (d_targets d3)) \<noteq> 1
           then Inl (DbError ''latest target changed before resolution committed'')
           else Inr (True, delete_targets (committed_target vfp job result fp) (succeed_rows (claimed_row job) d3)))
         = Inr (b, d')"
    unfolding commit_staged_def Let_def by auto
  from put_entities_frame [OF w(1)] put_segment_frame [OF w(2)] have "d_jobs d2 = d_jobs d" "d_targets d2 = d_targets d"
    by simp_all
  with rest written [OF _ w] show ?thesis
    by (simp add: Let_def drop_orphans_frame split: if_splits)
qed

lemma commit_staged_queue:
  assumes run: "commit_staged cf vfp job result p fp d = Inr (b, d')" and ok: "queue_ok d"
  shows "queue_ok d'"
  using run
proof (cases rule: commit_staged_cases)
  case older
  with ok show ?thesis by (simp add: queue_delete_targets succeed_rows_queue)
next
  case (written d1 d2)
  have "queue_ok (drop_orphans (segment_entity_ids (pp_id p) d) d2)"
    using ok put_entities_frame [OF written(2)] put_segment_frame [OF written(3)]
    by (subst queue_ok_cong [of _ d]) (simp_all add: drop_orphans_frame)
  then show ?thesis unfolding written(6) by (intro queue_delete_targets succeed_rows_queue)
qed

lemma commitResolution_cases:
  assumes run: "commitResolution cr cf vfp job value0 p d = Inr (b, d')"
  obtains (stale) "\<not> b" "d' = d" "stale_claim job d"
  | (requeued) "\<not> b" "requeueLatestTarget job (find_target (cj_segmentId job) d) d = Inr d'"
  | (committed) source current t st fp where "validateClaim cr job d = Inr source"
      "current_claim job d = Some current"
      "find_target (cj_segmentId job) d = Some t" "targetMatchesJob cr (Some t) job source"
      "tg_staged t = Some st" "staged_eligible cr vfp d t"
      "extractionResultForPersistence value0 = Inr (st_result st)" "prepared_matches_claim p job (st_result st)"
      "fp = ingestProjectionFingerprintForBoundary cr (pp_id p) (pp_boundary p)
            (ex_summary (st_result st)) (pp_projection_version p)" "st_summary_fingerprint st = fp"
      "commit_staged cf vfp job (st_result st) p fp d = Inr (b, d')"
proof -
  from run obtain result where result: "extractionResultForPersistence value0 = Inr result"
    and match: "prepared_matches_claim p job result"
    by (auto simp: commitResolution_def split: if_splits)
  define fp where "fp = ingestProjectionFingerprintForBoundary cr (pp_id p) (pp_boundary p)
            (ex_summary result) (pp_projection_version p)"
  from run result match obtain source where source: "validateClaim cr job d = Inr source"
    by (auto simp: commitResolution_def Let_def)
  from run result match source obtain current where current: "current_claim job d = Some current"
    by (auto simp: commitResolution_def Let_def split: option.splits)
  show thesis
  proof (cases "persistedJobMatchesClaim current job")
    case False
    with run result match source current stale show ?thesis by (simp add: commitResolution_def Let_def stale_claim_def)
  next
    case persisted: True
    show ?thesis
    proof (cases "targetMatchesJob cr (find_target (cj_segmentId job) d) job source")
      case False
      with run result match source current persisted requeued show ?thesis
        by (auto simp: commitResolution_def Let_def)
    next
      case True
      then obtain t where t: "find_target (cj_segmentId job) d = Some t"
        by (auto simp: targetMatchesJob_def split: option.splits)
      from run result match source current persisted True t obtain st where st: "tg_staged t = Some st"
        by (auto simp: commitResolution_def Let_def split: option.splits)
      from run result match source current persisted True t st
      have "staged_eligible cr vfp d t" "st_summary_fingerprint st = fp" "st_result st = result"
        "commit_staged cf vfp job result p fp d = Inr (b, d')"
        unfolding commitResolution_def fp_def by (simp_all add: Let_def split: if_splits)
      with committed [OF source current t True [unfolded t] st, of fp] result match show ?thesis by (simp add: fp_def)
    qed
  qed
qed

theorem commitResolution_queue:
  assumes run: "commitResolution cr cf vfp job value0 p d = Inr (b, d')" and ok: "queue_ok d"
  shows "queue_ok d'"
  using run
proof (cases rule: commitResolution_cases)
  case stale
  with ok show ?thesis by simp
next
  case requeued
  from requeueLatestTarget_queue [OF requeued(2) ok] show ?thesis .
next
  case (committed source current t st fp)
  from commit_staged_queue [OF committed(11) ok] show ?thesis .
qed

end
