(* ===== verification/QueueRuns.thy ===== *)
theory QueueRuns
  imports QueueFinish
begin

text \<open>
  Runs of the job queue: any interleaving of the transactions, as a step relation over the tables.
  A failed transaction rolls back and is no step. The clock only moves forward.
\<close>

section \<open>Transactions and runs\<close>

datatype transaction =
  EnqueueTx ingest_request
| ClaimTx jsstr "(jsstr \<times> jsstr) list"
| RecoverTx
| RetryTx jsstr nat bool
| SupersedeTx jsstr nat
| FailTx claimed_job jsstr "nat option"
| PublishTx claimed_job extraction
| CommitTx claimed_job extraction prepared_segment
| TickTx nat

inductive queue_step ::
  "crypto \<Rightarrow> (jsstr \<Rightarrow> jsstr) \<Rightarrow> (extraction \<Rightarrow> nat \<Rightarrow> jsstr option \<Rightarrow> jsstr) \<Rightarrow> db \<Rightarrow> transaction \<Rightarrow> db \<Rightarrow> bool"
  for cr cf vfp where
  step_enqueue: "enqueue cr vfp request d = Inr (j, d') \<Longrightarrow> queue_step cr cf vfp d (EnqueueTx request) d'"
| step_claim: "claimOldestJob cr vfp lease excluded d = Inr (c, d') \<Longrightarrow> queue_step cr cf vfp d (ClaimTx lease excluded) d'"
| step_recover: "recoverRunningJobs cr d = (r, d') \<Longrightarrow> queue_step cr cf vfp d RecoverTx d'"
| step_retry: "retryFailedJob cr src i restart d = Inr (row, d') \<Longrightarrow> queue_step cr cf vfp d (RetryTx src i restart) d'"
| step_supersede: "supersedeFailedJob cr src i d = Inr (row, d') \<Longrightarrow> queue_step cr cf vfp d (SupersedeTx src i) d'"
| step_fail: "finishFailedAttempt cr job err retry d = Inr (b, d') \<Longrightarrow> queue_step cr cf vfp d (FailTx job err retry) d'"
| step_publish: "publishExtraction cr vfp job ex d = Inr (b, d') \<Longrightarrow> queue_step cr cf vfp d (PublishTx job ex) d'"
| step_commit: "commitResolution cr cf vfp job ex p d = Inr (b, d') \<Longrightarrow> queue_step cr cf vfp d (CommitTx job ex p) d'"
| step_tick: "queue_step cr cf vfp d (TickTx n) (d\<lparr>d_now := d_now d + n\<rparr>)"

inductive_cases queue_step_claimE: "queue_step cr cf vfp d (ClaimTx lease excluded) d'"
inductive_cases queue_step_commitE: "queue_step cr cf vfp d (CommitTx job ex p) d'"
inductive_simps queue_step_enqueue: "queue_step cr cf vfp d (EnqueueTx request) d'"

inductive runs :: "('s \<Rightarrow> 'e \<Rightarrow> 's \<Rightarrow> bool) \<Rightarrow> 's \<Rightarrow> 'e list \<Rightarrow> 's \<Rightarrow> bool" for step where
  runs_nil: "runs step d [] d"
| runs_cons: "step d e d1 \<Longrightarrow> runs step d1 es d2 \<Longrightarrow> runs step d (e # es) d2"

text \<open>What one step keeps, a run keeps. A measure against a fixed event is handled by \<open>allowed\<close>.\<close>

locale transaction_system =
  fixes step :: "'s \<Rightarrow> 'e \<Rightarrow> 's \<Rightarrow> bool" and allowed :: "'e \<Rightarrow> bool" and inv :: "'s \<Rightarrow> bool"
  assumes step_inv: "step d e d' \<Longrightarrow> allowed e \<Longrightarrow> inv d \<Longrightarrow> inv d'"
begin

lemma runs_inv: "runs step d es d' \<Longrightarrow> list_all allowed es \<Longrightarrow> inv d \<Longrightarrow> inv d'"
  by (induction rule: runs.induct) (auto intro: step_inv)

end

text \<open>The tables of a new installation: registered sources and nothing else.\<close>

definition empty_db :: "source_info list \<Rightarrow> nat \<Rightarrow> db" where
  "empty_db sources now = \<lparr>d_sources = sources, d_jobs = [], d_targets = [], d_segments = [],
     d_entities = [], d_aliases = [], d_next_id = 0, d_now = now\<rparr>"

lemma queue_step_queue: "queue_step cr cf vfp d e d' \<Longrightarrow> queue_ok d \<Longrightarrow> queue_ok d'"
proof (induction rule: queue_step.induct)
  case (step_tick d n)
  then show ?case by (subst queue_ok_cong [of _ d]) simp_all
qed (blast intro: enqueue_queue claimOldestJob_queue recoverRunningJobs_queue retryFailedJob_queue
    supersedeFailedJob_queue finishFailedAttempt_queue publishExtraction_queue commitResolution_queue)+

interpretation queue: transaction_system "queue_step cr cf vfp" "\<lambda>_. True" queue_ok
  by unfold_locales (rule queue_step_queue)

lemma empty_queue: "queue_ok (empty_db sources now)"
  by (simp add: queue_ok_def base_ok_def gen_ok_def empty_db_def)

lemma reachable_queue:
  assumes "runs (queue_step cr cf vfp) (empty_db sources now) es d"
  shows "queue_ok d"
  by (rule queue.runs_inv [OF assms _ empty_queue]) (simp add: list_all_iff)

end
