(* ===== verification/QueueLeases.thy ===== *)
theory QueueLeases
  imports QueueRuns
begin

text \<open>
  Who holds which lease over a run, and what the holder may rely on: only a claim gives a lease out, a
  lost lease is never regained, without it a worker changes nothing, and submissions leave the rows
  of running jobs alone.
\<close>

section \<open>Leases\<close>

text \<open>
  A lease is only ever given out by \<open>claimOldestJob\<close>, and nothing else starts a job: a row that holds
  a lease after any other transaction held it before and is the same row, but for its source.
\<close>

definition leases_from :: "db \<Rightarrow> db \<Rightarrow> bool" where
  "leases_from d d' \<longleftrightarrow> (\<forall>j\<in>set (d_jobs d'). j_lease_id j \<noteq> None
     \<longrightarrow> (\<exists>k\<in>set (d_jobs d). j = k\<lparr>j_source_id := j_source_id j\<rparr>))"

lemma leases_fromD:
  assumes "leases_from d d'" "j \<in> set (d_jobs d')" "j_lease_id j \<noteq> None"
  obtains k where "k \<in> set (d_jobs d)" "j = k\<lparr>j_source_id := j_source_id j\<rparr>"
    "j_id k = j_id j" "j_lease_id k = j_lease_id j"
proof -
  from assms obtain k where k: "k \<in> set (d_jobs d)" "j = k\<lparr>j_source_id := j_source_id j\<rparr>"
    unfolding leases_from_def by blast
  from arg_cong [OF k(2), of j_id] arg_cong [OF k(2), of j_lease_id] that [OF k] show ?thesis by simp
qed

lemma leases_from_same: "d_jobs d' = d_jobs d \<Longrightarrow> leases_from d d'"
  unfolding leases_from_def by (intro ballI impI, rule_tac x = j in bexI) simp_all

lemma leases_from_trans:
  assumes "leases_from d d1" "leases_from d1 d2"
  shows "leases_from d d2"
  unfolding leases_from_def
proof (intro ballI impI)
  fix j assume "j \<in> set (d_jobs d2)" "j_lease_id j \<noteq> None"
  then obtain k where k: "k \<in> set (d_jobs d1)" "j = k\<lparr>j_source_id := j_source_id j\<rparr>" "j_lease_id k = j_lease_id j"
    using leases_fromD [OF assms(2)] by metis
  with \<open>j_lease_id j \<noteq> None\<close> obtain l where l: "l \<in> set (d_jobs d)" "k = l\<lparr>j_source_id := j_source_id k\<rparr>"
    using leases_fromD [OF assms(1)] by metis
  have "k\<lparr>j_source_id := j_source_id j\<rparr> = l\<lparr>j_source_id := j_source_id k\<rparr>\<lparr>j_source_id := j_source_id j\<rparr>"
    using l(2) by (rule arg_cong)
  with k(2) have "j = l\<lparr>j_source_id := j_source_id j\<rparr>" by simp
  with l(1) show "\<exists>k\<in>set (d_jobs d). j = k\<lparr>j_source_id := j_source_id j\<rparr>" by blast
qed

lemma leases_update_jobs:
  assumes "\<And>j. j \<in> set (d_jobs d) \<Longrightarrow> p j \<Longrightarrow> j_lease_id (f j) = None
     \<or> f j = j\<lparr>j_source_id := j_source_id (f j)\<rparr>"
  shows "leases_from d (update_jobs p f d)"
  unfolding leases_from_def update_jobs_simps
proof (rule ball_mapI, rule impI)
  fix j assume j: "j \<in> set (d_jobs d)" and l: "j_lease_id (if p j then f j else j) \<noteq> None"
  then have "(if p j then f j else j) = j\<lparr>j_source_id := j_source_id (if p j then f j else j)\<rparr>"
    using assms [OF j] by (cases "p j") auto
  with j show "\<exists>k\<in>set (d_jobs d). (if p j then f j else j) = k\<lparr>j_source_id := j_source_id (if p j then f j else j)\<rparr>"
    by blast
qed

lemma leases_delete: "leases_from d d1 \<Longrightarrow> leases_from d (delete_targets p d1)"
  by (simp add: leases_from_def delete_targets_simps)

lemma leases_append:
  assumes "j_lease_id new = None"
  shows "leases_from d (append_job new d)"
  unfolding leases_from_def append_job_simps
proof (intro ballI impI)
  fix j assume "j \<in> set (d_jobs d @ [new])" "j_lease_id j \<noteq> None"
  with assms have "j \<in> set (d_jobs d)" by auto
  moreover have "j = j\<lparr>j_source_id := j_source_id j\<rparr>" by simp
  ultimately show "\<exists>k\<in>set (d_jobs d). j = k\<lparr>j_source_id := j_source_id j\<rparr>" by blast
qed

lemma leases_respond: "respond err i s d1 = Inr (j, d') \<Longrightarrow> leases_from d d1 \<Longrightarrow> leases_from d d'"
  by (auto dest: respond_InrD)

lemma leases_take: "leases_from d (update_jobs p (take_target w t x) d)"
  by (rule leases_update_jobs) (simp add: take_target_def)

lemma recover_job_lease: "j_lease_id (recover_job d j) = None"
  by (simp add: recover_job_def take_target_def split: option.splits)

lemma recover_segments_leases: "recover_segments cr segs n d = (r, d') \<Longrightarrow> leases_from d d'"
proof (induction segs arbitrary: n d)
  case Nil
  then show ?case by (simp add: leases_from_same)
next
  case (Cons seg segs)
  show ?case
  proof (cases "recover_segment cr seg d")
    case (Inl e)
    with Cons.prems show ?thesis by (simp add: leases_from_same)
  next
    case (Inr x)
    then obtain k d1 where x: "recover_segment cr seg d = Inr (k, d1)" by (cases x) simp
    then have "d1 = quarantinePersistedGroup seg d \<or> d1 = update_jobs (running_in seg) (recover_job d) d"
      by (auto simp: recover_segment_def split: sum.splits db_error.splits)
    then have "leases_from d d1"
      by (auto simp: quarantinePersistedGroup_def recover_job_lease intro!: leases_update_jobs)
    moreover from x Cons.prems have "recover_segments cr segs (n + k) d1 = (r, d')" by simp
    ultimately show ?thesis using Cons.IH leases_from_trans by blast
  qed
qed

lemma retry_leases:
  assumes "retryFailedJob cr sid i restart d = Inr (r, d')"
  shows "leases_from d d'"
  using assms
proof (cases rule: retryFailedJob_cases)
  case (retried source job t payload row d1)
  have "leases_from d d1" by (rule leases_from_same) (simp add: retried(3) queue_simps)
  from leases_from_trans [OF this leases_take] show ?thesis unfolding retried(4) .
qed (simp add: leases_from_same)

lemma supersede_leases:
  assumes "supersedeFailedJob cr sid i d = Inr (r, d')"
  shows "leases_from d d'"
  using assms
proof (cases rule: supersedeFailedJob_cases)
  case (dismissed source job t row)
  have "leases_from d (update_jobs (failed_row i) (dismissed_row d) d)"
    by (rule leases_update_jobs) (simp add: dismissed_row_def)
  then show ?thesis unfolding dismissed(3) by (rule leases_delete)
qed (simp add: leases_from_same)

lemma requeue_leases:
  assumes run: "requeueLatestTarget job target d = Inr d'"
  shows "leases_from d d'"
proof -
  have sup: "leases_from d d1" if "supersede_claim job d = Inr d1" for d1
    unfolding conjunct1 [OF supersede_claim_eq [OF that]]
    by (rule leases_update_jobs) (simp add: supersede_row_def)
  show ?thesis
  proof (cases target)
    case None
    with run sup show ?thesis by (simp add: requeueLatestTarget_def)
  next
    case (Some t)
    with run show ?thesis
      by (auto simp: requeueLatestTarget_def leases_take split: if_splits intro: leases_from_trans [OF sup leases_take])
  qed
qed

lemma finish_leases:
  assumes "finishFailedAttempt cr job err retry d = Inr (b, d')"
  shows "leases_from d d'"
  using assms
proof (cases rule: finishFailedAttempt_cases)
  case updated
  have "leases_from d (update_jobs (holds_lease job) (attempt_row err retry d) d)"
    by (rule leases_update_jobs) (simp add: attempt_row_def)
  then show ?thesis unfolding updated(4) Let_def
    by (split if_split) (blast intro: leases_delete)
qed (simp_all add: leases_from_same requeue_leases)

lemma publish_leases:
  assumes "publishExtraction cr vfp job ex d = Inr (b, d')"
  shows "leases_from d d'"
  using assms
  by (cases rule: publishExtraction_cases) (simp_all add: leases_from_same requeue_leases update_targets_simps)

lemma succeed_leases: "leases_from d (succeed_rows p d)"
  unfolding succeed_rows_def by (rule leases_update_jobs) simp

lemma commit_leases:
  assumes "commitResolution cr cf vfp job ex p d = Inr (b, d')"
  shows "leases_from d d'"
  using assms
proof (cases rule: commitResolution_cases)
  case (committed source current t st fp)
  from committed(11) show ?thesis
  proof (cases rule: commit_staged_cases)
    case (older s)
    show ?thesis unfolding older(5) by (rule leases_delete [OF succeed_leases])
  next
    case (written d1 d2)
    from put_entities_frame [OF written(2)] put_segment_frame [OF written(3)]
    have "leases_from d (drop_orphans (segment_entity_ids (pp_id p) d) d2)"
      by (intro leases_from_same) (simp add: drop_orphans_frame)
    from leases_delete [OF leases_from_trans [OF this succeed_leases]] show ?thesis unfolding written(6) .
  qed
qed (simp_all add: leases_from_same requeue_leases)

section \<open>Submissions keep running rows\<close>

text \<open>A running row may gain the source that adopts its segment; nothing else of it changes.\<close>

definition running_kept :: "db \<Rightarrow> db \<Rightarrow> bool" where
  "running_kept d d' \<longleftrightarrow> (\<forall>j\<in>set (d_jobs d). j_status j = Running
     \<longrightarrow> (\<exists>k\<in>set (d_jobs d'). k\<lparr>j_source_id := j_source_id j\<rparr> = j))"

lemma running_kept_refl: "d_jobs d' = d_jobs d \<Longrightarrow> running_kept d d'"
  unfolding running_kept_def by (intro ballI impI, rule_tac x = j in bexI) simp_all

lemma running_kept_trans:
  assumes "running_kept d d1" "running_kept d1 d2"
  shows "running_kept d d2"
  unfolding running_kept_def
proof (intro ballI impI)
  fix j assume j: "j \<in> set (d_jobs d)" "j_status j = Running"
  with assms(1) obtain k where k: "k \<in> set (d_jobs d1)" "k\<lparr>j_source_id := j_source_id j\<rparr> = j"
    unfolding running_kept_def by blast
  from arg_cong [OF k(2), of j_status] j(2) have "j_status k = Running" by simp
  with assms(2) k(1) obtain l where l: "l \<in> set (d_jobs d2)" "l\<lparr>j_source_id := j_source_id k\<rparr> = k"
    unfolding running_kept_def by blast
  have "l\<lparr>j_source_id := j_source_id j\<rparr> = (l\<lparr>j_source_id := j_source_id k\<rparr>)\<lparr>j_source_id := j_source_id j\<rparr>" by simp
  then have "l\<lparr>j_source_id := j_source_id j\<rparr> = j" by (simp only: l(2) k(2))
  with l(1) show "\<exists>k\<in>set (d_jobs d2). k\<lparr>j_source_id := j_source_id j\<rparr> = j" by blast
qed

lemma running_update_jobs:
  assumes "\<And>j. j \<in> set (d_jobs d) \<Longrightarrow> p j \<Longrightarrow> j_status j = Running \<Longrightarrow> (f j)\<lparr>j_source_id := j_source_id j\<rparr> = j"
  shows "running_kept d (update_jobs p f d)"
  unfolding running_kept_def update_jobs_simps
proof (intro ballI impI)
  fix j assume j: "j \<in> set (d_jobs d)" "j_status j = Running"
  then have "(if p j then f j else j)\<lparr>j_source_id := j_source_id j\<rparr> = j" using assms by simp
  moreover have "(if p j then f j else j) \<in> set (map (\<lambda>j. if p j then f j else j) (d_jobs d))" using j(1) by simp
  ultimately show "\<exists>k\<in>set (map (\<lambda>j. if p j then f j else j) (d_jobs d)). k\<lparr>j_source_id := j_source_id j\<rparr> = j" by blast
qed

lemma running_append: "running_kept d (append_job new d)"
  unfolding running_kept_def append_job_simps by (intro ballI impI, rule_tac x = j in bexI) simp_all

lemma respond_eq: "respond err i s d1 = Inr (j, d') \<Longrightarrow> d' = d1"
  by (simp add: respond_InrD)

text \<open>Both facts about each branch of \<open>enqueue\<close> at once.\<close>

definition quiet :: "db \<Rightarrow> db \<Rightarrow> bool" where
  "quiet d d' \<longleftrightarrow> leases_from d d' \<and> running_kept d d'"

lemma quiet_trans: "quiet d d1 \<Longrightarrow> quiet d1 d2 \<Longrightarrow> quiet d d2"
  unfolding quiet_def using leases_from_trans running_kept_trans by blast

lemma quiet_same: "d_jobs d' = d_jobs d \<Longrightarrow> quiet d d'"
  by (simp add: quiet_def leases_from_same running_kept_refl)

lemma quiet_update:
  assumes "\<And>j. j \<in> set (d_jobs d) \<Longrightarrow> p j \<Longrightarrow> j_status j \<noteq> Running" "\<And>j. j_lease_id (f j) = None"
  shows "quiet d (update_jobs p f d)"
  unfolding quiet_def using assms by (intro conjI leases_update_jobs running_update_jobs) auto

lemma quiet_append: "j_lease_id j = None \<Longrightarrow> quiet d (append_job j d)"
  by (simp add: quiet_def leases_append running_append)

lemma insert_quiet: "insert_job j d = Inr (i, d') \<Longrightarrow> j_lease_id j = None \<Longrightarrow> quiet d d'"
  by (auto simp: insert_job_def quiet_append split: if_splits)

lemma adopt_group_quiet: "quiet d (adopt_group source seg d)"
proof -
  have "quiet d (update_jobs (\<lambda>j. j_segment_id j = seg \<and> j_source_id j = None) (\<lambda>j. j\<lparr>j_source_id := Some (src_id source)\<rparr>) d)"
    unfolding quiet_def by (intro conjI leases_update_jobs running_update_jobs) simp_all
  moreover have "quiet (update_jobs (\<lambda>j. j_segment_id j = seg \<and> j_source_id j = None)
      (\<lambda>j. j\<lparr>j_source_id := Some (src_id source)\<rparr>) d) (adopt_group source seg d)"
    by (rule quiet_same) (simp add: adopt_group_def update_jobs_def)
  ultimately show ?thesis by (rule quiet_trans)
qed

lemma ignore_quiet:
  assumes "ignore_lower_version source seg fp request bjob d = Inr (j, d')"
  shows "quiet d d'"
proof (cases bjob)
  case None
  with assms obtain i d1 where i: "insert_job ((fresh_job d source seg fp request)
      \<lparr>j_status := Superseded, j_finished_at := Some (d_now d),
       j_error := Some (js ''snapshot was superseded'')\<rparr>) d = Inr (i, d1)" and "d' = d1"
    by (auto simp: ignore_lower_version_def dest: respond_eq)
  with insert_quiet [OF i] show ?thesis by simp
next
  case (Some b)
  with assms show ?thesis by (auto simp: ignore_lower_version_def quiet_same dest: respond_eq)
qed

lemma settle_quiet:
  assumes "settle_committed source seg fp request current bjob d = Inr (j, d')"
  shows "quiet d d'"
proof (cases bjob)
  case None
  with assms obtain i d1 where i: "insert_job ((fresh_job d source seg fp request)
        \<lparr>j_status := Succeeded, j_generation := s_generation current, j_finished_at := Some (d_now d)\<rparr>) d
        = Inr (i, d1)" and "d' = d1"
    by (auto simp: settle_committed_def dest: respond_eq)
  with insert_quiet [OF i] show ?thesis by simp
next
  case (Some b)
  with assms show ?thesis
    by (auto simp: settle_committed_def dest!: respond_eq intro!: quiet_update)
qed

text \<open>What refreshing does to the target's job, which restarts it only if the job had failed.\<close>

definition refreshed_row :: "bool \<Rightarrow> jsval \<Rightarrow> nat \<Rightarrow> nat \<Rightarrow> job_row \<Rightarrow> job_row" where
  "refreshed_row reset payload priority now j =
     (let j1 = (if j_status j = Running then j else j\<lparr>j_payload := Some payload, j_priority := priority\<rparr>)
      in if reset then j1\<lparr>j_status := Pending, j_attempts := 0, j_error := None, j_lease_id := None,
           j_started_at := None, j_finished_at := None, j_next_attempt_at := now\<rparr> else j1)"

lemma refresh_target_cases:
  assumes run: "refresh_target cr vfp source seg request jobs target d = Inr (j, d')"
    and base: "base_ok d" and jobs: "set jobs \<subseteq> set (d_jobs d)"
  obtains priority payload reset d1 where "priority = max (tg_priority target) (rb_processing_priority (rq_body request))"
    "payload = persistedRequest (with_priority priority request)"
    "d1 = update_targets (\<lambda>t. tg_segment_id t = seg) (\<lambda>t. t\<lparr>tg_payload := payload,
       tg_priority := priority, tg_staged := (if reset then None else tg_staged t)\<rparr>) d"
    "\<And>k. k \<in> set (d_jobs d) \<Longrightarrow> j_id k = tg_job_id target \<Longrightarrow> reset \<Longrightarrow> j_status k = Failed"
    "d' = update_jobs (\<lambda>j. j_id j = tg_job_id target) (refreshed_row reset payload priority (d_now d)) d1"
proof -
  define failed where "failed = (case find (\<lambda>j. j_id j = tg_job_id target) jobs of
      None \<Rightarrow> False | Some j \<Rightarrow> j_status j = Failed)"
  have was_failed: "j_status k = Failed" if failed and "k \<in> set (d_jobs d)" "j_id k = tg_job_id target" for k
  proof -
    from that(1) obtain l where l: "find (\<lambda>j. j_id j = tg_job_id target) jobs = Some l" "j_status l = Failed"
      by (auto simp: failed_def split: option.splits)
    from find_SomeD [OF l(1)] jobs have k: "l \<in> set (d_jobs d)" "j_id l = tg_job_id target" by auto
    from that(3) k(2) have "j_id k = j_id l" by simp
    from same_id_same_job [OF base that(2) k(1) this] l(2) show ?thesis by simp
  qed
  define priority where "priority = max (tg_priority target) (rb_processing_priority (rq_body request))"
  define payload where "payload = persistedRequest (with_priority priority request)"
  define reset where "reset = (tg_staged target \<noteq> None \<and> \<not> staged_eligible cr vfp d target \<and> failed)"
  define d1 where "d1 = update_targets (\<lambda>t. tg_segment_id t = seg) (\<lambda>t. t\<lparr>tg_payload := payload,
            tg_priority := priority, tg_staged := (if reset then None else tg_staged t)\<rparr>) d"
  from run have "respond ''target job disappeared during enqueue'' (tg_job_id target) source
      (update_jobs (\<lambda>j. j_id j = tg_job_id target) (refreshed_row reset payload priority (d_now d)) d1) = Inr (j, d')"
    unfolding refresh_target_def Let_def failed_def [symmetric] reset_def [symmetric]
      priority_def [symmetric] payload_def [symmetric] d1_def [symmetric] refreshed_row_def .
  then have "d' = update_jobs (\<lambda>j. j_id j = tg_job_id target) (refreshed_row reset payload priority (d_now d)) d1"
    by (rule respond_eq)
  moreover have "j_status k = Failed" if "k \<in> set (d_jobs d)" "j_id k = tg_job_id target" reset for k
    using was_failed that unfolding reset_def by blast
  ultimately show ?thesis using that [OF priority_def payload_def d1_def] by blast
qed

lemma refresh_quiet:
  assumes run: "refresh_target cr vfp source seg request jobs target d = Inr (j, d')"
    and base: "base_ok d" and jobs: "set jobs \<subseteq> set (d_jobs d)"
  shows "quiet d d'"
  using run base jobs
proof (cases rule: refresh_target_cases)
  case (1 priority payload reset d1)
  let ?f = "refreshed_row reset payload priority (d_now d)"
  have jobs1: "d_jobs d1 = d_jobs d" by (simp add: 1(3) queue_simps)
  have "quiet d1 d'"
    unfolding quiet_def 1(5)
  proof (intro conjI leases_update_jobs running_update_jobs)
    fix k assume k: "k \<in> set (d_jobs d1)" "j_id k = tg_job_id target"
    show "j_lease_id (?f k) = None \<or> ?f k = k\<lparr>j_source_id := j_source_id (?f k)\<rparr>"
    proof (cases "j_status k = Running")
      case True
      with 1(4) [of k] k have "\<not> reset" unfolding jobs1 by auto
      with True show ?thesis by (simp add: refreshed_row_def)
    next
      case False
      with base_lease [OF base] k(1) have "j_lease_id k = None" unfolding jobs1 lease_ok_def by blast
      with False show ?thesis by (simp add: refreshed_row_def Let_def)
    qed
  next
    fix k assume k: "k \<in> set (d_jobs d1)" "j_id k = tg_job_id target" "j_status k = Running"
    with 1(4) [of k] have "\<not> reset" unfolding jobs1 by auto
    with k(3) show "(?f k)\<lparr>j_source_id := j_source_id k\<rparr> = k" by (simp add: refreshed_row_def)
  qed
  with quiet_trans [OF quiet_same [OF jobs1]] show ?thesis by blast
qed

lemma upsert_quiet:
  assumes up: "upsert_job new d = (r, d')" and base: "base_ok d" and new: "j_lease_id new = None"
  shows "quiet d d'"
proof (cases "find (\<lambda>c. same_boundary_key c new) (d_jobs d)")
  case None
  with up new show ?thesis by (simp add: upsert_job_def) (metis quiet_append)
next
  case (Some c)
  then have c: "c \<in> set (d_jobs d)" using find_SomeD by metis
  show ?thesis
  proof (cases "j_status c \<noteq> Running \<and> j_segment_id c = j_segment_id new")
    case True
    with up Some have d': "d' = update_jobs (\<lambda>j. j_id j = j_id c) (\<lambda>j. new\<lparr>j_id := j_id j\<rparr>) d"
      by (simp add: upsert_job_def)
    show ?thesis unfolding d'
      by (rule quiet_update) (use same_id_same_job [OF base _ c] True new in auto)
  next
    case False
    with up Some have "d' = d" by (auto simp: upsert_job_def split: if_splits)
    then show ?thesis by (simp add: quiet_same)
  qed
qed

lemma upsert_keeps_settled:
  assumes "upsert_job new d = (r, d')" "j \<in> set (d_jobs d')" "j_status j = Running" "j_status new \<noteq> Running"
  shows "j \<in> set (d_jobs d)"
  using assms by (auto simp: upsert_job_def append_job_simps update_jobs_simps split: option.splits if_splits)

lemma replace_target_jobs: "d_jobs (replace_target source seg fp request g i d) = d_jobs d"
  by (simp add: replace_target_def Let_def queue_simps)

lemma enqueue_new_cases:
  assumes run: "enqueue_new source seg fp request current target jobs d = Inr (j, d')"
  obtains r d1 i where "upsert_job ((fresh_job d source seg fp request)
        \<lparr>j_payload := Some (persistedRequest request), j_generation := next_generation current target jobs\<rparr>) d = (r, d1)"
    "r = Some i \<or> r = None \<and> (\<exists>b. boundary_job request jobs = Some b \<and> i = j_id b)"
    "d' = supersede_others i jobs (replace_target source seg fp request (next_generation current target jobs) i d1)"
    "j \<in> set (d_jobs d')" "j_id j = i"
proof -
  obtain r d1 where up: "upsert_job ((fresh_job d source seg fp request)
        \<lparr>j_payload := Some (persistedRequest request), j_generation := next_generation current target jobs\<rparr>) d = (r, d1)"
    by fastforce
  from run up obtain i where i: "r = Some i \<or> r = None \<and> (\<exists>b. boundary_job request jobs = Some b \<and> i = j_id b)"
    and "respond ''target job disappeared during enqueue'' i source
           (supersede_others i jobs (replace_target source seg fp request (next_generation current target jobs) i d1)) = Inr (j, d')"
    unfolding enqueue_new_def Let_def by (auto split: option.splits)
  with that [OF up i] respond_InrD show ?thesis by metis
qed

lemma enqueue_new_quiet:
  assumes run: "enqueue_new source seg fp request current target jobs d = Inr (j, d')"
    and base: "base_ok d" and jobs: "set jobs \<subseteq> set (d_jobs d)"
  shows "quiet d d'"
  using run
proof (cases rule: enqueue_new_cases)
  case (1 r d1 i)
  let ?g = "next_generation current target jobs"
  have q1: "quiet d d1" by (rule upsert_quiet [OF 1(1) base]) simp
  have q2: "quiet d1 (replace_target source seg fp request ?g i d1)"
    by (rule quiet_same) (rule replace_target_jobs)
  have "quiet (replace_target source seg fp request ?g i d1) d'"
    unfolding 1(3) supersede_others_def
  proof (rule quiet_update)
    fix k assume k: "k \<in> set (d_jobs (replace_target source seg fp request ?g i d1))"
      "\<exists>l\<in>set jobs. j_id l = j_id k \<and> j_id l \<noteq> i \<and> (j_status l = Pending \<or> j_status l = Failed)"
    from k(2) obtain l where l: "l \<in> set (d_jobs d)" "j_id l = j_id k" "j_status l \<noteq> Running"
      using jobs by auto
    show "j_status k \<noteq> Running"
    proof
      assume run: "j_status k = Running"
      with upsert_keeps_settled [OF 1(1)] k(1) have "k \<in> set (d_jobs d)"
        unfolding replace_target_jobs by (simp add: fresh_job_def)
      from same_id_same_job [OF base l(1) this l(2)] l(3) run show False by simp
    qed
  qed simp
  with q1 q2 show ?thesis by (blast intro: quiet_trans)
qed

lemma enqueue_quiet:
  assumes run: "enqueue cr vfp request d = Inr (j, d')" and ok: "queue_ok d"
  shows "quiet d d'"
  using run
proof (cases rule: enqueue_InrE)
  case (1 request' source seg s)
  let ?d = "adopt_group source seg d"
  have base: "base_ok ?d" by (rule queue_okD(1) [OF adopt_group_queue [OF ok]])
  have jobs: "set (segment_jobs source seg ?d) \<subseteq> set (d_jobs ?d)" by (auto simp: segment_jobs_def)
  from 1(5) have "quiet ?d d'"
    by (cases rule: enqueue_segment_cases)
      (blast intro: ignore_quiet refresh_quiet [OF _ base jobs] enqueue_new_quiet [OF _ base jobs] settle_quiet)+
  from quiet_trans [OF adopt_group_quiet this] show ?thesis .
qed

section \<open>Claims\<close>

definition started_row :: "jsstr \<Rightarrow> nat \<Rightarrow> job_row \<Rightarrow> job_row" where
  "started_row lease now k = k\<lparr>j_status := Running, j_attempts := j_attempts k + 1,
     j_lease_id := Some lease, j_started_at := Some now, j_finished_at := None, j_error := None\<rparr>"

lemma start_claimD:
  assumes "start_claim cr vfp lease source r j d = Inr (c, d')"
  obtains staged where "c = Some \<lparr>cj_id = j_id j, cj_segmentId = j_segment_id j, cj_leaseId = lease,
             cj_sourceGeneration = j_generation j, cj_sourceFingerprint = the (j_fingerprint j),
             cj_attempts = j_attempts j + 1, cj_sourceId = src_id source, cj_request = r,
             cj_extractionResult = staged\<rparr>"
    "d' = update_jobs (\<lambda>k. j_id k = j_id j \<and> j_status k = Pending) (started_row lease (d_now d)) d"
  using assms unfolding start_claim_def Let_def started_row_def by (auto split: if_splits)

text \<open>A claim that hands nothing out has rejected a row, quarantined a segment, or done nothing.\<close>

lemma claimOldestJob_cases:
  assumes run: "claimOldestJob cr vfp lease ex d = Inr (c, d')"
  obtains (idle) "c = None" "d' = d"
  | (rejected) err i where "c = None" "d' = reject_pending err i d"
  | (quarantined) seg where "c = None" "d' = quarantinePersistedGroup seg d"
  | (claimed) j source s payload r where "claim_candidate d ex = Some j" "effectiveSource d (j_source_id j) = Inr source"
      "validateSegmentOwnership cr d (j_segment_id j) (Some source) = Inr s"
      "j_payload j = Some payload" "decodePersistedIngestSegment payload (src_id source) = Inr r"
      "request_matches_job cr r source j = Inr True" "start_claim cr vfp lease source r j d = Inr (c, d')"
proof (cases "claim_candidate d ex")
  case None
  with run idle show ?thesis by (auto simp: claimOldestJob_def)
next
  case j: (Some j)
  from run j obtain source where source: "effectiveSource d (j_source_id j) = Inr source"
    by (auto simp: claimOldestJob_def)
  show ?thesis
  proof (cases "validateSegmentOwnership cr d (j_segment_id j) (Some source)")
    case (Inl e)
    with run j source quarantined show ?thesis by (cases e) (auto simp: claimOldestJob_def)
  next
    case own: (Inr s)
    show ?thesis
    proof (cases "find_job (j_id j) d")
      case None
      with run j source own idle show ?thesis by (auto simp: claimOldestJob_def)
    next
      case (Some row)
      with run j source own consider "c = None" "d' = d" | "claim_pending cr vfp lease source j d = Inr (c, d')"
        by (auto simp: claimOldestJob_def split: if_splits)
      then show ?thesis
      proof cases
        case 1
        then show ?thesis by (rule idle)
      next
        case pending: 2
        show ?thesis
        proof (cases "j_payload j")
          case None
          with pending rejected show ?thesis by (auto simp: claim_pending_def)
        next
          case payload: (Some p)
          show ?thesis
          proof (cases "decodePersistedIngestSegment p (src_id source)")
            case (Inl e)
            with pending payload rejected show ?thesis by (auto simp: claim_pending_def)
          next
            case (Inr r)
            with pending payload obtain b where b: "request_matches_job cr r source j = Inr b"
              "(if \<not> b then Inr (None, reject_pending (js ''invalid persisted payload: source identity mismatch'') (j_id j) d)
                else start_claim cr vfp lease source r j d) = Inr (c, d')"
              by (auto simp: claim_pending_def)
            with rejected claimed [OF j source own payload Inr] show ?thesis by (cases b) auto
          qed
        qed
      qed
    qed
  qed
qed

lemma claim_leases:
  assumes "claimOldestJob cr vfp lease ex d = Inr (c, d')"
  shows "leases_from d d' \<or> (\<exists>j claim. c = Some claim \<and> cj_id claim = j_id j \<and> cj_leaseId claim = lease
     \<and> j \<in> set (d_jobs d)
     \<and> d' = update_jobs (\<lambda>k. j_id k = j_id j \<and> j_status k = Pending) (started_row lease (d_now d)) d)"
  using assms
proof (cases rule: claimOldestJob_cases)
  case idle
  then show ?thesis by (simp add: leases_from_same)
next
  case (rejected err i)
  have "leases_from d d'" unfolding rejected(2) reject_pending_def by (rule leases_update_jobs) simp
  then show ?thesis ..
next
  case (quarantined seg)
  have "leases_from d d'" unfolding quarantined(2) quarantinePersistedGroup_def by (rule leases_update_jobs) simp
  then show ?thesis ..
next
  case (claimed j source s payload r)
  from claim_candidateD [OF claimed(1)] have "j \<in> set (d_jobs d)" by simp
  with claimed(7) show ?thesis by (elim start_claimD) auto
qed

lemma claim_lease_rows:
  assumes "claimOldestJob cr vfp lease ex d = Inr (c, d')" "j \<in> set (d_jobs d')" "j_lease_id j \<noteq> None"
  shows "j_lease_id j = Some lease \<or> (\<exists>k\<in>set (d_jobs d). j_id k = j_id j \<and> j_lease_id k = j_lease_id j)"
  using claim_leases [OF assms(1)]
proof (elim disjE exE conjE)
  assume "leases_from d d'"
  from leases_fromD [OF this assms(2,3)] show ?thesis by metis
next
  fix i claim assume d': "d' = update_jobs (\<lambda>k. j_id k = j_id i \<and> j_status k = Pending) (started_row lease (d_now d)) d"
  from assms(2) obtain l where l: "l \<in> set (d_jobs d)"
    "j = (if j_id l = j_id i \<and> j_status l = Pending then started_row lease (d_now d) l else l)"
    unfolding d' update_jobs_simps set_map by blast
  then show ?thesis by (cases "j_id l = j_id i \<and> j_status l = Pending") (auto simp: started_row_def)
qed

text \<open>A transaction that is no claim.\<close>

lemma step_leases_from:
  assumes "queue_step cr cf vfp d e d'" "queue_ok d"
  shows "leases_from d d' \<or> (\<exists>l ex c. e = ClaimTx l ex \<and> claimOldestJob cr vfp l ex d = Inr (c, d'))"
  using assms(1)
proof (cases rule: queue_step.cases)
  case (step_enqueue r)
  with enqueue_quiet assms(2) show ?thesis unfolding quiet_def by blast
next
  case (step_recover r)
  with recover_segments_leases show ?thesis unfolding recoverRunningJobs_def by blast
next
  case (step_tick n)
  then show ?thesis by (simp add: leases_from_same)
qed (blast intro: retry_leases supersede_leases finish_leases publish_leases commit_leases)+

lemma step_leases:
  assumes "queue_step cr cf vfp d e d'" "queue_ok d" "\<And>ex. e \<noteq> ClaimTx lease ex"
    "j \<in> set (d_jobs d')" "j_lease_id j = Some lease"
  shows "\<exists>k\<in>set (d_jobs d). j_id k = j_id j \<and> j_lease_id k = Some lease"
  using step_leases_from [OF assms(1,2)]
proof (elim disjE exE conjE)
  assume "leases_from d d'"
  from leases_fromD [OF this assms(4)] assms(5) show ?thesis by (metis option.distinct(1))
next
  fix l ex c assume e: "e = ClaimTx l ex" "claimOldestJob cr vfp l ex d = Inr (c, d')"
  from claim_lease_rows [OF e(2) assms(4)] assms(3,5) e(1) show ?thesis by auto
qed

section \<open>A lost lease is final\<close>

definition lease_gone :: "claimed_job \<Rightarrow> db \<Rightarrow> bool" where
  "lease_gone job d \<longleftrightarrow> queue_ok d \<and> \<not> (\<exists>j\<in>set (d_jobs d). j_id j = cj_id job \<and> j_lease_id j = Some (cj_leaseId job))"

definition no_claim_of :: "jsstr \<Rightarrow> transaction \<Rightarrow> bool" where
  "no_claim_of lease e = (case e of ClaimTx l ex \<Rightarrow> l \<noteq> lease | _ \<Rightarrow> True)"

lemma lease_gone_step:
  assumes "queue_step cr cf vfp d e d'" "no_claim_of (cj_leaseId job) e" "lease_gone job d"
  shows "lease_gone job d'"
proof -
  have "e \<noteq> ClaimTx (cj_leaseId job) ex" for ex using assms(2) by (auto simp: no_claim_of_def)
  from step_leases [OF assms(1) _ this] assms(3) queue_step_queue [OF assms(1)] show ?thesis
    unfolding lease_gone_def by metis
qed

interpretation lease: transaction_system "queue_step cr cf vfp" "no_claim_of (cj_leaseId job)" "lease_gone job"
  by unfold_locales (rule lease_gone_step)

lemma lease_gone_current:
  assumes "queue_ok d"
  shows "lease_gone job d \<longleftrightarrow> current_claim job d = None"
proof
  assume "lease_gone job d"
  then show "current_claim job d = None"
    by (auto simp: lease_gone_def current_claim_def dest: find_jobD split: option.splits)
next
  assume none: "current_claim job d = None"
  have False if j: "j \<in> set (d_jobs d)" "j_id j = cj_id job" "j_lease_id j = Some (cj_leaseId job)" for j
  proof -
    note base = queue_okD(1) [OF assms]
    from base_lease [OF base j(1)] j(3) have "j_status j = Running" by (simp add: lease_ok_def)
    moreover obtain k where "find_job (cj_id job) d = Some k"
      using j unfolding find_job_def by (cases "find (\<lambda>j. j_id j = cj_id job) (d_jobs d)") (auto simp: find_None_iff)
    moreover from this same_id_same_job [OF base j(1)] j(2) have "k = j" by (auto dest: find_jobD)
    ultimately show False using none j(3) by (simp add: current_claim_def)
  qed
  with assms show "lease_gone job d" by (auto simp: lease_gone_def)
qed

end
