(* ===== verification/SampleRun.thy ===== *)
theory SampleRun
  imports QueueLeases
begin

text \<open>
  One concrete run of the queue, for the witnesses: a request is submitted, claimed, its extraction
  published and committed. The cryptography is constant, which the model allows.
\<close>

definition flat_crypto :: crypto where
  "flat_crypto = \<lparr>sha256_hex = (\<lambda>_. []), uuid5 = (\<lambda>_ _. [])\<rparr>"

definition flat_vfp :: "extraction \<Rightarrow> nat \<Rightarrow> jsstr option \<Rightarrow> jsstr" where
  "flat_vfp e v f = []"

definition payload1 :: jsval where
  "payload1 = persistedRequest sample_native"

definition job1 :: job_row where
  "job1 = \<lparr>j_id = 0, j_source_id = Some (js ''s''), j_segment_id = [], j_session_id = js ''t'',
     j_boundary = Boundary3 (js ''a'') (js ''b''), j_projection_version = 3, j_payload = Some payload1,
     j_status = Pending, j_attempts = 0, j_lease_id = None, j_error = None, j_generation = 1,
     j_fingerprint = Some [], j_priority = 0, j_started_at = None, j_finished_at = None, j_next_attempt_at = 0\<rparr>"

definition target1 :: target_row where
  "target1 = \<lparr>tg_source_id = Some (js ''s''), tg_segment_id = [], tg_job_id = 0,
     tg_boundary = Boundary3 (js ''a'') (js ''b''), tg_projection_version = 3, tg_payload = payload1,
     tg_generation = 1, tg_fingerprint = Some [], tg_staged = None, tg_priority = 0, tg_updated_at = 0\<rparr>"

definition db0 :: db where
  "db0 = empty_db [sample_source] 0"

definition db1 :: db where
  "db1 = db0\<lparr>d_jobs := [job1], d_targets := [target1], d_next_id := 1\<rparr>"

definition lease1 :: jsstr where
  "lease1 = js ''l''"

definition claim1 :: claimed_job where
  "claim1 = \<lparr>cj_id = 0, cj_segmentId = [], cj_leaseId = lease1, cj_sourceGeneration = 1,
     cj_sourceFingerprint = [], cj_attempts = 1, cj_sourceId = js ''s'', cj_request = sample_native,
     cj_extractionResult = None\<rparr>"

definition job2 :: job_row where
  "job2 = job1\<lparr>j_status := Running, j_attempts := 1, j_lease_id := Some lease1, j_started_at := Some 0\<rparr>"

definition db2 :: db where
  "db2 = db1\<lparr>d_jobs := [job2]\<rparr>"

lemma native_round_trip:
  assumes "valid_request r" "boundary_version (rb_boundary (rq_body r)) = 3"
  shows "parseNativeSegmentCreate (persistedRequest r) = Inr r"
    and "decodePersistedIngestSegment (persistedRequest r) (rq_source_id r) = Inr r"
    and "parseIngestSegmentCreate (request_json r) = Inr r"
proof -
  have same: "same_object (persisted_props r) (persisted_props r)"
    by (simp add: same_object_def persisted_props_distinct)
  show native: "parseNativeSegmentCreate (persistedRequest r) = Inr r"
    unfolding persistedRequest_def by (rule decode_native [OF assms same])
  have json: "request_json r = persistedRequest r"
    using assms(2) by (simp add: request_json_def persistedRequest_def persisted_props_def field_def Let_def)
  have has: "hasNativeBoundary (persistedRequest r)"
    using persisted_lookup(2) [of r] assms(2) by (simp add: hasNativeBoundary_def persistedRequest_def flip: prop_of_def)
  have "ident_ok (rq_source_id r)" using assms(1) by (simp add: valid_request_def Let_def)
  with native has show "decodePersistedIngestSegment (persistedRequest r) (rq_source_id r) = Inr r"
    by (simp add: decodePersistedIngestSegment_def)
  from native has show "parseIngestSegmentCreate (request_json r) = Inr r"
    by (simp add: json parseIngestSegmentCreate_def)
qed

lemma sample_boundary: "rb_boundary (rq_body sample_native) = Boundary3 (js ''a'') (js ''b'')"
  "rq_source_id sample_native = js ''s''" "rb_projection_version (rq_body sample_native) = 3"
  "rb_processing_priority (rq_body sample_native) = 0" "rb_session_id (rq_body sample_native) = js ''t''"
  by (simp_all add: sample_native_def)

lemma sample_decodes [simp]:
  "parseNativeSegmentCreate (persistedRequest sample_native) = Inr sample_native"
  "decodePersistedIngestSegment payload1 (js ''s'') = Inr sample_native"
  "parseIngestSegmentCreate (request_json sample_native) = Inr sample_native"
  using native_round_trip [OF valid_sample_native] by (simp_all add: sample_boundary payload1_def)

lemma sample_parses [simp]:
  "parseSourceInfo sample_source = Inr sample_source" "parseSourceId (Str (js ''s'')) = Inr (js ''s'')"
  by (simp_all add: parseSourceInfo_def sample_source_def parseSourceId_def sample_trim ident_def ident_ok_def)

lemma sample_identity [simp]:
  "ingestSegmentIdForRequest flat_crypto sample_native sample_source = Inr []"
  "ingestSourceFingerprint flat_crypto r = []"
  "ingestProjectionFingerprintForBoundary flat_crypto s b x v = []"
  by (simp_all add: ingestSegmentIdForRequest_def nativeSegmentIdForRequest_def sample_boundary flat_crypto_def
      ingestSourceFingerprint_def nativeSourceFingerprint_def sourceFingerprint_def
      ingestProjectionFingerprintForBoundary_def projectionFingerprint_def split: source_boundary.splits)
   (simp_all add: sample_source_def)

lemma registered [simp]: "d_sources d = [sample_source] \<Longrightarrow> registeredSource d (js ''s'') = Inr sample_source"
  by (simp add: registeredSource_def sample_trim db_lift_def) (simp add: sample_source_def js_def)

section \<open>The run\<close>

lemma db_simps [simp]:
  "d_sources db0 = [sample_source]" "d_jobs db0 = []" "d_targets db0 = []" "d_segments db0 = []"
  "d_entities db0 = []" "d_aliases db0 = []" "d_next_id db0 = 0" "d_now db0 = 0"
  by (simp_all add: db0_def empty_db_def)

lemma source_simps [simp]: "src_id sample_source = js ''s''" "native_source sample_source"
  by (simp_all add: sample_source_def native_source_def)

lemma run_enqueue: "enqueue flat_crypto flat_vfp sample_native db0 = Inr (job1, db1)"
proof -
  have "fresh_job db0 sample_source [] [] sample_native \<lparr>j_payload := Some payload1, j_generation := 1\<rparr> = job1"
    by (simp add: fresh_job_def job1_def request_boundary_def sample_boundary)
  then have "enqueue_new sample_source [] [] sample_native None None [] db0 = Inr (job1, db1)"
    by (simp add: enqueue_new_def next_generation_def upsert_job_def replace_target_def supersede_others_def
        respond_def jobRow_def find_job_def owned_by_def append_job_def update_jobs_def flip: payload1_def)
      (simp add: job1_def target1_def db1_def append_job_def request_boundary_def sample_boundary)
  moreover have "adopt sample_source [] db0 = Inr db0"
    by (simp add: adopt_def adopt_group_def Let_def)
  ultimately show ?thesis
    by (simp add: enqueue_def db_lift_def sample_boundary request_boundary_def validateSegmentOwnership_def owned_rows_def
        enqueue_segment_def segment_jobs_def segment_target_def current_segment_def boundary_job_def lower_version_def)
qed

text \<open>The segment of the run has one owner, whatever state its rows are in.\<close>

definition sample_rows :: "db \<Rightarrow> bool" where
  "sample_rows d \<longleftrightarrow> d_sources d = [sample_source] \<and> d_segments d = []
     \<and> (\<exists>j. d_jobs d = [j] \<and> j_segment_id j = [] \<and> j_id j = 0 \<and> job_owned j = job_owned job1)
     \<and> (\<exists>t. d_targets d = [t] \<and> tg_segment_id t = [] \<and> target_owned t = target_owned target1)"

lemma sample_owned:
  assumes "sample_rows d"
  shows "validateSegmentOwnership flat_crypto d [] (Some sample_source) = Inr (Some sample_source)"
proof -
  from assms obtain j t where d: "d_sources d = [sample_source]" "d_segments d = []" "d_jobs d = [j]" "d_targets d = [t]"
    and j: "j_segment_id j = []" "j_id j = 0" "job_owned j = job_owned job1" "tg_segment_id t = []" "target_owned t = target_owned target1"
    by (auto simp: sample_rows_def)
  have "owned_rows d [] = [job_owned job1, target_owned target1]" using d j by (simp add: owned_rows_def)
  moreover have "j_source_id j = Some (js ''s'')" using arg_cong [OF j(3), of ow_source_id] by (simp add: job_owned_def job1_def)
  ultimately show ?thesis using d j
    by (simp add: validateSegmentOwnership_def check_owned_row_def job_owned_def target_owned_def job1_def target1_def
        effectiveSource_def check_payload_def sample_boundary db_lift_def fields_match_def Let_def
        check_target_job_def find_job_def)
qed

lemma sample_rows_db [simp]: "sample_rows db1" "sample_rows db2"
  by (simp_all add: sample_rows_def db1_def db2_def job1_def job2_def target1_def job_owned_def)

lemma run_claim: "claimOldestJob flat_crypto flat_vfp lease1 [] db1 = Inr (Some claim1, db2)"
proof -
  have e: "eligible db1 [] job1" "joined_target db1 job1 = Some target1"
    by (simp_all add: eligible_def joined_target_def same_target_columns_def boundary_matches_def db1_def job1_def target1_def)
  have cand: "claim_candidate db1 [] = Some job1"
  proof -
    have "filter (eligible db1 []) (d_jobs db1) = [job1]" using e by (simp add: db1_def)
    then show ?thesis
      by (simp add: claim_candidate_def Let_def first_of_session_def precedes_def older_def updated_at_def e)
  qed
  have own: "validateSegmentOwnership flat_crypto db1 [] (Some sample_source) = Inr (Some sample_source)"
    by (rule sample_owned) simp
  have j: "j_source_id job1 = Some (js ''s'')" "j_segment_id job1 = []" "j_payload job1 = Some payload1"
    "find_job (j_id job1) db1 = Some job1" "j_status job1 = Pending"
    by (simp_all add: job1_def db1_def find_job_def)
  have src: "effectiveSource db1 (Some (js ''s'')) = Inr sample_source" by (simp add: effectiveSource_def db1_def)
  have "request_matches_job flat_crypto sample_native sample_source job1 = Inr True"
    by (simp add: request_matches_job_def sample_boundary request_boundary_def boundary_matches_def db_lift_def job1_def)
  moreover have "start_claim flat_crypto flat_vfp lease1 sample_source sample_native job1 db1 = Inr (Some claim1, db2)"
    by (simp add: start_claim_def Let_def e staged_eligible_def)
      (simp add: db1_def db2_def db0_def empty_db_def update_jobs_def job1_def job2_def claim1_def target1_def)
  ultimately have "claim_pending flat_crypto flat_vfp lease1 sample_source job1 db1 = Inr (Some claim1, db2)"
    by (simp add: claim_pending_def j)
  with cand own j src show ?thesis by (simp add: claimOldestJob_def)
qed

definition extraction1 :: extraction where
  "extraction1 = \<lparr>ex_summary = js ''s'', ex_claims = []\<rparr>"

definition target2 :: target_row where
  "target2 = target1\<lparr>tg_staged := Some \<lparr>st_result = extraction1, st_validation_version = 3,
     st_validation_fingerprint = [], st_summary_fingerprint = []\<rparr>\<rparr>"

definition db3 :: db where
  "db3 = db2\<lparr>d_targets := [target2]\<rparr>"

lemma sample_rows_db3 [simp]: "sample_rows db3"
  by (simp add: sample_rows_def db3_def db2_def db1_def job1_def job2_def target1_def target2_def job_owned_def target_owned_def)

lemma sample_claim:
  assumes "sample_rows d" "find_job 0 d = Some job2"
  shows "validateClaim flat_crypto claim1 d = Inr sample_source" "current_claim claim1 d = Some job2"
    "persistedJobMatchesClaim job2 claim1"
proof -
  from assms(1) have "d_sources d = [sample_source]" by (simp add: sample_rows_def)
  then show "validateClaim flat_crypto claim1 d = Inr sample_source"
    using sample_owned [OF assms(1)] assms(2)
    by (simp add: validateClaim_def db_lift_def ownedIngestRequest_def sample_boundary claim1_def effective_owner_def)
      (simp add: job2_def job1_def)
  show "current_claim claim1 d = Some job2" using assms(2) by (simp add: current_claim_def claim1_def) (simp add: job2_def)
  show "persistedJobMatchesClaim job2 claim1"
    by (simp add: persistedJobMatchesClaim_def claim1_def job2_def job1_def sample_boundary request_boundary_def boundary_matches_def)
qed

lemma sample_target:
  "t = target1 \<or> t = target2 \<Longrightarrow> targetMatchesJob flat_crypto (Some t) claim1 sample_source"
  by (auto simp: targetMatchesJob_def targetMatchesRequest_def target1_def target2_def claim1_def sample_boundary
      request_boundary_def boundary_matches_def)

lemma extraction1_ok [simp]: "extractionResultForPersistence extraction1 = Inr extraction1"
  by (simp add: extractionResultForPersistence_def db_lift_def parseExtractionResult_def extraction1_def sample_trim)
    (simp add: js_def)

lemma run_publish: "publishExtraction flat_crypto flat_vfp claim1 extraction1 db2 = Inr (True, db3)"
proof -
  have f: "find_job 0 db2 = Some job2" "find_target [] db2 = Some target1"
    by (simp_all add: db2_def db1_def find_job_def find_target_def target1_def) (simp add: job2_def job1_def)
  have "filter (claim_target claim1) (d_targets db2) = [target1]"
    by (simp add: db2_def db1_def claim_target_def claim1_def target1_def sample_boundary request_boundary_def boundary_matches_def)
  then show ?thesis
    using sample_claim [OF sample_rows_db(2) f(1)] sample_target [of target1] f(2)
    by (simp add: publishExtraction_def Let_def)
      (simp add: claim1_def db3_def db2_def db1_def update_targets_def claim_target_def target1_def target2_def
        sample_boundary request_boundary_def boundary_matches_def flat_vfp_def EXTRACTION_VALIDATION_VERSION_def)
qed

definition entity1 :: prepared_entity where
  "entity1 = \<lparr>pe_id = js ''e'', pe_canonicalName = js ''E'', pe_normalizedName = js ''e'', pe_description = js ''d'',
     pe_aliases = [js ''e''], pe_isNew = True\<rparr>"

definition prepared1 :: prepared_segment where
  "prepared1 = \<lparr>pp_id = [], pp_session_id = js ''t'', pp_boundary = Boundary3 (js ''a'') (js ''b''),
     pp_summary = js ''s'', pp_entities = [entity1],
     pp_claims = [\<lparr>pc_id = js ''c'', pc_subject = js ''E'', pc_subject_entity_id = js ''e'', pc_predicate = js ''p'',
       pc_confidence = 1, pc_object_entity = None, pc_object_entity_id = None, pc_object_value = Some (js ''v''),
       pc_equivalence_key = js ''k''\<rparr>],
     pp_projection_version = 3\<rparr>"

definition fold1 :: "jsstr \<Rightarrow> jsstr" where
  "fold1 s = s"

lemma run_commit: "\<exists>d. commitResolution flat_crypto fold1 flat_vfp claim1 extraction1 prepared1 db3 = Inr (True, d)"
proof -
  have f: "find_job 0 db3 = Some job2" "find_target [] db3 = Some target2" "find_segment [] db3 = None"
    by (simp_all add: db3_def db2_def db1_def find_job_def find_target_def find_segment_def target2_def target1_def)
      (simp add: job2_def job1_def)
  have e: "staged_eligible flat_crypto flat_vfp db3 target2"
    by (simp add: staged_eligible_def effective_owner_def target2_def target1_def EXTRACTION_VALIDATION_VERSION_def
        flat_vfp_def extraction1_def sample_trim) (simp add: js_def)
  obtain d1 where d1: "put_entities fold1 (pp_entities prepared1) db3 = Inr d1" "d_segments d1 = []"
    "d_jobs d1 = [job2]" "d_targets d1 = [target2]" "entity_exists d1 (js ''e'')"
    by (simp add: put_entities_def Let_def prepared1_def entity1_def upsert_entity_def entity_exists_def db3_def db2_def db1_def)
  obtain d2 where d2: "put_segment claim1 prepared1 [] d1 = Inr d2" "d_jobs d2 = [job2]" "d_targets d2 = [target2]"
    using d1 by (simp add: put_segment_def Let_def prepared1_def claim_row_ok_def claim_entity_ids_def)
  have "claimed_row claim1 job2"
    by (simp add: claimed_row_def holds_lease_def claim1_def job2_def job1_def sample_boundary request_boundary_def boundary_matches_def)
  moreover have "committed_target flat_vfp claim1 extraction1 [] target2"
    by (simp add: committed_target_def claim_target_def claim1_def target2_def target1_def sample_boundary
        request_boundary_def boundary_matches_def EXTRACTION_VALIDATION_VERSION_def flat_vfp_def)
  ultimately have "\<exists>d. commit_staged fold1 flat_vfp claim1 extraction1 prepared1 [] db3 = Inr (True, d)"
    using f(3) d1(1) d2 by (simp add: commit_staged_def Let_def drop_orphans_frame prepared1_def)
  moreover have "prepared_matches_claim prepared1 claim1 extraction1"
    by (simp add: prepared_matches_claim_def prepared1_def claim1_def extraction1_def sample_boundary request_boundary_def boundary_matches_def)
  moreover have "cj_segmentId claim1 = []" "tg_staged target2 = Some \<lparr>st_result = extraction1, st_validation_version = 3,
     st_validation_fingerprint = [], st_summary_fingerprint = []\<rparr>" by (simp_all add: claim1_def target2_def)
  ultimately show ?thesis
    using sample_claim [OF sample_rows_db3 f(1)] sample_target [of target2] f(2) e
    by (simp add: commitResolution_def Let_def)
qed

lemma sample_runs: "\<exists>d. runs (queue_step flat_crypto fold1 flat_vfp) db0
    [EnqueueTx sample_native, ClaimTx lease1 [], PublishTx claim1 extraction1, CommitTx claim1 extraction1 prepared1] d"
  using run_commit run_enqueue run_claim run_publish by (blast intro: runs.intros queue_step.intros)

text \<open>A second submission with another priority, while the job runs.\<close>

lemma queue_db2: "queue_ok db2"
proof -
  have "runs (queue_step flat_crypto fold1 flat_vfp) (empty_db [sample_source] 0) [EnqueueTx sample_native, ClaimTx lease1 []] db2"
    using run_enqueue run_claim unfolding db0_def by (blast intro: runs.intros queue_step.intros)
  then show ?thesis by (rule reachable_queue)
qed

lemma urgent_simps:
  "rb_boundary (rq_body urgent_native) = Boundary3 (js ''a'') (js ''b'')"
  "rq_source_id urgent_native = js ''s''" "rb_projection_version (rq_body urgent_native) = 3"
  "rb_processing_priority (rq_body urgent_native) = 7" "rb_session_id (rq_body urgent_native) = js ''t''"
  by (simp_all add: urgent_native_def sample_native_def)

lemma run_resubmit: "\<exists>j d. enqueue flat_crypto flat_vfp urgent_native db2 = Inr (j, d)"
proof -
  note urgent = native_round_trip [OF valid_urgent_native, unfolded urgent_simps, simplified]
  have id: "ingestSegmentIdForRequest flat_crypto urgent_native sample_source = Inr []"
    by (simp add: ingestSegmentIdForRequest_def nativeSegmentIdForRequest_def urgent_simps urgent(1) flat_crypto_def)
      (simp add: sample_source_def)
  have rows: "j_source_id job2 = Some (js ''s'')" "tg_source_id target1 = Some (js ''s'')" "j_segment_id job2 = []"
    "tg_segment_id target1 = []" "d_jobs db2 = [job2]" "d_targets db2 = [target1]" "d_segments db2 = []"
    "j_projection_version job2 = 3" "tg_projection_version target1 = 3" "tg_job_id target1 = 0" "j_id job2 = 0"
    "tg_staged target1 = None" "d_sources db2 = [sample_source]" "j_status job2 = Running"
    by (simp_all add: job2_def job1_def target1_def db2_def db1_def)
  have adopt: "adopt sample_source [] db2 = Inr db2"
    by (simp add: adopt_def Let_def adopt_group_def rows)
  have match: "targetMatchesRequest flat_crypto (Some target1) urgent_native [] [] sample_source"
    by (simp add: targetMatchesRequest_def urgent_simps sample_boundary request_boundary_def boundary_matches_def
        rows) (simp add: target1_def urgent_simps sample_boundary request_boundary_def boundary_matches_def)
  have "\<exists>j d. refresh_target flat_crypto flat_vfp sample_source [] urgent_native [job2] target1 db2 = Inr (j, d)"
    by (simp add: refresh_target_def Let_def rows respond_def jobRow_def find_job_def update_jobs_def update_targets_def owned_by_def)
  then have "\<exists>j d. enqueue_segment flat_crypto flat_vfp sample_source [] urgent_native db2 = Inr (j, d)"
    using match by (simp add: enqueue_segment_def Let_def segment_jobs_def segment_target_def current_segment_def
        boundary_job_def lower_version_def owned_by_def rows urgent_simps)
  with sample_owned [OF sample_rows_db(2)] urgent(3) id adopt show ?thesis
    by (simp add: enqueue_def db_lift_def urgent_simps request_boundary_def rows)
qed

end
