(* ===== verification/QueueSafety.thy ===== *)
theory QueueSafety
  imports SampleRun
begin

text \<open>
  What the queue promises: the state of the tables after any run, the fences of a lease, and what a
  successful claim, recovery or commit has done.
\<close>

section \<open>Every reachable state\<close>

text \<open>
  C13. In every state any interleaving of transactions can reach from an empty installation, a segment
  has at most one running job and one target, exactly the running jobs hold a lease, a target's job is
  a job of the target's segment, and no job of a segment is of a later generation than its target.
\<close>

theorem reachable_queue_consistent:
  assumes "runs (queue_step cr cf vfp) (empty_db sources now) es d"
  shows "(\<forall>a\<in>set (d_jobs d). \<forall>b\<in>set (d_jobs d). j_status a = Running \<and> j_status b = Running
           \<and> j_segment_id a = j_segment_id b \<longrightarrow> a = b)
    \<and> (\<forall>j\<in>set (d_jobs d). j_status j = Running \<longleftrightarrow> j_lease_id j \<noteq> None)
    \<and> distinct (map tg_segment_id (d_targets d))
    \<and> (\<forall>t\<in>set (d_targets d). \<exists>j\<in>set (d_jobs d). j_id j = tg_job_id t \<and> j_segment_id j = tg_segment_id t)
    \<and> (\<forall>t\<in>set (d_targets d). \<forall>j\<in>set (d_jobs d). j_segment_id j = tg_segment_id t \<longrightarrow> j_generation j \<le> tg_generation t)"
proof -
  from reachable_queue [OF assms] have ok: "queue_ok d" .
  note base = queue_okD(1) [OF ok]
  have "a = b" if "a \<in> set (d_jobs d)" "b \<in> set (d_jobs d)" "j_status a = Running" "j_status b = Running"
    "j_segment_id a = j_segment_id b" for a b
    by (rule same_id_same_job [OF base that(1,2) base_running [OF base that]])
  moreover have "\<forall>j\<in>set (d_jobs d). j_status j = Running \<longleftrightarrow> j_lease_id j \<noteq> None"
    using base_lease [OF base] by (simp add: lease_ok_def)
  ultimately show ?thesis
    using base_targets [OF base] base_refs [OF base] queue_okD(2) [OF ok] unfolding gen_ok_def by blast
qed

theorem reachable_queue_consistent_witness:
  "\<exists>d. distinct (map tg_segment_id (d_targets d)) \<and> runs (queue_step flat_crypto fold1 flat_vfp) db0
    [EnqueueTx sample_native, ClaimTx lease1 [], PublishTx claim1 extraction1, CommitTx claim1 extraction1 prepared1] d"
  using sample_runs reachable_queue_consistent unfolding db0_def by blast

section \<open>Leases fence workers\<close>

lemma stale_finish: "current_claim job d = None \<Longrightarrow> finishFailedAttempt cr job err retry d = Inr (b, d') \<Longrightarrow> \<not> b \<and> d' = d"
  by (auto simp: finishFailedAttempt_def)

lemma stale_publish: "current_claim job d = None \<Longrightarrow> publishExtraction cr vfp job ex d = Inr (b, d') \<Longrightarrow> \<not> b \<and> d' = d"
  by (auto simp: publishExtraction_def Let_def)

lemma stale_commit: "current_claim job d = None \<Longrightarrow> commitResolution cr cf vfp job ex p d \<noteq> Inr x"
  by (auto simp: commitResolution_def Let_def split: if_splits)

text \<open>
  C14. A lease that is lost is lost for good: once a worker's job is no longer running under its lease,
  then after any further transactions, as long as the lease's UUID is not drawn again, whatever the
  worker still sends changes nothing; reporting and publishing are answered with false, committing
  fails.
\<close>

theorem lost_lease_is_final:
  assumes "queue_ok d" and "current_claim job d = None" and "runs (queue_step cr cf vfp) d es d1"
    and "list_all (no_claim_of (cj_leaseId job)) es"
  shows "(finishFailedAttempt cr job err retry d1 = Inr (b, d2) \<longrightarrow> \<not> b \<and> d2 = d1)
    \<and> (publishExtraction cr vfp job ex d1 = Inr (b, d2) \<longrightarrow> \<not> b \<and> d2 = d1)
    \<and> commitResolution cr cf vfp job ex p d1 \<noteq> Inr (b, d2)"
proof -
  from assms(1,2) have "lease_gone job d" by (simp add: lease_gone_current)
  with assms(3,4) have gone: "lease_gone job d1" by (rule lease.runs_inv)
  then have none: "current_claim job d1 = None" using lease_gone_current by (auto simp: lease_gone_def)
  show ?thesis
    by (intro conjI impI stale_commit [OF none] stale_finish [OF none] stale_publish [OF none])
qed

theorem lost_lease_is_final_witness:
  "commitResolution flat_crypto fold1 flat_vfp claim1 extraction1 prepared1 db1 \<noteq> Inr (True, db1)
    \<and> runs (queue_step flat_crypto fold1 flat_vfp) db0 [EnqueueTx sample_native] db1"
proof -
  have run: "runs (queue_step flat_crypto fold1 flat_vfp) db0 [EnqueueTx sample_native] db1"
    using run_enqueue by (blast intro: runs.intros queue_step.intros)
  have none: "queue_ok db0" "current_claim claim1 db0 = None"
    by (simp_all add: db0_def empty_queue) (simp add: empty_db_def current_claim_def find_job_def)
  have "list_all (no_claim_of (cj_leaseId claim1)) [EnqueueTx sample_native]" by (simp add: no_claim_of_def)
  from lost_lease_is_final [OF none run this] run show ?thesis by blast
qed

text \<open>
  C15. A submission never disturbs work in progress: every running job's row survives \<open>enqueue\<close>
  unchanged, except that an unowned row may gain the source that adopts its segment.
\<close>

theorem enqueue_keeps_running:
  assumes "enqueue cr vfp request d = Inr (r, d')" and "queue_ok d" and "j \<in> set (d_jobs d)" and "j_status j = Running"
  shows "\<exists>k\<in>set (d_jobs d'). k\<lparr>j_source_id := j_source_id j\<rparr> = j"
  using enqueue_quiet [OF assms(1,2)] assms(3,4) by (simp add: quiet_def running_kept_def)

theorem enqueue_keeps_running_witness:
  "\<exists>j d. enqueue flat_crypto flat_vfp urgent_native db2 = Inr (j, d)
     \<and> (\<exists>k\<in>set (d_jobs d). k\<lparr>j_source_id := j_source_id job2\<rparr> = job2)"
proof -
  obtain j d where run: "enqueue flat_crypto flat_vfp urgent_native db2 = Inr (j, d)" using run_resubmit by blast
  have "job2 \<in> set (d_jobs db2)" "j_status job2 = Running" by (simp_all add: db2_def job2_def)
  from enqueue_keeps_running [OF run queue_db2 this] run show ?thesis by blast
qed

end
