(* ===== verification/ClaimOrder.thy ===== *)
theory ClaimOrder
  imports SampleRun
begin

text \<open>
  Which job \<open>claimOldestJob\<close> hands out: the window functions of its query order the eligible jobs by a
  well-founded relation, so there is a first one whenever there is an eligible one, and it is the
  oldest of a most urgent session.
\<close>

section \<open>The order of the query\<close>

definition age_key :: "db \<Rightarrow> job_row \<Rightarrow> nat \<times> nat \<times> nat" where
  "age_key d j = (case updated_at d j of Some x \<Rightarrow> (0, x, j_id j) | None \<Rightarrow> (1, 0, j_id j))"

lemma older_key: "older d a b \<Longrightarrow> (age_key d a, age_key d b) \<in> less_than <*lex*> less_than <*lex*> less_than"
  by (auto simp: older_def age_key_def split: option.splits)

lemma wf_older: "wf {(a, b). older d a b}"
  by (rule wf_subset [OF wf_inv_image [of "less_than <*lex*> less_than <*lex*> less_than" "age_key d"]])
    (auto simp: inv_image_def older_key)

lemma oldest_exists:
  assumes "j \<in> A"
  shows "\<exists>k\<in>A. \<not> (\<exists>l\<in>A. older d l k)"
proof -
  from wfE_min [OF wf_older assms, of d] obtain k where k: "k \<in> A"
    "\<And>l. (l, k) \<in> {(a, b). older d a b} \<Longrightarrow> l \<notin> A" by blast
  have "\<not> older d l k" if "l \<in> A" for l using k(2) [of l] that by auto
  with k(1) show ?thesis by blast
qed

lemma same_session_equiv: "same_session d a a" "same_session d a b \<Longrightarrow> same_session d b a"
  "same_session d a b \<Longrightarrow> same_session d b c \<Longrightarrow> same_session d a c"
  by (simp_all add: same_session_def)

lemma foldl_max_ge: "x \<in> set xs \<Longrightarrow> x \<le> foldl max a xs" for x :: nat
proof -
  have "foldl max a xs \<ge> a \<and> (\<forall>x\<in>set xs. x \<le> foldl max a xs)" for a
  proof (induction xs arbitrary: a)
    case (Cons y ys)
    from Cons.IH [of "max a y"] show ?case by auto
  qed simp
  then show "x \<in> set xs \<Longrightarrow> x \<le> foldl max a xs" by blast
qed

lemma session_urgency_ge:
  "k \<in> set es \<Longrightarrow> same_session d k j \<Longrightarrow> job_urgency d k \<le> session_urgency d es j"
  unfolding session_urgency_def by (rule foldl_max_ge) simp

lemma session_urgency_cong: "same_session d a b \<Longrightarrow> session_urgency d es a = session_urgency d es b"
proof -
  assume "same_session d a b"
  then have "same_session d k a = same_session d k b" for k using same_session_equiv by blast
  then show ?thesis by (simp add: session_urgency_def)
qed

text \<open>Every eligible job's session has a first job.\<close>

lemma first_exists:
  assumes "k \<in> set es"
  shows "\<exists>f\<in>set (filter (first_of_session d es) es). same_session d f k"
proof -
  from oldest_exists [of k "{l \<in> set es. same_session d l k}" d] assms same_session_equiv(1)
  obtain f where f: "f \<in> set es" "same_session d f k" "\<not> (\<exists>l\<in>{l \<in> set es. same_session d l k}. older d l f)"
    by blast
  then have "first_of_session d es f"
    unfolding first_of_session_def using same_session_equiv(3) by blast
  with f show ?thesis by auto
qed

lemma unpreceded_exists:
  assumes "j \<in> set fs"
  shows "\<exists>k\<in>set fs. \<not> (\<exists>l\<in>set fs. precedes d es l k)"
proof -
  define top where "top = Max (session_urgency d es ` set fs)"
  define best where "best = {k \<in> set fs. session_urgency d es k = top}"
  have "top \<in> session_urgency d es ` set fs" unfolding top_def using assms by (intro Max_in) auto
  then obtain b where "b \<in> best" unfolding best_def by auto
  from oldest_exists [OF this] obtain k where k: "k \<in> best" "\<not> (\<exists>l\<in>best. older d l k)" by blast
  have le: "session_urgency d es l \<le> top" if "l \<in> set fs" for l
    using that unfolding top_def by (intro Max_ge) auto
  have "\<not> precedes d es l k" if l: "l \<in> set fs" for l
  proof
    assume "precedes d es l k"
    with k(1) le [OF l] have "l \<in> best" "older d l k" using l unfolding precedes_def best_def by auto
    with k(2) show False by blast
  qed
  with k(1) show ?thesis unfolding best_def by blast
qed

text \<open>
  No eligible job waits while the queue is asked: a candidate is found exactly when some job is
  eligible.
\<close>

theorem claim_candidate_exists:
  "claim_candidate d excluded \<noteq> None \<longleftrightarrow> (\<exists>j\<in>set (d_jobs d). eligible d excluded j)"
proof
  assume "claim_candidate d excluded \<noteq> None"
  then show "\<exists>j\<in>set (d_jobs d). eligible d excluded j" using claim_candidateD by blast
next
  let ?es = "filter (eligible d excluded) (d_jobs d)"
  assume "\<exists>j\<in>set (d_jobs d). eligible d excluded j"
  then obtain j where "j \<in> set ?es" by auto
  from first_exists [OF this] obtain f where "f \<in> set (filter (first_of_session d ?es) ?es)" by blast
  from unpreceded_exists [OF this] show "claim_candidate d excluded \<noteq> None"
    unfolding claim_candidate_def Let_def by (auto simp: find_None_iff)
qed

lemma claim_candidate_facts:
  assumes "claim_candidate d excluded = Some j"
  defines "es \<equiv> filter (eligible d excluded) (d_jobs d)"
  shows "\<And>k. k \<in> set es \<Longrightarrow> same_session d k j \<Longrightarrow> \<not> older d k j"
    and "\<And>k. k \<in> set es \<Longrightarrow> job_urgency d k \<le> session_urgency d es j"
proof -
  note c = find_SomeD [OF assms(1) [unfolded claim_candidate_def Let_def], folded es_def]
  from c have "j \<in> set (filter (first_of_session d es) es)"
    and min: "\<not> (\<exists>k\<in>set (filter (first_of_session d es) es). precedes d es k j)"
    by blast+
  then have first: "first_of_session d es j" by simp
  then show "\<not> older d k j" if "k \<in> set es" "same_session d k j" for k
    using that unfolding first_of_session_def by blast
  show "job_urgency d k \<le> session_urgency d es j" if k: "k \<in> set es" for k
  proof -
    from first_exists [OF k] obtain f where f: "f \<in> set (filter (first_of_session d es) es)" "same_session d f k" by blast
    have "job_urgency d k \<le> session_urgency d es f"
      by (rule session_urgency_ge [OF k same_session_equiv(2) [OF f(2)]])
    also have "\<dots> \<le> session_urgency d es j" using min f(1) unfolding precedes_def by (meson not_le)
    finally show ?thesis .
  qed
qed

text \<open>
  C16. A claim hands out the right job: it was pending and due, nothing ran in its segment, its source
  and session were not excluded; no eligible job of its session is older and no eligible job is more
  urgent than its session; and the worker gets the request its payload decodes to, with that
  request's segment ID and fingerprint, while the row is running under the new lease.
\<close>

theorem claim_selects:
  assumes "claimOldestJob cr vfp lease excluded d = Inr (Some c, d')"
  shows "\<exists>j source. j \<in> set (d_jobs d) \<and> eligible d excluded j \<and> j_id j = cj_id c
    \<and> j_status j = Pending \<and> j_next_attempt_at j \<le> d_now d
    \<and> (\<forall>r\<in>set (d_jobs d). j_segment_id r = j_segment_id j \<longrightarrow> j_status r \<noteq> Running)
    \<and> (\<forall>k\<in>set (d_jobs d). eligible d excluded k \<longrightarrow> job_urgency d k \<le> session_urgency d (filter (eligible d excluded) (d_jobs d)) j
          \<and> (same_session d k j \<longrightarrow> \<not> older d k j))
    \<and> map_option (\<lambda>p. decodePersistedIngestSegment p (cj_sourceId c)) (j_payload j) = Some (Inr (cj_request c))
    \<and> effectiveSource d (j_source_id j) = Inr source \<and> src_id source = cj_sourceId c
    \<and> ingestSegmentIdForRequest cr (cj_request c) source = Inr (cj_segmentId c)
    \<and> cj_sourceFingerprint c = ingestSourceFingerprint cr (cj_request c)
    \<and> cj_leaseId c = lease \<and> started_row lease (d_now d) j \<in> set (d_jobs d')"
  using assms
proof (cases rule: claimOldestJob_cases)
  case (claimed j source s payload r)
  note j = claim_candidateD [OF claimed(1)]
  from claimed(7) obtain staged where c: "c = \<lparr>cj_id = j_id j, cj_segmentId = j_segment_id j, cj_leaseId = lease,
             cj_sourceGeneration = j_generation j, cj_sourceFingerprint = the (j_fingerprint j),
             cj_attempts = j_attempts j + 1, cj_sourceId = src_id source, cj_request = r,
             cj_extractionResult = staged\<rparr>"
    and d': "d' = update_jobs (\<lambda>k. j_id k = j_id j \<and> j_status k = Pending) (started_row lease (d_now d)) d"
    by (rule start_claimD) blast
  from claimed(6) have r: "ingestSegmentIdForRequest cr r source = Inr (j_segment_id j)"
    "j_fingerprint j = Some (ingestSourceFingerprint cr r)"
    by (auto simp: request_matches_job_def db_lift_Inr split: if_splits)
  have "started_row lease (d_now d) j \<in> set (d_jobs d')"
    unfolding d' update_jobs_simps set_map using j by (intro image_eqI [of _ _ j]) (auto simp: eligible_def)
  moreover have "\<forall>k\<in>set (d_jobs d). eligible d excluded k
      \<longrightarrow> job_urgency d k \<le> session_urgency d (filter (eligible d excluded) (d_jobs d)) j
          \<and> (same_session d k j \<longrightarrow> \<not> older d k j)"
    using claim_candidate_facts [OF claimed(1)] by simp
  moreover have "j_status j = Pending" "j_next_attempt_at j \<le> d_now d"
    "\<forall>r\<in>set (d_jobs d). j_segment_id r = j_segment_id j \<longrightarrow> j_status r \<noteq> Running"
    using j by (auto simp: eligible_def)
  ultimately show ?thesis
    using j claimed(2,4,5) r unfolding c by (intro exI [of _ j] exI [of _ source]) simp
qed simp_all

theorem claim_selects_witness:
  "started_row lease1 0 job1 \<in> set (d_jobs db2) \<and> cj_sourceFingerprint claim1 = ingestSourceFingerprint flat_crypto sample_native"
proof -
  have "cj_request claim1 = sample_native" by (simp add: claim1_def)
  with claim_selects [OF run_claim] show ?thesis by (auto simp: db1_def)
qed

end
