(* ===== verification/JsonText.thy ===== *)
theory JsonText
  imports Json
begin

text \<open>
  \<open>JSON.stringify\<close> loses nothing of a value that came out of \<open>JSON.parse\<close>: its text, followed by anything
  that ends a value, determines the value. Comparing such values by their texts, as the code does, is
  comparing them.
\<close>

section \<open>Strings\<close>

definition hex_value :: "16 word \<Rightarrow> nat" where
  "hex_value u = (if u < 58 then unat u - 48 else unat u - 87)"

definition escape_value :: "16 word \<Rightarrow> 16 word" where
  "escape_value e = (if e = 0x62 then 8 else if e = 0x74 then 9 else if e = 0x6E then 10
     else if e = 0x66 then 12 else if e = 0x72 then 13 else e)"

text \<open>Reads a string literal after its opening quote: the string, and what follows its closing quote.\<close>

fun unquote :: "jsstr \<Rightarrow> (jsstr \<times> jsstr) option" where
  "unquote [] = None"
| "unquote (u # s) =
     (if u = 0x22 then Some ([], s)
      else if u \<noteq> 0x5C then map_option (apfst ((#) u)) (unquote s)
      else case s of
          [] \<Rightarrow> None
        | e # s1 \<Rightarrow>
            if e \<noteq> 0x75 then map_option (apfst ((#) (escape_value e))) (unquote s1)
            else case s1 of
                a # b # c # d # s2 \<Rightarrow>
                  map_option (apfst ((#) (of_nat (hex_value a * 4096 + hex_value b * 256 + hex_value c * 16 + hex_value d))))
                    (unquote s2)
              | _ \<Rightarrow> None)"

lemma hex_value_digit: "d < 16 \<Longrightarrow> hex_value (hex_digit d) = d"
  by (simp add: hex_value_def hex_digit_def word_less_nat_alt unsigned_of_nat take_bit_eq_mod del: of_nat_add)

lemma hex_recompose:
  "n div 4096 * 4096 + n div 256 mod 16 * 256 + n div 16 mod 16 * 16 + n mod 16 = (n::nat)"
proof -
  have "n div 256 = n div 16 div 16" "n div 4096 = n div 256 div 16"
    by (simp_all add: div_mult2_eq [symmetric])
  moreover have "n = n div 16 * 16 + n mod 16" "n div 16 = n div 16 div 16 * 16 + n div 16 mod 16"
    "n div 256 = n div 256 div 16 * 16 + n div 256 mod 16" by simp_all
  ultimately show ?thesis by linarith
qed

lemma unquote_unicode: "unquote (unicode_escape u @ s) = map_option (apfst ((#) u)) (unquote s)"
proof -
  have "unat u < 2 ^ LENGTH(16)" by (rule unsigned_less)
  then have "unat u div 4096 < 16" by simp
  then show ?thesis
    using arg_cong [OF hex_recompose [of "unat u"], of "of_nat :: nat \<Rightarrow> 16 word"] by (simp add: unicode_escape_def js_def hex_value_digit)
qed

lemma unquote_unit: "unquote (quote_unit u @ s) = map_option (apfst ((#) u)) (unquote s)"
  by (auto simp: quote_unit_def unquote_unicode escape_value_def)

lemma unquote_quote: "unquote (quote_units s @ 0x22 # r) = Some (s, r)"
proof (induction s rule: quote_units.induct)
  case 1
  show ?case by simp
next
  case (2 u)
  show ?case by (simp add: unquote_unicode unquote_unit)
next
  case (3 u v s)
  show ?case
  proof (cases "is_high u \<and> is_low v")
    case True
    then have "u \<noteq> 0x22" "u \<noteq> 0x5C" "v \<noteq> 0x22" "v \<noteq> 0x5C"
      by (auto simp: is_high_def is_low_def word_le_nat_alt)
    with True 3(1) show ?thesis by simp
  next
    case False
    with 3(2) show ?thesis by (auto simp: unquote_unicode unquote_unit)
  qed
qed

lemma json_string_split: "json_string s @ r = json_string t @ r' \<longleftrightarrow> s = t \<and> r = r'"
proof
  assume "json_string s @ r = json_string t @ r'"
  then have "quote_units s @ 0x22 # r = quote_units t @ 0x22 # r'" by (simp add: json_string_def)
  then have "unquote (quote_units s @ 0x22 # r) = unquote (quote_units t @ 0x22 # r')" by simp
  then show "s = t \<and> r = r'" by (simp add: unquote_quote)
qed simp

section \<open>Values\<close>

definition num_unit :: "16 word \<Rightarrow> bool" where
  "num_unit u \<longleftrightarrow> digit_unit u \<or> u \<in> {0x2B, 0x2D, 0x2E, 0x65}"

text \<open>The values \<open>JSON.parse\<close> returns.\<close>

fun json_value :: "jsval \<Rightarrow> bool" where
  "json_value Undefined = False"
| "json_value Callable = False"
| "json_value Null = True"
| "json_value (Boolean b) = True"
| "json_value (Num n) = (n \<noteq> [] \<and> list_all num_unit n)"
| "json_value (Str s) = True"
| "json_value (Arr vs) = list_all json_value vs"
| "json_value (Obj ps) = list_all (\<lambda>p. json_value (snd p)) ps"

definition ends_value :: "jsstr \<Rightarrow> bool" where
  "ends_value r \<longleftrightarrow> r = [] \<or> hd r \<in> {0x2C, 0x5D, 0x7D}"

lemma ends_value_simps [simp]:
  "ends_value []" "ends_value (0x2C # r)" "ends_value (0x5D # r)" "ends_value (0x7D # r)"
  by (simp_all add: ends_value_def)

abbreviation value_text :: "jsval \<Rightarrow> jsstr" where
  "value_text v \<equiv> the (stringify v)"

text \<open>The first unit of a value's text tells its kind.\<close>

definition value_head :: "jsval \<Rightarrow> 16 word \<Rightarrow> bool" where
  "value_head v u = (case v of
     Null \<Rightarrow> u = 0x6E | Boolean b \<Rightarrow> u = (if b then 0x74 else 0x66) | Num n \<Rightarrow> num_unit u | Str s \<Rightarrow> u = 0x22
   | Arr vs \<Rightarrow> u = 0x5B | Obj ps \<Rightarrow> u = 0x7B | _ \<Rightarrow> False)"

lemma num_finite: "list_all num_unit n \<Longrightarrow> finite_num n"
  by (cases n; cases "tl n") (auto simp: finite_num_def js_def num_unit_def digit_unit_def)

lemma json_value_text: "json_value v \<Longrightarrow> \<exists>u s. stringify v = Some (u # s) \<and> value_head v u"
  by (cases v; cases "\<exists>n. v = Num n") (auto simp: value_head_def js_def json_string_def num_finite neq_Nil_conv)

lemma value_head_ends: "value_head v u \<Longrightarrow> \<not> ends_value (u # r)"
  by (auto simp: value_head_def ends_value_def num_unit_def digit_unit_def split: jsval.splits if_splits)

lemma num_split:
  assumes "list_all num_unit n" "list_all num_unit m" "n @ r = m @ r'" "ends_value r" "ends_value r'"
  shows "n = m \<and> r = r'"
proof -
  have out: "takeWhile num_unit q = []" if "ends_value q" for q
    using that by (cases q) (auto simp: ends_value_def num_unit_def digit_unit_def)
  have "takeWhile num_unit (n @ r) = n" "takeWhile num_unit (m @ r') = m"
    using assms(1,2) out [OF assms(4)] out [OF assms(5)] by (simp_all add: list_all_iff takeWhile_append2)
  with assms(3) show ?thesis by auto
qed

section \<open>Lists of values\<close>

text \<open>\<open>splits v\<close>: in front of whatever ends a value the text of \<open>v\<close> is the text of no other value.\<close>

definition splits :: "jsval \<Rightarrow> bool" where
  "splits v \<longleftrightarrow> (\<forall>w r r'. json_value w \<longrightarrow> value_text v @ r = value_text w @ r' \<longrightarrow> ends_value r \<longrightarrow> ends_value r'
     \<longrightarrow> v = w \<and> r = r')"

lemma splitsD: "splits v \<Longrightarrow> json_value w \<Longrightarrow> value_text v @ r = value_text w @ r' \<Longrightarrow> ends_value r \<Longrightarrow> ends_value r'
    \<Longrightarrow> v = w \<and> r = r'"
  by (simp add: splits_def)

definition element_texts :: "jsval list \<Rightarrow> jsstr" where
  "element_texts vs = concat (map (\<lambda>v. 0x2C # value_text v) vs)"

definition entry_text :: "jsstr \<times> jsval \<Rightarrow> jsstr" where
  "entry_text p = json_string (fst p) @ 0x3A # value_text (snd p)"

definition entry_texts :: "(jsstr \<times> jsval) list \<Rightarrow> jsstr" where
  "entry_texts ps = concat (map (\<lambda>p. 0x2C # entry_text p) ps)"

lemma element_texts_split:
  assumes "\<forall>v\<in>set vs. splits v" "list_all json_value ws"
    "element_texts vs @ 0x5D # r = element_texts ws @ 0x5D # r'"
  shows "vs = ws \<and> r = r'"
  using assms
proof (induction vs arbitrary: ws)
  case Nil
  then show ?case by (cases ws) (auto simp: element_texts_def)
next
  case (Cons v vs)
  obtain w ws' where w: "ws = w # ws'"
    using Cons.prems(3) by (cases ws) (auto simp: element_texts_def)
  have ends: "ends_value (element_texts us @ 0x5D # q)" for us q
    by (cases us) (simp_all add: element_texts_def)
  have "value_text v @ element_texts vs @ 0x5D # r = value_text w @ element_texts ws' @ 0x5D # r'"
    using Cons.prems(3) by (simp add: w element_texts_def)
  from splitsD [OF _ _ this ends ends] Cons.prems(1,2)
  have "v = w" "element_texts vs @ 0x5D # r = element_texts ws' @ 0x5D # r'" by (simp_all add: w)
  with Cons.IH [of ws'] Cons.prems(1,2) show ?case by (simp add: w)
qed

lemma entry_texts_split:
  assumes "\<forall>p\<in>set ps. splits (snd p)" "list_all (\<lambda>p. json_value (snd p)) qs"
    "entry_texts ps @ 0x7D # r = entry_texts qs @ 0x7D # r'"
  shows "ps = qs \<and> r = r'"
  using assms
proof (induction ps arbitrary: qs)
  case Nil
  then show ?case by (cases qs) (auto simp: entry_texts_def)
next
  case (Cons p ps)
  obtain q qs' where q: "qs = q # qs'"
    using Cons.prems(3) by (cases qs) (auto simp: entry_texts_def)
  have ends: "ends_value (entry_texts us @ 0x7D # s)" for us s
    by (cases us) (simp_all add: entry_texts_def)
  have "json_string (fst p) @ 0x3A # value_text (snd p) @ entry_texts ps @ 0x7D # r
      = json_string (fst q) @ 0x3A # value_text (snd q) @ entry_texts qs' @ 0x7D # r'"
    using Cons.prems(3) by (simp add: q entry_texts_def entry_text_def)
  then have key: "fst p = fst q" and "value_text (snd p) @ entry_texts ps @ 0x7D # r
      = value_text (snd q) @ entry_texts qs' @ 0x7D # r'"
    by (simp_all add: json_string_split)
  from splitsD [OF _ _ this(2) ends ends] Cons.prems(1,2)
  have "snd p = snd q" "entry_texts ps @ 0x7D # r = entry_texts qs' @ 0x7D # r'" by (simp_all add: q)
  with Cons.IH [of qs'] Cons.prems(1,2) key show ?case by (simp add: q prod_eq_iff)
qed

section \<open>The text determines the value\<close>

lemma arr_text: "list_all json_value vs \<Longrightarrow>
  value_text (Arr vs) = 0x5B # (case vs of [] \<Rightarrow> [] | v # ws \<Rightarrow> value_text v @ element_texts ws) @ [0x5D]"
proof -
  assume vs: "list_all json_value vs"
  then have "map (\<lambda>v. case stringify v of None \<Rightarrow> js ''null'' | Some t \<Rightarrow> t) vs = map value_text vs"
    using json_value_text by (auto simp: list_all_iff) (metis option.simps(5) option.sel)
  then show ?thesis
    by (cases vs) (simp_all add: join_def js_def element_texts_def comp_def cong: map_cong)
qed

lemma obj_text: "list_all (\<lambda>p. json_value (snd p)) ps \<Longrightarrow>
  value_text (Obj ps) = 0x7B # (case ps of [] \<Rightarrow> [] | p # qs \<Rightarrow> entry_text p @ entry_texts qs) @ [0x7D]"
proof -
  assume ps: "list_all (\<lambda>p. json_value (snd p)) ps"
  have "concat (map (\<lambda>(k, v). case stringify v of None \<Rightarrow> [] | Some t \<Rightarrow> [json_string k @ js '':'' @ t]) ps)
      = map entry_text ps"
    using ps
  proof (induction ps)
    case (Cons p ps)
    then obtain u s where "stringify (snd p) = Some (u # s)" using json_value_text [of "snd p"] by auto
    with Cons show ?case by (cases p) (simp add: entry_text_def js_def)
  qed simp
  then show ?thesis
    by (cases ps) (simp_all add: join_def js_def entry_texts_def comp_def)
qed

lemma same_head:
  assumes "json_value v" "json_value w" "value_text v @ r = value_text w @ r'"
  obtains u where "value_head v u" "value_head w u"
  using assms(3) json_value_text [OF assms(1)] json_value_text [OF assms(2)] by auto

lemma list_split:
  assumes "\<forall>v\<in>set vs. splits v" "list_all json_value vs" "list_all json_value ws"
    "value_text (Arr vs) @ r = value_text (Arr ws) @ r'"
  shows "vs = ws \<and> r = r'"
proof (cases "vs = [] \<or> ws = []")
  case True
  have "value_text v @ q \<noteq> 0x5D # q' \<and> 0x5D # q' \<noteq> value_text v @ q" if "json_value v" for v q q'
    using json_value_text [OF that] value_head_ends [of v] by (auto simp: ends_value_def)
  note head = this
  show ?thesis
    using True assms(2-4) head [of "hd vs"] head [of "hd ws"] unfolding arr_text [OF assms(2)] arr_text [OF assms(3)]
    by (cases vs; cases ws) (auto simp del: stringify.simps)
next
  case False
  then obtain v vs' w ws' where v: "vs = v # vs'" "ws = w # ws'" by (auto simp: neq_Nil_conv)
  have "element_texts vs @ 0x5D # r = element_texts ws @ 0x5D # r'"
    using assms(4) unfolding arr_text [OF assms(2)] arr_text [OF assms(3)]
    by (simp add: v element_texts_def del: stringify.simps)
  from element_texts_split [OF assms(1,3) this] show ?thesis .
qed

lemma obj_split:
  assumes "\<forall>p\<in>set ps. splits (snd p)" "list_all (\<lambda>p. json_value (snd p)) ps" "list_all (\<lambda>p. json_value (snd p)) qs"
    "value_text (Obj ps) @ r = value_text (Obj qs) @ r'"
  shows "ps = qs \<and> r = r'"
proof (cases "ps = [] \<or> qs = []")
  case True
  then show ?thesis
    using assms(4) unfolding obj_text [OF assms(2)] obj_text [OF assms(3)]
    by (cases ps; cases qs) (auto simp: entry_text_def json_string_def simp del: stringify.simps)
next
  case False
  then obtain p ps' q qs' where p: "ps = p # ps'" "qs = q # qs'" by (auto simp: neq_Nil_conv)
  have "entry_texts ps @ 0x7D # r = entry_texts qs @ 0x7D # r'"
    using assms(4) unfolding obj_text [OF assms(2)] obj_text [OF assms(3)]
    by (simp add: p entry_texts_def del: stringify.simps)
  from entry_texts_split [OF assms(1,3) this] show ?thesis .
qed

lemma json_splits: "json_value v \<Longrightarrow> splits v"
proof (induction v rule: json_value.induct)
  case 3
  show ?case
    unfolding splits_def
  proof (intro allI impI)
    fix w r r'
    assume w: "json_value w" "value_text Null @ r = value_text w @ r'"
    obtain u where "value_head Null u" "value_head w u" by (rule same_head [OF _ w(1,2)]) simp_all
    then have "w = Null" by (cases w) (auto simp: value_head_def num_unit_def digit_unit_def split: if_splits)
    with w show "Null = w \<and> r = r'" by simp
  qed
next
  case (4 b)
  show ?case
    unfolding splits_def
  proof (intro allI impI)
    fix w r r'
    assume w: "json_value w" "value_text (Boolean b) @ r = value_text w @ r'"
    obtain u where "value_head (Boolean b) u" "value_head w u" by (rule same_head [OF _ w(1,2)]) simp_all
    then have "w = Boolean b" by (cases w) (auto simp: value_head_def num_unit_def digit_unit_def split: if_splits)
    with w show "Boolean b = w \<and> r = r'" by simp
  qed
next
  case (5 n)
  show ?case
    unfolding splits_def
  proof (intro allI impI)
    fix w r r'
    assume w: "json_value w" "value_text (Num n) @ r = value_text w @ r'" "ends_value r" "ends_value r'"
    obtain u where "value_head (Num n) u" "value_head w u" by (rule same_head [OF _ w(1,2)]) (use 5 in simp_all)
    then obtain m where m: "w = Num m"
      by (cases w) (auto simp: value_head_def num_unit_def digit_unit_def split: if_splits)
    with w 5 have "n @ r = m @ r'" by (simp add: num_finite)
    with num_split w 5 m show "Num n = w \<and> r = r'" by auto
  qed
next
  case (6 s)
  show ?case
    unfolding splits_def
  proof (intro allI impI)
    fix w r r'
    assume w: "json_value w" "value_text (Str s) @ r = value_text w @ r'"
    obtain u where "value_head (Str s) u" "value_head w u" by (rule same_head [OF _ w(1,2)]) simp_all
    then obtain t where t: "w = Str t"
      by (cases w) (auto simp: value_head_def num_unit_def digit_unit_def split: if_splits)
    with w show "Str s = w \<and> r = r'" by (simp add: json_string_split)
  qed
next
  case (7 vs)
  have vs: "\<forall>v\<in>set vs. splits v" "list_all json_value vs"
    using 7 by (auto simp: list_all_iff)
  show ?case
    unfolding splits_def
  proof (intro allI impI)
    fix w r r'
    assume w: "json_value w" "value_text (Arr vs) @ r = value_text w @ r'"
    obtain u where "value_head (Arr vs) u" "value_head w u" by (rule same_head [OF _ w(1,2)]) (use 7(2) in simp_all)
    then obtain ws where ws: "w = Arr ws"
      by (cases w) (auto simp: value_head_def num_unit_def digit_unit_def split: if_splits)
    show "Arr vs = w \<and> r = r'"
      using list_split [OF vs _ w(2) [unfolded ws]] w(1) by (simp add: ws del: stringify.simps)
  qed
next
  case (8 ps)
  have ps: "\<forall>p\<in>set ps. splits (snd p)" "list_all (\<lambda>p. json_value (snd p)) ps"
    using 8 by (auto simp: list_all_iff)
  show ?case
    unfolding splits_def
  proof (intro allI impI)
    fix w r r'
    assume w: "json_value w" "value_text (Obj ps) @ r = value_text w @ r'"
    obtain u where "value_head (Obj ps) u" "value_head w u" by (rule same_head [OF _ w(1,2)]) (use 8(2) in simp_all)
    then obtain qs where qs: "w = Obj qs"
      by (cases w) (auto simp: value_head_def num_unit_def digit_unit_def split: if_splits)
    show "Obj ps = w \<and> r = r'"
      using obj_split [OF ps _ w(2) [unfolded qs]] w(1) by (simp add: qs del: stringify.simps)
  qed
qed simp_all

theorem json_text_injective:
  assumes "json_value v" "json_value w" "json_text v = json_text w"
  shows "v = w"
proof -
  have "stringify v \<noteq> None" "stringify w \<noteq> None" using json_value_text assms(1,2) by fastforce+
  then have "value_text v @ [] = value_text w @ []" using assms(3) by (auto simp: json_text_def)
  from splitsD [OF json_splits [OF assms(1)] assms(2) this] show ?thesis by simp
qed

end
