(* ===== verification/SessionKeys.thy ===== *)
theory SessionKeys
  imports Contracts JsonText
begin

text \<open>
  \<open>sourceSessionKey\<close> of \<open>packages/shared/src/sources.ts\<close>: the key of a session is the JSON text of a
  pair of strings. The text determines the value, so the key identifies the pair.
\<close>

record source_session =
  ss_sourceId :: jsstr
  ss_sessionId :: jsstr

definition sourceSessionKey :: "source_session \<Rightarrow> jsstr" where
  "sourceSessionKey s = the (stringify (Arr [Str (ss_sourceId s), Str (ss_sessionId s)]))"

lemma session_key_cancel: "sourceSessionKey s = sourceSessionKey t \<Longrightarrow> s = t"
proof -
  assume "sourceSessionKey s = sourceSessionKey t"
  then have "json_text (Arr [Str (ss_sourceId s), Str (ss_sessionId s)]) = json_text (Arr [Str (ss_sourceId t), Str (ss_sessionId t)])"
    by (simp add: sourceSessionKey_def json_text_def)
  from json_text_injective [OF _ _ this] show "s = t" by (cases s; cases t) simp
qed

text \<open>
  A session key identifies the session: two sessions have the same key exactly when they have the
  same source and the same session ID, whatever characters the IDs contain.
\<close>

theorem sourceSessionKey_inject: "sourceSessionKey s = sourceSessionKey t \<longleftrightarrow> s = t"
  using session_key_cancel by blast

end
