(* ===== verification/Worker.thy ===== *)
theory Worker
  imports SessionKeys QueueLeases
begin

text \<open>
  \<open>ExtractionWorker\<close> of \<open>server/src/worker.ts\<close>. A task is one call of \<open>process\<close>, advanced one awaited
  call at a time; between its steps other tasks and the HTTP service run their transactions. Timings
  and log lines are left out. What the engine's model calls answer is the environment's choice.
\<close>

section \<open>Processing one job\<close>

datatype process_result = Progressed | Stale

record worker_settings =
  workerConcurrency :: nat
  workerMaxAttempts :: nat
  workerRetryBackoffSeconds :: nat

text \<open>
  Where \<open>process\<close> stands: before \<open>extract\<close>, before \<open>publishExtraction\<close>, before the lane, waiting for
  it, before \<open>resolve\<close>, before \<open>commitResolution\<close>, before \<open>finishFailedAttempt\<close>; \<open>Crashed\<close> when that
  one throws as well.
\<close>

datatype stage =
  Started
| Extracted extraction
| Ready extraction
| Queued extraction
| Resolving extraction
| Prepared extraction prepared_segment
| Failing jsstr bool
| Finished process_result
| Crashed

text \<open>What an awaited engine call gives; an error carries \<open>errorText\<close> and whether it is terminal.\<close>

datatype reply = ExtractReply extraction | ResolveReply prepared_segment | ErrorReply jsstr bool

definition db_error_text :: "db_error \<Rightarrow> jsstr" where
  "db_error_text e = (case e of OwnershipError m \<Rightarrow> js ''OwnershipValidationError: '' @ js m
     | DbError m \<Rightarrow> js ''Error: '' @ js m)"

definition retryAfter :: "worker_settings \<Rightarrow> claimed_job \<Rightarrow> bool \<Rightarrow> nat option" where
  "retryAfter s job terminal =
     (if terminal then None
      else if cj_attempts job < workerMaxAttempts s then Some (workerRetryBackoffSeconds s) else None)"

fun process_next ::
  "crypto \<Rightarrow> (jsstr \<Rightarrow> jsstr) \<Rightarrow> (extraction \<Rightarrow> nat \<Rightarrow> jsstr option \<Rightarrow> jsstr) \<Rightarrow> worker_settings \<Rightarrow> claimed_job
     \<Rightarrow> reply \<Rightarrow> stage \<Rightarrow> db \<Rightarrow> stage \<times> db" where
  "process_next cr cf vfp s job reply Started d =
     (case cj_extractionResult job of
        Some e \<Rightarrow> (Ready e, d)
      | None \<Rightarrow> (case reply of
            ExtractReply e \<Rightarrow> (Extracted e, d)
          | ErrorReply t terminal \<Rightarrow> (Failing t terminal, d)
          | ResolveReply p \<Rightarrow> (Started, d)))"
| "process_next cr cf vfp s job reply (Extracted e) d =
     (case publishExtraction cr vfp job e d of
        Inl err \<Rightarrow> (Failing (db_error_text err) False, d)
      | Inr (published, d') \<Rightarrow> (if published then Ready e else Finished Stale, d'))"
| "process_next cr cf vfp s job reply (Ready e) d =
     (if ex_claims e = [] then Resolving e else Queued e, d)"
| "process_next cr cf vfp s job reply (Queued e) d = (Resolving e, d)"
| "process_next cr cf vfp s job reply (Resolving e) d =
     (case reply of
        ResolveReply p \<Rightarrow> (Prepared e p, d)
      | ErrorReply t terminal \<Rightarrow> (Failing t terminal, d)
      | ExtractReply x \<Rightarrow> (Resolving e, d))"
| "process_next cr cf vfp s job reply (Prepared e p) d =
     (case commitResolution cr cf vfp job e p d of
        Inl err \<Rightarrow> (Failing (db_error_text err) False, d)
      | Inr (committed, d') \<Rightarrow> (Finished (if committed then Progressed else Stale), d'))"
| "process_next cr cf vfp s job reply (Failing t terminal) d =
     (case finishFailedAttempt cr job t (retryAfter s job terminal) d of
        Inl err \<Rightarrow> (Crashed, d)
      | Inr (updated, d') \<Rightarrow> (Finished (if updated then Progressed else Stale), d'))"
| "process_next cr cf vfp s job reply (Finished r) d = (Finished r, d)"
| "process_next cr cf vfp s job reply Crashed d = (Crashed, d)"

text \<open>The resolution a task may get is one the engine computes for its extraction.\<close>

definition reply_ok ::
  "crypto \<Rightarrow> (jsstr \<Rightarrow> jsstr) \<Rightarrow> claimed_job \<Rightarrow> stage \<Rightarrow> reply \<Rightarrow> bool" where
  "reply_ok cr cf job st reply =
     (case (st, reply) of
        (Resolving e, ResolveReply p) \<Rightarrow> (\<exists>candidates answer. resolve cr cf candidates answer job e = Inr p)
      | _ \<Rightarrow> True)"

section \<open>The work loop\<close>

text \<open>
  \<open>w_lane\<close> is \<open>ResolutionLane\<close>: the session keys of the tasks that chained themselves to its tail, the
  first of which is running. \<open>w_sessions\<close> is \<open>activeSessions\<close>.
\<close>

record worker =
  w_db :: db
  w_tasks :: "(claimed_job \<times> stage) list"
  w_sessions :: "(jsstr \<times> source_session) list"
  w_lane :: "jsstr list"
  w_staleBackoff :: bool
  w_stopping :: bool

definition job_session :: "claimed_job \<Rightarrow> source_session" where
  "job_session job = \<lparr>ss_sourceId = cj_sourceId job, ss_sessionId = rb_session_id (rq_body (cj_request job))\<rparr>"

definition sessionKey :: "claimed_job \<Rightarrow> jsstr" where
  "sessionKey job = sourceSessionKey (job_session job)"

definition put_session :: "claimed_job \<Rightarrow> (jsstr \<times> source_session) list \<Rightarrow> (jsstr \<times> source_session) list" where
  "put_session job ss =
     (if sessionKey job \<in> fst ` set ss
      then map (\<lambda>(k, v). (k, if k = sessionKey job then job_session job else v)) ss
      else ss @ [(sessionKey job, job_session job)])"

definition delete_session :: "claimed_job \<Rightarrow> (jsstr \<times> source_session) list \<Rightarrow> (jsstr \<times> source_session) list" where
  "delete_session job ss = filter (\<lambda>p. fst p \<noteq> sessionKey job) ss"

definition excluded_sessions :: "(jsstr \<times> source_session) list \<Rightarrow> (jsstr \<times> jsstr) list" where
  "excluded_sessions ss = map (\<lambda>(k, v). (ss_sourceId v, ss_sessionId v)) ss"

text \<open>A task with claims is in the lane from the moment it asks for it until \<open>finally\<close> releases it.\<close>

fun in_lane :: "stage \<Rightarrow> bool" where
  "in_lane (Queued e) = True"
| "in_lane (Resolving e) = (ex_claims e \<noteq> [])"
| "in_lane (Prepared e p) = (ex_claims e \<noteq> [])"
| "in_lane _ = False"

fun queued :: "stage \<Rightarrow> bool" where
  "queued (Queued e) = True"
| "queued _ = False"

definition move_lane :: "jsstr \<Rightarrow> stage \<Rightarrow> stage \<Rightarrow> jsstr list \<Rightarrow> jsstr list" where
  "move_lane key st st' lane =
     (if \<not> in_lane st \<and> in_lane st' then lane @ [key]
      else if in_lane st \<and> \<not> in_lane st' then filter (\<lambda>k. k \<noteq> key) lane else lane)"

text \<open>The transactions of the HTTP service; the advisory lock keeps other workers away.\<close>

definition service_tx :: "transaction \<Rightarrow> bool" where
  "service_tx e = (case e of EnqueueTx r \<Rightarrow> True | RetryTx src i b \<Rightarrow> True | SupersedeTx src i \<Rightarrow> True
     | TickTx n \<Rightarrow> True | _ \<Rightarrow> False)"

definition fresh_lease :: "jsstr \<Rightarrow> worker \<Rightarrow> bool" where
  "fresh_lease lease w \<longleftrightarrow> \<not> (\<exists>j\<in>set (d_jobs (w_db w)). j_lease_id j = Some lease)
     \<and> \<not> (\<exists>t\<in>set (w_tasks w). cj_leaseId (fst t) = lease)"

text \<open>What a step does; \<open>Unexpected\<close> is the \<open>catch\<close> of \<open>#dispatchJob\<close>.\<close>

datatype worker_event =
  Dispatch claimed_job
| NoJob
| Advance claimed_job
| Settled claimed_job process_result
| Unexpected claimed_job
| BackoffOver
| StopRequested
| Service transaction

inductive worker_step ::
  "crypto \<Rightarrow> (jsstr \<Rightarrow> jsstr) \<Rightarrow> (extraction \<Rightarrow> nat \<Rightarrow> jsstr option \<Rightarrow> jsstr) \<Rightarrow> worker_settings
     \<Rightarrow> worker \<Rightarrow> worker_event \<Rightarrow> worker \<Rightarrow> bool" for cr cf vfp s where
  worker_claim: "\<not> w_stopping w \<Longrightarrow> \<not> w_staleBackoff w \<Longrightarrow> length (w_tasks w) < workerConcurrency s
     \<Longrightarrow> fresh_lease lease w
     \<Longrightarrow> claimOldestJob cr vfp lease (excluded_sessions (w_sessions w)) (w_db w) = Inr (Some job, d')
     \<Longrightarrow> worker_step cr cf vfp s w (Dispatch job) (w\<lparr>w_db := d', w_tasks := w_tasks w @ [(job, Started)],
          w_sessions := put_session job (w_sessions w)\<rparr>)"
| worker_idle: "\<not> w_stopping w \<Longrightarrow> \<not> w_staleBackoff w \<Longrightarrow> length (w_tasks w) < workerConcurrency s
     \<Longrightarrow> claimOldestJob cr vfp lease (excluded_sessions (w_sessions w)) (w_db w) = Inr (None, d')
     \<Longrightarrow> worker_step cr cf vfp s w NoJob (w\<lparr>w_db := d'\<rparr>)"
| worker_task: "i < length (w_tasks w) \<Longrightarrow> w_tasks w ! i = (job, st) \<Longrightarrow> reply_ok cr cf job st reply
     \<Longrightarrow> (queued st \<longrightarrow> w_lane w \<noteq> [] \<and> hd (w_lane w) = sessionKey job)
     \<Longrightarrow> process_next cr cf vfp s job reply st (w_db w) = (st', d')
     \<Longrightarrow> worker_step cr cf vfp s w (Advance job) (w\<lparr>w_db := d', w_tasks := (w_tasks w)[i := (job, st')],
          w_lane := move_lane (sessionKey job) st st' (w_lane w)\<rparr>)"
| worker_done: "w_tasks w = before @ (job, Finished r) # after
     \<Longrightarrow> worker_step cr cf vfp s w (Settled job r) (w\<lparr>w_tasks := before @ after,
          w_sessions := delete_session job (w_sessions w), w_staleBackoff := w_staleBackoff w \<or> r = Stale\<rparr>)"
| worker_crash: "w_tasks w = before @ (job, Crashed) # after
     \<Longrightarrow> worker_step cr cf vfp s w (Unexpected job) (w\<lparr>w_tasks := before @ after,
          w_sessions := delete_session job (w_sessions w)\<rparr>)"
| worker_backoff: "worker_step cr cf vfp s w BackoffOver (w\<lparr>w_staleBackoff := False\<rparr>)"
| worker_stop: "worker_step cr cf vfp s w StopRequested (w\<lparr>w_stopping := True\<rparr>)"
| worker_service: "queue_step cr cf vfp (w_db w) e d' \<Longrightarrow> service_tx e
     \<Longrightarrow> worker_step cr cf vfp s w (Service e) (w\<lparr>w_db := d'\<rparr>)"

text \<open>\<open>#workLoop\<close> starts right after recovery.\<close>

definition work_loop :: "db \<Rightarrow> worker" where
  "work_loop d = \<lparr>w_db = d, w_tasks = [], w_sessions = [], w_lane = [], w_staleBackoff = False, w_stopping = False\<rparr>"

section \<open>The worker process\<close>

text \<open>
  \<open>#run\<close>: take the advisory lock, recover the queue, run \<open>#workLoop\<close>, and start over when it ends.
  A claim that fails, or \<open>stop\<close>, ends the loop, whose \<open>finally\<close> waits for the tasks. Without the lock
  another process may do anything. Recovery that fails keeps the segments it has recovered. A lock
  lost with its connection is not modelled.
\<close>

datatype worker_process = Unlocked db | Working worker | Draining worker

datatype process_event = Elsewhere transaction | Locked | Working_step worker_event | Leave | Unlock

definition drains :: "worker_event \<Rightarrow> bool" where
  "drains e = (case e of Advance c \<Rightarrow> True | Settled c r \<Rightarrow> True | Unexpected c \<Rightarrow> True | StopRequested \<Rightarrow> True
     | Service x \<Rightarrow> True | _ \<Rightarrow> False)"

inductive process_step ::
  "crypto \<Rightarrow> (jsstr \<Rightarrow> jsstr) \<Rightarrow> (extraction \<Rightarrow> nat \<Rightarrow> jsstr option \<Rightarrow> jsstr) \<Rightarrow> worker_settings
     \<Rightarrow> worker_process \<Rightarrow> process_event \<Rightarrow> worker_process \<Rightarrow> bool" for cr cf vfp s where
  process_elsewhere: "queue_step cr cf vfp d e d' \<Longrightarrow> process_step cr cf vfp s (Unlocked d) (Elsewhere e) (Unlocked d')"
| process_recovered: "recoverRunningJobs cr d = (Inr n, d')
     \<Longrightarrow> process_step cr cf vfp s (Unlocked d) Locked (Working (work_loop d'))"
| process_unrecovered: "recoverRunningJobs cr d = (Inl err, d')
     \<Longrightarrow> process_step cr cf vfp s (Unlocked d) Locked (Unlocked d')"
| process_work: "worker_step cr cf vfp s w e w'
     \<Longrightarrow> process_step cr cf vfp s (Working w) (Working_step e) (Working w')"
| process_stop: "w_stopping w \<Longrightarrow> process_step cr cf vfp s (Working w) Leave (Draining w)"
| process_fail: "claimOldestJob cr vfp lease (excluded_sessions (w_sessions w)) (w_db w) = Inl err
     \<Longrightarrow> process_step cr cf vfp s (Working w) Leave (Draining w)"
| process_drain: "worker_step cr cf vfp s w e w' \<Longrightarrow> drains e
     \<Longrightarrow> process_step cr cf vfp s (Draining w) (Working_step e) (Draining w')"
| process_unlock: "w_tasks w = [] \<Longrightarrow> process_step cr cf vfp s (Draining w) Unlock (Unlocked (w_db w))"

text \<open>The worker of a process that holds the lock.\<close>

fun process_worker :: "worker_process \<Rightarrow> worker option" where
  "process_worker (Unlocked d) = None"
| "process_worker (Working w) = Some w"
| "process_worker (Draining w) = Some w"

end
