(* ===== verification/JobLifecycle.thy ===== *)
theory JobLifecycle
  imports QueueLeases
begin

text \<open>
  The life of a job as its status column shows it: an abstract automaton per job, with the edges each
  transaction may take, and the proof that every run of the queue refines it.
\<close>

section \<open>The automaton\<close>

fun status_edge :: "transaction \<Rightarrow> job_status \<Rightarrow> job_status \<Rightarrow> bool" where
  "status_edge (EnqueueTx r) s s' \<longleftrightarrow> s' = s \<or> s \<noteq> Running \<and> s' \<noteq> Running \<and> s' \<noteq> Failed"
| "status_edge (ClaimTx l ex) s s' \<longleftrightarrow> s' = s \<or> s = Pending \<and> s' \<in> {Running, Failed} \<or> s = Running \<and> s' = Failed"
| "status_edge RecoverTx s s' \<longleftrightarrow> s' = s \<or> s = Running \<and> s' \<in> {Pending, Superseded, Failed} \<or> s = Pending \<and> s' = Failed"
| "status_edge (RetryTx src i b) s s' \<longleftrightarrow> s' = s \<or> s = Failed \<and> s' = Pending"
| "status_edge (SupersedeTx src i) s s' \<longleftrightarrow> s' = s \<or> s = Failed \<and> s' = Superseded"
| "status_edge (FailTx c err r) s s' \<longleftrightarrow> s' = s \<or> s' = Pending \<or> s = Running \<and> s' \<in> {Failed, Superseded}"
| "status_edge (PublishTx c e) s s' \<longleftrightarrow> s' = s \<or> s' = Pending \<or> s = Running \<and> s' = Superseded"
| "status_edge (CommitTx c e p) s s' \<longleftrightarrow> s' = s \<or> s' = Pending \<or> s = Running \<and> s' \<in> {Succeeded, Superseded}"
| "status_edge (TickTx n) s s' \<longleftrightarrow> s' = s"

fun created :: "transaction \<Rightarrow> job_status \<Rightarrow> bool" where
  "created (EnqueueTx r) s \<longleftrightarrow> s \<noteq> Running \<and> s \<noteq> Failed"
| "created _ s \<longleftrightarrow> False"

lemma status_edge_refl [simp]: "status_edge e s s"
  by (cases e) simp_all

lemma status_edge_trans: "status_edge e a b \<Longrightarrow> status_edge e b c \<Longrightarrow> status_edge e a c"
  by (cases e) auto

lemma created_edge: "created e s \<Longrightarrow> status_edge e s s' \<Longrightarrow> created e s'"
  by (cases e) auto

text \<open>The abstraction: the segment and status of each job.\<close>

definition job_states :: "db \<Rightarrow> nat \<Rightarrow> (jsstr \<times> job_status) option" where
  "job_states d i = map_option (\<lambda>j. (j_segment_id j, j_status j)) (find_job i d)"

definition lifecycle :: "(nat \<Rightarrow> (jsstr \<times> job_status) option) \<Rightarrow> transaction \<Rightarrow> (nat \<Rightarrow> (jsstr \<times> job_status) option) \<Rightarrow> bool" where
  "lifecycle m e m' \<longleftrightarrow> (\<forall>i. case m i of
       Some (seg, s) \<Rightarrow> (\<exists>s'. m' i = Some (seg, s') \<and> status_edge e s s')
     | None \<Rightarrow> (case m' i of None \<Rightarrow> True | Some (seg, s') \<Rightarrow> created e s'))"

locale simulation =
  fixes step :: "'s \<Rightarrow> 'e \<Rightarrow> 's \<Rightarrow> bool" and spec :: "'a \<Rightarrow> 'e \<Rightarrow> 'a \<Rightarrow> bool" and abs_state :: "'s \<Rightarrow> 'a" and inv :: "'s \<Rightarrow> bool"
  assumes sim_inv: "step d e d' \<Longrightarrow> inv d \<Longrightarrow> inv d'"
    and sim_step: "step d e d' \<Longrightarrow> inv d \<Longrightarrow> spec (abs_state d) e (abs_state d')"
begin

lemma runs_simulate: "runs step d es d' \<Longrightarrow> inv d \<Longrightarrow> runs spec (abs_state d) es (abs_state d')"
proof (induction rule: runs.induct)
  case (runs_cons d e d1 es d2)
  then show ?case using sim_step [OF runs_cons.hyps(1)] sim_inv [OF runs_cons.hyps(1)] by (blast intro: runs.runs_cons)
qed (rule runs.runs_nil)

end

section \<open>Rows\<close>

definition rows_step :: "transaction \<Rightarrow> db \<Rightarrow> db \<Rightarrow> bool" where
  "rows_step e d d' \<longleftrightarrow>
     (\<forall>j\<in>set (d_jobs d). \<exists>k\<in>set (d_jobs d'). j_id k = j_id j \<and> j_segment_id k = j_segment_id j
        \<and> status_edge e (j_status j) (j_status k))
     \<and> (\<forall>k\<in>set (d_jobs d'). (\<exists>j\<in>set (d_jobs d). j_id j = j_id k) \<or> created e (j_status k))"

lemma rows_unchanged: "d_jobs d' = d_jobs d \<Longrightarrow> rows_step e d d'"
  by (auto simp: rows_step_def)

lemma rows_trans:
  assumes "rows_step e d d1" "rows_step e d1 d2" "distinct (map j_id (d_jobs d2))"
  shows "rows_step e d d2"
  unfolding rows_step_def
proof (intro conjI ballI)
  fix j assume "j \<in> set (d_jobs d)"
  with assms(1) obtain k where k: "k \<in> set (d_jobs d1)" "j_id k = j_id j" "j_segment_id k = j_segment_id j"
    "status_edge e (j_status j) (j_status k)" unfolding rows_step_def by blast
  with assms(2) obtain l where "l \<in> set (d_jobs d2)" "j_id l = j_id k" "j_segment_id l = j_segment_id k"
    "status_edge e (j_status k) (j_status l)" unfolding rows_step_def by blast
  with k show "\<exists>l\<in>set (d_jobs d2). j_id l = j_id j \<and> j_segment_id l = j_segment_id j
      \<and> status_edge e (j_status j) (j_status l)" by (metis status_edge_trans)
next
  fix l assume l: "l \<in> set (d_jobs d2)"
  show "(\<exists>j\<in>set (d_jobs d). j_id j = j_id l) \<or> created e (j_status l)"
  proof (cases "created e (j_status l)")
    case False
    with l assms(2) obtain k where k: "k \<in> set (d_jobs d1)" "j_id k = j_id l" unfolding rows_step_def by blast
    with assms(2) obtain l' where l': "l' \<in> set (d_jobs d2)" "j_id l' = j_id k" "status_edge e (j_status k) (j_status l')"
      unfolding rows_step_def by blast
    from l' l k(2) assms(3) have "l' = l" by (auto simp: distinct_map dest: inj_onD)
    with l'(3) False have "\<not> created e (j_status k)" using created_edge by blast
    with k assms(1) show ?thesis unfolding rows_step_def by metis
  qed simp
qed

lemma rows_update:
  assumes "\<And>j. j \<in> set (d_jobs d) \<Longrightarrow> p j \<Longrightarrow> j_id (f j) = j_id j \<and> j_segment_id (f j) = j_segment_id j
    \<and> status_edge e (j_status j) (j_status (f j))"
  shows "rows_step e d (update_jobs p f d)"
  unfolding rows_step_def update_jobs_simps
proof (intro conjI ballI)
  fix j assume j: "j \<in> set (d_jobs d)"
  then have "(if p j then f j else j) \<in> set (map (\<lambda>j. if p j then f j else j) (d_jobs d))" by simp
  moreover have "j_id (if p j then f j else j) = j_id j \<and> j_segment_id (if p j then f j else j) = j_segment_id j
      \<and> status_edge e (j_status j) (j_status (if p j then f j else j))" using assms [OF j] by simp
  ultimately show "\<exists>k\<in>set (map (\<lambda>j. if p j then f j else j) (d_jobs d)). j_id k = j_id j \<and> j_segment_id k = j_segment_id j
      \<and> status_edge e (j_status j) (j_status k)" by blast
next
  fix k assume "k \<in> set (map (\<lambda>j. if p j then f j else j) (d_jobs d))"
  then obtain j where "j \<in> set (d_jobs d)" "k = (if p j then f j else j)" unfolding set_map by blast
  with assms show "(\<exists>j\<in>set (d_jobs d). j_id j = j_id k) \<or> created e (j_status k)" by auto
qed

lemma rows_append: "created e (j_status new) \<Longrightarrow> rows_step e d (append_job new d)"
  by (auto simp: rows_step_def append_job_simps)

lemma rows_targets: "rows_step e d d1 \<Longrightarrow> rows_step e d (delete_targets p d1)"
  by (simp add: rows_step_def delete_targets_simps)

lemma lifecycle_rows:
  assumes rows: "rows_step e d d'" and ids: "distinct (map j_id (d_jobs d))" "distinct (map j_id (d_jobs d'))"
  shows "lifecycle (job_states d) e (job_states d')"
  unfolding lifecycle_def
proof (rule allI)
  fix i
  have some: "find_job i x = Some k" if "k \<in> set (d_jobs x)" "j_id k = i" "distinct (map j_id (d_jobs x))" for k x
  proof -
    have "find_job i x \<noteq> None" using that(1,2) by (auto simp: find_job_def find_None_iff)
    then obtain l where l: "find_job i x = Some l" by blast
    with find_jobD [OF l] that have "l = k" by (auto simp: distinct_map dest: inj_onD)
    with l show ?thesis by simp
  qed
  show "case job_states d i of
       Some (seg, s) \<Rightarrow> (\<exists>s'. job_states d' i = Some (seg, s') \<and> status_edge e s s')
     | None \<Rightarrow> (case job_states d' i of None \<Rightarrow> True | Some (seg, s') \<Rightarrow> created e s')"
  proof (cases "find_job i d")
    case (Some j)
    from find_jobD [OF Some] rows obtain k where "k \<in> set (d_jobs d')" "j_id k = i" "j_segment_id k = j_segment_id j"
      "status_edge e (j_status j) (j_status k)" unfolding rows_step_def by metis
    with Some some [of k d'] ids(2) show ?thesis by (simp add: job_states_def)
  next
    case None
    show ?thesis
    proof (cases "find_job i d'")
      case (Some k)
      with find_jobD [OF Some] rows have "(\<exists>j\<in>set (d_jobs d). j_id j = i) \<or> created e (j_status k)"
        unfolding rows_step_def by metis
      with None Some some [of _ d] ids(1) show ?thesis by (auto simp: job_states_def)
    qed (simp add: None job_states_def)
  qed
qed

section \<open>Submissions\<close>

lemma adopt_group_rows: "rows_step (EnqueueTx r) d (adopt_group source seg d)"
proof -
  have "rows_step (EnqueueTx r) d (update_jobs (\<lambda>j. j_segment_id j = seg \<and> j_source_id j = None)
      (\<lambda>j. j\<lparr>j_source_id := Some (src_id source)\<rparr>) d)" by (rule rows_update) simp
  moreover have "d_jobs (adopt_group source seg d) = d_jobs (update_jobs (\<lambda>j. j_segment_id j = seg \<and> j_source_id j = None)
      (\<lambda>j. j\<lparr>j_source_id := Some (src_id source)\<rparr>) d)" by (simp add: adopt_group_def update_jobs_def)
  ultimately show ?thesis by (simp only: rows_step_def)
qed

lemma insert_rows: "insert_job j d = Inr (i, d') \<Longrightarrow> created e (j_status j) \<Longrightarrow> rows_step e d d'"
  by (auto simp: insert_job_def rows_append split: if_splits)

lemma ignore_rows:
  assumes "ignore_lower_version source seg fp request bjob d = Inr (j, d')"
  shows "rows_step (EnqueueTx r) d d'"
proof (cases bjob)
  case None
  with assms obtain i where "insert_job ((fresh_job d source seg fp request)
      \<lparr>j_status := Superseded, j_finished_at := Some (d_now d),
       j_error := Some (js ''snapshot was superseded'')\<rparr>) d = Inr (i, d')"
    by (auto simp: ignore_lower_version_def dest: respond_eq)
  then show ?thesis by (rule insert_rows) simp
next
  case (Some b)
  with assms show ?thesis by (auto simp: ignore_lower_version_def rows_unchanged dest: respond_eq)
qed

lemma settle_rows:
  assumes "settle_committed source seg fp request current bjob d = Inr (j, d')"
  shows "rows_step (EnqueueTx r) d d'"
proof (cases bjob)
  case None
  with assms obtain i where "insert_job ((fresh_job d source seg fp request)
        \<lparr>j_status := Succeeded, j_generation := s_generation current, j_finished_at := Some (d_now d)\<rparr>) d = Inr (i, d')"
    by (auto simp: settle_committed_def dest: respond_eq)
  then show ?thesis by (rule insert_rows) simp
next
  case (Some b)
  with assms show ?thesis by (auto simp: settle_committed_def dest!: respond_eq intro!: rows_update)
qed

lemma refresh_rows:
  assumes run: "refresh_target cr vfp source seg request jobs target d = Inr (j, d')"
    and base: "base_ok d" and jobs: "set jobs \<subseteq> set (d_jobs d)"
  shows "rows_step (EnqueueTx r) d d'"
  using run base jobs
proof (cases rule: refresh_target_cases)
  case (1 priority payload reset d1)
  have jobs1: "d_jobs d1 = d_jobs d" by (simp add: 1(3) queue_simps)
  have "rows_step (EnqueueTx r) d1 d'"
    unfolding 1(5)
  proof (rule rows_update)
    fix k assume "k \<in> set (d_jobs d1)" "j_id k = tg_job_id target"
    with 1(4) [of k] have "reset \<Longrightarrow> j_status k = Failed" unfolding jobs1 .
    then show "j_id (refreshed_row reset payload priority (d_now d) k) = j_id k
      \<and> j_segment_id (refreshed_row reset payload priority (d_now d) k) = j_segment_id k
      \<and> status_edge (EnqueueTx r) (j_status k) (j_status (refreshed_row reset payload priority (d_now d) k))"
      by (simp add: refreshed_row_def Let_def)
  qed
  then show ?thesis by (simp add: rows_step_def jobs1)
qed

lemma upsert_rows:
  assumes up: "upsert_job new d = (x, d')" and base: "base_ok d" and new: "j_status new = Pending"
  shows "rows_step (EnqueueTx r) d d'"
proof (cases "find (\<lambda>c. same_boundary_key c new) (d_jobs d)")
  case None
  with up new show ?thesis by (auto simp: upsert_job_def intro: rows_append)
next
  case (Some c)
  then have c: "c \<in> set (d_jobs d)" using find_SomeD by metis
  show ?thesis
  proof (cases "j_status c \<noteq> Running \<and> j_segment_id c = j_segment_id new")
    case True
    with up Some have d': "d' = update_jobs (\<lambda>j. j_id j = j_id c) (\<lambda>j. new\<lparr>j_id := j_id j\<rparr>) d"
      by (simp add: upsert_job_def)
    have "k = c" if "k \<in> set (d_jobs d)" "j_id k = j_id c" for k using same_id_same_job [OF base that(1) c that(2)] .
    with True new show ?thesis unfolding d' by (intro rows_update) fastforce
  next
    case False
    with up Some have "d' = d" by (auto simp: upsert_job_def split: if_splits)
    then show ?thesis by (simp add: rows_unchanged)
  qed
qed

lemma enqueue_new_rows:
  assumes run: "enqueue_new source seg fp request current target jobs d = Inr (j, d')"
    and base: "base_ok d" and jobs: "set jobs \<subseteq> set (d_jobs d)" and ids: "distinct (map j_id (d_jobs d'))"
  shows "rows_step (EnqueueTx r) d d'"
  using run
proof (cases rule: enqueue_new_cases)
  case (1 x d1 i)
  let ?g = "next_generation current target jobs"
  let ?d = "replace_target source seg fp request ?g i d1"
  have "rows_step (EnqueueTx r) d d1" by (rule upsert_rows [OF 1(1) base]) (simp add: fresh_job_def)
  then have first: "rows_step (EnqueueTx r) d ?d" by (simp only: rows_step_def replace_target_jobs)
  have "rows_step (EnqueueTx r) ?d d'"
    unfolding 1(3) supersede_others_def
  proof (rule rows_update)
    fix k assume k: "k \<in> set (d_jobs ?d)"
      "\<exists>l\<in>set jobs. j_id l = j_id k \<and> j_id l \<noteq> i \<and> (j_status l = Pending \<or> j_status l = Failed)"
    have "j_status k \<noteq> Running"
    proof
      assume run: "j_status k = Running"
      from k(2) obtain l where l: "l \<in> set (d_jobs d)" "j_id l = j_id k" "j_status l \<noteq> Running"
        using jobs by auto
      from run upsert_keeps_settled [OF 1(1)] k(1) have "k \<in> set (d_jobs d)"
        unfolding replace_target_jobs by (simp add: fresh_job_def)
      from same_id_same_job [OF base l(1) this l(2)] l(3) run show False by simp
    qed
    then show "j_id (k\<lparr>j_status := Superseded, j_payload := None, j_lease_id := None,
         j_error := Some (js ''snapshot was superseded''), j_started_at := None,
         j_finished_at := Some (d_now ?d)\<rparr>) = j_id k
      \<and> j_segment_id (k\<lparr>j_status := Superseded, j_payload := None, j_lease_id := None,
         j_error := Some (js ''snapshot was superseded''), j_started_at := None,
         j_finished_at := Some (d_now ?d)\<rparr>) = j_segment_id k
      \<and> status_edge (EnqueueTx r) (j_status k) (j_status (k\<lparr>j_status := Superseded, j_payload := None, j_lease_id := None,
         j_error := Some (js ''snapshot was superseded''), j_started_at := None,
         j_finished_at := Some (d_now ?d)\<rparr>))" by simp
  qed
  from rows_trans [OF first this ids] show ?thesis .
qed

lemma enqueue_rows:
  assumes run: "enqueue cr vfp request d = Inr (j, d')" and ok: "queue_ok d"
  shows "rows_step (EnqueueTx r) d d'"
  using run
proof (cases rule: enqueue_InrE)
  case (1 request' source seg s)
  let ?d = "adopt_group source seg d"
  have base: "base_ok ?d" by (rule queue_okD(1) [OF adopt_group_queue [OF ok]])
  have ids: "distinct (map j_id (d_jobs d'))"
    by (rule base_ids [OF queue_okD(1) [OF enqueue_queue [OF run ok]]])
  have jobs: "set (segment_jobs source seg ?d) \<subseteq> set (d_jobs ?d)" by (auto simp: segment_jobs_def)
  from 1(5) have "rows_step (EnqueueTx r) ?d d'"
    by (cases rule: enqueue_segment_cases)
      (blast intro: ignore_rows refresh_rows [OF _ base jobs] enqueue_new_rows [OF _ base jobs ids] settle_rows)+
  from rows_trans [OF adopt_group_rows this ids] show ?thesis .
qed

section \<open>The other transactions\<close>

lemma claim_rows:
  assumes run: "claimOldestJob cr vfp lease ex d = Inr (c, d')"
  shows "rows_step (ClaimTx lease ex) d d'"
  using run
proof (cases rule: claimOldestJob_cases)
  case (rejected err i)
  show ?thesis unfolding rejected(2) reject_pending_def by (rule rows_update) simp
next
  case (quarantined seg)
  show ?thesis unfolding quarantined(2) quarantinePersistedGroup_def by (rule rows_update) auto
next
  case (claimed j source s payload r)
  from claimed(7) have d': "d' = update_jobs (\<lambda>k. j_id k = j_id j \<and> j_status k = Pending) (started_row lease (d_now d)) d"
    by (rule start_claimD)
  show ?thesis unfolding d' by (rule rows_update) (simp add: started_row_def)
qed (simp add: rows_unchanged)

lemma recover_segment_rows:
  assumes "recover_segment cr seg d = Inr (n, d')"
  shows "rows_step RecoverTx d d'"
proof (cases "validateSegmentOwnership cr d seg None")
  case (Inl e)
  with assms have d': "d' = quarantinePersistedGroup seg d" by (cases e) (auto simp: recover_segment_def)
  show ?thesis unfolding d' quarantinePersistedGroup_def by (rule rows_update) auto
next
  case (Inr s)
  with assms have d': "d' = update_jobs (running_in seg) (recover_job d) d" by (simp add: recover_segment_def)
  show ?thesis unfolding d'
    by (rule rows_update) (simp add: running_in_def recover_job_def take_target_def split: option.splits)
qed

lemma recover_rows:
  assumes "recoverRunningJobs cr d = (r, d')" "queue_ok d"
  shows "rows_step RecoverTx d d'"
proof -
  have "rows_step RecoverTx d d'" if "recover_segments cr segs n d = (r, d')" "queue_ok d" for segs n d
    using that
  proof (induction segs arbitrary: n d)
    case Nil
    then show ?case by (simp add: rows_unchanged)
  next
    case (Cons seg segs)
    show ?case
    proof (cases "recover_segment cr seg d")
      case (Inl e)
      with Cons.prems show ?thesis by (simp add: rows_unchanged)
    next
      case (Inr p)
      obtain k d1 where p: "p = (k, d1)" by fastforce
      with Inr have step: "recover_segment cr seg d = Inr (k, d1)" by simp
      with Cons.prems have rest: "recover_segments cr segs (n + k) d1 = (r, d')" by simp
      note ok1 = recover_segment_queue [OF step Cons.prems(2)]
      from recover_segments_queue [OF rest ok1] have "distinct (map j_id (d_jobs d'))" by (simp add: queue_okD base_ids)
      with rows_trans [OF recover_segment_rows [OF step] Cons.IH [OF rest ok1]] show ?thesis by simp
    qed
  qed
  with assms show ?thesis unfolding recoverRunningJobs_def by blast
qed

lemma retry_rows:
  assumes "retryFailedJob cr src i restart d = Inr (row, d')"
  shows "rows_step (RetryTx src i restart) d d'"
  using assms
proof (cases rule: retryFailedJob_cases)
  case (retried source job t payload row d1)
  have "rows_step (RetryTx src i restart) d1 d'" unfolding retried(4)
    by (rule rows_update) (simp add: failed_row_def take_target_def)
  moreover have "d_jobs d1 = d_jobs d" by (simp add: retried(3) update_targets_simps)
  ultimately show ?thesis by (simp add: rows_step_def)
qed (simp add: rows_unchanged)

lemma supersede_rows:
  assumes "supersedeFailedJob cr src i d = Inr (row, d')"
  shows "rows_step (SupersedeTx src i) d d'"
  using assms
proof (cases rule: supersedeFailedJob_cases)
  case (dismissed source job t row)
  show ?thesis unfolding dismissed(3)
    by (intro rows_targets rows_update) (simp add: failed_row_def dismissed_row_def)
qed (simp add: rows_unchanged)

text \<open>A worker that finds a newer snapshot puts the latest one back in the queue.\<close>

lemma requeue_rows:
  assumes run: "requeueLatestTarget c (find_target seg d) d = Inr d'" and ok: "queue_ok d"
    and e: "\<And>s. status_edge e s Pending" "status_edge e Running Superseded"
  shows "rows_step e d d'"
proof -
  have sup: "rows_step e d d1" if "supersede_claim c d = Inr d1" for d1
    unfolding conjunct1 [OF supersede_claim_eq [OF that]]
    by (rule rows_update) (simp add: supersede_row_def holds_lease_def e)
  have ids: "distinct (map j_id (d_jobs d'))"
    by (rule base_ids [OF queue_okD(1) [OF requeueLatestTarget_queue [OF run ok]]])
  show ?thesis
  proof (cases "find_target seg d")
    case None
    with run sup show ?thesis by (simp add: requeueLatestTarget_def)
  next
    case (Some t)
    show ?thesis
    proof (cases "tg_job_id t = cj_id c")
      case True
      with run Some obtain payload where d': "d' = update_jobs (holds_lease c) (take_target (d_now d) t payload) d"
        by (auto simp: requeueLatestTarget_def split: if_splits)
      show ?thesis unfolding d' by (rule rows_update) (simp add: take_target_def e)
    next
      case False
      with run Some obtain payload d1 where d1: "supersede_claim c d = Inr d1"
        and d': "d' = update_jobs (\<lambda>j. j_id j = tg_job_id t \<and> j_status j \<noteq> Running) (take_target (d_now d) t payload) d1"
        by (auto simp: requeueLatestTarget_def)
      have "rows_step e d1 d'" unfolding d' by (rule rows_update) (simp add: take_target_def e)
      from rows_trans [OF sup [OF d1] this ids] show ?thesis .
    qed
  qed
qed

lemma fail_rows:
  assumes "finishFailedAttempt cr c err retry d = Inr (b, d')" "queue_ok d"
  shows "rows_step (FailTx c err retry) d d'"
  using assms(1)
proof (cases rule: finishFailedAttempt_cases)
  case requeued
  from requeue_rows [OF requeued(4) assms(2)] show ?thesis by simp
next
  case updated
  have "rows_step (FailTx c err retry) d (update_jobs (holds_lease c) (attempt_row err retry d) d)"
    by (rule rows_update) (simp add: holds_lease_def attempt_row_def)
  then show ?thesis unfolding updated(4) Let_def by (split if_split) (blast intro: rows_targets)
qed (simp add: rows_unchanged)

lemma publish_rows:
  assumes "publishExtraction cr vfp c x d = Inr (b, d')" "queue_ok d"
  shows "rows_step (PublishTx c x) d d'"
  using assms(1)
proof (cases rule: publishExtraction_cases)
  case requeued
  from requeue_rows [OF requeued(2) assms(2)] show ?thesis by simp
qed (simp_all add: rows_unchanged update_targets_simps)

lemma succeed_rows_step:
  assumes "\<And>j. p j \<Longrightarrow> j_status j = Running"
  shows "rows_step (CommitTx c x s) d (succeed_rows p d)"
  unfolding succeed_rows_def by (rule rows_update) (simp add: assms)

lemma commit_rows:
  assumes "commitResolution cr cf vfp c x p d = Inr (b, d')" "queue_ok d"
  shows "rows_step (CommitTx c x p) d d'"
  using assms(1)
proof (cases rule: commitResolution_cases)
  case requeued
  from requeue_rows [OF requeued(2) assms(2)] show ?thesis by simp
next
  case (committed source current t st fp)
  from committed(11) show ?thesis
  proof (cases rule: commit_staged_cases)
    case (older s)
    show ?thesis unfolding older(5) by (intro rows_targets succeed_rows_step) (simp add: holds_lease_def)
  next
    case (written d1 d2)
    let ?d = "drop_orphans (segment_entity_ids (pp_id p) d) d2"
    from put_entities_frame [OF written(2)] put_segment_frame [OF written(3)]
    have jobs: "d_jobs ?d = d_jobs d" by (simp add: drop_orphans_frame)
    have "rows_step (CommitTx c x p) ?d d'" unfolding written(6)
      by (intro rows_targets succeed_rows_step) (simp add: claimed_row_def holds_lease_def)
    then show ?thesis by (simp add: rows_step_def jobs)
  qed
qed (simp add: rows_unchanged)

lemma queue_step_rows: "queue_step cr cf vfp d e d' \<Longrightarrow> queue_ok d \<Longrightarrow> rows_step e d d'"
  by (induction rule: queue_step.induct)
    (auto intro: enqueue_rows claim_rows recover_rows retry_rows supersede_rows fail_rows publish_rows commit_rows rows_unchanged)

section \<open>Refinement\<close>

lemma queue_step_lifecycle:
  assumes "queue_step cr cf vfp d e d'" "queue_ok d"
  shows "lifecycle (job_states d) e (job_states d')"
  by (rule lifecycle_rows [OF queue_step_rows [OF assms]])
    (use assms queue_step_queue in \<open>blast intro: base_ids queue_okD(1)\<close>)+

interpretation lives: simulation "queue_step cr cf vfp" lifecycle job_states queue_ok
  by unfold_locales (rule queue_step_queue queue_step_lifecycle; assumption)+

end
