(* ===== verification/QueueOutcomes.thy ===== *)
theory QueueOutcomes
  imports SampleRun JobLifecycle
begin

text \<open>
  What a transaction that reports success has done: recovery leaves nothing running, a commit has
  replaced the segment by the staged extraction of its latest target and settled the job, and the
  operator's actions end the failed state of the job they name.
\<close>

section \<open>Recovery\<close>

lemma recover_job_status: "j_status (recover_job d j) \<noteq> Running"
  by (simp add: recover_job_def take_target_def split: option.splits)

lemma recover_job_keys: "j_segment_id (recover_job d j) = j_segment_id j"
  by (simp add: recover_job_def take_target_def split: option.splits)

lemma recover_segment_running:
  assumes "recover_segment cr seg d = Inr (n, d')" "j \<in> set (d_jobs d')" "j_status j = Running"
  shows "j \<in> set (d_jobs d) \<and> j_segment_id j \<noteq> seg"
proof (cases "validateSegmentOwnership cr d seg None")
  case (Inl e)
  with assms(1) have "d' = quarantinePersistedGroup seg d" by (cases e) (auto simp: recover_segment_def)
  with assms(2,3) show ?thesis by (auto simp: quarantinePersistedGroup_def update_jobs_simps split: if_splits)
next
  case (Inr s)
  with assms(1) have "d' = update_jobs (running_in seg) (recover_job d) d" by (simp add: recover_segment_def)
  with assms(2) have "j \<in> set (d_jobs (update_jobs (running_in seg) (recover_job d) d))" by simp
  then obtain k where "k \<in> set (d_jobs d)" "j = (if running_in seg k then recover_job d k else k)"
    unfolding update_jobs_simps set_map by blast
  with assms(3) recover_job_status show ?thesis by (auto simp: running_in_def split: if_splits)
qed

lemma recover_segments_running:
  assumes "recover_segments cr segs n d = (Inr m, d')" "j \<in> set (d_jobs d')" "j_status j = Running"
  shows "j \<in> set (d_jobs d) \<and> j_segment_id j \<notin> set segs"
  using assms
proof (induction segs arbitrary: n d)
  case (Cons seg segs)
  from Cons.prems(1) obtain k d1 where k: "recover_segment cr seg d = Inr (k, d1)"
    "recover_segments cr segs (n + k) d1 = (Inr m, d')" by (auto split: sum.splits prod.splits)
  from Cons.IH [OF k(2) Cons.prems(2,3)] have "j \<in> set (d_jobs d1)" "j_segment_id j \<notin> set segs" by simp_all
  with recover_segment_running [OF k(1) _ Cons.prems(3)] show ?case by simp
qed simp

lemma recover_segments_bound:
  "recover_segments cr segs n d = (Inr m, d') \<Longrightarrow> distinct segs \<Longrightarrow>
   m \<le> n + length (filter (\<lambda>j. j_status j = Running) (d_jobs d))"
proof (induction segs arbitrary: n d)
  case (Cons seg segs)
  from Cons.prems(1) obtain k d1 where k: "recover_segment cr seg d = Inr (k, d1)"
    "recover_segments cr segs (n + k) d1 = (Inr m, d')" by (auto split: sum.splits prod.splits)
  have split: "length (filter (\<lambda>j. j_status j = Running) js) =
      length (filter (running_in seg) js) + length (filter (\<lambda>j. j_status j = Running \<and> j_segment_id j \<noteq> seg) js)" for js
    by (induction js) (auto simp: running_in_def)
  have same: "length (filter (\<lambda>j. j_status j = Running) (map (\<lambda>j. if p j then f j else j) js))
      \<le> length (filter (\<lambda>j. j_status j = Running \<and> j_segment_id j \<noteq> seg) js)"
    if "\<And>j. p j \<Longrightarrow> j_status (f j) \<noteq> Running" "\<And>j. j_status j = Running \<Longrightarrow> j_segment_id j = seg \<Longrightarrow> p j" for p f js
    using that by (induction js) auto
  have "k + length (filter (\<lambda>j. j_status j = Running) (d_jobs d1)) \<le> length (filter (\<lambda>j. j_status j = Running) (d_jobs d))"
  proof (cases "validateSegmentOwnership cr d seg None")
    case (Inl e)
    with k(1) have d1: "d1 = quarantinePersistedGroup seg d" "k = 0" by (cases e; auto simp: recover_segment_def)+
    have "length (filter (\<lambda>j. j_status j = Running) (d_jobs d1))
        \<le> length (filter (\<lambda>j. j_status j = Running \<and> j_segment_id j \<noteq> seg) (d_jobs d))"
      unfolding d1(1) quarantinePersistedGroup_def update_jobs_simps by (rule same) auto
    with d1(2) split [of "d_jobs d"] show ?thesis by simp
  next
    case (Inr s)
    with k(1) have d1: "d1 = update_jobs (running_in seg) (recover_job d) d" "k = length (filter (running_in seg) (d_jobs d))"
      by (simp_all add: recover_segment_def)
    have "length (filter (\<lambda>j. j_status j = Running) (d_jobs d1))
        \<le> length (filter (\<lambda>j. j_status j = Running \<and> j_segment_id j \<noteq> seg) (d_jobs d))"
      unfolding d1(1) update_jobs_simps by (rule same) (simp_all add: recover_job_status running_in_def)
    with d1(2) split [of "d_jobs d"] show ?thesis by simp
  qed
  with Cons.IH [OF k(2)] Cons.prems(2) show ?case by simp
qed simp

lemma recovered_none:
  assumes "recoverRunningJobs cr d = (Inr n, d')" "j \<in> set (d_jobs d')"
  shows "j_status j \<noteq> Running"
proof
  assume run: "j_status j = Running"
  from assms(1) have "recover_segments cr (remdups (sort (map j_segment_id (filter (\<lambda>j. j_status j = Running) (d_jobs d))))) 0 d
      = (Inr n, d')" by (simp add: recoverRunningJobs_def)
  from recover_segments_running [OF this assms(2) run] run show False by force
qed

text \<open>
  When recovery succeeds, nothing is running any more, no row has been lost, and it reports at
  most as many recovered jobs as were running.
\<close>

theorem recovery_leaves_nothing_running:
  assumes "recoverRunningJobs cr d = (Inr n, d')"
  shows "filter (\<lambda>j. j_status j = Running) (d_jobs d') = []
    \<and> n \<le> length (filter (\<lambda>j. j_status j = Running) (d_jobs d))"
proof -
  let ?segs = "remdups (sort (map j_segment_id (filter (\<lambda>j. j_status j = Running) (d_jobs d))))"
  from assms have run: "recover_segments cr ?segs 0 d = (Inr n, d')" by (simp add: recoverRunningJobs_def)
  have "\<not> (\<exists>j\<in>set (d_jobs d'). j_status j = Running)" using recovered_none [OF assms] by blast
  with recover_segments_bound [OF run] show ?thesis by (simp add: filter_empty_conv)
qed

theorem recovery_leaves_nothing_running_witness:
  "\<exists>n d. recoverRunningJobs flat_crypto db2 = (Inr n, d) \<and> filter (\<lambda>j. j_status j = Running) (d_jobs d) = [] \<and> n \<le> 1"
proof -
  have own: "validateSegmentOwnership flat_crypto db2 [] None = Inr (Some sample_source)"
  proof -
    from sample_owned [OF sample_rows_db(2)] show ?thesis
      by (simp add: validateSegmentOwnership_def owned_rows_def db2_def db1_def check_owned_row_def effectiveSource_def
          job_owned_def job2_def job1_def)
  qed
  have "filter (\<lambda>j. j_status j = Running) (d_jobs db2) = [job2]" "j_segment_id job2 = []"
    by (simp_all add: db2_def job2_def job1_def)
  with own have "\<exists>n d. recoverRunningJobs flat_crypto db2 = (Inr n, d)"
    by (simp add: recoverRunningJobs_def recover_segment_def)
  then obtain n d where run: "recoverRunningJobs flat_crypto db2 = (Inr n, d)" by blast
  have "length (filter (\<lambda>j. j_status j = Running) (d_jobs db2)) = 1" by (simp add: db2_def job2_def)
  with recovery_leaves_nothing_running [OF run] run show ?thesis by auto
qed

section \<open>Commits\<close>

lemma upsert_segment_find:
  "find (\<lambda>s. s_id s = s_id new) (upsert_segment new rows) = Some new"
proof -
  have "find (\<lambda>s. s_id s = s_id new) (map (\<lambda>s. if s_id s = s_id new then new else s) rows) = Some new"
    if "\<exists>s\<in>set rows. s_id s = s_id new" using that by (induction rows) auto
  moreover have "find (\<lambda>s. s_id s = s_id new) (rows @ [new]) = Some new"
    if "\<not> (\<exists>s\<in>set rows. s_id s = s_id new)" using that by (induction rows) auto
  ultimately show ?thesis unfolding upsert_segment_def by (cases "\<exists>s\<in>set rows. s_id s = s_id new") simp_all
qed

lemma put_segment_InrD:
  "put_segment job p fp d = Inr d' \<Longrightarrow> distinct (map pc_id (pp_claims p)) \<and> list_all (claim_row_ok d (pp_id p)) (pp_claims p)
     \<and> d' = d\<lparr>d_segments := upsert_segment (committed_row job p fp) (d_segments d)\<rparr>"
  by (simp add: put_segment_def split: if_splits)

lemma put_segment_find:
  assumes "put_segment job p fp d = Inr d'"
  shows "find_segment (pp_id p) d' = Some (committed_row job p fp)"
  using put_segment_InrD [OF assms] upsert_segment_find [of "committed_row job p fp"]
  by (simp add: find_segment_def committed_row_def)

lemma settled_row:
  assumes ok: "queue_ok d" and j: "current_claim job d = Some j" and jobs: "d_jobs d1 = d_jobs d"
    and p: "p j" "\<And>k. p k \<Longrightarrow> j_id k = cj_id job"
  shows "\<exists>k\<in>set (d_jobs (succeed_rows p d1)). j_id k = cj_id job \<and> j_status k = Succeeded \<and> j_lease_id k = None"
proof -
  from j have mem: "j \<in> set (d_jobs d)" by (auto simp: current_claim_def dest: find_jobD split: option.splits if_splits)
  let ?f = "\<lambda>j. j\<lparr>j_status := Succeeded, j_lease_id := None, j_payload := None, j_error := None,
     j_finished_at := Some (d_now d1)\<rparr>"
  have "?f j \<in> set (d_jobs (succeed_rows p d1))"
    unfolding succeed_rows_def update_jobs_simps set_map jobs using mem p(1) by (intro image_eqI [of _ _ j]) simp_all
  with p(2) [OF p(1)] show ?thesis by (intro bexI [of _ "?f j"]) simp_all
qed

lemma committed_target_find:
  assumes ok: "queue_ok d" and t: "find_target seg d = Some t" and p: "p t" and jobs: "d_targets d1 = d_targets d"
  shows "find_target seg (delete_targets p d1) = None"
proof -
  from find_targetD [OF t] have "t \<in> set (d_targets d)" "tg_segment_id t = seg" by auto
  with same_segment_same_target [OF queue_okD(1) [OF ok]] p jobs show ?thesis
    by (auto simp: find_target_def delete_targets_simps find_None_iff)
qed

text \<open>
  C17. Only the latest submission is ever committed. When \<open>commitResolution\<close> reports success, the
  segment's target was the very generation and content the worker claimed, the extraction committed is
  the one staged on it, and afterwards the target is gone, the worker's job has succeeded, and the
  segment holds the prepared summary and claims, unless it already held a newer projection, which
  stays.
\<close>

theorem commit_publishes_latest:
  assumes "commitResolution cr cf vfp job ex p d = Inr (True, d')" and "queue_ok d"
  shows "\<exists>t st. find_target (cj_segmentId job) d = Some t \<and> tg_generation t = cj_sourceGeneration job
      \<and> tg_fingerprint t = Some (cj_sourceFingerprint job) \<and> tg_staged t = Some st
      \<and> extractionResultForPersistence ex = Inr (st_result st)
      \<and> find_target (cj_segmentId job) d' = None
      \<and> (\<exists>k\<in>set (d_jobs d'). j_id k = cj_id job \<and> j_status k = Succeeded \<and> j_lease_id k = None)
      \<and> (\<exists>s. find_segment (cj_segmentId job) d' = Some s
          \<and> (if s_projection_version s > pp_projection_version p then find_segment (cj_segmentId job) d = Some s
             else s_summary s = pp_summary p \<and> s_claims s = pp_claims p
               \<and> s_generation s = cj_sourceGeneration job \<and> s_projection_version s = pp_projection_version p))"
  using assms(1)
proof (cases rule: commitResolution_cases)
  case (committed source current t st fp)
  note ok = assms(2)
  have id: "pp_id p = cj_segmentId job" using committed(8) by (simp add: prepared_matches_claim_def)
  have t: "tg_job_id t = cj_id job" "tg_generation t = cj_sourceGeneration job"
    "tg_fingerprint t = Some (cj_sourceFingerprint job)"
    "tg_projection_version t = rb_projection_version (rq_body (cj_request job))"
    "boundary_matches (tg_boundary t) (request_boundary (cj_request job))"
    using committed(4) by (simp_all add: targetMatchesJob_def)
  have fenced: "committed_target vfp job (st_result st) fp t"
    using t committed(5,6,10) find_targetD [OF committed(3)]
    by (auto simp: committed_target_def claim_target_def staged_eligible_def)
  have cur: "holds_lease job current" using committed(2) find_jobD
    by (fastforce simp: current_claim_def holds_lease_def split: option.splits if_splits)
  from committed(11) show ?thesis
  proof (cases rule: commit_staged_cases)
    case (older s)
    have "find_target (cj_segmentId job) d' = None"
      unfolding older(5) by (rule committed_target_find [where p = "committed_target vfp job (st_result st) fp", OF ok committed(3) fenced]) (simp add: succeed_rows_def queue_simps)
    moreover have "\<exists>k\<in>set (d_jobs d'). j_id k = cj_id job \<and> j_status k = Succeeded \<and> j_lease_id k = None"
      unfolding older(5) delete_targets_simps
      by (rule settled_row [where p = "holds_lease job", OF ok committed(2) refl cur]) (simp add: holds_lease_def)
    moreover have "find_segment (cj_segmentId job) d' = Some s"
      using older(2) id unfolding older(5) by (simp add: find_segment_def delete_targets_simps succeed_rows_def update_jobs_simps)
    ultimately show ?thesis using committed(3,5,7) t(2,3) older(2,3) id by simp
  next
    case (written d1 d2)
    let ?d3 = "drop_orphans (segment_entity_ids (pp_id p) d) d2"
    from put_entities_frame [OF written(2)] put_segment_frame [OF written(3)]
    have frame: "d_jobs ?d3 = d_jobs d" "d_targets ?d3 = d_targets d" by (simp_all add: drop_orphans_frame)
    have "\<exists>k\<in>set (d_jobs d). claimed_row job k"
      using written(4) by (cases "filter (claimed_row job) (d_jobs d)") (auto simp: filter_eq_Cons_iff)
    then obtain k where k: "k \<in> set (d_jobs d)" "claimed_row job k" by blast
    have "current \<in> set (d_jobs d)" using committed(2)
      by (auto simp: current_claim_def dest: find_jobD split: option.splits if_splits)
    with same_id_same_job [OF queue_okD(1) [OF ok] k(1)] k(2) cur have row: "claimed_row job current"
      by (auto simp: claimed_row_def holds_lease_def)
    have "find_target (cj_segmentId job) d' = None"
      unfolding written(6) by (rule committed_target_find [where p = "committed_target vfp job (st_result st) fp", OF ok committed(3) fenced]) (simp add: succeed_rows_def queue_simps frame)
    moreover have "\<exists>k\<in>set (d_jobs d'). j_id k = cj_id job \<and> j_status k = Succeeded \<and> j_lease_id k = None"
      unfolding written(6) delete_targets_simps
      by (rule settled_row [where p = "claimed_row job", OF ok committed(2) frame(1) row]) (simp add: claimed_row_def holds_lease_def)
    moreover have "find_segment (cj_segmentId job) d' = find_segment (cj_segmentId job) d2"
      unfolding written(6) by (simp add: find_segment_def delete_targets_simps succeed_rows_def update_jobs_simps drop_orphans_frame)
    ultimately show ?thesis using committed(3,5,7) t(2,3) put_segment_find [OF written(3)] id by (simp add: committed_row_def)
  qed
qed simp_all

lemma queue_db3: "queue_ok db3"
  by (rule publishExtraction_queue [OF run_publish queue_db2])

theorem commit_publishes_latest_witness:
  "\<exists>d. commitResolution flat_crypto fold1 flat_vfp claim1 extraction1 prepared1 db3 = Inr (True, d)
     \<and> find_target [] d = None"
proof -
  obtain d where run: "commitResolution flat_crypto fold1 flat_vfp claim1 extraction1 prepared1 db3 = Inr (True, d)"
    using run_commit by blast
  have "cj_segmentId claim1 = []" by (simp add: claim1_def)
  with commit_publishes_latest [OF run queue_db3] run show ?thesis by auto
qed

section \<open>The life of a job\<close>

text \<open>An abstract run that ends with a running job contains the claim that started it.\<close>

lemma started_by_claim:
  assumes "runs lifecycle m es m'" "\<And>seg. m i \<noteq> Some (seg, Running)" "m' i = Some (seg, Running)"
  shows "\<exists>l ex. ClaimTx l ex \<in> set es"
  using assms
proof (induction rule: runs.induct)
  case (runs_cons m e m1 es m2)
  show ?case
  proof (cases "\<exists>g. m1 i = Some (g, Running)")
    case False
    with runs_cons show ?thesis by auto
  next
    case True
    then obtain g where g: "m1 i = Some (g, Running)" by blast
    have "\<exists>l ex. e = ClaimTx l ex"
    proof (cases "m i")
      case None
      with runs_cons.hyps(1) g have "created e Running" unfolding lifecycle_def by (auto dest!: spec [of _ i])
      then show ?thesis by (cases e) simp_all
    next
      case (Some x)
      obtain h s where x: "x = (h, s)" by fastforce
      with Some runs_cons.prems(1) [of h] have "s \<noteq> Running" by auto
      moreover from runs_cons.hyps(1) Some x g have "status_edge e s Running"
        unfolding lifecycle_def by (auto dest!: spec [of _ i])
      ultimately show ?thesis by (cases e) auto
    qed
    then show ?thesis by auto
  qed
next
  case (runs_nil m)
  then show ?case by blast
qed

text \<open>
  C24. The queue refines the life of its jobs: whatever transactions run, no job disappears or moves to
  another segment, and each transaction takes each job's status along one of the edges the abstract
  automaton allows it, so that only a claim starts a job, and only a pending one; only a commit, or a
  submission of what is already committed, lets one succeed; and a running job is left alone by
  submissions and operators. A job that is running was started by a claim.
\<close>

theorem queue_refines_lifecycle:
  assumes "runs (queue_step cr cf vfp) (empty_db sources now) es d"
  shows "runs lifecycle (\<lambda>i. None) es (job_states d)
    \<and> (job_states d i = Some (seg, Running) \<longrightarrow> (\<exists>l ex. ClaimTx l ex \<in> set es))"
proof -
  have "job_states (empty_db sources now) = (\<lambda>i. None)" by (simp add: fun_eq_iff job_states_def empty_db_def find_job_def)
  with lives.runs_simulate [OF assms empty_queue] have abstract: "runs lifecycle (\<lambda>i. None) es (job_states d)" by simp
  with started_by_claim [OF abstract] show ?thesis by simp
qed

theorem queue_refines_lifecycle_witness:
  "runs lifecycle (\<lambda>i. None) [EnqueueTx sample_native, ClaimTx lease1 []] (job_states db2)
    \<and> job_states db2 0 = Some ([], Running)"
proof -
  have "runs (queue_step flat_crypto fold1 flat_vfp) (empty_db [sample_source] 0) [EnqueueTx sample_native, ClaimTx lease1 []] db2"
    using run_enqueue run_claim unfolding db0_def by (blast intro: runs.intros queue_step.intros)
  from queue_refines_lifecycle [OF this] show ?thesis
    by (simp add: job_states_def find_job_def db2_def job2_def job1_def)
qed

end
