(* ===== verification/EntityStore.thy ===== *)
theory EntityStore
  imports QueueOutcomes
begin

text \<open>
  The knowledge a run builds up: segments, claims, entities and aliases. Only \<open>commitResolution\<close>
  writes them, and it keeps their keys and references intact.
\<close>

section \<open>The invariant\<close>

definition store_ok :: "db \<Rightarrow> bool" where
  "store_ok d \<longleftrightarrow>
     distinct (map en_id (d_entities d))
     \<and> distinct (map (\<lambda>a. (al_entity_id a, al_normalized_alias a)) (d_aliases d))
     \<and> (\<forall>a\<in>set (d_aliases d). entity_exists d (al_entity_id a))
     \<and> distinct (map s_id (d_segments d))
     \<and> distinct (concat (map (\<lambda>s. map pc_id (s_claims s)) (d_segments d)))
     \<and> (\<forall>i. named_by_claim d i \<longrightarrow> entity_exists d i)"

section \<open>Transactions that leave the store alone\<close>

definition same_store :: "db \<Rightarrow> db \<Rightarrow> bool" where
  "same_store d d' \<longleftrightarrow> d_entities d' = d_entities d \<and> d_aliases d' = d_aliases d \<and> d_sources d' = d_sources d
     \<and> map (\<lambda>s. (s_id s, s_claims s)) (d_segments d') = map (\<lambda>s. (s_id s, s_claims s)) (d_segments d)"

lemma same_store_refl [simp]: "same_store d d"
  by (simp add: same_store_def)

lemma same_store_trans: "same_store d d1 \<Longrightarrow> same_store d1 d2 \<Longrightarrow> same_store d d2"
  by (simp add: same_store_def)

lemma store_columns:
  assumes "map (\<lambda>s. (s_id s, s_claims s)) xs = map (\<lambda>s. (s_id s, s_claims s)) ys"
  shows "map s_id xs = map s_id ys" "map (\<lambda>s. map pc_id (s_claims s)) xs = map (\<lambda>s. map pc_id (s_claims s)) ys"
    "s_claims ` set xs = s_claims ` set ys"
proof -
  from arg_cong [OF assms, of "map fst"] show "map s_id xs = map s_id ys" by (simp add: comp_def)
  from arg_cong [OF assms, of "map (\<lambda>p. map pc_id (snd p))"]
  show "map (\<lambda>s. map pc_id (s_claims s)) xs = map (\<lambda>s. map pc_id (s_claims s)) ys" by (simp add: comp_def)
  from arg_cong [OF assms, of "\<lambda>l. snd ` set l"] show "s_claims ` set xs = s_claims ` set ys"
    by (simp add: image_image)
qed

lemma named_by_claim_image: "named_by_claim d i \<longleftrightarrow> (\<exists>cs\<in>s_claims ` set (d_segments d). \<exists>c\<in>set cs. i \<in> set (claim_entity_ids c))"
  by (simp add: named_by_claim_def)

lemma store_ok_same:
  assumes "same_store d d'"
  shows "store_ok d' = store_ok d"
proof -
  from assms have e: "d_entities d' = d_entities d" "d_aliases d' = d_aliases d"
    and s: "map (\<lambda>s. (s_id s, s_claims s)) (d_segments d') = map (\<lambda>s. (s_id s, s_claims s)) (d_segments d)"
    by (simp_all add: same_store_def)
  show ?thesis
    unfolding store_ok_def e named_by_claim_image entity_exists_def store_columns [OF s] ..
qed

lemma same_store_update [simp]:
  "same_store d (update_jobs p f d1) = same_store d d1" "same_store d (update_targets q g d1) = same_store d d1"
  "same_store d (delete_targets q d1) = same_store d d1" "same_store d (append_job j d1) = same_store d d1"
  "same_store d (d1\<lparr>d_targets := ts\<rparr>) = same_store d d1" "same_store d (d1\<lparr>d_now := n\<rparr>) = same_store d d1"
  by (simp_all add: same_store_def update_jobs_def update_targets_def delete_targets_def append_job_def)

lemma adopt_group_store: "same_store d (adopt_group source seg d)"
  by (simp add: same_store_def adopt_group_def comp_def if_distrib [of s_id] if_distrib [of s_claims] cong: if_cong)

lemma insert_store: "insert_job j d = Inr (i, d') \<Longrightarrow> same_store d d'"
  by (auto simp: insert_job_def split: if_splits)

lemma upsert_store: "upsert_job j d = (r, d') \<Longrightarrow> same_store d d'"
  by (auto simp: upsert_job_def split: option.splits if_splits)

lemma replace_target_store: "same_store d (replace_target source seg fp request g i d1) = same_store d d1"
  by (simp add: replace_target_def Let_def)

lemma enqueue_store:
  assumes "enqueue cr vfp request d = Inr (j, d')"
  shows "same_store d d'"
  using assms
proof (cases rule: enqueue_InrE)
  case (1 request' source seg s)
  let ?d = "adopt_group source seg d"
  from 1(5) have "same_store ?d d'"
  proof (cases rule: enqueue_segment_cases)
    case (ignored fp b)
    then show ?thesis
      by (cases b) (auto simp: ignore_lower_version_def dest!: respond_eq insert_store)
  next
    case (refreshed t)
    then show ?thesis unfolding refresh_target_def Let_def by (auto dest!: respond_eq)
  next
    case (new fp c t)
    then show ?thesis
    proof (cases rule: enqueue_new_cases)
      case (1 r d1 i)
      from upsert_store [OF 1(1)] show ?thesis unfolding 1(3) by (simp add: supersede_others_def replace_target_store)
    qed
  next
    case (settled fp c)
    show ?thesis
    proof (cases "boundary_job request' (segment_jobs source seg ?d)")
      case None
      with settled(2) show ?thesis by (auto simp: settle_committed_def dest!: respond_eq insert_store)
    next
      case (Some b)
      with settled(2) show ?thesis by (auto simp: settle_committed_def dest!: respond_eq)
    qed
  qed
  with adopt_group_store same_store_trans show ?thesis by blast
qed

lemma recover_segments_store: "recover_segments cr segs n d = (r, d') \<Longrightarrow> same_store d d'"
proof (induction segs arbitrary: n d)
  case (Cons seg segs)
  show ?case
  proof (cases "recover_segment cr seg d")
    case (Inl e)
    with Cons.prems show ?thesis by simp
  next
    case (Inr x)
    then obtain k d1 where x: "recover_segment cr seg d = Inr (k, d1)" by (cases x) simp
    then have "same_store d d1"
      by (auto simp: recover_segment_def quarantinePersistedGroup_def split: sum.splits db_error.splits)
    moreover from x Cons.prems have "recover_segments cr segs (n + k) d1 = (r, d')" by simp
    ultimately show ?thesis using Cons.IH same_store_trans by blast
  qed
qed simp

lemma claim_store: "claimOldestJob cr vfp lease ex d = Inr (c, d') \<Longrightarrow> same_store d d'"
  by (erule claimOldestJob_cases)
    (auto simp: reject_pending_def quarantinePersistedGroup_def elim: start_claimD)

lemma retry_store: "retryFailedJob cr sid i restart d = Inr (r, d') \<Longrightarrow> same_store d d'"
  by (erule retryFailedJob_cases) simp_all

lemma supersede_store: "supersedeFailedJob cr sid i d = Inr (r, d') \<Longrightarrow> same_store d d'"
  by (erule supersedeFailedJob_cases) simp_all

lemma requeue_store: "requeueLatestTarget job target d = Inr d' \<Longrightarrow> same_store d d'"
  by (auto simp: requeueLatestTarget_def dest!: supersede_claim_eq split: option.splits if_splits)

lemma finish_store: "finishFailedAttempt cr job err retry d = Inr (b, d') \<Longrightarrow> same_store d d'"
  by (erule finishFailedAttempt_cases) (simp_all add: requeue_store Let_def)

lemma publish_store: "publishExtraction cr vfp job ex d = Inr (b, d') \<Longrightarrow> same_store d d'"
  by (erule publishExtraction_cases) (simp_all add: requeue_store)

section \<open>Commits\<close>

lemma upsert_entity_facts:
  shows "distinct (map en_id rows) \<Longrightarrow> distinct (map en_id (upsert_entity e rows))"
    and "en_id ` set (upsert_entity e rows) = insert (pe_id e) (en_id ` set rows)"
proof -
  let ?new = "\<lparr>en_id = pe_id e, en_canonical_name = pe_canonicalName e,
            en_normalized_name = pe_normalizedName e, en_description = pe_description e\<rparr>"
  have ids: "map en_id (map (\<lambda>r. if en_id r = pe_id e then ?new else r) rows) = map en_id rows"
    by (rule map_cond_ids) simp
  have "map en_id (upsert_entity e rows) = (if \<exists>r\<in>set rows. en_id r = pe_id e then map en_id rows
      else map en_id rows @ [pe_id e])"
    unfolding upsert_entity_def Let_def by (simp only: ids if_distrib [of "map en_id"]) simp
  then show "distinct (map en_id rows) \<Longrightarrow> distinct (map en_id (upsert_entity e rows))"
    and "en_id ` set (upsert_entity e rows) = insert (pe_id e) (en_id ` set rows)"
    unfolding set_map [symmetric] by (auto intro: rev_image_eqI)
qed

lemma upsert_entities_facts:
  shows "distinct (map en_id rows) \<Longrightarrow> distinct (map en_id (foldl (\<lambda>rows e. upsert_entity e rows) rows es))"
    and "en_id ` set (foldl (\<lambda>rows e. upsert_entity e rows) rows es) = pe_id ` set es \<union> en_id ` set rows"
  by (induction es arbitrary: rows) (simp_all add: upsert_entity_facts)

definition alias_key :: "alias_row \<Rightarrow> jsstr \<times> jsstr" where
  "alias_key a = (al_entity_id a, al_normalized_alias a)"

definition alias_owners :: "alias_row list \<Rightarrow> jsstr set" where
  "alias_owners rows = al_entity_id ` set rows"

lemma insert_alias_facts:
  assumes "distinct (map alias_key rows)"
  shows "distinct (map alias_key (insert_alias cf i rows x))"
    and "alias_owners (insert_alias cf i rows x) \<subseteq> insert i (alias_owners rows)"
  using assms by (auto simp: insert_alias_def alias_key_def alias_owners_def)

lemma insert_alias_list:
  "distinct (map alias_key rows) \<Longrightarrow> distinct (map alias_key (foldl (insert_alias cf i) rows xs))
     \<and> alias_owners (foldl (insert_alias cf i) rows xs) \<subseteq> (if xs = [] then {} else {i}) \<union> alias_owners rows"
proof (induction xs arbitrary: rows)
  case (Cons x xs)
  from Cons.IH [OF insert_alias_facts(1) [OF Cons.prems, of cf i x]] insert_alias_facts(2) [OF Cons.prems, of cf i x]
  show ?case by (auto split: if_splits)
qed simp

lemma insert_aliases_facts:
  "distinct (map alias_key rows) \<Longrightarrow> distinct (map alias_key (insert_aliases cf es rows))
     \<and> alias_owners (insert_aliases cf es rows) \<subseteq> pe_id ` {e \<in> set es. pe_aliases e \<noteq> []} \<union> alias_owners rows"
  unfolding insert_aliases_def
proof (induction es arbitrary: rows)
  case (Cons e es)
  let ?rows = "foldl (insert_alias cf (pe_id e)) rows (pe_aliases e)"
  note first = insert_alias_list [OF Cons.prems, of cf "pe_id e" "pe_aliases e"]
  note rest = Cons.IH [OF conjunct1 [OF first]]
  have "alias_owners (foldl (\<lambda>rows e. foldl (insert_alias cf (pe_id e)) rows (pe_aliases e)) ?rows es)
      \<subseteq> pe_id ` {e \<in> set es. pe_aliases e \<noteq> []} \<union> alias_owners ?rows" using rest by blast
  also have "\<dots> \<subseteq> pe_id ` {d \<in> set (e # es). pe_aliases d \<noteq> []} \<union> alias_owners rows"
    using first by (auto split: if_splits)
  finally show ?case using rest by simp
qed simp

lemma entity_exists_ids: "entity_exists d i \<longleftrightarrow> i \<in> en_id ` set (d_entities d)"
  by (auto simp: entity_exists_def)

lemma put_entities_store:
  assumes run: "put_entities cf es d = Inr d'" and ok: "store_ok d"
  shows "store_ok d'" "\<And>i. entity_exists d i \<Longrightarrow> entity_exists d' i"
proof -
  define d1 where "d1 = d\<lparr>d_entities := foldl (\<lambda>rows e. upsert_entity e rows) (d_entities d) (filter pe_isNew es)\<rparr>"
  from run have al: "list_all (\<lambda>e. pe_aliases e = [] \<or> entity_exists d1 (pe_id e)) es"
    and d': "d' = d1\<lparr>d_aliases := insert_aliases cf es (d_aliases d1)\<rparr>"
    by (auto simp: put_entities_def d1_def Let_def split: if_splits)
  have mono: "entity_exists d i \<Longrightarrow> entity_exists d1 i" for i
    by (simp add: entity_exists_ids d1_def upsert_entities_facts)
  moreover have ex: "entity_exists d' i = entity_exists d1 i" for i by (simp add: entity_exists_def d')
  ultimately show "\<And>i. entity_exists d i \<Longrightarrow> entity_exists d' i" by simp
  from ok have "distinct (map alias_key (d_aliases d1))" by (simp add: store_ok_def d1_def alias_key_def [abs_def])
  from insert_aliases_facts [OF this, of cf es]
  have a: "distinct (map alias_key (d_aliases d'))"
    "al_entity_id ` set (d_aliases d') \<subseteq> pe_id ` {e \<in> set es. pe_aliases e \<noteq> []} \<union> al_entity_id ` set (d_aliases d)"
    by (simp_all add: d' d1_def alias_owners_def)
  have "entity_exists d' (al_entity_id x)" if "x \<in> set (d_aliases d')" for x
  proof -
    from a(2) that consider "al_entity_id x \<in> pe_id ` {e \<in> set es. pe_aliases e \<noteq> []}" | "al_entity_id x \<in> al_entity_id ` set (d_aliases d)"
      by blast
    then show ?thesis
    proof cases
      case 1
      with al show ?thesis unfolding ex by (auto simp: list_all_iff)
    next
      case 2
      with ok mono show ?thesis unfolding ex by (auto simp: store_ok_def)
    qed
  qed
  moreover have "distinct (map en_id (d_entities d'))" using ok by (simp add: d' d1_def store_ok_def upsert_entities_facts)
  moreover have segs: "d_segments d' = d_segments d" by (simp add: d' d1_def)
  moreover have "named_by_claim d' i \<Longrightarrow> entity_exists d' i" for i
    using ok mono unfolding ex by (simp add: store_ok_def named_by_claim_def segs)
  ultimately show "store_ok d'" using ok a(1) by (simp add: store_ok_def alias_key_def [abs_def])
qed

lemma upsert_segment_ids:
  assumes "distinct (map s_id rows)"
  shows "distinct (map s_id (upsert_segment new rows))"
proof -
  have "map s_id (map (\<lambda>s. if s_id s = s_id new then new else s) rows) = map s_id rows"
    by (rule map_cond_ids) simp
  then have "map s_id (upsert_segment new rows) = (if \<exists>r\<in>set rows. s_id r = s_id new then map s_id rows
      else map s_id rows @ [s_id new])"
    unfolding upsert_segment_def by (simp only: if_distrib [of "map s_id"]) simp
  with assms show ?thesis by auto
qed

lemma upsert_segment_set:
  "distinct (map s_id rows) \<Longrightarrow> set (upsert_segment new rows) = insert new {s \<in> set rows. s_id s \<noteq> s_id new}"
  unfolding upsert_segment_def by (split if_split) auto

text \<open>Claim IDs stay unique: new ones differ from each other and from those of other segments.\<close>

lemma distinct_concat_map:
  "distinct (concat (map f xs)) \<longleftrightarrow> (\<forall>x\<in>set xs. distinct (f x))
     \<and> sorted_wrt (\<lambda>a b. set (f a) \<inter> set (f b) = {}) xs"
  by (induction xs) auto

lemma put_segment_store:
  assumes run: "put_segment job p fp d = Inr d'" and ok: "store_ok d"
  shows "distinct (map s_id (d_segments d'))"
    and "distinct (concat (map (\<lambda>s. map pc_id (s_claims s)) (d_segments d')))"
    and "\<And>i. named_by_claim d' i \<Longrightarrow> entity_exists d' i"
proof -
  let ?new = "committed_row job p fp"
  from put_segment_InrD [OF run] have claims: "distinct (map pc_id (pp_claims p))"
    "list_all (claim_row_ok d (pp_id p)) (pp_claims p)"
    and d': "d' = d\<lparr>d_segments := upsert_segment ?new (d_segments d)\<rparr>" by simp_all
  from ok have ids: "distinct (map s_id (d_segments d))"
    and keys: "distinct (concat (map (\<lambda>s. map pc_id (s_claims s)) (d_segments d)))"
    and refs: "\<And>i. named_by_claim d i \<Longrightarrow> entity_exists d i" by (simp_all add: store_ok_def)
  show "distinct (map s_id (d_segments d'))" by (simp add: d' upsert_segment_ids [OF ids])
  have row: "s_claims ?new = pp_claims p" "s_id ?new = pp_id p" by (simp_all add: committed_row_def)
  have rows: "set (upsert_segment ?new (d_segments d)) = insert ?new {s \<in> set (d_segments d). s_id s \<noteq> pp_id p}"
    using upsert_segment_set [OF ids, of ?new] row(2) by simp
  show "entity_exists d' i" if "named_by_claim d' i" for i
  proof -
    have e: "entity_exists d' = entity_exists d" by (intro ext) (simp add: entity_exists_def d')
    from that consider c where "c \<in> set (pp_claims p)" "i \<in> set (claim_entity_ids c)" | "named_by_claim d i"
      unfolding named_by_claim_def d' using rows row(1) by auto
    then show ?thesis
    proof cases
      case 1
      with claims(2) show ?thesis unfolding e by (auto simp: list_all_iff claim_row_ok_def)
    next
      case 2
      with refs show ?thesis unfolding e by blast
    qed
  qed
  have fresh: "set (map pc_id (pp_claims p)) \<inter> set (map pc_id (s_claims s)) = {}"
    if "s \<in> set (d_segments d)" "s_id s \<noteq> pp_id p" for s
    using claims(2) that by (force simp: list_all_iff claim_row_ok_def)
  have cols: "distinct (map pc_id (s_claims s))" if "s \<in> set (d_segments d)" for s
    using keys that by (simp add: distinct_concat_map)
  have cross: "set (map pc_id (s_claims a)) \<inter> set (map pc_id (s_claims b)) = {}"
    if "a \<in> set (d_segments d)" "b \<in> set (d_segments d)" "s_id a \<noteq> s_id b" for a b
  proof -
    from that(1,2) obtain i j where i: "i < length (d_segments d)" "d_segments d ! i = a"
      and j: "j < length (d_segments d)" "d_segments d ! j = b" by (auto simp: in_set_conv_nth)
    have ordered: "k < l \<Longrightarrow> l < length (d_segments d) \<Longrightarrow> set (map pc_id (s_claims (d_segments d ! k)))
        \<inter> set (map pc_id (s_claims (d_segments d ! l))) = {}" for k l
      using keys unfolding distinct_concat_map sorted_wrt_iff_nth_less by blast
    from that(3) i j have "i \<noteq> j" by blast
    then consider "i < j" | "j < i" by linarith
    then show ?thesis
      using ordered [of i j] ordered [of j i] i j by cases (simp_all add: inf_commute)
  qed
  have "sorted_wrt (\<lambda>a b. set (map pc_id (s_claims a)) \<inter> set (map pc_id (s_claims b)) = {}) rows"
    if "set rows \<subseteq> insert ?new {s \<in> set (d_segments d). s_id s \<noteq> pp_id p}" "distinct (map s_id rows)" for rows
    using that
  proof (induction rows)
    case (Cons a rows)
    have "set (map pc_id (s_claims a)) \<inter> set (map pc_id (s_claims b)) = {}" if b: "b \<in> set rows" for b
    proof -
      from Cons.prems b have "s_id a \<noteq> s_id b" by auto
      moreover from Cons.prems(1) b have "a = ?new \<or> a \<in> set (d_segments d) \<and> s_id a \<noteq> pp_id p"
        "b = ?new \<or> b \<in> set (d_segments d) \<and> s_id b \<noteq> pp_id p" by auto
      ultimately show ?thesis using fresh cross row by (metis inf_commute)
    qed
    with Cons show ?case by simp
  qed simp
  with rows upsert_segment_ids [OF ids, of ?new] cols claims(1) row(1)
  show "distinct (concat (map (\<lambda>s. map pc_id (s_claims s)) (d_segments d')))"
    unfolding d' distinct_concat_map by auto
qed

lemma drop_orphans_store:
  assumes "distinct (map s_id (d_segments d))" "distinct (concat (map (\<lambda>s. map pc_id (s_claims s)) (d_segments d)))"
    "\<And>i. named_by_claim d i \<Longrightarrow> entity_exists d i"
    and "distinct (map en_id (d_entities d))" "distinct (map alias_key (d_aliases d))"
    "\<And>a. a \<in> set (d_aliases d) \<Longrightarrow> entity_exists d (al_entity_id a)"
  shows "store_ok (drop_orphans is d)"
proof -
  let ?d = "drop_orphans is d"
  have named: "named_by_claim ?d = named_by_claim d" by (intro ext) (simp add: named_by_claim_def drop_orphans_frame)
  have ex: "entity_exists ?d i" if "entity_exists d i" "\<not> (i \<in> set is \<and> \<not> named_by_claim d i)" for i
    using that by (auto simp: entity_exists_def drop_orphans_def Let_def)
  have "entity_exists ?d (al_entity_id a)" if "a \<in> set (d_aliases ?d)" for a
    using that assms(6) by (intro ex) (auto simp: drop_orphans_def Let_def)
  moreover have "distinct (map en_id (d_entities ?d))" "distinct (map alias_key (d_aliases ?d))"
    using assms(4,5) by (simp_all add: drop_orphans_def Let_def distinct_map_filter)
  ultimately show ?thesis
    using assms(1-3) ex by (simp add: store_ok_def named drop_orphans_frame alias_key_def [abs_def])
qed

lemma commit_store:
  assumes run: "commitResolution cr cf vfp job ex p d = Inr (b, d')" and ok: "store_ok d"
  shows "store_ok d'"
  using run
proof (cases rule: commitResolution_cases)
  case stale
  with ok show ?thesis by simp
next
  case requeued
  from store_ok_same [OF requeue_store [OF requeued(2)]] ok show ?thesis by simp
next
  case (committed source current t st fp)
  from committed(11) show ?thesis
  proof (cases rule: commit_staged_cases)
    case (older s)
    have "same_store d d'" unfolding older(5) by (simp add: succeed_rows_def)
    from store_ok_same [OF this] ok show ?thesis by simp
  next
    case (written d1 d2)
    note s1 = put_entities_store [OF written(2) ok]
    note s2 = put_segment_store [OF written(3) s1(1)]
    have frame: "d_entities d2 = d_entities d1" "d_aliases d2 = d_aliases d1"
      using put_segment_frame [OF written(3)] by simp_all
    have "store_ok (drop_orphans (segment_entity_ids (pp_id p) d) d2)"
    proof (rule drop_orphans_store [OF s2])
      show "distinct (map en_id (d_entities d2))" "distinct (map alias_key (d_aliases d2))"
        using s1(1) frame by (simp_all add: store_ok_def alias_key_def [abs_def])
      show "entity_exists d2 (al_entity_id a)" if "a \<in> set (d_aliases d2)" for a
        using s1(1) frame that by (simp add: store_ok_def entity_exists_def)
    qed
    moreover have "same_store (drop_orphans (segment_entity_ids (pp_id p) d) d2) d'"
      unfolding written(6) by (simp add: succeed_rows_def)
    ultimately show ?thesis using store_ok_same by blast
  qed
qed

section \<open>Runs\<close>

lemma step_same_store:
  assumes "queue_step cr cf vfp d e d'"
  shows "same_store d d' \<or> (\<exists>job ex p b. commitResolution cr cf vfp job ex p d = Inr (b, d'))"
  using assms
proof (cases rule: queue_step.cases)
  case (step_recover r)
  then show ?thesis unfolding recoverRunningJobs_def using recover_segments_store by blast
next
  case (step_tick n)
  then show ?thesis by simp
qed (blast intro: enqueue_store claim_store retry_store supersede_store finish_store publish_store)+

lemma store_step:
  assumes "queue_step cr cf vfp d e d'" "store_ok d"
  shows "store_ok d'"
  using step_same_store [OF assms(1)] commit_store [OF _ assms(2)] store_ok_same assms(2) by blast

text \<open>No transaction touches the registry of sources.\<close>

lemma commit_sources:
  assumes run: "commitResolution cr cf vfp job ex p d = Inr (b, d')"
  shows "d_sources d' = d_sources d"
  using run
proof (cases rule: commitResolution_cases)
  case requeued
  from requeue_store [OF requeued(2)] show ?thesis by (simp add: same_store_def)
next
  case (committed source current t st fp)
  from committed(11) show ?thesis
  proof (cases rule: commit_staged_cases)
    case (written d1 d2)
    have "d_sources (drop_orphans is d2) = d_sources d2" for "is" by (simp add: drop_orphans_def Let_def)
    with put_entities_frame [OF written(2)] put_segment_frame [OF written(3)] show ?thesis
      unfolding written(6) by (simp add: delete_targets_def succeed_rows_def update_jobs_def)
  qed (simp add: delete_targets_def succeed_rows_def update_jobs_def)
qed simp

lemma step_sources: "queue_step cr cf vfp d e d' \<Longrightarrow> d_sources d' = d_sources d"
  using step_same_store commit_sources unfolding same_store_def by metis

interpretation store: transaction_system "queue_step cr cf vfp" "\<lambda>_. True" store_ok
  by unfold_locales (rule store_step)

text \<open>
  C18. The knowledge graph stays closed. After any run from an empty installation every claim refers
  only to entities that exist, every alias belongs to one, claim IDs, entity IDs and segment IDs are
  unique, and so is an alias of an entity in its normalised form.
\<close>

theorem reachable_store_closed:
  assumes "runs (queue_step cr cf vfp) (empty_db sources now) es d"
  shows "(\<forall>s\<in>set (d_segments d). \<forall>c\<in>set (s_claims s). \<forall>i\<in>set (claim_entity_ids c). entity_exists d i)
    \<and> (\<forall>a\<in>set (d_aliases d). entity_exists d (al_entity_id a))
    \<and> distinct (map en_id (d_entities d)) \<and> distinct (map s_id (d_segments d))
    \<and> distinct (concat (map (\<lambda>s. map pc_id (s_claims s)) (d_segments d)))
    \<and> distinct (map (\<lambda>a. (al_entity_id a, al_normalized_alias a)) (d_aliases d))"
proof -
  have "store_ok (empty_db sources now)" by (simp add: store_ok_def empty_db_def named_by_claim_def)
  from store.runs_inv [OF assms _ this] have "store_ok d" by (simp add: list_all_iff)
  then show ?thesis unfolding store_ok_def named_by_claim_def by blast
qed

theorem reachable_store_closed_witness:
  "\<exists>d. distinct (map en_id (d_entities d)) \<and> runs (queue_step flat_crypto fold1 flat_vfp) db0
    [EnqueueTx sample_native, ClaimTx lease1 [], PublishTx claim1 extraction1, CommitTx claim1 extraction1 prepared1] d"
  using sample_runs reachable_store_closed unfolding db0_def by blast

end
