(* ===== verification/WorkerInvariant.thy ===== *)
theory WorkerInvariant
  imports Worker EntityStore
begin

text \<open>
  The invariant of the worker: it respects its concurrency, works on one job of a session at a time,
  lets one task at a time through the resolution lane, and a task that has finished holds no lease.
\<close>

section \<open>Sessions\<close>

definition task_key :: "claimed_job \<times> stage \<Rightarrow> jsstr" where
  "task_key t = sessionKey (fst t)"

definition sessions_ok :: "nat \<Rightarrow> (claimed_job \<times> stage) list \<Rightarrow> (jsstr \<times> source_session) list \<Rightarrow> bool" where
  "sessions_ok n ts ss \<longleftrightarrow> length ts \<le> n \<and> ss = map (\<lambda>t. (task_key t, job_session (fst t))) ts
     \<and> distinct (map task_key ts)"

lemma sessionKey_cancel: "sessionKey a = sessionKey b \<Longrightarrow> job_session a = job_session b"
  unfolding sessionKey_def by (rule session_key_cancel)

text \<open>
  The registry's \<open>CHECK\<close> keeps source IDs trimmed of spaces; here they carry no white space at either
  end, so that parsing an entry leaves its ID alone.
\<close>

definition registry_ok :: "db \<Rightarrow> bool" where
  "registry_ok d \<longleftrightarrow> (\<forall>s\<in>set (d_sources d). trim (src_id s) = src_id s)"

lemma effectiveSource_owner:
  assumes "effectiveSource d owner = Inr source" "registry_ok d"
  shows "effective_owner d owner = Some (src_id source)"
proof (cases owner)
  case (Some i)
  with assms(1) effectiveSource_id show ?thesis by (auto simp: effective_owner_def)
next
  case None
  with assms(1) obtain s where s: "legacy_source d = Some s" "parseSourceInfo s = Inr source"
    by (auto simp: effectiveSource_def db_lift_Inr split: option.splits)
  then have "s \<in> set (d_sources d)" unfolding legacy_source_def by (auto dest: find_SomeD)
  with assms(2) have "trim (src_id s) = src_id s" by (simp add: registry_ok_def)
  with s(2) have "src_id source = src_id s"
    by (auto simp: parseSourceInfo_def parseSourceId_def Let_def split: if_splits)
  with None s(1) show ?thesis by (simp add: effective_owner_def)
qed

text \<open>What a claim knows about the row it was made from.\<close>

lemma claimed_row_facts:
  assumes "claimOldestJob cr vfp lease ex d = Inr (Some c, d')" and registry: "registry_ok d"
  obtains j where "j \<in> set (d_jobs d)" "eligible d ex j" "j_id j = cj_id c" "cj_leaseId c = lease"
    "effective_owner d (j_source_id j) = Some (cj_sourceId c)" "j_session_id j = rb_session_id (rq_body (cj_request c))"
    "persistedJobMatchesClaim (started_row lease (d_now d) j) c"
    "d' = update_jobs (\<lambda>k. j_id k = j_id j \<and> j_status k = Pending) (started_row lease (d_now d)) d"
  using assms(1)
proof (cases rule: claimOldestJob_cases)
  case (claimed j source s payload r)
  note j = claim_candidateD [OF claimed(1)]
  from claimed(7) obtain staged where c: "c = \<lparr>cj_id = j_id j, cj_segmentId = j_segment_id j, cj_leaseId = lease,
             cj_sourceGeneration = j_generation j, cj_sourceFingerprint = the (j_fingerprint j),
             cj_attempts = j_attempts j + 1, cj_sourceId = src_id source, cj_request = r,
             cj_extractionResult = staged\<rparr>"
    and d': "d' = update_jobs (\<lambda>k. j_id k = j_id j \<and> j_status k = Pending) (started_row lease (d_now d)) d"
    by (rule start_claimD) blast
  from claimed(6) have r: "rb_session_id (rq_body r) = j_session_id j"
    "start_user (request_boundary r) = start_user (j_boundary j)" "boundary_matches (request_boundary r) (j_boundary j)"
    "rb_projection_version (rq_body r) = j_projection_version j" "j_fingerprint j = Some (ingestSourceFingerprint cr r)"
    by (auto simp: request_matches_job_def db_lift_Inr split: if_splits)
  then have "persistedJobMatchesClaim (started_row lease (d_now d) j) c"
    by (simp add: persistedJobMatchesClaim_def started_row_def c boundary_matches_def)
  with that [OF conjunct1 [OF j] conjunct2 [OF j]] effectiveSource_owner [OF claimed(2) registry] r(1) d' show ?thesis
    by (simp add: c)
qed simp_all

lemma claim_new_session:
  assumes run: "claimOldestJob cr vfp lease (excluded_sessions ss) d = Inr (Some c, d')" and ss: "sessions_ok n ts ss"
    and registry: "registry_ok d"
  shows "sessionKey c \<notin> task_key ` set ts"
proof
  assume "sessionKey c \<in> task_key ` set ts"
  then obtain t where t: "t \<in> set ts" "sessionKey c = sessionKey (fst t)" by (auto simp: task_key_def)
  from sessionKey_cancel [OF t(2)] have "job_session (fst t) = job_session c" by simp
  with t(1) ss have "(task_key t, job_session c) \<in> set ss" by (force simp: sessions_ok_def)
  then have ex: "(cj_sourceId c, rb_session_id (rq_body (cj_request c))) \<in> set (excluded_sessions ss)"
    by (force simp: excluded_sessions_def job_session_def)
  from run registry obtain j where "eligible d (excluded_sessions ss) j"
    "effective_owner d (j_source_id j) = Some (cj_sourceId c)" "j_session_id j = rb_session_id (rq_body (cj_request c))"
    by (rule claimed_row_facts)
  with ex show False by (auto simp: eligible_def)
qed

lemma sessions_claim:
  assumes "sessions_ok n ts ss" "length ts < n" "sessionKey c \<notin> task_key ` set ts"
  shows "sessions_ok n (ts @ [(c, Started)]) (put_session c ss)"
proof -
  have "fst ` set ss = task_key ` set ts" using assms(1) by (force simp: sessions_ok_def)
  with assms show ?thesis by (auto simp: sessions_ok_def put_session_def task_key_def)
qed

lemma map_update_same: "f y = f (xs ! i) \<Longrightarrow> map f (xs[i := y]) = map f xs"
proof (cases "i < length xs")
  case True
  assume "f y = f (xs ! i)"
  with True have "map f (xs[i := y]) = (map f xs)[i := map f xs ! i]" by (simp add: map_update)
  then show ?thesis by (simp only: list_update_id)
next
  case False
  then show ?thesis by (simp add: list_update_beyond)
qed

lemma sessions_update:
  assumes "sessions_ok n ts ss" "ts ! i = (c, st)"
  shows "sessions_ok n (ts[i := (c, st')]) ss"
proof -
  have "map task_key (ts[i := (c, st')]) = map task_key ts"
    "map (\<lambda>t. (task_key t, job_session (fst t))) (ts[i := (c, st')]) = map (\<lambda>t. (task_key t, job_session (fst t))) ts"
    by (rule map_update_same, simp add: assms(2) task_key_def)+
  with assms(1) show ?thesis by (simp add: sessions_ok_def)
qed

lemma sessions_remove:
  assumes "sessions_ok n ts ss" "ts = xs @ (c, st) # ys"
  shows "sessions_ok n (xs @ ys) (delete_session c ss)"
proof -
  have "distinct (map task_key (xs @ (c, st) # ys))" using assms by (simp add: sessions_ok_def)
  then have fresh: "sessionKey c \<notin> task_key ` set (xs @ ys)" by (auto simp: task_key_def)
  have "task_key t \<noteq> sessionKey c" if "t \<in> set (xs @ ys)" for t
    using fresh imageI [OF that, of task_key] by metis
  then have "delete_session c (map (\<lambda>t. (task_key t, job_session (fst t))) zs)
      = map (\<lambda>t. (task_key t, job_session (fst t))) zs" if "set zs \<subseteq> set (xs @ ys)" for zs
    using that unfolding delete_session_def by (intro filter_True) auto
  from this [of xs] this [of ys] have "delete_session c ss = map (\<lambda>t. (task_key t, job_session (fst t))) (xs @ ys)"
    using assms by (simp add: sessions_ok_def delete_session_def task_key_def)
  with assms show ?thesis by (auto simp: sessions_ok_def)
qed

section \<open>The lane\<close>

definition lane_ok :: "(claimed_job \<times> stage) list \<Rightarrow> jsstr list \<Rightarrow> bool" where
  "lane_ok ts lane \<longleftrightarrow> distinct lane \<and> set lane = task_key ` {t \<in> set ts. in_lane (snd t)}
     \<and> (\<forall>t\<in>set ts. in_lane (snd t) \<and> \<not> queued (snd t) \<longrightarrow> hd lane = task_key t)
     \<and> (\<forall>t\<in>set ts. \<forall>e. snd t = Queued e \<longrightarrow> ex_claims e \<noteq> [])"

lemma set_update_distinct:
  assumes "distinct (map f xs)" "i < length xs"
  shows "set (xs[i := y]) = insert y {x \<in> set xs. f x \<noteq> f (xs ! i)}"
proof -
  have "x \<in> set (xs[i := y]) \<longleftrightarrow> x = y \<or> (\<exists>j<length xs. j \<noteq> i \<and> x = xs ! j)" for x
  proof
    assume "x \<in> set (xs[i := y])"
    then obtain j where j: "j < length xs" "x = xs[i := y] ! j" by (auto simp: in_set_conv_nth)
    then show "x = y \<or> (\<exists>j<length xs. j \<noteq> i \<and> x = xs ! j)" by (cases "j = i") auto
  next
    assume "x = y \<or> (\<exists>j<length xs. j \<noteq> i \<and> x = xs ! j)"
    then obtain j where "j < length xs" "xs[i := y] ! j = x" using assms(2) by (auto simp: nth_list_update)
    then show "x \<in> set (xs[i := y])" by (auto simp: in_set_conv_nth)
  qed
  moreover have "(\<exists>j<length xs. j \<noteq> i \<and> x = xs ! j) \<longleftrightarrow> x \<in> set xs \<and> f x \<noteq> f (xs ! i)" for x
  proof -
    have "f (xs ! j) = f (xs ! i) \<longleftrightarrow> j = i" if "j < length xs" for j
      using assms that by (metis distinct_conv_nth length_map nth_map)
    then show ?thesis by (auto simp: in_set_conv_nth)
  qed
  ultimately show ?thesis by blast
qed

lemma lane_head: "lane_ok ts lane \<Longrightarrow> t \<in> set ts \<Longrightarrow> in_lane (snd t) \<Longrightarrow> lane \<noteq> []"
  by (auto simp: lane_ok_def)

lemma lane_enter:
  assumes ok: "lane_ok ts lane" and ts': "set ts' = insert (c, st') {t \<in> set ts. task_key t \<noteq> sessionKey c}"
    and st: "\<And>t. t \<in> set ts \<Longrightarrow> task_key t = sessionKey c \<Longrightarrow> \<not> in_lane (snd t)" and st': "st' = Queued e" "ex_claims e \<noteq> []"
  shows "lane_ok ts' (lane @ [sessionKey c])"
proof -
  have lane: "distinct lane" "set lane = task_key ` {t \<in> set ts. in_lane (snd t)}" using ok by (simp_all add: lane_ok_def)
  with st have "sessionKey c \<notin> set lane" by (auto simp: task_key_def)
  moreover have "{t \<in> set ts'. in_lane (snd t)} = insert (c, st') {t \<in> set ts. in_lane (snd t)}"
    unfolding ts' using st st' by auto
  moreover have "hd (lane @ [sessionKey c]) = task_key t" if "t \<in> set ts'" "in_lane (snd t)" "\<not> queued (snd t)" for t
  proof -
    from that st' have t: "t \<in> set ts" unfolding ts' by auto
    from lane_head [OF ok t that(2)] ok t that(2,3) show ?thesis by (simp add: lane_ok_def)
  qed
  moreover have "\<forall>t\<in>set ts'. \<forall>e. snd t = Queued e \<longrightarrow> ex_claims e \<noteq> []"
    unfolding ts' using ok st' by (auto simp: lane_ok_def)
  ultimately show ?thesis using lane by (simp add: lane_ok_def task_key_def)
qed

lemma lane_leave:
  assumes ok: "lane_ok ts lane" and ts': "set ts' = {t \<in> set ts. task_key t \<noteq> sessionKey c} \<union> X"
    and X: "X \<subseteq> {(c, st')}" "\<not> in_lane st'" and head: "lane = sessionKey c # rest"
    and c: "\<And>t. t \<in> set ts \<Longrightarrow> task_key t = sessionKey c \<Longrightarrow> in_lane (snd t)"
  shows "lane_ok ts' rest"
proof -
  have lane: "distinct lane" "set lane = task_key ` {t \<in> set ts. in_lane (snd t)}" using ok by (simp_all add: lane_ok_def)
  have "{t \<in> set ts'. in_lane (snd t)} = {t \<in> set ts. in_lane (snd t) \<and> task_key t \<noteq> sessionKey c}"
    unfolding ts' using X by auto
  then have "task_key ` {t \<in> set ts'. in_lane (snd t)} = set lane - {sessionKey c}" using lane(2) by auto
  moreover have "queued (snd t)" if "t \<in> set ts'" "in_lane (snd t)" for t
  proof (rule ccontr)
    assume "\<not> queued (snd t)"
    moreover from that X have "t \<in> set ts" "task_key t \<noteq> sessionKey c" unfolding ts' by auto
    ultimately show False using ok that(2) head by (auto simp: lane_ok_def)
  qed
  moreover have "\<forall>t\<in>set ts'. \<forall>e. snd t = Queued e \<longrightarrow> ex_claims e \<noteq> []"
    unfolding ts' using ok X by (auto simp: lane_ok_def)
  ultimately show ?thesis using lane(1) head unfolding lane_ok_def by auto
qed

lemma lane_stay:
  assumes ok: "lane_ok ts lane" and ts': "set ts' = insert (c, st') {t \<in> set ts. task_key t \<noteq> sessionKey c}"
    and old: "(c, st) \<in> set ts" "\<And>t. t \<in> set ts \<Longrightarrow> task_key t = sessionKey c \<Longrightarrow> t = (c, st)"
    and same: "in_lane st' = in_lane st" and q: "\<And>e. st' = Queued e \<Longrightarrow> st = Queued e"
    and head: "in_lane st' \<Longrightarrow> \<not> queued st' \<Longrightarrow> hd lane = sessionKey c"
  shows "lane_ok ts' lane"
proof -
  let ?others = "{t \<in> set ts. task_key t \<noteq> sessionKey c \<and> in_lane (snd t)}"
  have "{t \<in> set ts'. in_lane (snd t)} = (if in_lane st' then insert (c, st') ?others else ?others)"
    unfolding ts' by auto
  moreover have "{t \<in> set ts. in_lane (snd t)} = (if in_lane st then insert (c, st) ?others else ?others)"
    using old by auto
  ultimately have "task_key ` {t \<in> set ts'. in_lane (snd t)} = task_key ` {t \<in> set ts. in_lane (snd t)}"
    using same by (simp add: task_key_def)
  moreover have "\<forall>t\<in>set ts'. in_lane (snd t) \<and> \<not> queued (snd t) \<longrightarrow> hd lane = task_key t"
    unfolding ts' using ok head by (auto simp: lane_ok_def task_key_def)
  moreover have "\<forall>t\<in>set ts'. \<forall>e. snd t = Queued e \<longrightarrow> ex_claims e \<noteq> []"
    unfolding ts' using ok old(1) q by (fastforce simp: lane_ok_def)
  ultimately show ?thesis using ok by (simp add: lane_ok_def)
qed

section \<open>Leases\<close>

definition claim_matches :: "db \<Rightarrow> claimed_job \<Rightarrow> bool" where
  "claim_matches d c \<longleftrightarrow> (\<forall>j\<in>set (d_jobs d). j_id j = cj_id c \<and> j_lease_id j = Some (cj_leaseId c)
     \<longrightarrow> persistedJobMatchesClaim j c)"

lemma persisted_source: "persistedJobMatchesClaim (j\<lparr>j_source_id := x\<rparr>) c = persistedJobMatchesClaim j c"
  by (simp add: persistedJobMatchesClaim_def)

lemma claim_matches_from: "leases_from d d' \<Longrightarrow> claim_matches d c \<Longrightarrow> claim_matches d' c"
  unfolding claim_matches_def
proof (intro ballI impI)
  fix j assume from_: "leases_from d d'" and old: "\<forall>j\<in>set (d_jobs d). j_id j = cj_id c \<and> j_lease_id j = Some (cj_leaseId c)
      \<longrightarrow> persistedJobMatchesClaim j c"
    and j: "j \<in> set (d_jobs d')" "j_id j = cj_id c \<and> j_lease_id j = Some (cj_leaseId c)"
  then obtain k where k: "k \<in> set (d_jobs d)" "j = k\<lparr>j_source_id := j_source_id j\<rparr>" "j_id k = j_id j" "j_lease_id k = j_lease_id j"
    using leases_fromD [OF from_ j(1)] by (metis option.distinct(1))
  with old j(2) have "persistedJobMatchesClaim k c" by simp
  then show "persistedJobMatchesClaim j c" by (subst k(2)) (simp add: persisted_source)
qed

lemma lease_gone_from: "leases_from d d' \<Longrightarrow> queue_ok d' \<Longrightarrow> lease_gone c d \<Longrightarrow> lease_gone c d'"
  unfolding lease_gone_def using leases_fromD by (metis option.distinct(1))

lemma lease_goneI:
  assumes "queue_ok d" "\<And>j. j \<in> set (d_jobs d) \<Longrightarrow> \<not> holds_lease c j"
  shows "lease_gone c d"
  unfolding lease_gone_def
proof (intro conjI assms(1) notI)
  assume "\<exists>j\<in>set (d_jobs d). j_id j = cj_id c \<and> j_lease_id j = Some (cj_leaseId c)"
  then obtain j where j: "j \<in> set (d_jobs d)" "j_id j = cj_id c" "j_lease_id j = Some (cj_leaseId c)" by blast
  from base_lease [OF queue_okD(1) [OF assms(1)] j(1)] j(3) have "j_status j = Running" by (simp add: lease_ok_def)
  with assms(2) [OF j(1)] j show False by (simp add: holds_lease_def)
qed

lemma no_lease_update:
  assumes "\<And>j. j \<in> set (d_jobs d) \<Longrightarrow> holds_lease c j \<Longrightarrow> p j" "\<And>j. j_lease_id (f j) = None"
    and "j \<in> set (d_jobs (update_jobs p f d))"
  shows "\<not> holds_lease c j"
proof -
  from assms(3) obtain k where k: "k \<in> set (d_jobs d)" "j = (if p k then f k else k)"
    unfolding update_jobs_simps set_map by blast
  show ?thesis
  proof (cases "p k")
    case True
    with k(2) assms(2) [of k] show ?thesis by (simp add: holds_lease_def)
  next
    case False
    with k assms(1) show ?thesis by auto
  qed
qed

lemma requeue_gone:
  assumes run: "requeueLatestTarget c (find_target seg d) d = Inr d'" and ok: "queue_ok d"
  shows "lease_gone c d'"
proof (rule lease_goneI [OF requeueLatestTarget_queue [OF run ok]])
  fix j assume j: "j \<in> set (d_jobs d')"
  have sup: "\<not> holds_lease c j" if "supersede_claim c d = Inr d1" "j \<in> set (d_jobs d1)" for d1 j
    using that(2) unfolding conjunct1 [OF supersede_claim_eq [OF that(1)]]
    by (rule no_lease_update [rotated 2]) (simp_all add: supersede_row_def)
  show "\<not> holds_lease c j"
  proof (cases "find_target seg d")
    case None
    with run sup j show ?thesis by (simp add: requeueLatestTarget_def)
  next
    case (Some t)
    show ?thesis
    proof (cases "tg_job_id t = cj_id c")
      case True
      with run Some obtain payload where d': "d' = update_jobs (holds_lease c) (take_target (d_now d) t payload) d"
        by (auto simp: requeueLatestTarget_def split: if_splits)
      show ?thesis using j unfolding d' by (rule no_lease_update [rotated 2]) (simp_all add: take_target_def)
    next
      case False
      with run Some obtain payload d1 where d1: "supersede_claim c d = Inr d1"
        and d': "d' = update_jobs (\<lambda>j. j_id j = tg_job_id t \<and> j_status j \<noteq> Running) (take_target (d_now d) t payload) d1"
        by (auto simp: requeueLatestTarget_def)
      show ?thesis using j unfolding d' by (rule no_lease_update [rotated 2]) (use sup [OF d1] in \<open>auto simp: take_target_def\<close>)
    qed
  qed
qed

lemma stale_gone:
  assumes "stale_claim c d" "queue_ok d" "claim_matches d c"
  shows "lease_gone c d"
proof -
  have "current_claim c d = None"
  proof (rule ccontr)
    assume "current_claim c d \<noteq> None"
    then obtain j where j: "current_claim c d = Some j" by blast
    then have "j \<in> set (d_jobs d)" "j_id j = cj_id c" "j_lease_id j = Some (cj_leaseId c)"
      by (auto simp: current_claim_def dest: find_jobD split: option.splits if_splits)
    with assms(3) have "persistedJobMatchesClaim j c" by (simp add: claim_matches_def)
    with assms(1) j show False by (simp add: stale_claim_def)
  qed
  with lease_gone_current [OF assms(2)] show ?thesis by simp
qed

lemma publish_gone:
  assumes "publishExtraction cr vfp c e d = Inr (False, d')" "queue_ok d" "claim_matches d c"
  shows "lease_gone c d'"
  using assms(1)
proof (cases rule: publishExtraction_cases)
  case stale
  from stale_gone [OF stale(3) assms(2,3)] stale(2) show ?thesis by simp
next
  case requeued
  from requeue_gone [OF requeued(2) assms(2)] show ?thesis .
qed simp

lemma finish_gone:
  assumes "finishFailedAttempt cr c err retry d = Inr (b, d')" "queue_ok d" "claim_matches d c"
  shows "lease_gone c d'"
  using assms(1)
proof (cases rule: finishFailedAttempt_cases)
  case stale
  from stale_gone [OF stale(3) assms(2,3)] stale(2) show ?thesis by simp
next
  case requeued
  from requeue_gone [OF requeued(4) assms(2)] show ?thesis .
next
  case updated
  have "\<not> holds_lease c j" if "j \<in> set (d_jobs (update_jobs (holds_lease c) (attempt_row err retry d) d))" for j
    using that by (rule no_lease_update [rotated 2]) (simp_all add: attempt_row_def)
  then have "\<not> holds_lease c j" if "j \<in> set (d_jobs d')" for j
    using that unfolding updated(4) Let_def by (simp add: delete_targets_simps split: if_splits)
  with finishFailedAttempt_queue [OF assms(1,2)] show ?thesis by (intro lease_goneI)
qed

lemma commit_gone:
  assumes "commitResolution cr cf vfp c ex p d = Inr (b, d')" "queue_ok d" "claim_matches d c"
  shows "lease_gone c d'"
  using assms(1)
proof (cases rule: commitResolution_cases)
  case stale
  from stale_gone [OF stale(3) assms(2,3)] stale(2) show ?thesis by simp
next
  case requeued
  from requeue_gone [OF requeued(2) assms(2)] show ?thesis .
next
  case (committed source current t st fp)
  have "\<not> holds_lease c j" if j: "j \<in> set (d_jobs d')" for j
    using committed(11)
  proof (cases rule: commit_staged_cases)
    case (older s)
    from j show ?thesis unfolding older(5) delete_targets_simps succeed_rows_def
      by (rule no_lease_update [rotated 2]) simp_all
  next
    case (written d1 d2)
    from put_entities_frame [OF written(2)] put_segment_frame [OF written(3)]
    have jobs: "d_jobs (drop_orphans (segment_entity_ids (pp_id p) d) d2) = d_jobs d" by (simp add: drop_orphans_frame)
    have "\<exists>k\<in>set (d_jobs d). claimed_row c k"
      using written(4) by (cases "filter (claimed_row c) (d_jobs d)") (auto simp: filter_eq_Cons_iff)
    then obtain k where k: "k \<in> set (d_jobs d)" "claimed_row c k" by blast
    have row: "claimed_row c l" if "l \<in> set (d_jobs d)" "holds_lease c l" for l
    proof -
      have "j_id k = j_id l" using k(2) that(2) by (simp add: claimed_row_def holds_lease_def)
      from same_id_same_job [OF queue_okD(1) [OF assms(2)] k(1) that(1) this] k(2) show ?thesis by simp
    qed
    from j show ?thesis unfolding written(6) delete_targets_simps succeed_rows_def
      by (rule no_lease_update [rotated 2]) (use row jobs in simp_all)
  qed
  with commitResolution_queue [OF assms(1,2)] show ?thesis by (intro lease_goneI)
qed

section \<open>Tasks\<close>

definition tasks_ok :: "db \<Rightarrow> (claimed_job \<times> stage) list \<Rightarrow> bool" where
  "tasks_ok d ts \<longleftrightarrow> (\<forall>t\<in>set ts. claim_matches d (fst t) \<and> (\<forall>r. snd t = Finished r \<longrightarrow> lease_gone (fst t) d))"

lemma tasks_from: "leases_from d d' \<Longrightarrow> queue_ok d' \<Longrightarrow> tasks_ok d ts \<Longrightarrow> tasks_ok d' ts"
  unfolding tasks_ok_def using claim_matches_from lease_gone_from by blast

lemma tasks_subset: "tasks_ok d ts \<Longrightarrow> set us \<subseteq> set ts \<Longrightarrow> tasks_ok d us"
  unfolding tasks_ok_def by blast

lemma process_next_db:
  assumes "process_next cr cf vfp s c reply st d = (st', d')" "queue_ok d"
  shows "queue_ok d' \<and> leases_from d d' \<and> d_sources d' = d_sources d"
proof (cases "d' = d")
  case True
  with assms(2) show ?thesis by (simp add: leases_from_same)
next
  case False
  then consider (publish) b e where "publishExtraction cr vfp c e d = Inr (b, d')"
    | (commit) b e p where "commitResolution cr cf vfp c e p d = Inr (b, d')"
    | (finish) b err r where "finishFailedAttempt cr c err r d = Inr (b, d')"
    using assms(1) by (cases st) (auto split: option.splits reply.splits sum.splits)
  then show ?thesis
  proof cases
    case publish
    with assms(2) show ?thesis by (blast intro: publishExtraction_queue publish_leases step_sources step_publish)
  next
    case commit
    with assms(2) show ?thesis by (blast intro: commitResolution_queue commit_leases commit_sources)
  next
    case finish
    with assms(2) show ?thesis by (blast intro: finishFailedAttempt_queue finish_leases step_sources step_fail)
  qed
qed

lemma process_next_gone:
  assumes run: "process_next cr cf vfp s c reply st d = (st', d')" and ok: "queue_ok d" "claim_matches d c"
    and old: "\<And>r. st = Finished r \<Longrightarrow> lease_gone c d" and new: "st' = Finished r"
  shows "lease_gone c d'"
proof (cases "\<exists>r. st = Finished r")
  case True
  with run old show ?thesis by auto
next
  case False
  with run new consider (publish) e where "publishExtraction cr vfp c e d = Inr (False, d')"
    | (commit) b e p where "commitResolution cr cf vfp c e p d = Inr (b, d')"
    | (finish) b err r where "finishFailedAttempt cr c err r d = Inr (b, d')"
    by (cases st) (auto split: option.splits reply.splits sum.splits if_splits)
  then show ?thesis by cases (use ok in \<open>blast intro: publish_gone commit_gone finish_gone\<close>)+
qed

lemma process_next_lane:
  assumes "process_next cr cf vfp s c reply st d = (st', d')"
  shows "\<not> in_lane st \<Longrightarrow> in_lane st' \<Longrightarrow> \<exists>e. st' = Queued e \<and> ex_claims e \<noteq> []"
    and "st' = Queued e \<Longrightarrow> \<not> in_lane st"
  using assms by (cases st; auto split: option.splits reply.splits sum.splits if_splits)+

text \<open>A claim gives its lease to one row, which matches the claim.\<close>

lemma claimed_rows:
  assumes run: "claimOldestJob cr vfp lease ex d = Inr (Some c, d')" and registry: "registry_ok d" and ok: "queue_ok d"
    and j: "j \<in> set (d_jobs d')"
  shows "j \<in> set (d_jobs d) \<or> j_lease_id j = Some lease \<and> persistedJobMatchesClaim j c \<and> j_id j = cj_id c"
proof -
  from run registry obtain k where k: "k \<in> set (d_jobs d)"
    "j_id k = cj_id c" "persistedJobMatchesClaim (started_row lease (d_now d) k) c"
    "d' = update_jobs (\<lambda>i. j_id i = j_id k \<and> j_status i = Pending) (started_row lease (d_now d)) d"
    by (rule claimed_row_facts)
  from j obtain l where l: "l \<in> set (d_jobs d)"
    "j = (if j_id l = j_id k \<and> j_status l = Pending then started_row lease (d_now d) l else l)"
    unfolding k(4) update_jobs_simps set_map by blast
  show ?thesis
  proof (cases "j_id l = j_id k \<and> j_status l = Pending")
    case True
    with same_id_same_job [OF queue_okD(1) [OF ok] l(1) k(1)] have "l = k" by simp
    with True l(2) k(2,3) show ?thesis by (simp add: started_row_def)
  next
    case False
    then have "j = l" using l(2) by (simp only: if_False)
    with l(1) show ?thesis by simp
  qed
qed

lemma tasks_claim:
  assumes run: "claimOldestJob cr vfp lease ex d = Inr (Some c, d')" and registry: "registry_ok d" and ok: "queue_ok d"
    and fresh: "\<not> (\<exists>j\<in>set (d_jobs d). j_lease_id j = Some lease)" "\<not> (\<exists>t\<in>set ts. cj_leaseId (fst t) = lease)"
    and tasks: "tasks_ok d ts"
  shows "tasks_ok d' (ts @ [(c, Started)])"
proof -
  note rows = claimed_rows [OF run registry ok]
  from run registry have lease: "cj_leaseId c = lease" by (rule claimed_row_facts)
  have "claim_matches d' c" unfolding claim_matches_def lease using rows fresh(1) by blast
  moreover have "claim_matches d' (fst t)" if t: "t \<in> set ts" for t
    using tasks t rows fresh(2) unfolding claim_matches_def tasks_ok_def by (metis option.inject)
  moreover have "lease_gone (fst t) d'" if t: "t \<in> set ts" "snd t = Finished r" for t r
  proof -
    from tasks t have "lease_gone (fst t) d" unfolding tasks_ok_def by blast
    with rows fresh(2) t(1) claimOldestJob_queue [OF run ok] show ?thesis unfolding lease_gone_def by (metis option.inject)
  qed
  ultimately show ?thesis by (auto simp: tasks_ok_def)
qed

section \<open>The worker\<close>

definition worker_ok :: "worker_settings \<Rightarrow> worker \<Rightarrow> bool" where
  "worker_ok s w \<longleftrightarrow> queue_ok (w_db w) \<and> registry_ok (w_db w)
     \<and> sessions_ok (workerConcurrency s) (w_tasks w) (w_sessions w) \<and> lane_ok (w_tasks w) (w_lane w)
     \<and> tasks_ok (w_db w) (w_tasks w)"

lemma worker_okD:
  assumes "worker_ok s w"
  shows "queue_ok (w_db w)" "registry_ok (w_db w)" "sessions_ok (workerConcurrency s) (w_tasks w) (w_sessions w)"
    "lane_ok (w_tasks w) (w_lane w)" "tasks_ok (w_db w) (w_tasks w)"
  using assms by (simp_all add: worker_ok_def)

lemma registry_sources: "d_sources d' = d_sources d \<Longrightarrow> registry_ok d \<Longrightarrow> registry_ok d'"
  by (simp add: registry_ok_def)

text \<open>Any change of the tables alone that gives out no lease.\<close>

lemma worker_db:
  assumes "worker_ok s w" "queue_ok d'" "leases_from (w_db w) d'" "d_sources d' = d_sources (w_db w)"
  shows "worker_ok s (w\<lparr>w_db := d'\<rparr>)"
  using worker_okD [OF assms(1)] assms(2) tasks_from [OF assms(3,2)] registry_sources [OF assms(4)]
  by (simp add: worker_ok_def)

lemma lane_append: "lane_ok ts lane \<Longrightarrow> \<not> in_lane st \<Longrightarrow> lane_ok (ts @ [(c, st)]) lane"
proof -
  assume ok: "lane_ok ts lane" and st: "\<not> in_lane st"
  then have "{t \<in> set (ts @ [(c, st)]). in_lane (snd t)} = {t \<in> set ts. in_lane (snd t)}" by auto
  with ok st show ?thesis unfolding lane_ok_def by (auto simp del: set_append simp: set_append)
qed

lemma lane_remove: "lane_ok (xs @ (c, st) # ys) lane \<Longrightarrow> \<not> in_lane st \<Longrightarrow> lane_ok (xs @ ys) lane"
proof -
  assume ok: "lane_ok (xs @ (c, st) # ys) lane" and st: "\<not> in_lane st"
  then have "{t \<in> set (xs @ (c, st) # ys). in_lane (snd t)} = {t \<in> set (xs @ ys). in_lane (snd t)}" by auto
  with ok show ?thesis unfolding lane_ok_def by auto
qed

lemma worker_claim_ok:
  assumes ok: "worker_ok s w" and len: "length (w_tasks w) < workerConcurrency s" and fresh: "fresh_lease lease w"
    and run: "claimOldestJob cr vfp lease (excluded_sessions (w_sessions w)) (w_db w) = Inr (Some c, d')"
  shows "worker_ok s (w\<lparr>w_db := d', w_tasks := w_tasks w @ [(c, Started)], w_sessions := put_session c (w_sessions w)\<rparr>)"
proof -
  note w = worker_okD [OF ok]
  from step_sources [OF step_claim [OF run]] have src: "d_sources d' = d_sources (w_db w)" .
  from sessions_claim [OF w(3) len claim_new_session [OF run w(3) w(2)]]
  have "sessions_ok (workerConcurrency s) (w_tasks w @ [(c, Started)]) (put_session c (w_sessions w))" .
  moreover from fresh tasks_claim [OF run w(2,1) _ _ w(5)] have "tasks_ok d' (w_tasks w @ [(c, Started)])"
    by (simp add: fresh_lease_def)
  ultimately show ?thesis
    using w claimOldestJob_queue [OF run w(1)] registry_sources [OF src] by (simp add: worker_ok_def lane_append)
qed

lemma lane_task:
  assumes ok: "lane_ok ts lane" and keys: "distinct (map task_key ts)" and i: "i < length ts" "ts ! i = (c, st)"
    and run: "process_next cr cf vfp s c reply st d = (st', d')"
    and turn: "queued st \<longrightarrow> lane \<noteq> [] \<and> hd lane = sessionKey c"
  shows "lane_ok (ts[i := (c, st')]) (move_lane (sessionKey c) st st' lane)"
proof -
  have key: "task_key (ts ! i) = sessionKey c" by (simp add: i(2) task_key_def)
  have ts': "set (ts[i := (c, st')]) = insert (c, st') {t \<in> set ts. task_key t \<noteq> sessionKey c}"
    using set_update_distinct [OF keys i(1)] key by simp
  have old: "(c, st) \<in> set ts" using nth_mem [OF i(1)] i(2) by simp
  have only: "t = (c, st)" if "t \<in> set ts" "task_key t = sessionKey c" for t
    using inj_onD [OF conjunct2 [OF keys [unfolded distinct_map]] _ that(1) old] that(2) by (simp add: task_key_def)
  have head: "lane = sessionKey c # tl lane" if "in_lane st"
  proof -
    from ok old that lane_head [OF ok old] have "lane \<noteq> []" "\<not> queued st \<Longrightarrow> hd lane = sessionKey c"
      by (auto simp: lane_ok_def task_key_def)
    with turn show ?thesis by (cases lane) auto
  qed
  consider (enter) "\<not> in_lane st" "in_lane st'" | (leave) "in_lane st" "\<not> in_lane st'" | (stay) "in_lane st' = in_lane st"
    by blast
  then show ?thesis
  proof cases
    case enter
    then obtain e where e: "st' = Queued e" "ex_claims e \<noteq> []" using process_next_lane(1) [OF run] by blast
    have "\<not> in_lane (snd t)" if "t \<in> set ts" "task_key t = sessionKey c" for t
      using only [OF that] enter(1) by simp
    from lane_enter [OF ok ts' this e] enter show ?thesis by (simp add: move_lane_def)
  next
    case leave
    have c: "in_lane (snd t)" if "t \<in> set ts" "task_key t = sessionKey c" for t
      using only [OF that] leave(1) by simp
    have X: "set (ts[i := (c, st')]) = {t \<in> set ts. task_key t \<noteq> sessionKey c} \<union> {(c, st')}" using ts' by simp
    have "lane_ok (ts[i := (c, st')]) (tl lane)"
      by (rule lane_leave [OF ok X subset_refl leave(2) head [OF leave(1)] c])
    moreover from head [OF leave(1)] obtain rest where rest: "lane = sessionKey c # rest" by blast
    then have "filter (\<lambda>k. k \<noteq> sessionKey c) lane = rest" using ok by (auto intro: filter_True simp: lane_ok_def)
    ultimately show ?thesis using leave rest by (simp add: move_lane_def)
  next
    case stay
    have "lane_ok (ts[i := (c, st')]) lane"
    proof (rule lane_stay [OF ok ts' old only stay])
      show "st = Queued e" if "st' = Queued e" for e using process_next_lane(2) [OF run that] stay that by simp
      show "hd lane = sessionKey c" if "in_lane st'"
        using head that stay by (metis list.sel(1))
    qed
    with stay show ?thesis by (simp add: move_lane_def)
  qed
qed

lemma worker_task_ok:
  assumes ok: "worker_ok s w" and i: "i < length (w_tasks w)" "w_tasks w ! i = (c, st)"
    and turn: "queued st \<longrightarrow> w_lane w \<noteq> [] \<and> hd (w_lane w) = sessionKey c"
    and run: "process_next cr cf vfp s c reply st (w_db w) = (st', d')"
  shows "worker_ok s (w\<lparr>w_db := d', w_tasks := (w_tasks w)[i := (c, st')],
     w_lane := move_lane (sessionKey c) st st' (w_lane w)\<rparr>)"
proof -
  note w = worker_okD [OF ok]
  from process_next_db [OF run w(1)]
  have db: "queue_ok d'" "leases_from (w_db w) d'" "d_sources d' = d_sources (w_db w)" by simp_all
  have old: "(c, st) \<in> set (w_tasks w)" using nth_mem [OF i(1)] i(2) by simp
  then have c: "claim_matches (w_db w) c" "\<And>r. st = Finished r \<Longrightarrow> lease_gone c (w_db w)"
    using w(5) by (auto simp: tasks_ok_def)
  have "tasks_ok d' ((w_tasks w)[i := (c, st')])"
    using tasks_from [OF db(2,1) w(5)] claim_matches_from [OF db(2) c(1)] process_next_gone [OF run w(1) c]
      set_update_subset_insert [of "w_tasks w" i "(c, st')"]
    unfolding tasks_ok_def by fastforce
  moreover have "distinct (map task_key (w_tasks w))" using w(3) by (simp add: sessions_ok_def)
  ultimately show ?thesis
    using db registry_sources [OF db(3) w(2)] sessions_update [OF w(3) i(2)] lane_task [OF w(4) _ i run turn]
    by (simp add: worker_ok_def)
qed

lemma worker_remove_ok:
  assumes ok: "worker_ok s w" and w_tasks: "w_tasks w = xs @ (c, st) # ys" and st: "\<not> in_lane st"
  shows "worker_ok s (w\<lparr>w_tasks := xs @ ys, w_sessions := delete_session c (w_sessions w)\<rparr>)"
proof -
  note w = worker_okD [OF ok]
  have "tasks_ok (w_db w) (xs @ ys)" by (rule tasks_subset [OF w(5)]) (auto simp: w_tasks)
  with w sessions_remove [OF w(3) w_tasks] lane_remove [OF w(4) [unfolded w_tasks] st] show ?thesis
    by (simp add: worker_ok_def)
qed

lemma service_step:
  assumes "queue_step cr cf vfp d e d'" "service_tx e" "queue_ok d"
  shows "leases_from d d'"
  using step_leases_from [OF assms(1,3)] assms(2) by (auto simp: service_tx_def)

lemma worker_step_ok: "worker_step cr cf vfp s w e w' \<Longrightarrow> worker_ok s w \<Longrightarrow> worker_ok s w'"
proof (induction rule: worker_step.induct)
  case (worker_claim w lease c d')
  then show ?case by (intro worker_claim_ok)
next
  case (worker_idle w lease d')
  note w = worker_okD [OF worker_idle.prems]
  from claim_leases [OF worker_idle.hyps(4)] have "leases_from (w_db w) d'" by simp
  with worker_idle step_sources [OF step_claim [OF worker_idle.hyps(4)]] claimOldestJob_queue [OF worker_idle.hyps(4) w(1)]
  show ?case by (intro worker_db)
next
  case (worker_task i w c st reply st' d')
  then show ?case by (intro worker_task_ok)
next
  case (worker_done w before c r after)
  from worker_remove_ok [OF worker_done.prems worker_done.hyps] show ?case by (simp add: worker_ok_def)
next
  case (worker_crash w before c after)
  from worker_remove_ok [OF worker_crash.prems worker_crash.hyps] show ?case by simp
next
  case (worker_service w e d')
  note w = worker_okD [OF worker_service.prems]
  from worker_service service_step [OF worker_service.hyps w(1)] queue_step_queue [OF worker_service.hyps(1) w(1)]
    step_sources [OF worker_service.hyps(1)]
  show ?case by (intro worker_db)
qed (simp_all add: worker_ok_def)

interpretation worker: transaction_system "worker_step cr cf vfp s" "\<lambda>_. True" "worker_ok s"
  by unfold_locales (rule worker_step_ok)

lemma work_loop_ok: "queue_ok d \<Longrightarrow> registry_ok d \<Longrightarrow> worker_ok s (work_loop d)"
  by (simp add: worker_ok_def work_loop_def sessions_ok_def lane_ok_def tasks_ok_def)

section \<open>The process\<close>

fun process_ok :: "worker_settings \<Rightarrow> worker_process \<Rightarrow> bool" where
  "process_ok s (Unlocked d) \<longleftrightarrow> queue_ok d \<and> registry_ok d"
| "process_ok s (Working w) \<longleftrightarrow> worker_ok s w"
| "process_ok s (Draining w) \<longleftrightarrow> worker_ok s w"

lemma queue_step_registry: "queue_step cr cf vfp d e d' \<Longrightarrow> registry_ok d \<Longrightarrow> registry_ok d'"
  by (rule registry_sources [OF step_sources])

lemma process_step_ok: "process_step cr cf vfp s p e p' \<Longrightarrow> process_ok s p \<Longrightarrow> process_ok s p'"
proof (induction rule: process_step.induct)
  case (process_elsewhere d e d')
  then show ?case by (simp add: queue_step_queue queue_step_registry)
next
  case (process_recovered d n d')
  from process_recovered(2) queue_step_queue [OF step_recover [OF process_recovered(1)]]
    queue_step_registry [OF step_recover [OF process_recovered(1)]]
  show ?case by (simp add: work_loop_ok)
next
  case (process_unrecovered d err d')
  from process_unrecovered(2) queue_step_queue [OF step_recover [OF process_unrecovered(1)]]
    queue_step_registry [OF step_recover [OF process_unrecovered(1)]]
  show ?case by simp
qed (simp_all add: worker_step_ok worker_okD)

interpretation process: transaction_system "process_step cr cf vfp s" "\<lambda>_. True" "process_ok s"
  by unfold_locales (rule process_step_ok)

lemma registry_empty: "registry_ok (empty_db sources now) \<longleftrightarrow> (\<forall>s\<in>set sources. trim (src_id s) = src_id s)"
  by (simp add: registry_ok_def empty_db_def)

lemma process_reachable:
  assumes "runs (process_step cr cf vfp s) (Unlocked (empty_db sources now)) es p"
    and "\<forall>s\<in>set sources. trim (src_id s) = src_id s" and "process_worker p = Some w"
  shows "worker_ok s w"
proof -
  from assms(2) have "process_ok s (Unlocked (empty_db sources now))" by (simp add: registry_empty empty_queue)
  from process.runs_inv [OF assms(1) _ this] have "process_ok s p" by (simp add: list_all_iff)
  with assms(3) show ?thesis by (cases p) simp_all
qed

section \<open>Leases are held by tasks\<close>

text \<open>Every lease in the tables belongs to a task, unless a task's failure could not be recorded.\<close>

definition held_ok :: "db \<Rightarrow> (claimed_job \<times> stage) list \<Rightarrow> bool" where
  "held_ok d ts \<longleftrightarrow> (\<forall>j\<in>set (d_jobs d). \<forall>l. j_lease_id j = Some l
     \<longrightarrow> (\<exists>t\<in>set ts. cj_id (fst t) = j_id j \<and> cj_leaseId (fst t) = l))"

definition recorded :: "worker_event \<Rightarrow> bool" where
  "recorded e = (case e of Unexpected c \<Rightarrow> False | _ \<Rightarrow> True)"

lemma held_from: "leases_from d d' \<Longrightarrow> held_ok d ts \<Longrightarrow> fst ` set ts \<subseteq> fst ` set us \<Longrightarrow> held_ok d' us"
  unfolding held_ok_def
proof (intro ballI allI impI)
  fix j l assume from_: "leases_from d d'" and sub: "fst ` set ts \<subseteq> fst ` set us" and j: "j \<in> set (d_jobs d')" "j_lease_id j = Some l"
    and old: "\<forall>j\<in>set (d_jobs d). \<forall>l. j_lease_id j = Some l \<longrightarrow> (\<exists>t\<in>set ts. cj_id (fst t) = j_id j \<and> cj_leaseId (fst t) = l)"
  from leases_fromD [OF from_ j(1)] j(2) obtain k where "k \<in> set (d_jobs d)" "j_id k = j_id j" "j_lease_id k = Some l"
    by (metis option.distinct(1))
  with old obtain t where t: "t \<in> set ts" "cj_id (fst t) = j_id j" "cj_leaseId (fst t) = l" by metis
  with sub obtain u where "u \<in> set us" "fst u = fst t" by (metis (no_types) image_iff subsetD)
  with t show "\<exists>t\<in>set us. cj_id (fst t) = j_id j \<and> cj_leaseId (fst t) = l" by metis
qed

lemma worker_step_held:
  assumes "worker_step cr cf vfp s w e w'" "recorded e" "worker_ok s w \<and> held_ok (w_db w) (w_tasks w)"
  shows "worker_ok s w' \<and> held_ok (w_db w') (w_tasks w')"
proof (intro conjI)
  from assms(3) have ok: "worker_ok s w" and held: "held_ok (w_db w) (w_tasks w)" by simp_all
  note w = worker_okD [OF ok]
  show "worker_ok s w'" by (rule worker_step_ok [OF assms(1) ok])
  show "held_ok (w_db w') (w_tasks w')"
    using assms(1)
  proof (cases rule: worker_step.cases)
    case (worker_claim lease c d')
    note rows = claimed_rows [OF worker_claim(7) w(2,1)]
    from worker_claim(7) w(2) have "cj_leaseId c = lease" by (rule claimed_row_facts)
    with rows held have "held_ok d' (w_tasks w @ [(c, Started)])"
      unfolding held_ok_def by fastforce
    with worker_claim show ?thesis by simp
  next
    case (worker_idle lease d')
    from claim_leases [OF worker_idle(6)] have "leases_from (w_db w) d'" by simp
    from held_from [OF this held] worker_idle show ?thesis by simp
  next
    case (worker_task i c st reply st' d')
    from process_next_db [OF worker_task(7) w(1)] have leases: "leases_from (w_db w) d'" by simp
    have "map fst ((w_tasks w)[i := (c, st')]) = map fst (w_tasks w)"
      by (rule map_update_same) (simp add: worker_task(4))
    then have "fst ` set ((w_tasks w)[i := (c, st')]) = fst ` set (w_tasks w)" by (metis set_map)
    with held_from [OF leases held] worker_task show ?thesis by simp
  next
    case (worker_done xs c r ys)
    from w(5) worker_done(3) have "lease_gone c (w_db w)" by (simp add: tasks_ok_def)
    with held worker_done(3) have "held_ok (w_db w) (xs @ ys)"
      unfolding held_ok_def lease_gone_def by fastforce
    with worker_done show ?thesis by simp
  next
    case (worker_crash xs c ys)
    with assms(2) show ?thesis by (simp add: recorded_def)
  next
    case (worker_service e d')
    from held_from [OF service_step [OF worker_service(3,4) w(1)] held] worker_service show ?thesis by simp
  qed (simp_all add: held)
qed

interpretation recording: transaction_system "worker_step cr cf vfp s" recorded
  "\<lambda>w. worker_ok s w \<and> held_ok (w_db w) (w_tasks w)"
  by unfold_locales (rule worker_step_held)

end
