(* ===== verification/WorkerSafety.thy ===== *)
theory WorkerSafety
  imports WorkerInvariant QueueOutcomes
begin

text \<open>
  What the worker guarantees, whatever its tasks, the model's answers and the HTTP service do in
  between: its concurrency bound and the exclusion of sessions and of the resolution lane, that a task
  that is done has let go of its job, and that no job stays running without a task.
\<close>

lemma runs_registry: "runs (queue_step cr cf vfp) d es d' \<Longrightarrow> registry_ok d \<Longrightarrow> registry_ok d'"
  by (induction rule: runs.induct) (auto dest: queue_step_registry)

lemma same_session_same_key: "job_session a = job_session b \<Longrightarrow> sessionKey a = sessionKey b"
  by (simp add: sessionKey_def)

lemma sessions_distinct: "sessions_ok n ts ss \<Longrightarrow> distinct (map (\<lambda>t. job_session (fst t)) ts)"
  unfolding sessions_ok_def distinct_map inj_on_def task_key_def using same_session_same_key by blast

section \<open>Sample runs of the worker\<close>

definition settings1 :: worker_settings where
  "settings1 = \<lparr>workerConcurrency = 1, workerMaxAttempts = 3, workerRetryBackoffSeconds = 30\<rparr>"

definition worker1 :: worker where
  "worker1 = (work_loop db1)\<lparr>w_db := db2, w_tasks := [(claim1, Started)], w_sessions := put_session claim1 []\<rparr>"

lemma run_dispatch: "runs (worker_step flat_crypto fold1 flat_vfp settings1) (work_loop db1) [Dispatch claim1] worker1"
proof -
  have "fresh_lease lease1 (work_loop db1)" by (simp add: fresh_lease_def work_loop_def db1_def job1_def)
  moreover have "claimOldestJob flat_crypto flat_vfp lease1 (excluded_sessions (w_sessions (work_loop db1))) (w_db (work_loop db1))
      = Inr (Some claim1, db2)" by (simp add: work_loop_def excluded_sessions_def run_claim)
  ultimately have "worker_step flat_crypto fold1 flat_vfp settings1 (work_loop db1) (Dispatch claim1)
      ((work_loop db1)\<lparr>w_db := db2, w_tasks := w_tasks (work_loop db1) @ [(claim1, Started)],
        w_sessions := put_session claim1 (w_sessions (work_loop db1))\<rparr>)"
    by (intro worker_claim) (simp_all add: work_loop_def settings1_def)
  then have "worker_step flat_crypto fold1 flat_vfp settings1 (work_loop db1) (Dispatch claim1) worker1"
    by (simp add: worker1_def work_loop_def)
  then show ?thesis by (blast intro: runs.intros)
qed

lemma recover_db1: "recoverRunningJobs flat_crypto db1 = (Inr 0, db1)"
  by (simp add: recoverRunningJobs_def db1_def job1_def)

lemma installed_db1: "runs (queue_step flat_crypto fold1 flat_vfp) (empty_db [sample_source] 0) [EnqueueTx sample_native] db1"
  using run_enqueue unfolding db0_def by (blast intro: runs.intros queue_step.intros)

lemma registry_sample: "\<forall>s\<in>set [sample_source]. trim (src_id s) = src_id s"
  by (simp add: sample_trim)

text \<open>The claimed task whose extraction fails: the attempt is recorded and the job waits for the next one.\<close>

definition worker2 :: worker where
  "worker2 = worker1\<lparr>w_tasks := [(claim1, Failing [] False)]\<rparr>"

definition db4 :: db where
  "db4 = update_jobs (holds_lease claim1) (attempt_row [] (Some 30) db2) db2"

definition worker3 :: worker where
  "worker3 = worker1\<lparr>w_db := db4, w_tasks := [(claim1, Finished Progressed)]\<rparr>"

lemma run_fail: "finishFailedAttempt flat_crypto claim1 [] (Some 30) db2 = Inr (True, db4)"
proof -
  have f: "find_job 0 db2 = Some job2" "find_target [] db2 = Some target1"
    by (simp_all add: db2_def db1_def find_job_def find_target_def target1_def) (simp add: job2_def job1_def)
  have "lease_count claim1 db2 = 1"
    by (simp add: lease_count_def holds_lease_def db2_def) (simp add: claim1_def job2_def job1_def)
  moreover have "cj_segmentId claim1 = []" by (simp add: claim1_def)
  ultimately show ?thesis
    using sample_claim [OF sample_rows_db(2) f(1)] sample_target [of target1] f(2)
    by (simp add: finishFailedAttempt_def Let_def db4_def)
qed

lemma run_failing: "runs (worker_step flat_crypto fold1 flat_vfp settings1) (work_loop db1)
    [Dispatch claim1, Advance claim1, Advance claim1] worker3"
proof -
  have start: "worker_step flat_crypto fold1 flat_vfp settings1 (work_loop db1) (Dispatch claim1) worker1"
    using run_dispatch by (auto elim: runs.cases)
  have "process_next flat_crypto fold1 flat_vfp settings1 claim1 (ErrorReply [] False) Started db2 = (Failing [] False, db2)"
    by (simp add: claim1_def)
  then have one: "worker_step flat_crypto fold1 flat_vfp settings1 worker1 (Advance claim1) worker2"
    using worker_task [of 0 worker1 claim1 Started flat_crypto fold1 "ErrorReply [] False" flat_vfp settings1 "Failing [] False" db2]
    by (simp add: worker1_def worker2_def reply_ok_def move_lane_def work_loop_def)
  have "process_next flat_crypto fold1 flat_vfp settings1 claim1 (ErrorReply [] False) (Failing [] False) db2
      = (Finished Progressed, db4)"
    by (simp add: retryAfter_def settings1_def run_fail) (simp add: claim1_def run_fail)
  then have "worker_step flat_crypto fold1 flat_vfp settings1 worker2 (Advance claim1) worker3"
    using worker_task [of 0 worker2 claim1 "Failing [] False" flat_crypto fold1 "ErrorReply [] False" flat_vfp settings1
        "Finished Progressed" db4]
    by (simp add: worker1_def worker2_def worker3_def reply_ok_def move_lane_def work_loop_def)
  with start one show ?thesis by (blast intro: runs.intros)
qed

text \<open>The same runs as runs of the process that starts the worker.\<close>

lemma run_process:
  assumes "runs (worker_step flat_crypto fold1 flat_vfp settings1) (work_loop db1) es w"
  shows "runs (process_step flat_crypto fold1 flat_vfp settings1) (Unlocked (empty_db [sample_source] 0))
    (Elsewhere (EnqueueTx sample_native) # Locked # map Working_step es) (Working w)"
proof -
  have "runs (process_step flat_crypto fold1 flat_vfp settings1) (Working v) (map Working_step es) (Working w)"
    if "runs (worker_step flat_crypto fold1 flat_vfp settings1) v es w" for v es
    using that by (induction rule: runs.induct) (auto intro: runs.intros process_work)
  from this [OF assms] process_recovered [OF recover_db1] step_enqueue [OF run_enqueue] show ?thesis
    unfolding db0_def by (blast intro: runs.intros process_elsewhere)
qed

section \<open>Properties\<close>

text \<open>
  C19. The worker never exceeds its concurrency, never works on two jobs of one session of one source
  at once, remembers exactly the sessions it works on, and lets at most one task at a time resolve
  and commit claims.
\<close>

theorem worker_excludes:
  assumes "runs (process_step cr cf vfp s) (Unlocked (empty_db sources now)) es p"
    and "\<forall>s\<in>set sources. trim (src_id s) = src_id s" and "process_worker p = Some w"
  shows "length (w_tasks w) \<le> workerConcurrency s \<and> distinct (map (\<lambda>t. job_session (fst t)) (w_tasks w))
    \<and> map snd (w_sessions w) = map (\<lambda>t. job_session (fst t)) (w_tasks w)
    \<and> (\<forall>t\<in>set (w_tasks w). \<forall>u\<in>set (w_tasks w). in_lane (snd t) \<and> \<not> queued (snd t)
        \<and> in_lane (snd u) \<and> \<not> queued (snd u) \<longrightarrow> t = u)"
proof -
  note w = worker_okD [OF process_reachable [OF assms(1-3)]]
  have "t = u" if t: "t \<in> set (w_tasks w)" "in_lane (snd t)" "\<not> queued (snd t)"
    and u: "u \<in> set (w_tasks w)" "in_lane (snd u)" "\<not> queued (snd u)" for t u
  proof -
    from w(4) t u have "task_key t = task_key u" unfolding lane_ok_def by metis
    moreover from w(3) have "inj_on task_key (set (w_tasks w))" by (simp add: sessions_ok_def distinct_map)
    ultimately show ?thesis using t(1) u(1) by (simp add: inj_on_eq_iff)
  qed
  with w(3) sessions_distinct [OF w(3)] show ?thesis by (simp add: sessions_ok_def)
qed

theorem worker_excludes_witness:
  "runs (worker_step flat_crypto fold1 flat_vfp settings1) (work_loop db1) [Dispatch claim1] worker1
    \<and> length (w_tasks worker1) \<le> 1 \<and> map snd (w_sessions worker1) = [job_session claim1]"
  using worker_excludes [OF run_process [OF run_dispatch] registry_sample, of worker1] run_dispatch
  by (simp add: settings1_def worker1_def)

text \<open>
  C20. A task that has returned has let go of its job: the job is not running under the task's lease
  any more, so whatever came of it, the job was settled, requeued or taken over.
\<close>

theorem finished_tasks_hold_nothing:
  assumes "runs (process_step cr cf vfp s) (Unlocked (empty_db sources now)) es p"
    and "\<forall>s\<in>set sources. trim (src_id s) = src_id s" and "process_worker p = Some w" and "(c, Finished r) \<in> set (w_tasks w)"
  shows "current_claim c (w_db w) = None"
proof -
  note w = worker_okD [OF process_reachable [OF assms(1-3)]]
  from w(5) assms(4) have "lease_gone c (w_db w)" by (force simp: tasks_ok_def)
  with lease_gone_current [OF w(1)] show ?thesis by simp
qed

theorem finished_tasks_hold_nothing_witness:
  "current_claim claim1 (w_db worker3) = None \<and> w_tasks worker3 = [(claim1, Finished Progressed)]"
proof -
  have "(claim1, Finished Progressed) \<in> set (w_tasks worker3)" by (simp add: worker3_def)
  from finished_tasks_hold_nothing [OF run_process [OF run_failing] registry_sample _ this] show ?thesis
    by (simp add: worker3_def)
qed

text \<open>
  C21. No job is left running without a task. The worker recovers the queue before its loop; from then
  on, as long as no task fails to record its failure, every running job is the job of one of the
  worker's tasks and runs under its lease. A loop that has drained its tasks leaves nothing running.
\<close>

theorem running_jobs_have_tasks:
  assumes "runs (queue_step cr cf vfp) (empty_db sources now) pre d0" and "\<forall>s\<in>set sources. trim (src_id s) = src_id s"
    and "recoverRunningJobs cr d0 = (Inr n, d)" and "runs (worker_step cr cf vfp s) (work_loop d) es w"
    and "list_all recorded es"
  shows "\<forall>j\<in>set (d_jobs (w_db w)). j_status j = Running
    \<longrightarrow> (\<exists>t\<in>set (w_tasks w). cj_id (fst t) = j_id j \<and> j_lease_id j = Some (cj_leaseId (fst t)) \<and> (\<forall>r. snd t \<noteq> Finished r))"
proof (intro ballI impI)
  fix j assume j: "j \<in> set (d_jobs (w_db w))" "j_status j = Running"
  from assms(2) have "registry_ok d0" by (intro runs_registry [OF assms(1)]) (simp add: registry_empty)
  with reachable_queue [OF assms(1)] step_recover [OF assms(3)] have d: "queue_ok d" "registry_ok d"
    by (blast intro: queue_step_queue queue_step_registry)+
  have "j_lease_id k = None" if k: "k \<in> set (d_jobs d)" for k
    using base_lease [OF queue_okD(1) [OF d(1)] k] recovered_none [OF assms(3) k] by (simp add: lease_ok_def)
  then have "held_ok (w_db (work_loop d)) (w_tasks (work_loop d))" by (auto simp: held_ok_def work_loop_def)
  with work_loop_ok [OF d] recording.runs_inv [OF assms(4,5)]
  have ok: "worker_ok s w" and held: "held_ok (w_db w) (w_tasks w)" by blast+
  note w = worker_okD [OF ok]
  from base_lease [OF queue_okD(1) [OF w(1)] j(1)] j(2) obtain l where l: "j_lease_id j = Some l"
    by (auto simp: lease_ok_def)
  with held j(1) obtain t where t: "t \<in> set (w_tasks w)" "cj_id (fst t) = j_id j" "cj_leaseId (fst t) = l"
    unfolding held_ok_def by blast
  have "snd t \<noteq> Finished r" for r
  proof
    assume "snd t = Finished r"
    with w(5) t(1) have "lease_gone (fst t) (w_db w)" by (simp add: tasks_ok_def)
    with t l j(1) show False unfolding lease_gone_def by metis
  qed
  with t l show "\<exists>t\<in>set (w_tasks w). cj_id (fst t) = j_id j \<and> j_lease_id j = Some (cj_leaseId (fst t)) \<and> (\<forall>r. snd t \<noteq> Finished r)"
    by auto
qed

theorem running_jobs_have_tasks_witness:
  "recoverRunningJobs flat_crypto db1 = (Inr 0, db1) \<and> d_jobs (w_db worker1) = [job2]
    \<and> (\<exists>t\<in>set (w_tasks worker1). cj_id (fst t) = j_id job2)"
proof -
  have rec: "list_all recorded [Dispatch claim1]" by (simp add: recorded_def)
  have job: "job2 \<in> set (d_jobs (w_db worker1))" "j_status job2 = Running" by (simp_all add: worker1_def db2_def job2_def)
  from running_jobs_have_tasks [OF installed_db1 registry_sample recover_db1 run_dispatch rec] job recover_db1
  show ?thesis by (auto simp: worker1_def db2_def)
qed

end
