(* ===== verification/ParseSound.thy ===== *)
theory ParseSound
  imports Contracts
begin

text \<open>
  The request parser accepts exactly the well-formed requests: whatever JSON value the service is
  sent, an accepted request satisfies \<open>valid_request\<close>, and every well-formed request is accepted in
  the form a client sends it.
\<close>

section \<open>Trimmed properties\<close>

lemma dropWhile_is_space_idem: "dropWhile p (dropWhile p s) = dropWhile p s"
  by (simp add: dropWhile_eq_self_iff hd_dropWhile)

lemma trim_idem [simp]: "trim (trim s) = trim s"
proof (cases "dropWhile is_space s = []")
  case True
  then have "trim s = []" unfolding trim_def by (simp only: rev.simps dropWhile.simps)
  then show ?thesis by simp
next
  case False
  let ?d = "dropWhile is_space s"
  let ?t = "rev (dropWhile is_space (rev ?d))"
  have "?t = [] \<or> \<not> is_space (hd ?t)"
  proof (cases "dropWhile is_space (rev ?d) = []")
    case nonempty: False
    obtain k where k: "dropWhile is_space (rev ?d) = drop k (rev ?d)" by (metis dropWhile_eq_drop)
    then have t: "?t = take (length ?d - k) ?d" by (simp add: rev_drop)
    with nonempty have "0 < length ?d - k" by (cases "length ?d - k") auto
    then have "hd ?t = hd ?d" unfolding t by (simp add: hd_take)
    with hd_dropWhile [OF False] show ?thesis by simp
  qed simp
  then have "dropWhile is_space ?t = ?t" by (auto simp: dropWhile_eq_self_iff)
  then show ?thesis by (simp add: trim_def dropWhile_is_space_idem)
qed

lemma property_set_prop: "property (set_prop ps k v) k' = (if k' = k then v else property ps k')"
proof -
  have "map_of (map (\<lambda>(i, w). (i, if i = k then v else w)) ps) k' =
      (if k' = k then map_option (\<lambda>w. v) (map_of ps k) else map_of ps k')" for ps
    by (induction ps) auto
  note key = this
  show ?thesis
  proof (cases "k \<in> fst ` set ps")
    case True
    then obtain w where "map_of ps k = Some w" by (metis map_of_eq_None_iff not_None_eq)
    with True key show ?thesis by (simp add: set_prop_def property_def)
  next
    case False
    then have "map_of ps k = None" by (simp add: map_of_eq_None_iff)
    with False show ?thesis by (simp add: set_prop_def property_def map_add_def split: option.splits)
  qed
qed

lemma prop_of_set_prop: "prop_of (set_prop ps (js k) v) k' = (if k' = k then v else prop_of ps k')"
  by (simp add: prop_of_def property_set_prop)

text \<open>A value whose property, if it is an object with that string property, is trimmed.\<close>

definition trimmed_in :: "jsval \<Rightarrow> string \<Rightarrow> bool" where
  "trimmed_in v k \<longleftrightarrow> (\<forall>ps. record_of v = Some ps \<longrightarrow> trimmed_at ps k)"

lemma trimmed_in_set: "trimmed_at ps k \<or> k' = k \<Longrightarrow> (k' = k \<Longrightarrow> \<forall>s. v = Str s \<longrightarrow> trim s = s)
    \<Longrightarrow> trimmed_at (set_prop ps (js k') v) k"
  by (auto simp: trimmed_at_def prop_of_set_prop)

lemma trimProperty_makes: "trimmed_in (trimProperty (js k) v) k"
  by (cases v) (auto simp: trimmed_in_def trimProperty_def trimmed_at_def prop_of_def property_set_prop split: jsval.splits)

lemma trimProperty_keeps: "trimmed_in v k \<Longrightarrow> trimmed_in (trimProperty (js k') v) k"
  by (cases v) (auto simp: trimmed_in_def trimProperty_def trimmed_at_def prop_of_def property_set_prop split: jsval.splits)

lemma trimProperties_keeps: "trimmed_in v k \<Longrightarrow> trimmed_in (trimProperties ks v) k"
  by (induction ks arbitrary: v) (simp_all add: trimProperties_def trimProperty_keeps)

lemma trimProperties_makes: "k \<in> set ks \<Longrightarrow> trimmed_in (trimProperties ks v) k"
proof (induction ks arbitrary: v)
  case (Cons a ks)
  have step: "trimProperties (a # ks) v = trimProperties ks (trimProperty (js a) v)" by (simp add: trimProperties_def)
  from Cons show ?case unfolding step by (auto intro: trimProperties_keeps trimProperty_makes)
qed simp

lemma or_null_Str: "or_null v = Str s \<Longrightarrow> v = Str s"
  by (auto simp: or_null_def split: if_splits)

lemma default_boundary_keeps: "trimmed_in v k \<Longrightarrow> trimmed_in (default_boundary v) k"
  by (cases v) (simp_all add: trimmed_in_def default_boundary_def trimmed_at_def prop_of_set_prop or_null_def)

lemma default_projection_keeps: "trimmed_in v k \<Longrightarrow> trimmed_in (default_projection v) k"
  by (cases v) (auto simp: trimmed_in_def default_projection_def trimmed_at_def prop_of_set_prop split: jsval.splits)

lemma default_priority_keeps: "trimmed_in v k \<Longrightarrow> trimmed_in (default_priority v) k"
  by (cases v) (auto simp: trimmed_in_def default_priority_def trimmed_at_def prop_of_set_prop split: jsval.splits)

lemma ident_trimmed: "ident (prop_of ps k) = Some s \<Longrightarrow> trimmed_at ps k \<Longrightarrow> ident_ok s"
  by (auto simp: ident_def ident_ok_def trimmed_at_def split: jsval.splits if_splits)

lemma parseSourceId_okI: "parseSourceId v = Inr s \<Longrightarrow> ident_ok s"
  by (auto simp: parseSourceId_def ident_ok_def Let_def split: jsval.splits if_splits)

lemma small_nat_le: "small_nat t v = Some n \<Longrightarrow> n \<le> t"
  by (auto simp: small_nat_def find_Some_iff simp del: upt_Suc split: jsval.splits dest: nth_mem)

section \<open>Messages\<close>

lemma all_some_set: "all_some xs = Some ys \<Longrightarrow> set xs = Some ` set ys \<and> length ys = length xs"
  by (induction xs arbitrary: ys rule: all_some.induct) auto

lemma message_arrayD:
  assumes "message_array f v = Some ms"
  obtains vs where "v = Arr vs" "1 \<le> length ms" "length ms \<le> 10000" "\<And>m. m \<in> set ms \<Longrightarrow> \<exists>w\<in>set vs. f w = Some m"
proof -
  from assms obtain vs where vs: "v = Arr vs" "1 \<le> length vs" "length vs \<le> 10000" "all_some (map f vs) = Some ms"
    by (auto simp: message_array_def split: jsval.splits if_splits)
  from all_some_set [OF vs(4)] have set: "f ` set vs = Some ` set ms" "length ms = length vs" by simp_all
  have "\<exists>w\<in>set vs. f w = Some m" if "m \<in> set ms" for m
    using set(1) that by (metis image_iff)
  with that [OF vs(1)] vs set(2) show ?thesis by simp
qed

lemma source_message_ok: "source_message v = Some m \<Longrightarrow> legacy_message_ok m"
  by (auto simp: source_message_def legacy_message_ok_def split: option.splits if_splits jsval.splits)

lemma native_message_okI:
  assumes "native_message v = Some m" "trimmed_in v ''id''"
  shows "native_message_ok m"
proof -
  from assms(1) obtain ps i ty t where "record_of v = Some ps" and i: "ident (prop_of ps ''id'') = Some i"
    and m: "m = \<lparr>im_id = i, im_type = ty, im_text = t\<rparr>" "ty \<in> js ` set native_types" "length t \<le> 2 * MAX_MESSAGE_TEXT_CHARS"
    by (auto simp: native_message_def split: option.splits if_splits jsval.splits)
  with assms(2) ident_trimmed [OF i] show ?thesis by (simp add: native_message_ok_def trimmed_in_def)
qed

section \<open>Requests\<close>

lemma legacy_boundary_ok:
  assumes b: "legacy_boundary ps = Some b" and same: "same_user b" and trimmed: "\<forall>k\<in>set legacy_trimmed. trimmed_at ps k"
  shows "boundary_ok b ms \<and> boundary_version b \<noteq> 3"
proof -
  have t: "trimmed_at ps ''start_user_message_id''" "trimmed_at ps ''end_user_message_id''"
    "trimmed_at ps ''start_source_message_id''" "trimmed_at ps ''end_source_message_id''"
    using trimmed by (simp_all add: legacy_trimmed_def)
  from b obtain su eu where u: "ident (prop_of ps ''start_user_message_id'') = Some su"
    "ident (prop_of ps ''end_user_message_id'') = Some eu"
    and cases: "b = Boundary1 su eu \<or> (\<exists>ss es. b = Boundary2 su eu ss es
        \<and> ident (prop_of ps ''start_source_message_id'') = Some ss \<and> ident (prop_of ps ''end_source_message_id'') = Some es)"
    by (auto simp: legacy_boundary_def split: option.splits if_splits)
  from cases same show ?thesis
    using ident_trimmed [OF u(1) t(1)] ident_trimmed [OF u(2) t(2)] ident_trimmed [OF _ t(3)] ident_trimmed [OF _ t(4)] by auto
qed

lemma parseSegmentCreate_ok:
  assumes run: "parseSegmentCreate v = Inr body" and owner: "ident_ok owner"
  shows "valid_request \<lparr>rq_source_id = owner, rq_body = body\<rparr>"
proof -
  let ?n = "default_priority (default_projection (default_boundary (trimProperties legacy_trimmed v)))"
  from run have canonical: "canonical_segment ?n = Some body" and limits: "text_limits (rb_messages body)"
    and same: "same_user (rb_boundary body)"
    by (auto simp: parseSegmentCreate_def split: option.splits if_splits)
  from canonical obtain ps sid b pv pri ms where ps: "record_of ?n = Some ps"
    and f: "ident (prop_of ps ''session_id'') = Some sid" "legacy_boundary ps = Some b"
      "small_nat 2 (prop_of ps ''projection_version'') = Some pv" "small_nat 100 (prop_of ps ''processing_priority'') = Some pri"
      "message_array source_message (prop_of ps ''messages'') = Some ms"
    and body: "body = \<lparr>rb_session_id = sid, rb_boundary = b, rb_projection_version = pv, rb_processing_priority = pri, rb_messages = ms\<rparr>"
    by (auto simp: canonical_segment_def split: option.splits if_splits)
  have "trimmed_in ?n k" if "k \<in> set legacy_trimmed" for k
    by (intro default_priority_keeps default_projection_keeps default_boundary_keeps trimProperties_makes that)
  with ps have trimmed: "\<forall>k\<in>set legacy_trimmed. trimmed_at ps k" by (simp add: trimmed_in_def)
  then have "trimmed_at ps ''session_id''" by (simp add: legacy_trimmed_def)
  with ident_trimmed [OF f(1)] have "ident_ok sid" by simp
  moreover from message_arrayD [OF f(5)] obtain "1 \<le> length ms" "length ms \<le> 10000"
      "\<And>m. m \<in> set ms \<Longrightarrow> legacy_message_ok m" by (metis source_message_ok)
  moreover from legacy_boundary_ok [OF f(2) _ trimmed] same have "boundary_ok b ms \<and> boundary_version b \<noteq> 3" by (simp add: body)
  ultimately show ?thesis
    using owner limits small_nat_le [OF f(3)] small_nat_le [OF f(4)] by (simp add: valid_request_def body)
qed

lemma parseNativeSegmentCreate_ok:
  assumes run: "parseNativeSegmentCreate v = Inr r"
  shows "valid_request r"
proof -
  let ?n = "normalizeNativeSegmentCreate v"
  from run have native: "native_segment ?n = Some r"
    and ids: "distinct (map im_id (rb_messages (rq_body r)))" "text_limits (rb_messages (rq_body r))"
      "rb_messages (rq_body r) \<noteq> []" "Some (im_id (hd (rb_messages (rq_body r)))) = start_source (rb_boundary (rq_body r))"
      "Some (im_id (last (rb_messages (rq_body r)))) = end_source (rb_boundary (rq_body r))"
    by (auto simp: parseNativeSegmentCreate_def Let_def split: option.splits if_splits)
  from native obtain ps owner sid ss es pri ms where ps: "record_of ?n = Some ps"
    and f: "ident (prop_of ps ''source_id'') = Some owner" "ident (prop_of ps ''session_id'') = Some sid"
      "ident (prop_of ps ''start_source_message_id'') = Some ss" "ident (prop_of ps ''end_source_message_id'') = Some es"
      "small_nat 100 (prop_of ps ''processing_priority'') = Some pri"
      "message_array native_message (prop_of ps ''messages'') = Some ms"
    and r: "r = \<lparr>rq_source_id = owner, rq_body = \<lparr>rb_session_id = sid, rb_boundary = Boundary3 ss es,
        rb_projection_version = 3, rb_processing_priority = pri, rb_messages = ms\<rparr>\<rparr>"
    by (auto simp: native_segment_def split: option.splits if_splits)
  let ?t = "trimProperties native_trimmed v"
  have trimmed: "trimmed_in ?t k" if "k \<in> set native_trimmed" for k
    by (rule trimProperties_makes [OF that])
  obtain qs where qs: "record_of ?t = Some qs"
    using ps by (cases "record_of ?t") (auto simp: normalizeNativeSegmentCreate_def Let_def)
  have messages: "message_array native_message (prop_of ps ''messages'') = Some ms \<Longrightarrow> prop_of ps ''messages'' =
      (case prop_of qs ''messages'' of Arr ws \<Rightarrow> Arr (map (trimProperty (js ''id'')) ws) | w \<Rightarrow> w)"
    and keys: "k \<noteq> ''messages'' \<Longrightarrow> prop_of ps k = prop_of qs k" for k
    using ps qs by (auto simp: normalizeNativeSegmentCreate_def Let_def prop_of_set_prop split: jsval.splits)
  have "trimmed_at ps k" if "k \<in> set native_trimmed" for k
    using trimmed [OF that] qs keys [of k] that by (auto simp: trimmed_in_def trimmed_at_def native_trimmed_def)
  then have t: "trimmed_at ps ''source_id''" "trimmed_at ps ''session_id''" "trimmed_at ps ''start_source_message_id''"
    "trimmed_at ps ''end_source_message_id''" by (simp_all add: native_trimmed_def)
  from f(6) obtain vs where vs: "prop_of ps ''messages'' = Arr vs" "1 \<le> length ms" "length ms \<le> 10000"
    "\<And>m. m \<in> set ms \<Longrightarrow> \<exists>w\<in>set vs. native_message w = Some m" by (rule message_arrayD) blast
  from messages [OF f(6)] vs(1) obtain ws where "vs = map (trimProperty (js ''id'')) ws" by (auto split: jsval.splits)
  then have "trimmed_in w ''id''" if "w \<in> set vs" for w using that trimProperty_makes by auto
  with vs(4) have "native_message_ok m" if "m \<in> set ms" for m using that native_message_okI by blast
  with vs(2,3) ids small_nat_le [OF f(5)] ident_trimmed [OF f(1) t(1)] ident_trimmed [OF f(2) t(2)]
    ident_trimmed [OF f(3) t(3)] ident_trimmed [OF f(4) t(4)]
  show ?thesis by (simp add: valid_request_def r)
qed

lemma parseIngest_ok: "parseIngestSegmentCreate v = Inr r \<Longrightarrow> valid_request r"
  by (auto simp: parseIngestSegmentCreate_def parseSourceSegmentCreate_def rbind_Inr
      dest: parseSourceId_okI split: if_splits option.splits intro: parseNativeSegmentCreate_ok parseSegmentCreate_ok)

lemma decodePersisted_ok:
  assumes "decodePersistedIngestSegment v assigned = Inr r"
  shows "valid_request r \<and> parseSourceId (Str assigned) = Inr (rq_source_id r)"
  using assms
  by (auto simp: decodePersistedIngestSegment_def decodePersistedSegment_def Let_def rbind_Inr
      split: if_splits option.splits intro: parseNativeSegmentCreate_ok)
    (blast intro: parseSegmentCreate_ok parseSourceId_okI)+

lemma parse_request_json:
  assumes "valid_request r"
  shows "parseIngestSegmentCreate (request_json r) = Inr r"
proof -
  have same: "same_object (persisted_props r) (persisted_props r)"
    by (simp add: same_object_def persisted_props_distinct)
  show ?thesis
  proof (cases "boundary_version (rb_boundary (rq_body r)) = 3")
    case True
    then have json: "request_json r = persistedRequest r"
      by (simp add: request_json_def persistedRequest_def persisted_props_def field_def Let_def)
    have "hasNativeBoundary (persistedRequest r)"
      using persisted_lookup(2) [of r] True by (simp add: hasNativeBoundary_def persistedRequest_def flip: prop_of_def)
    with decode_native [OF assms True same] show ?thesis
      by (simp add: json parseIngestSegmentCreate_def) (simp add: persistedRequest_def)
  next
    case False
    have free: "filter (\<lambda>p. fst p \<noteq> js ''source_id'') (persisted_props r) = persisted_props r"
      using persisted_lookup(11) [OF False] by (force intro: filter_True)
    have "property ((js ''source_id'', Str (rq_source_id r)) # persisted_props r) (js ''source_boundary_version'')
        = num (boundary_version (rb_boundary (rq_body r)))"
      using persisted_lookup(2) [of r] by (simp add: property_def prop_of_def)
    then have native: "\<not> hasNativeBoundary (request_json r)"
      using False by (simp add: hasNativeBoundary_def request_json_def free field_def)
    have "ident_ok (rq_source_id r)" using assms by (simp add: valid_request_def Let_def)
    with decode_legacy [OF assms False same] native show ?thesis
      by (simp add: parseIngestSegmentCreate_def parseSourceSegmentCreate_def)
        (simp add: request_json_def free field_def without_source_id_def prop_of_def property_def)
  qed
qed

text \<open>
  C23. The requests the service accepts are exactly the well-formed ones: a value is parsed to a
  request only if the request is well formed, and every well-formed request is the parse of some value.
\<close>

theorem parse_exactly_valid: "valid_request r \<longleftrightarrow> (\<exists>v. parseIngestSegmentCreate v = Inr r)"
  using parseIngest_ok parse_request_json by blast

end
