(* ===== verification/NativePlan.thy ===== *)
theory NativePlan
  imports Identity ParseSound JobStore Resolution
begin

text \<open>
  Planning the segments of a native transcript: \<open>packages/opencode-v2-core/src/segmentation.ts\<close> and the
  manifest parser of \<open>packages/shared/src/native.ts\<close> it relies on.
\<close>

section \<open>The manifest\<close>

record native_entry =
  ne_id :: jsstr
  ne_start :: jsstr
  ne_end :: jsstr

record native_summary = native_entry +
  ne_summary :: jsstr

record native_manifest =
  nm_source_id :: jsstr
  nm_session_id :: jsstr
  nm_segments :: "native_summary list"
  nm_boundaries :: "native_entry list"
  nm_targets :: "native_entry list"

text \<open>\<open>Type.Integer()\<close>, on the text of a number: from 1e21 on every number is an integer.\<close>

definition is_integer :: "jsval \<Rightarrow> bool" where
  "is_integer v = (case v of
     Num n \<Rightarrow> finite_num n
       \<and> (if js ''e'' ! 0 \<in> set n then index_of (js ''e+'') n \<noteq> None else js ''.'' ! 0 \<notin> set n)
   | _ \<Rightarrow> False)"

fun is_string :: "jsval \<Rightarrow> bool" where
  "is_string (Str s) = True"
| "is_string _ = False"

definition job_status_texts :: "string list" where
  "job_status_texts = [''pending'', ''running'', ''succeeded'', ''failed'', ''superseded'']"

text \<open>The properties every entry has: its ID, its projection version and a version 3 boundary.\<close>

definition entry_of :: "(jsstr \<times> jsval) list \<Rightarrow> native_entry option" where
  "entry_of ps =
     (case (prop_of ps ''id'', ident (prop_of ps ''start_source_message_id''), ident (prop_of ps ''end_source_message_id'')) of
        (Str i, Some ss, Some es) \<Rightarrow>
          if uuid_ok i \<and> is_integer (prop_of ps ''projection_version'') \<and> prop_of ps ''source_boundary_version'' = num 3
          then Some \<lparr>ne_id = i, ne_start = ss, ne_end = es\<rparr> else None
      | _ \<Rightarrow> None)"

definition boundary_keys :: "string list" where
  "boundary_keys = [''id'', ''projection_version'', ''source_boundary_version'', ''start_source_message_id'',
     ''end_source_message_id'']"

definition summary_entry :: "jsval \<Rightarrow> native_summary option" where
  "summary_entry v =
     (case record_of v of
        None \<Rightarrow> None
      | Some ps \<Rightarrow> if \<not> only_keys (''summary'' # boundary_keys) ps then None
          else case (entry_of ps, prop_of ps ''summary'') of
              (Some e, Str t) \<Rightarrow> Some (native_entry.extend e \<lparr>ne_summary = t\<rparr>)
            | _ \<Rightarrow> None)"

definition boundary_entry :: "jsval \<Rightarrow> native_entry option" where
  "boundary_entry v =
     (case record_of v of
        None \<Rightarrow> None
      | Some ps \<Rightarrow> if \<not> only_keys (''source_eligible'' # ''source_fingerprint'' # boundary_keys) ps
            \<or> prop_of ps ''source_eligible'' \<notin> {Boolean True, Boolean False}
            \<or> \<not> (prop_of ps ''source_fingerprint'' = Null \<or> is_string (prop_of ps ''source_fingerprint''))
          then None else entry_of ps)"

definition target_entry :: "jsval \<Rightarrow> native_entry option" where
  "target_entry v =
     (case record_of v of
        None \<Rightarrow> None
      | Some ps \<Rightarrow> if \<not> only_keys (''status'' # ''source_fingerprint'' # boundary_keys) ps
            \<or> prop_of ps ''status'' \<notin> (Str \<circ> js) ` set job_status_texts
            \<or> \<not> is_string (prop_of ps ''source_fingerprint'')
          then None else entry_of ps)"

definition entry_array :: "(jsval \<Rightarrow> 'a option) \<Rightarrow> jsval \<Rightarrow> 'a list option" where
  "entry_array f v = (case v of Arr vs \<Rightarrow> all_some (map f vs) | _ \<Rightarrow> None)"

definition manifest_keys :: "string list" where
  "manifest_keys = [''source_id'', ''manifest_version'', ''session_id'', ''segments'', ''boundaries'', ''targets'']"

definition native_manifest_of :: "jsval \<Rightarrow> native_manifest option" where
  "native_manifest_of v =
     (case record_of v of
        None \<Rightarrow> None
      | Some ps \<Rightarrow>
          if \<not> only_keys manifest_keys ps \<or> prop_of ps ''manifest_version'' \<noteq> num 3 then None
          else case (ident (prop_of ps ''source_id''), prop_of ps ''session_id'',
                     entry_array summary_entry (prop_of ps ''segments''),
                     entry_array boundary_entry (prop_of ps ''boundaries''),
                     entry_array target_entry (prop_of ps ''targets'')) of
              (Some owner, Str sid, Some segs, Some bs, Some ts) \<Rightarrow>
                if trim owner = [] then None
                else Some \<lparr>nm_source_id = owner, nm_session_id = sid, nm_segments = segs,
                  nm_boundaries = bs, nm_targets = ts\<rparr>
            | _ \<Rightarrow> None)"

definition parseNativeSessionSegmentsResponse :: "jsval \<Rightarrow> jsstr \<Rightarrow> native_manifest result" where
  "parseNativeSessionSegmentsResponse v expected =
     (case native_manifest_of (trimProperty (js ''source_id'') v) of
        None \<Rightarrow> Inl ''native session segments response''
      | Some m \<Rightarrow> rbind (parseSourceId (Str expected)) (\<lambda>owner.
          if nm_source_id m \<noteq> owner then Inl ''native session segments response'' else Inr m))"

section \<open>Records\<close>

text \<open>What the rendering of a record left out of its source text.\<close>

datatype omission = Reasoning | Media | Truncated_tool | Tool_context | Truncated_shell

record native_record =
  nr_raw :: jsval
  nr_source :: ingest_message
  nr_complete :: bool
  nr_weight :: enat
  nr_omissions :: "omission list"

record planned_segment =
  ps_request :: ingest_request
  ps_id :: jsstr
  ps_fingerprint :: jsstr
  ps_closed :: bool
  ps_sourceMessageIds :: "jsstr list"
  ps_weightedChars :: enat

record anchor =
  an_start :: nat
  an_end :: nat
  an_target :: bool

abbreviation record_id :: "native_record \<Rightarrow> jsstr" where
  "record_id r \<equiv> im_id (nr_source r)"

definition records_weight :: "native_record list \<Rightarrow> enat" where
  "records_weight rs = sum_list (map nr_weight rs)"

definition requireSource :: "source_info \<Rightarrow> unit result" where
  "requireSource s = guard (native_source s)
     ''native segmentation requires an opencode-v2 source-v1 registry entry''"

fun validate_from :: "jsstr list \<Rightarrow> native_record list \<Rightarrow> unit result" where
  "validate_from seen [] = Inr ()"
| "validate_from seen (r # rs) =
     rbind (guard (get_prop (nr_raw r) (js ''id'') = Str (record_id r) \<and> record_id r \<notin> set seen)
       ''native canonical records must have unique matching IDs'') (\<lambda>_.
     rbind (guard (codePointLength (im_text (nr_source r)) \<le> MAX_MESSAGE_TEXT_CHARS)
       ''native source message exceeds the message text limit'') (\<lambda>_.
     validate_from (record_id r # seen) rs))"

definition validateRecords :: "native_record list \<Rightarrow> unit result" where
  "validateRecords rs = validate_from [] rs"

text \<open>\<open>positions.get(id)\<close>: the IDs are distinct once the records are valid.\<close>

definition position_of :: "native_record list \<Rightarrow> jsstr \<Rightarrow> nat option" where
  "position_of rs i = find_index (\<lambda>r. record_id r = i) rs"

section \<open>Segments\<close>

definition raw_request :: "source_info \<Rightarrow> jsstr \<Rightarrow> native_record list \<Rightarrow> ingest_request" where
  "raw_request source sid rs = \<lparr>rq_source_id = src_id source, rq_body = \<lparr>rb_session_id = sid,
     rb_boundary = Boundary3 (record_id (hd rs)) (record_id (last rs)), rb_projection_version = 3,
     rb_processing_priority = 0, rb_messages = map nr_source rs\<rparr>\<rparr>"

definition requestFor :: "source_info \<Rightarrow> jsstr \<Rightarrow> native_record list \<Rightarrow> ingest_request result" where
  "requestFor source sid rs =
     (if rs = [] then Inl ''cannot create an empty native segment''
      else parseNativeSegmentCreate (persistedRequest (raw_request source sid rs)))"

definition textChars :: "native_record list \<Rightarrow> nat" where
  "textChars rs = sum_list (map (\<lambda>r. codePointLength (im_text (nr_source r))) rs)"

definition identify ::
  "crypto \<Rightarrow> source_info \<Rightarrow> jsstr \<Rightarrow> native_record list \<Rightarrow> (ingest_request \<times> jsstr \<times> jsstr) result" where
  "identify cr source sid rs =
     rbind (requestFor source sid rs) (\<lambda>request.
     rbind (nativeSegmentIdForRequest cr request source) (\<lambda>i.
     Inr (request, i, nativeSourceFingerprint cr request)))"

definition planned ::
  "crypto \<Rightarrow> source_info \<Rightarrow> jsstr \<Rightarrow> bool \<Rightarrow> native_record list \<Rightarrow> planned_segment result" where
  "planned cr source sid isClosed rs =
     rbind (identify cr source sid rs) (\<lambda>(request, i, fingerprint).
     Inr \<lparr>ps_request = request, ps_id = i, ps_fingerprint = fingerprint, ps_closed = isClosed,
       ps_sourceMessageIds = map record_id rs, ps_weightedChars = records_weight rs\<rparr>)"

definition assertSegmentSize :: "native_record list \<Rightarrow> unit result" where
  "assertSegmentSize rs = guard (textChars rs \<le> MAX_SEGMENT_TEXT_CHARS)
     ''native segment exceeds the segment text limit and cannot be split safely''"

section \<open>Anchors\<close>

definition anchor_of ::
  "crypto \<Rightarrow> source_info \<Rightarrow> jsstr \<Rightarrow> native_record list \<Rightarrow> native_entry \<times> bool \<Rightarrow> anchor option result" where
  "anchor_of cr source sid rs e =
     (case (position_of rs (ne_start (fst e)), position_of rs (ne_end (fst e))) of
        (Some i, Some j) \<Rightarrow>
          if j < i then Inl ''native manifest anchor is reversed''
          else rbind (identify cr source sid (js_slice i (Suc j) rs)) (\<lambda>(request, k, fingerprint).
            if k \<noteq> ne_id (fst e) then Inl ''native manifest anchor has an invalid deterministic ID''
            else Inr (Some \<lparr>an_start = i, an_end = j, an_target = snd e\<rparr>))
      | _ \<Rightarrow> Inr None)"

definition compare_anchors :: "anchor \<Rightarrow> anchor \<Rightarrow> int" where
  "compare_anchors l r = (if an_start l \<noteq> an_start r then int (an_start l) - int (an_start r)
     else int (an_end l) - int (an_end r))"

fun unique_anchors :: "anchor list \<Rightarrow> anchor list \<Rightarrow> anchor list result" where
  "unique_anchors unique [] = Inr unique"
| "unique_anchors unique (a # as) =
     (case last_opt unique of
        None \<Rightarrow> unique_anchors [a] as
      | Some previous \<Rightarrow>
          if an_start a = an_start previous
          then if an_target a \<noteq> an_target previous
               then unique_anchors (if an_target a then butlast unique @ [a] else unique) as
               else if an_end a \<noteq> an_end previous
               then Inl ''native manifest anchors with the same start conflict''
               else unique_anchors unique as
          else if an_start a \<le> an_end previous then Inl ''native manifest anchors overlap''
          else unique_anchors (unique @ [a]) as)"

definition anchorsFor ::
  "crypto \<Rightarrow> jsval option \<Rightarrow> source_info \<Rightarrow> jsstr \<Rightarrow> native_record list \<Rightarrow> anchor list result" where
  "anchorsFor cr manifest source sid rs =
     (case manifest of
        None \<Rightarrow> Inr []
      | Some v \<Rightarrow>
          rbind (parseNativeSessionSegmentsResponse v (src_id source)) (\<lambda>parsed.
          if nm_session_id parsed \<noteq> sid then Inl ''native manifest session does not match segment plan''
          else rbind (rmap (anchor_of cr source sid rs)
                (map (\<lambda>e. (e, False)) (nm_boundaries parsed) @ map (\<lambda>e. (e, True)) (nm_targets parsed))) (\<lambda>found.
            unique_anchors [] (js_sort compare_anchors (List.map_filter id found)))))"

section \<open>The plan\<close>

text \<open>One pass of the packing loops: the full chunks and what is left over.\<close>

fun native_chunks ::
  "nat \<Rightarrow> native_record list \<Rightarrow> enat \<Rightarrow> native_record list \<Rightarrow> native_record list list \<times> native_record list" where
  "native_chunks limit chunk weight [] = ([], chunk)"
| "native_chunks limit chunk weight (r # rs) =
     (let flush = chunk \<noteq> [] \<and> weight + nr_weight r > limit;
          chunk1 = (if flush then [r] else chunk @ [r]);
          weight1 = (if flush then 0 else weight) + nr_weight r;
          (chunks, rest) = (if weight1 \<ge> limit then native_chunks limit [] 0 rs else native_chunks limit chunk1 weight1 rs)
      in ((if flush then [chunk] else []) @ (if weight1 \<ge> limit then [chunk1] else []) @ chunks, rest))"

definition gap_chunks :: "nat \<Rightarrow> native_record list \<Rightarrow> native_record list list" where
  "gap_chunks limit rs =
     (let (chunks, rest) = native_chunks limit [] 0 rs in chunks @ (if rest = [] then [] else [rest]))"

fun plan_anchors ::
  "crypto \<Rightarrow> source_info \<Rightarrow> jsstr \<Rightarrow> nat \<Rightarrow> bool \<Rightarrow> nat \<Rightarrow> native_record list \<Rightarrow> anchor list \<Rightarrow> nat
     \<Rightarrow> (planned_segment list \<times> nat) result" where
  "plan_anchors cr source sid limit allowOpen recordCount rs [] cursor = Inr ([], cursor)"
| "plan_anchors cr source sid limit allowOpen recordCount rs (a # as) cursor =
     (if an_start a \<ge> length rs \<or> an_end a \<ge> length rs then Inr ([], cursor)
      else rbind (rmap (planned cr source sid True) (gap_chunks limit (js_slice cursor (an_start a) rs))) (\<lambda>gap.
        if max cursor (an_start a) \<noteq> an_start a then Inl ''native manifest anchor is not contiguous''
        else let anchored = js_slice (an_start a) (Suc (an_end a)) rs in
          rbind (assertSegmentSize anchored) (\<lambda>_.
          let isClosed = (an_end a < recordCount - 1 \<or> records_weight anchored \<ge> limit) in
          rbind (if isClosed \<or> allowOpen then rbind (planned cr source sid isClosed anchored) (\<lambda>p. Inr [p]) else Inr [])
            (\<lambda>mine.
          rbind (plan_anchors cr source sid limit allowOpen recordCount rs as (Suc (an_end a))) (\<lambda>(rest, c).
            Inr (gap @ mine @ rest, c))))))"

text \<open>The records before the first incomplete one.\<close>

definition complete_prefix :: "native_record list \<Rightarrow> native_record list" where
  "complete_prefix rs = takeWhile nr_complete rs"

definition planNativeSegments ::
  "crypto \<Rightarrow> source_info \<Rightarrow> jsstr \<Rightarrow> native_record list \<Rightarrow> jsval option \<Rightarrow> nat \<Rightarrow> bool
     \<Rightarrow> planned_segment list result" where
  "planNativeSegments cr source sid rs manifest limit allowOpen =
     rbind (requireSource source) (\<lambda>_.
     rbind (guard (0 < limit) ''native soft segment limit must be a positive integer'') (\<lambda>_.
     rbind (validateRecords rs) (\<lambda>_.
     rbind (anchorsFor cr manifest source sid rs) (\<lambda>anchors.
     let complete = complete_prefix rs in
     rbind (plan_anchors cr source sid limit allowOpen (length rs) complete anchors 0) (\<lambda>(segments, cursor).
     let (chunks, tail) = native_chunks limit [] 0 (drop cursor complete) in
     rbind (rmap (planned cr source sid True) chunks) (\<lambda>more.
     if tail \<noteq> [] \<and> allowOpen
     then rbind (assertSegmentSize tail) (\<lambda>_.
          rbind (planned cr source sid False tail) (\<lambda>p. Inr (segments @ more @ [p])))
     else Inr (segments @ more)))))))"

section \<open>Reading a range back\<close>

definition hydrateNativeRange :: "native_record list \<Rightarrow> jsstr \<Rightarrow> jsstr \<Rightarrow> ingest_message list result" where
  "hydrateNativeRange rs startId endId =
     rbind (validateRecords rs) (\<lambda>_.
     case (position_of rs startId, position_of rs endId) of
       (Some i, Some j) \<Rightarrow>
         if j < i then Inl ''native hydration boundary is out of order''
         else let range = js_slice i (Suc j) rs in
           if \<not> list_all nr_complete range then Inl ''native hydration boundary includes an incomplete record''
           else Inr (map nr_source range)
     | _ \<Rightarrow> Inl ''native hydration boundary was not found'')"

definition validateNativeSegmentRequest :: "crypto \<Rightarrow> native_record list \<Rightarrow> ingest_request \<Rightarrow> unit result" where
  "validateNativeSegmentRequest cr rs expectedRequest =
     rbind (parseNativeSegmentCreate (persistedRequest expectedRequest)) (\<lambda>expected.
     let b = rb_boundary (rq_body expected) in
     rbind (hydrateNativeRange rs (the (start_source b)) (the (end_source b))) (\<lambda>messages.
     rbind (parseNativeSegmentCreate (persistedRequest (expected
         \<lparr>rq_body := (rq_body expected)\<lparr>rb_messages := messages\<rparr>\<rparr>))) (\<lambda>actual.
     guard (nativeSourceFingerprint cr actual = nativeSourceFingerprint cr expected)
       ''native segment request no longer matches the history snapshot'')))"

end
