(* ===== verification/NativePlanned.thy ===== *)
theory NativePlanned
  imports NativePlan
begin

text \<open>
  What the native planner guarantees: its segments are consecutive blocks of the complete records, in
  order and without gaps; a block is within the soft limit, a single record or an anchor's range; and
  a planned request reads back from the records it was made of.
\<close>

section \<open>Records\<close>

lemma records_weight_simps [simp]:
  "records_weight [] = 0" "records_weight (r # rs) = nr_weight r + records_weight rs"
  "records_weight (rs @ rs') = records_weight rs + records_weight rs'"
  by (simp_all add: records_weight_def)

lemma validate_from_iff:
  "validate_from seen rs = Inr u \<longleftrightarrow>
     (\<forall>r\<in>set rs. get_prop (nr_raw r) (js ''id'') = Str (record_id r)
        \<and> codePointLength (im_text (nr_source r)) \<le> MAX_MESSAGE_TEXT_CHARS)
     \<and> distinct (map record_id rs) \<and> set (map record_id rs) \<inter> set seen = {}"
  by (induction rs arbitrary: seen) (auto simp: rbind_eq_Inr_iff)

lemma validateRecords_distinct: "validateRecords rs = Inr u \<Longrightarrow> distinct (map record_id rs)"
  by (simp add: validateRecords_def validate_from_iff)

lemma position_of_unique:
  assumes "distinct (map record_id rs)" "i < length rs"
  shows "position_of rs (record_id (rs ! i)) = Some i"
  unfolding position_of_def
proof (rule find_index_unique [OF assms(2)])
  fix j assume "j < length rs" "record_id (rs ! j) = record_id (rs ! i)"
  with assms show "j = i" by (metis distinct_conv_nth length_map nth_map)
qed simp

section \<open>Chunks\<close>

definition chunk_fits :: "nat \<Rightarrow> native_record list \<Rightarrow> bool" where
  "chunk_fits limit c \<longleftrightarrow> c \<noteq> [] \<and> (records_weight c \<le> limit \<or> length c = 1)"

lemma native_chunks_spec:
  assumes "native_chunks limit chunk w rs = (chunks, rest)" "w = records_weight chunk"
    and "chunk = [] \<or> w < limit" "0 < limit"
  shows "concat chunks @ rest = chunk @ rs \<and> (\<forall>c\<in>set chunks. chunk_fits limit c)
    \<and> (rest = [] \<or> records_weight rest < limit)"
  using assms
proof (induction limit chunk w rs arbitrary: chunks rest rule: native_chunks.induct)
  case (1 limit chunk w)
  then show ?case by auto
next
  case (2 limit chunk w r rs)
  define flush where "flush = (chunk \<noteq> [] \<and> w + nr_weight r > limit)"
  define chunk1 where "chunk1 = (if flush then [r] else chunk @ [r])"
  define w1 where "w1 = (if flush then 0 else w) + nr_weight r"
  have w1: "w1 = records_weight chunk1" using "2.prems"(2) by (simp add: w1_def chunk1_def)
  have le: "w1 \<le> limit \<or> length chunk1 = 1"
    by (auto simp: w1_def chunk1_def flush_def not_less)
  obtain cs rest' where rec: "(if w1 \<ge> limit then native_chunks limit [] 0 rs else native_chunks limit chunk1 w1 rs) = (cs, rest')"
    by fastforce
  have "native_chunks limit chunk w (r # rs) =
      ((if flush then [chunk] else []) @ (if w1 \<ge> limit then [chunk1] else []) @ cs, rest')"
    unfolding native_chunks.simps(2) Let_def flush_def [symmetric] chunk1_def [symmetric] w1_def [symmetric]
    by (subst rec) simp
  with "2.prems"(1) have out: "chunks = (if flush then [chunk] else []) @ (if w1 \<ge> limit then [chunk1] else []) @ cs"
    "rest = rest'" by simp_all
  have ih: "concat cs @ rest' = (if w1 \<ge> limit then [] else chunk1) @ rs \<and> (\<forall>c\<in>set cs. chunk_fits limit c)
    \<and> (rest' = [] \<or> records_weight rest' < limit)"
  proof (cases "w1 \<ge> limit")
    case True
    with rec have "native_chunks limit [] 0 rs = (cs, rest')" by simp
    from "2.IH"(1) [OF flush_def chunk1_def w1_def True this] "2.prems"(4) True show ?thesis by simp
  next
    case False
    with rec have "native_chunks limit chunk1 w1 rs = (cs, rest')" by simp
    from "2.IH"(2) [OF flush_def chunk1_def w1_def False this w1] False "2.prems"(4) show ?thesis by (auto simp: not_le)
  qed
  have "flush \<Longrightarrow> chunk_fits limit chunk"
    using "2.prems"(2,3) by (auto simp: flush_def chunk_fits_def)
  moreover have "chunk_fits limit chunk1" using le w1 by (auto simp: chunk_fits_def chunk1_def)
  moreover have "(if flush then [chunk] else []) \<noteq> [] \<longleftrightarrow> flush" by simp
  moreover have "concat (if flush then [chunk] else []) @ chunk1 = chunk @ [r]" by (simp add: chunk1_def)
  ultimately show ?case using ih unfolding out by auto
qed

lemma gap_chunks_spec:
  assumes "0 < limit"
  shows "concat (gap_chunks limit rs) = rs \<and> (\<forall>c\<in>set (gap_chunks limit rs). chunk_fits limit c)"
proof -
  obtain chunks rest where c: "native_chunks limit [] 0 rs = (chunks, rest)" by fastforce
  from native_chunks_spec [OF c _ _ assms] show ?thesis
    by (auto simp: gap_chunks_def c chunk_fits_def)
qed

section \<open>The plan\<close>

lemma list_all2_right: "list_all2 P xs ys \<Longrightarrow> y \<in> set ys \<Longrightarrow> \<exists>x\<in>set xs. P x y"
  by (induction rule: list_all2_induct) auto

lemma list_all2_left: "list_all2 P xs ys \<Longrightarrow> x \<in> set xs \<Longrightarrow> \<exists>y\<in>set ys. P x y"
  by (induction rule: list_all2_induct) auto

text \<open>A list of planned segments made of a list of blocks of records.\<close>

definition made_of ::
  "crypto \<Rightarrow> source_info \<Rightarrow> jsstr \<Rightarrow> native_record list list \<Rightarrow> planned_segment list \<Rightarrow> bool" where
  "made_of cr source sid = list_all2 (\<lambda>c s. planned cr source sid (ps_closed s) c = Inr s)"

lemma planned_closed: "planned cr source sid isClosed c = Inr s \<Longrightarrow> ps_closed s = isClosed"
  by (auto simp: planned_def)

lemma planned_fields:
  assumes "planned cr source sid isClosed c = Inr s"
  shows "c \<noteq> []" "requestFor source sid c = Inr (ps_request s)" "ps_sourceMessageIds s = map record_id c"
    "ps_weightedChars s = records_weight c"
  using assms by (auto simp: planned_def identify_def requestFor_def split: if_splits)

lemma made_of_rmap:
  assumes "rmap (planned cr source sid isClosed) cs = Inr segs"
  shows "made_of cr source sid cs segs" "\<forall>s\<in>set segs. ps_closed s = isClosed"
proof -
  from assms have all: "list_all2 (\<lambda>c s. planned cr source sid isClosed c = Inr s) cs segs" by (simp add: rmap_Inr_iff)
  then show "made_of cr source sid cs segs"
    unfolding made_of_def by (rule list_all2_mono) (auto dest: planned_closed)
  from all show "\<forall>s\<in>set segs. ps_closed s = isClosed"
    using planned_closed list_all2_right [OF all] by blast
qed

lemma made_of_append:
  "made_of cr source sid cs ss \<Longrightarrow> made_of cr source sid cs' ss' \<Longrightarrow> made_of cr source sid (cs @ cs') (ss @ ss')"
  unfolding made_of_def by (rule list_all2_appendI)

lemma made_of_single: "planned cr source sid isClosed c = Inr s \<Longrightarrow> made_of cr source sid [c] [s]"
  by (simp add: made_of_def planned_closed)

text \<open>
  A block is the range of an anchor or fits the limit. \<open>plan_of\<close>: the segments are made of
  consecutive blocks that cover the records from one position to another, all but the last closed.
\<close>

definition block_ok :: "nat \<Rightarrow> anchor list \<Rightarrow> native_record list \<Rightarrow> native_record list \<Rightarrow> bool" where
  "block_ok limit anchors rs c \<longleftrightarrow> chunk_fits limit c \<or> (\<exists>a\<in>set anchors. c = js_slice (an_start a) (Suc (an_end a)) rs)"

definition anchors_ok :: "nat \<Rightarrow> anchor list \<Rightarrow> bool" where
  "anchors_ok n anchors \<longleftrightarrow> (\<forall>a\<in>set anchors. an_start a \<le> an_end a \<and> an_end a < n)"

lemma anchor_of_ok:
  assumes "anchor_of cr source sid rs e = Inr (Some a)"
  shows "an_start a \<le> an_end a \<and> an_end a < length rs"
proof -
  from assms obtain i j where ij: "position_of rs (ne_start (fst e)) = Some i" "position_of rs (ne_end (fst e)) = Some j"
    "\<not> j < i" and a: "a = \<lparr>an_start = i, an_end = j, an_target = snd e\<rparr>"
    by (auto simp: anchor_of_def split: option.splits if_splits)
  from find_index_SomeD [OF ij(2) [unfolded position_of_def]] ij(3) show ?thesis by (simp add: a)
qed

lemma unique_anchors_set: "unique_anchors unique as = Inr r \<Longrightarrow> set r \<subseteq> set unique \<union> set as"
proof (induction unique as rule: unique_anchors.induct)
  case (2 unique a as)
  have "set (butlast unique) \<subseteq> set unique" by (auto dest: in_set_butlastD)
  with 2 show ?case by (auto split: option.splits if_splits)
qed simp

lemma anchorsFor_ok:
  assumes "anchorsFor cr manifest source sid rs = Inr anchors"
  shows "anchors_ok (length rs) anchors"
proof (cases manifest)
  case None
  with assms show ?thesis by (simp add: anchorsFor_def anchors_ok_def)
next
  case (Some v)
  with assms obtain es found where found: "rmap (anchor_of cr source sid rs) es = Inr found"
    and u: "unique_anchors [] (js_sort compare_anchors (List.map_filter id found)) = Inr anchors"
    by (auto simp: anchorsFor_def split: if_splits)
  have "an_start a \<le> an_end a \<and> an_end a < length rs" if "a \<in> set anchors" for a
  proof -
    from unique_anchors_set [OF u] that have "Some a \<in> set found" by (auto simp: List.map_filter_def)
    from list_all2_right [OF found [unfolded rmap_Inr_iff] this]
    obtain e where "anchor_of cr source sid rs e = Inr (Some a)" by blast
    then show ?thesis by (rule anchor_of_ok)
  qed
  then show ?thesis by (simp add: anchors_ok_def)
qed

lemma made_of_nonempty: "made_of cr source sid blocks segs \<Longrightarrow> b \<in> set blocks \<Longrightarrow> b \<noteq> []"
  unfolding made_of_def using list_all2_left planned_fields(1) by fast

lemma made_of_nothing: "made_of cr source sid blocks segs \<Longrightarrow> concat blocks = [] \<Longrightarrow> blocks = [] \<and> segs = []"
  using made_of_nonempty [of cr source sid blocks segs]
  by (cases blocks) (auto simp: made_of_def)

definition covers ::
  "crypto \<Rightarrow> source_info \<Rightarrow> jsstr \<Rightarrow> nat \<Rightarrow> bool \<Rightarrow> native_record list \<Rightarrow> anchor list \<Rightarrow> nat \<Rightarrow> nat
     \<Rightarrow> native_record list list \<Rightarrow> native_record list \<Rightarrow> planned_segment list \<Rightarrow> bool" where
  "covers cr source sid limit allowOpen rs anchors i j blocks skipped segs \<longleftrightarrow>
     made_of cr source sid blocks segs \<and> concat blocks @ skipped = js_slice i j rs \<and> i \<le> j \<and> j \<le> length rs
     \<and> (\<forall>b\<in>set blocks. block_ok limit anchors rs b)
     \<and> (skipped \<noteq> [] \<longrightarrow> j = length rs \<and> \<not> allowOpen \<and> records_weight skipped < limit)
     \<and> (\<forall>s\<in>set (butlast segs). ps_closed s) \<and> (segs \<noteq> [] \<and> \<not> ps_closed (last segs) \<longrightarrow> j = length rs)"

lemma block_ok_mono: "block_ok limit as rs b \<Longrightarrow> set as \<subseteq> set bs \<Longrightarrow> block_ok limit bs rs b"
  by (auto simp: block_ok_def)

lemma covers_end:
  assumes "covers cr source sid limit allowOpen rs anchors (length rs) j blocks skipped segs"
  shows "j = length rs \<and> blocks = [] \<and> skipped = [] \<and> segs = []"
proof -
  from assms have "j = length rs" and "concat blocks @ skipped = []" and "made_of cr source sid blocks segs"
    by (auto simp: covers_def)
  with made_of_nothing show ?thesis by auto
qed

text \<open>Covering is composed of closed segments followed by anything.\<close>

lemma covers_append:
  assumes made: "made_of cr source sid blocks segs" and all: "concat blocks = js_slice i j rs" "i \<le> j"
    and ok: "\<forall>b\<in>set blocks. block_ok limit anchors rs b" and closed: "\<forall>s\<in>set segs. ps_closed s"
    and rest: "covers cr source sid limit allowOpen rs anchors j k blocks' skipped segs'"
  shows "covers cr source sid limit allowOpen rs anchors i k (blocks @ blocks') skipped (segs @ segs')"
proof -
  note r = rest [unfolded covers_def]
  from r all have slices: "concat (blocks @ blocks') @ skipped = js_slice i k rs" "i \<le> k" "k \<le> length rs"
    by (auto simp: slice_append [of i j k])
  have "\<forall>s\<in>set (butlast (segs @ segs')). ps_closed s"
    using closed r by (auto simp: butlast_append dest: in_set_butlastD)
  moreover have "segs @ segs' \<noteq> [] \<and> \<not> ps_closed (last (segs @ segs')) \<longrightarrow> k = length rs"
    using closed r by (cases "segs' = []") auto
  ultimately show ?thesis
    using r made_of_append [OF made] ok slices unfolding covers_def by auto
qed

lemma plan_anchors_covers:
  assumes "plan_anchors cr source sid limit allowOpen n rs as cursor = Inr (segs, c)" "0 < limit"
    and "anchors_ok n as" "set as \<subseteq> set anchors" "length rs \<le> n" "cursor \<le> length rs"
  shows "\<exists>blocks skipped. covers cr source sid limit allowOpen rs anchors cursor c blocks skipped segs"
  using assms
proof (induction as arbitrary: cursor segs)
  case Nil
  then have "covers cr source sid limit allowOpen rs anchors cursor c [] [] segs" by (simp add: covers_def made_of_def)
  then show ?case by blast
next
  case (Cons a as)
  show ?case
  proof (cases "an_start a \<ge> length rs \<or> an_end a \<ge> length rs")
    case True
    with Cons.prems have "covers cr source sid limit allowOpen rs anchors cursor c [] [] segs"
      by (auto simp: covers_def made_of_def)
    then show ?thesis by blast
  next
    case False
    let ?anchored = "js_slice (an_start a) (Suc (an_end a)) rs"
    define isClosed where "isClosed = (an_end a < n - 1 \<or> records_weight ?anchored \<ge> limit)"
    from Cons.prems(1) False obtain gap mine rest where
      gap: "rmap (planned cr source sid True) (gap_chunks limit (js_slice cursor (an_start a) rs)) = Inr gap"
      and le: "max cursor (an_start a) = an_start a"
      and mine: "(if isClosed \<or> allowOpen then rbind (planned cr source sid isClosed ?anchored) (\<lambda>p. Inr [p]) else Inr []) = Inr mine"
      and rec: "plan_anchors cr source sid limit allowOpen n rs as (Suc (an_end a)) = Inr (rest, c)"
      and segs: "segs = gap @ mine @ rest"
      by (auto simp: isClosed_def Let_def split: if_splits)
    have a: "an_start a \<le> an_end a" "an_end a < n" and a_in: "a \<in> set anchors"
      using Cons.prems(3,4) by (auto simp: anchors_ok_def)
    from Cons.IH [OF rec Cons.prems(2)] Cons.prems(3-5) False obtain blocks skipped where
      ih: "covers cr source sid limit allowOpen rs anchors (Suc (an_end a)) c blocks skipped rest"
      by (auto simp: anchors_ok_def)
    have anchored_ok: "block_ok limit anchors rs ?anchored" using a_in by (auto simp: block_ok_def)
    note g = made_of_rmap [OF gap, simplified]
    have gap_blocks: "concat (gap_chunks limit (js_slice cursor (an_start a) rs)) = js_slice cursor (an_start a) rs"
      "\<forall>b\<in>set (gap_chunks limit (js_slice cursor (an_start a) rs)). block_ok limit anchors rs b"
      using gap_chunks_spec [OF Cons.prems(2)] by (auto simp: block_ok_def)
    have "cursor \<le> an_start a" using le by (simp add: max_def split: if_splits)
    note prepend = covers_append [OF g(1) gap_blocks(1) this gap_blocks(2) g(2)]
    have last_anchor: "Suc (an_end a) = length rs" if "\<not> isClosed"
      using that a(2) False Cons.prems(5) by (auto simp: isClosed_def)
    have "\<exists>blocks skipped. covers cr source sid limit allowOpen rs anchors (an_start a) c blocks skipped (mine @ rest)"
    proof (cases isClosed)
      case True
      with mine obtain p where p: "planned cr source sid True ?anchored = Inr p" "mine = [p]" by auto
      have "covers cr source sid limit allowOpen rs anchors (an_start a) c ([?anchored] @ blocks) skipped ([p] @ rest)"
        by (rule covers_append [OF made_of_single [OF p(1)] _ _ _ _ ih])
          (use planned_closed [OF p(1)] anchored_ok a(1) in simp_all)
      with p(2) show ?thesis by blast
    next
      case False
      from covers_end [OF ih [unfolded last_anchor [OF False]]]
      have ends: "c = length rs" "rest = []" by simp_all
      from False have light: "records_weight ?anchored < limit" by (auto simp: isClosed_def)
      show ?thesis
      proof (cases allowOpen)
        case True
        with mine False obtain p where p: "planned cr source sid False ?anchored = Inr p" "mine = [p]" by auto
        have "covers cr source sid limit allowOpen rs anchors (an_start a) c [?anchored] [] (mine @ rest)"
          using made_of_single [OF p(1)] anchored_ok a(1) last_anchor [OF False]
          unfolding p(2) ends covers_def by simp
        then show ?thesis by blast
      next
        case no: False
        with mine False have "mine = []" by simp
        then have "covers cr source sid limit allowOpen rs anchors (an_start a) c [] ?anchored (mine @ rest)"
          using a(1) last_anchor [OF False] no light unfolding ends covers_def by (simp add: made_of_def)
        then show ?thesis by blast
      qed
    qed
    with prepend show ?thesis unfolding segs by blast
  qed
qed

lemma plan_covers:
  assumes plan: "planNativeSegments cr source sid rs manifest limit allowOpen = Inr segs"
  shows "\<exists>anchors blocks skipped. anchorsFor cr manifest source sid rs = Inr anchors \<and> validateRecords rs = Inr ()
    \<and> 0 < limit \<and> covers cr source sid limit allowOpen (complete_prefix rs) anchors 0 (length (complete_prefix rs)) blocks skipped segs"
proof -
  let ?rs = "complete_prefix rs"
  from plan obtain anchors segments cursor where pos: "0 < limit" and valid: "validateRecords rs = Inr ()"
    and anchors: "anchorsFor cr manifest source sid rs = Inr anchors"
    and first: "plan_anchors cr source sid limit allowOpen (length rs) ?rs anchors 0 = Inr (segments, cursor)"
    and more: "(let (chunks, tail) = native_chunks limit [] 0 (drop cursor ?rs) in
       rbind (rmap (planned cr source sid True) chunks) (\<lambda>more.
       if tail \<noteq> [] \<and> allowOpen
       then rbind (assertSegmentSize tail) (\<lambda>_.
            rbind (planned cr source sid False tail) (\<lambda>p. Inr (segments @ more @ [p])))
       else Inr (segments @ more))) = Inr segs"
    by (auto simp: planNativeSegments_def Let_def)
  obtain chunks tail where chunks: "native_chunks limit [] 0 (drop cursor ?rs) = (chunks, tail)" by fastforce
  have len: "length ?rs \<le> length rs" by (simp add: complete_prefix_def length_takeWhile_le)
  from plan_anchors_covers [OF first pos anchorsFor_ok [OF anchors] subset_refl len] obtain blocks skipped
    where c1: "covers cr source sid limit allowOpen ?rs anchors 0 cursor blocks skipped segments" by auto
  note spec = native_chunks_spec [OF chunks _ _ pos, simplified]
  from more chunks obtain ms where ms: "rmap (planned cr source sid True) chunks = Inr ms"
    and out: "if tail \<noteq> [] \<and> allowOpen then \<exists>p. planned cr source sid False tail = Inr p \<and> segs = segments @ ms @ [p]
      else segs = segments @ ms"
    by (auto split: if_splits)
  note made = made_of_rmap [OF ms, simplified]
  have le: "cursor \<le> length ?rs" using c1 by (simp add: covers_def)
  have slice: "js_slice cursor (length ?rs) ?rs = drop cursor ?rs" by (simp add: slice_to_end)
  have tail_ok: "tail \<noteq> [] \<Longrightarrow> block_ok limit anchors ?rs tail" "tail \<noteq> [] \<Longrightarrow> records_weight tail < limit"
    using spec by (auto simp: block_ok_def chunk_fits_def)
  have chunks_ok: "\<forall>b\<in>set chunks. block_ok limit anchors ?rs b" using spec by (auto simp: block_ok_def)
  have closed: "\<forall>s\<in>set (butlast ms). ps_closed s" "ms \<noteq> [] \<Longrightarrow> ps_closed (last ms)"
    using made(2) by (auto dest: in_set_butlastD)
  obtain ys blocks2 skipped2 where segs: "segs = segments @ ys"
    and c2: "covers cr source sid limit allowOpen ?rs anchors cursor (length ?rs) blocks2 skipped2 ys"
  proof (cases "tail \<noteq> [] \<and> allowOpen")
    case True
    with out obtain p where p: "planned cr source sid False tail = Inr p" "segs = segments @ ms @ [p]" by auto
    have "covers cr source sid limit allowOpen ?rs anchors cursor (length ?rs) (chunks @ [tail]) [] (ms @ [p])"
      using made_of_append [OF made(1) made_of_single [OF p(1)]] spec True tail_ok(1) chunks_ok le made(2)
      by (simp add: covers_def slice)
    with that p(2) show ?thesis by blast
  next
    case False
    with out have "segs = segments @ ms" by (auto split: if_splits)
    moreover have "covers cr source sid limit allowOpen ?rs anchors cursor (length ?rs) chunks tail ms"
      using made(1) spec False tail_ok(2) chunks_ok le closed by (auto simp: covers_def slice)
    ultimately show ?thesis using that by blast
  qed
  have "\<exists>blocks skipped. covers cr source sid limit allowOpen ?rs anchors 0 (length ?rs) blocks skipped segs"
  proof (cases "cursor = length ?rs")
    case True
    from covers_end [OF c2 [unfolded True]] c1 segs True show ?thesis by auto
  next
    case False
    with c1 have "skipped = []" and last: "segments \<noteq> [] \<Longrightarrow> ps_closed (last segments)" and "\<forall>s\<in>set (butlast segments). ps_closed s"
      by (auto simp: covers_def)
    moreover have "\<forall>s\<in>set segments. ps_closed s"
    proof (cases segments rule: rev_cases)
      case (snoc ss s)
      with last c1 show ?thesis by (auto simp: covers_def)
    qed simp
    ultimately have "covers cr source sid limit allowOpen ?rs anchors 0 (length ?rs) (blocks @ blocks2) skipped2 (segments @ ys)"
      using c1 by (intro covers_append [OF _ _ _ _ _ c2]) (auto simp: covers_def)
    then show ?thesis unfolding segs by blast
  qed
  with anchors valid pos show ?thesis by blast
qed

section \<open>Reading a planned segment back\<close>

definition trimmed_request :: "ingest_request \<Rightarrow> ingest_request" where
  "trimmed_request r = \<lparr>rq_source_id = trim (rq_source_id r), rq_body = (rq_body r)
     \<lparr>rb_session_id := trim (rb_session_id (rq_body r)),
      rb_boundary := (case rb_boundary (rq_body r) of Boundary3 ss es \<Rightarrow> Boundary3 (trim ss) (trim es) | b \<Rightarrow> b),
      rb_messages := map (\<lambda>m. m\<lparr>im_id := trim (im_id m)\<rparr>) (rb_messages (rq_body r))\<rparr>\<rparr>"

lemma trim_message_json: "trimProperty (js ''id'') (native_message_json m) = native_message_json (m\<lparr>im_id := trim (im_id m)\<rparr>)"
  by (simp add: trimProperty_def native_message_json_def property_def set_prop_def field_def)

lemma trimProperty_Obj: "property ps k = Str s \<Longrightarrow> trimProperty k (Obj ps) = Obj (set_prop ps k (Str (trim s)))"
  by (simp add: trimProperty_def)

lemma normalize_persisted:
  assumes "rb_boundary (rq_body r) = Boundary3 ss es"
  shows "normalizeNativeSegmentCreate (persistedRequest r) = persistedRequest (trimmed_request r)"
  using assms
  by (simp add: normalizeNativeSegmentCreate_def persistedRequest_def persisted_props_def trimmed_request_def
      trimProperties_def native_trimmed_def trimProperty_Obj property_def prop_of_def set_prop_def field_def Let_def nullable_def
      trim_message_json comp_def del: trim_native_id)

lemma native_message_inverse: "native_message (native_message_json m) = Some m' \<Longrightarrow> m' = m"
  by (cases m) (auto simp: native_message_def native_message_json_def only_keys_def prop_of_def property_def field_def
      ident_def split: if_splits)

lemma all_some_inverse:
  assumes "\<And>m m'. f (g m) = Some m' \<Longrightarrow> m' = m"
  shows "all_some (map f (map g ms)) = Some ms' \<Longrightarrow> ms' = ms"
proof (induction ms arbitrary: ms')
  case (Cons m ms)
  then show ?case using assms by (cases "f (g m)") auto
qed simp

lemma ident_inverse: "ident (Str s) = Some s' \<Longrightarrow> s' = s"
  by (simp add: ident_def split: if_splits)

lemma small_nat_inverse: "small_nat t (num n) = Some n' \<Longrightarrow> n' = n"
  by (auto simp: small_nat_def num_def find_Some_iff dest: decimal_inject simp del: upt_Suc)

lemma native_segment_inverse:
  assumes b: "rb_boundary (rq_body r) = Boundary3 ss es" and run: "native_segment (persistedRequest r) = Some r'"
    and v: "rb_projection_version (rq_body r) = 3"
  shows "r' = r"
proof -
  note look = persisted_lookup [of r, unfolded b]
  have rec: "record_of (persistedRequest r) = Some (persisted_props r)" by (simp add: persistedRequest_def)
  from run obtain owner sid ss' es' pri ms where
    f: "ident (Str (rq_source_id r)) = Some owner" "ident (Str (rb_session_id (rq_body r))) = Some sid"
      "ident (Str ss) = Some ss'" "ident (Str es) = Some es'"
      "small_nat 100 (num (rb_processing_priority (rq_body r))) = Some pri"
      "message_array native_message (Arr (map native_message_json (rb_messages (rq_body r)))) = Some ms"
    and r': "r' = \<lparr>rq_source_id = owner, rq_body = \<lparr>rb_session_id = sid, rb_boundary = Boundary3 ss' es',
        rb_projection_version = 3, rb_processing_priority = pri, rb_messages = ms\<rparr>\<rparr>"
    by (auto simp: native_segment_def rec look nullable_def split: option.splits if_splits)
  from f(6) have "all_some (map native_message (map native_message_json (rb_messages (rq_body r)))) = Some ms"
    by (simp add: message_array_def split: if_splits)
  from all_some_inverse [OF native_message_inverse this] f(1-5) b v show ?thesis unfolding r'
    by (auto dest!: ident_inverse small_nat_inverse)
qed

text \<open>Parsing a native request the program built only trims its IDs.\<close>

lemma parse_native_persisted:
  assumes b: "rb_boundary (rq_body r) = Boundary3 ss es" and v: "rb_projection_version (rq_body r) = 3"
    and run: "parseNativeSegmentCreate (persistedRequest r) = Inr r'"
  shows "r' = trimmed_request r"
proof -
  from run have "native_segment (persistedRequest (trimmed_request r)) = Some r'"
    by (auto simp: parseNativeSegmentCreate_def normalize_persisted [OF b] Let_def split: option.splits if_splits)
  moreover have "rb_boundary (rq_body (trimmed_request r)) = Boundary3 (trim ss) (trim es)"
    "rb_projection_version (rq_body (trimmed_request r)) = 3" by (simp_all add: trimmed_request_def b v)
  ultimately show ?thesis using native_segment_inverse by blast
qed

lemma requestFor_raw:
  assumes run: "requestFor source sid c = Inr r" and ids: "\<forall>x\<in>set c. trim (record_id x) = record_id x"
  shows "rb_messages (rq_body r) = map nr_source c \<and> rb_boundary (rq_body r) = Boundary3 (record_id (hd c)) (record_id (last c))
    \<and> c \<noteq> []"
proof -
  from run have c: "c \<noteq> []" and parse: "parseNativeSegmentCreate (persistedRequest (raw_request source sid c)) = Inr r"
    by (auto simp: requestFor_def split: if_splits)
  from parse_native_persisted [OF _ _ parse] have r: "r = trimmed_request (raw_request source sid c)"
    by (simp add: raw_request_def)
  have "(nr_source x)\<lparr>im_id := trim (record_id x)\<rparr> = nr_source x" if "x \<in> set c" for x using ids that by simp
  then have "map (\<lambda>m. m\<lparr>im_id := trim (im_id m)\<rparr>) (map nr_source c) = map nr_source c" by simp
  moreover have "hd c \<in> set c" "last c \<in> set c" using c by simp_all
  ultimately show ?thesis using ids c by (simp add: r trimmed_request_def raw_request_def)
qed

lemma block_in_prefix:
  assumes "concat blocks @ skipped = complete_prefix rs" "b \<in> set blocks"
  obtains pre post where "rs = pre @ b @ post" "list_all nr_complete b"
proof -
  from assms(2) obtain xs ys where "blocks = xs @ b # ys" by (auto simp: in_set_conv_decomp)
  with assms(1) have prefix: "complete_prefix rs = concat xs @ b @ (concat ys @ skipped)" by simp
  have "rs = complete_prefix rs @ dropWhile nr_complete rs" by (simp add: complete_prefix_def)
  with prefix have "rs = concat xs @ b @ (concat ys @ skipped @ dropWhile nr_complete rs)" by simp
  moreover have "list_all nr_complete (complete_prefix rs)" by (auto simp: complete_prefix_def list_all_iff dest: set_takeWhileD)
  then have "list_all nr_complete b" by (simp add: prefix)
  ultimately show thesis using that by blast
qed

lemma hydrate_block:
  assumes valid: "validateRecords rs = Inr ()" and rs: "rs = pre @ b @ post" and b: "b \<noteq> []" "list_all nr_complete b"
  shows "hydrateNativeRange rs (record_id (hd b)) (record_id (last b)) = Inr (map nr_source b)"
proof -
  have "rs ! length pre = hd b" using b(1) by (simp add: rs nth_append hd_conv_nth)
  moreover have "rs ! (length pre + length b - 1) = last b"
    using b(1) by (cases b rule: rev_cases) (simp_all add: rs)
  moreover have "length pre < length rs" "length pre + length b - 1 < length rs"
    using b(1) by (cases b; simp add: rs)+
  ultimately have pos: "position_of rs (record_id (hd b)) = Some (length pre)"
    "position_of rs (record_id (last b)) = Some (length pre + length b - 1)"
    using position_of_unique [OF validateRecords_distinct [OF valid]] by metis+
  have n: "0 < length b" using b(1) by simp
  then have "Suc (length pre + length b - 1) - length pre = length b" by simp
  then have slice: "js_slice (length pre) (Suc (length pre + length b - 1)) rs = b" by (simp add: js_slice_def rs)
  have "\<not> length pre + length b - 1 < length pre" using n by linarith
  with pos slice b(2) valid show ?thesis by (simp add: hydrateNativeRange_def Let_def)
qed

end
