(* ===== verification/NativeSafety.thy ===== *)
theory NativeSafety
  imports NativePlanned
begin

text \<open>
  The properties of the native planner: what a plan covers, that every planned request reads back from
  the records, the only ways a plan fails, and what a manifest's anchors look like when they are
  accepted.
\<close>

section \<open>Anchors\<close>

definition separated :: "anchor list \<Rightarrow> bool" where
  "separated as \<longleftrightarrow> sorted_wrt (\<lambda>a b. an_end a < an_start b) as"

lemma sorted_anchors: "sorted (map an_start (js_sort compare_anchors as))"
  by (rule sorted_js_sort) (auto simp: compare_anchors_def split: if_splits)

lemma separated_snoc: "separated (as @ [a]) \<longleftrightarrow> separated as \<and> (\<forall>b\<in>set as. an_end b < an_start a)"
  by (auto simp: separated_def sorted_wrt_append)

lemma unique_anchors_separated:
  assumes "unique_anchors unique as = Inr r" "separated unique" "sorted (map an_start as)"
    and "\<forall>a\<in>set unique \<union> set as. an_start a \<le> an_end a"
  shows "separated r"
  using assms
proof (induction unique as rule: unique_anchors.induct)
  case (2 unique a as)
  show ?case
  proof (cases unique rule: rev_cases)
    case Nil
    with 2 show ?thesis by (auto simp: separated_def)
  next
    case (snoc us previous)
    have sep: "separated us" "\<forall>b\<in>set us. an_end b < an_start previous" using "2.prems"(2) by (simp_all add: snoc separated_snoc)
    have prev: "last_opt unique = Some previous" by (simp add: snoc)
    consider (target) "an_start a = an_start previous" "an_target a \<noteq> an_target previous"
      | (same) "an_start a = an_start previous" "an_target a = an_target previous"
      | (new) "an_start a \<noteq> an_start previous" by blast
    then show ?thesis
    proof cases
      case target
      have "separated (if an_target a then butlast unique @ [a] else unique)"
        using sep target(1) "2.prems"(2) by (simp add: snoc separated_snoc)
      with "2.IH"(2) [OF prev target] "2.prems" target prev show ?thesis
        by (auto simp: snoc split: if_splits)
    next
      case same
      with "2.prems" prev have "an_end a = an_end previous" by (auto split: if_splits)
      with "2.IH"(3) [OF prev same(1)] "2.prems" same prev show ?thesis by (auto split: if_splits)
    next
      case new
      with "2.prems" prev have later: "\<not> an_start a \<le> an_end previous" by (auto split: if_splits)
      have "an_end b < an_start a" if "b \<in> set unique" for b
        using that sep(2) later "2.prems"(4) by (force simp: snoc)
      with "2.prems"(2) have "separated (unique @ [a])" by (simp add: separated_snoc)
      with "2.IH"(4) [OF prev new later] "2.prems" new later prev show ?thesis by (auto split: if_splits)
    qed
  qed
qed simp

lemma anchorsFor_separated:
  assumes "anchorsFor cr manifest source sid rs = Inr anchors"
  shows "separated anchors"
proof (cases manifest)
  case None
  with assms show ?thesis by (simp add: anchorsFor_def separated_def)
next
  case (Some v)
  with assms obtain es found where found: "rmap (anchor_of cr source sid rs) es = Inr found"
    and u: "unique_anchors [] (js_sort compare_anchors (List.map_filter id found)) = Inr anchors"
    by (auto simp: anchorsFor_def split: if_splits)
  have "an_start a \<le> an_end a" if "a \<in> set (List.map_filter id found)" for a
  proof -
    from that have "Some a \<in> set found" by (auto simp: List.map_filter_def)
    from list_all2_right [OF found [unfolded rmap_Inr_iff] this]
    obtain e where "anchor_of cr source sid rs e = Inr (Some a)" by blast
    from anchor_of_ok [OF this] show ?thesis by simp
  qed
  with unique_anchors_separated [OF u _ sorted_anchors] show ?thesis by (simp add: separated_def)
qed

section \<open>Failure\<close>

lemma rmap_InlD: "rmap f xs = Inl e \<Longrightarrow> \<exists>x\<in>set xs. f x = Inl e"
  by (induction xs) (auto simp: rbind_eq_Inl_iff)

text \<open>A block of consecutive records no segment can be made of.\<close>

definition bad_block ::
  "crypto \<Rightarrow> source_info \<Rightarrow> jsstr \<Rightarrow> native_record list \<Rightarrow> string \<Rightarrow> bool" where
  "bad_block cr source sid rs e \<longleftrightarrow> (\<exists>pre b post. rs = pre @ b @ post \<and> b \<noteq> []
     \<and> (assertSegmentSize b = Inl e \<or> identify cr source sid b = Inl e))"

lemma planned_fails: "planned cr source sid isClosed b = Inl e \<Longrightarrow> identify cr source sid b = Inl e"
  by (auto simp: planned_def rbind_eq_Inl_iff)

lemma bad_blockI:
  "rs = pre @ b @ post \<Longrightarrow> b \<noteq> [] \<Longrightarrow> assertSegmentSize b = Inl e \<or> identify cr source sid b = Inl e
    \<Longrightarrow> bad_block cr source sid rs e"
  unfolding bad_block_def by blast

lemma bad_block_within: "bad_block cr source sid b e \<Longrightarrow> rs = pre @ b @ post \<Longrightarrow> bad_block cr source sid rs e"
proof -
  assume bad: "bad_block cr source sid b e" and rs: "rs = pre @ b @ post"
  from bad obtain p c q where b: "b = p @ c @ q" and c: "c \<noteq> []" "assertSegmentSize c = Inl e \<or> identify cr source sid c = Inl e"
    unfolding bad_block_def by blast
  show ?thesis by (rule bad_blockI [of rs "pre @ p" c "q @ post"]) (simp_all add: rs b c)
qed

lemma slice_within: "\<exists>pre post. rs = pre @ js_slice i j rs @ post"
  by (metis append_take_drop_id js_slice_def)

lemma chunks_fail:
  assumes "rmap (planned cr source sid True) cs = Inl e" "concat cs @ rest = b" "\<forall>c\<in>set cs. chunk_fits limit c"
  shows "bad_block cr source sid b e"
proof -
  from rmap_InlD [OF assms(1)] obtain c where c: "c \<in> set cs" "planned cr source sid True c = Inl e" by blast
  then obtain xs ys where "cs = xs @ c # ys" by (auto simp: in_set_conv_decomp)
  with assms(2) have "b = concat xs @ c @ (concat ys @ rest)" by simp
  then show ?thesis using c assms(3) planned_fails by (intro bad_blockI) (auto simp: chunk_fits_def)
qed

lemma plan_anchors_fails:
  assumes "plan_anchors cr source sid limit allowOpen n rs as cursor = Inl e" "0 < limit"
    and "separated as" "\<forall>a\<in>set as. cursor \<le> an_start a \<and> an_start a \<le> an_end a"
  shows "bad_block cr source sid rs e"
  using assms
proof (induction as arbitrary: cursor)
  case (Cons a as)
  let ?gap = "js_slice cursor (an_start a) rs" and ?anchored = "js_slice (an_start a) (Suc (an_end a)) rs"
  from Cons.prems(1) have inside: "an_start a < length rs" "an_end a < length rs"
    by (simp_all split: if_splits)
  have le: "cursor \<le> an_start a" "an_start a \<le> an_end a" using Cons.prems(4) by simp_all
  then have max: "max cursor (an_start a) = an_start a" by simp
  have anchored: "?anchored \<noteq> []" using inside le by (simp flip: length_greater_0_conv add: length_slice)
  obtain pre post where split: "rs = pre @ ?anchored @ post" using slice_within by metis
  from Cons.prems(1) inside max consider
      "rmap (planned cr source sid True) (gap_chunks limit ?gap) = Inl e"
    | "assertSegmentSize ?anchored = Inl e"
    | isClosed where "planned cr source sid isClosed ?anchored = Inl e"
    | "plan_anchors cr source sid limit allowOpen n rs as (Suc (an_end a)) = Inl e"
    by (auto simp: rbind_eq_Inl_iff Let_def split: if_splits)
  then show ?case
  proof cases
    case 1
    from chunks_fail [OF 1, of "[]" ?gap limit] gap_chunks_spec [OF Cons.prems(2)]
    have "bad_block cr source sid ?gap e" by simp
    then show ?thesis using slice_within bad_block_within by metis
  next
    case 2
    then show ?thesis by (intro bad_blockI [OF split anchored]) simp
  next
    case 3
    then show ?thesis using planned_fails by (intro bad_blockI [OF split anchored]) blast
  next
    case 4
    from Cons.IH [OF this Cons.prems(2)] Cons.prems(3,4) show ?thesis
      by (auto simp: separated_def Suc_le_eq)
  qed
qed simp

lemma plan_fails:
  assumes run: "planNativeSegments cr source sid rs manifest limit allowOpen = Inl e"
    and ok: "native_source source" "0 < limit" "validateRecords rs = Inr ()" "anchorsFor cr manifest source sid rs = Inr anchors"
  shows "bad_block cr source sid (complete_prefix rs) e"
proof -
  let ?rs = "complete_prefix rs"
  have separated: "separated anchors" "\<forall>a\<in>set anchors. an_start a \<le> an_end a"
    using anchorsFor_separated [OF ok(4)] anchorsFor_ok [OF ok(4)] by (auto simp: anchors_ok_def)
  show ?thesis
  proof (cases "plan_anchors cr source sid limit allowOpen (length rs) ?rs anchors 0")
    case (Inl e')
    with run ok have "e' = e" by (simp add: planNativeSegments_def requireSource_def Let_def)
    with plan_anchors_fails [OF Inl ok(2)] separated show ?thesis by simp
  next
    case (Inr p)
    then obtain segments cursor where first: "plan_anchors cr source sid limit allowOpen (length rs) ?rs anchors 0 = Inr (segments, cursor)"
      by (cases p) simp
    obtain chunks tail where chunks: "native_chunks limit [] 0 (drop cursor ?rs) = (chunks, tail)" by fastforce
    note spec = native_chunks_spec [OF chunks _ _ ok(2), simplified]
    let ?rest = "drop cursor ?rs"
    have split: "?rs = take cursor ?rs @ ?rest @ []" by simp
    have tail: "?rest = concat chunks @ tail @ []" using spec by simp
    from run ok first chunks consider
        "rmap (planned cr source sid True) chunks = Inl e"
      | "tail \<noteq> []" "assertSegmentSize tail = Inl e \<or> identify cr source sid tail = Inl e"
      by (auto simp: planNativeSegments_def requireSource_def Let_def rbind_eq_Inl_iff dest: planned_fails split: if_splits)
    then have "bad_block cr source sid ?rest e"
    proof cases
      case 1
      then show ?thesis using chunks_fail [OF 1] spec by blast
    next
      case 2
      then show ?thesis by (intro bad_blockI [OF tail])
    qed
    then show ?thesis using bad_block_within split by metis
  qed
qed

lemma complete_prefix_split: "rs = complete_prefix rs @ dropWhile nr_complete rs" "list_all nr_complete (complete_prefix rs)"
  by (auto simp: complete_prefix_def list_all_iff dest: set_takeWhileD)

lemma planned_valid:
  assumes "native_source source" "ident_ok (src_id source)" "rs \<noteq> []" "valid_request (raw_request source sid rs)"
  shows "\<exists>i f. planned cr source sid isClosed rs = Inr \<lparr>ps_request = raw_request source sid rs,
    ps_id = i, ps_fingerprint = f, ps_closed = isClosed, ps_sourceMessageIds = map record_id rs, ps_weightedChars = records_weight rs\<rparr>"
proof -
  let ?r = "raw_request source sid rs"
  have "boundary_version (rb_boundary (rq_body ?r)) = 3" "same_object (persisted_props ?r) (persisted_props ?r)"
    by (simp_all add: raw_request_def same_object_def persisted_props_distinct)
  with assms(4) have parse: "parseNativeSegmentCreate (persistedRequest ?r) = Inr ?r"
    unfolding persistedRequest_def by (intro decode_native)
  have "parseSourceInfo source = Inr source"
    using assms(2) by (simp add: parseSourceInfo_def parseSourceId_def ident_def ident_ok_def)
  with parse assms(1,3) have "\<exists>i. nativeSegmentIdForRequest cr ?r source = Inr i"
    by (simp add: nativeSegmentIdForRequest_def raw_request_def native_source_def)
  with parse assms(3) show ?thesis by (auto simp: planned_def identify_def requestFor_def)
qed

lemma segment_hydrates:
  assumes plan: "planNativeSegments cr source sid rs manifest limit allowOpen = Inr segs"
    and ids: "\<forall>r\<in>set rs. trim (record_id r) = record_id r" and s: "s \<in> set segs"
  shows "(\<exists>ss es. rb_boundary (rq_body (ps_request s)) = Boundary3 ss es
      \<and> hydrateNativeRange rs ss es = Inr (rb_messages (rq_body (ps_request s))))
    \<and> validateNativeSegmentRequest cr rs (ps_request s) = Inr ()"
proof -
  let ?r = "ps_request s"
  from plan_covers [OF plan] obtain anchors blocks tail where valid: "validateRecords rs = Inr ()"
    and c: "covers cr source sid limit allowOpen (complete_prefix rs) anchors 0 (length (complete_prefix rs)) blocks tail segs"
    by blast
  from c have made: "list_all2 (\<lambda>c s. planned cr source sid (ps_closed s) c = Inr s) blocks segs"
    and all: "concat blocks @ tail = complete_prefix rs" by (simp_all add: covers_def made_of_def slice_to_end)
  from list_all2_right [OF made s] obtain b where b: "b \<in> set blocks" "planned cr source sid (ps_closed s) b = Inr s" by blast
  note p = planned_fields [OF b(2)]
  from block_in_prefix [OF all b(1)] obtain pre post where rs: "rs = pre @ b @ post" and complete: "list_all nr_complete b" .
  have trimmed: "\<forall>x\<in>set b. trim (record_id x) = record_id x" using ids rs by simp
  from requestFor_raw [OF p(2) trimmed] have r: "rb_messages (rq_body ?r) = map nr_source b"
    "rb_boundary (rq_body ?r) = Boundary3 (record_id (hd b)) (record_id (last b))" by simp_all
  note read = hydrate_block [OF valid rs p(1) complete]
  from p(1,2) have "valid_request ?r" by (auto simp: requestFor_def intro: parseNativeSegmentCreate_ok)
  moreover have "boundary_version (rb_boundary (rq_body ?r)) = 3" by (simp add: r)
  moreover have "same_object (persisted_props ?r) (persisted_props ?r)" by (simp add: same_object_def persisted_props_distinct)
  ultimately have parse: "parseNativeSegmentCreate (persistedRequest ?r) = Inr ?r"
    unfolding persistedRequest_def by (rule decode_native)
  have same: "?r\<lparr>rq_body := rq_body ?r\<lparr>rb_messages := map nr_source b\<rparr>\<rparr> = ?r" by (simp flip: r(1))
  have "validateNativeSegmentRequest cr rs ?r = Inr ()"
    by (simp add: validateNativeSegmentRequest_def parse r read same)
  with r read show ?thesis by auto
qed

section \<open>The properties\<close>

text \<open>
  C25. A native plan covers the records before the first incomplete one: its segments are made of
  consecutive, non-empty blocks of them, in order, each with the request, the IDs and the weight of
  its block. What is left over is lighter than the soft limit, and nothing is when open snapshots are
  allowed. A block is within the limit, a single record, or the range of an anchor of the manifest;
  every segment but the last is closed.
\<close>

theorem native_plan_covers:
  assumes "planNativeSegments cr source sid rs manifest limit allowOpen = Inr segs"
  shows "\<exists>anchors blocks tail. anchorsFor cr manifest source sid rs = Inr anchors
    \<and> concat blocks @ tail = takeWhile nr_complete rs
    \<and> list_all2 (\<lambda>b s. b \<noteq> [] \<and> requestFor source sid b = Inr (ps_request s)
        \<and> ps_sourceMessageIds s = map record_id b \<and> ps_weightedChars s = records_weight b) blocks segs
    \<and> (\<forall>b\<in>set blocks. records_weight b \<le> limit \<or> length b = 1
        \<or> (\<exists>a\<in>set anchors. b = js_slice (an_start a) (Suc (an_end a)) (takeWhile nr_complete rs)))
    \<and> records_weight tail < limit \<and> (allowOpen \<longrightarrow> tail = [])
    \<and> (\<forall>s\<in>set (butlast segs). ps_closed s)"
proof -
  from plan_covers [OF assms] obtain anchors blocks tail where anchors: "anchorsFor cr manifest source sid rs = Inr anchors"
    and pos: "0 < limit"
    and c: "covers cr source sid limit allowOpen (complete_prefix rs) anchors 0 (length (complete_prefix rs)) blocks tail segs"
    by blast
  have "list_all2 (\<lambda>b s. b \<noteq> [] \<and> requestFor source sid b = Inr (ps_request s)
      \<and> ps_sourceMessageIds s = map record_id b \<and> ps_weightedChars s = records_weight b) blocks segs"
    using c unfolding covers_def made_of_def by (auto elim!: list_all2_mono dest: planned_fields)
  moreover have "records_weight tail < limit" using c pos
    by (cases "tail = []") (auto simp: covers_def zero_enat_def)
  moreover have "concat blocks @ tail = takeWhile nr_complete rs" "allowOpen \<longrightarrow> tail = []" "\<forall>s\<in>set (butlast segs). ps_closed s"
    using c by (auto simp: covers_def slice_to_end complete_prefix_def)
  moreover have "\<forall>b\<in>set blocks. records_weight b \<le> limit \<or> length b = 1
      \<or> (\<exists>a\<in>set anchors. b = js_slice (an_start a) (Suc (an_end a)) (takeWhile nr_complete rs))"
    using c by (auto simp: covers_def complete_prefix_def block_ok_def chunk_fits_def)
  ultimately show ?thesis using anchors by blast
qed

text \<open>
  C26. Every segment of a native plan reads back: when the record IDs carry no surrounding blanks,
  hydrating the boundary of a planned request from the same records gives the messages of the request,
  and validating the request against them succeeds.
\<close>

theorem native_segment_hydrates:
  assumes plan: "planNativeSegments cr source sid rs manifest limit allowOpen = Inr segs"
    and ids: "\<forall>r\<in>set rs. trim (record_id r) = record_id r" and s: "s \<in> set segs"
  shows "(\<exists>ss es. rb_boundary (rq_body (ps_request s)) = Boundary3 ss es
      \<and> hydrateNativeRange rs ss es = Inr (rb_messages (rq_body (ps_request s))))
    \<and> validateNativeSegmentRequest cr rs (ps_request s) = Inr ()"
  using assms by (rule segment_hydrates)

text \<open>
  C27. A native plan fails only for a stated reason: the registry entry is not an OpenCode V2 one, the
  soft limit is not positive, the records or the manifest's anchors are rejected, or a block of
  consecutive complete records exists that is over the segment text limit or whose request is invalid.
  Accepted anchors never leave the planner at an anchor it has already passed.
\<close>

theorem native_plan_fails_only:
  assumes "planNativeSegments cr source sid rs manifest limit allowOpen = Inl e"
  shows "\<not> (src_kind source = OpencodeV2 \<and> src_scheme source = SourceV1) \<or> limit = 0
    \<or> validateRecords rs = Inl e \<or> anchorsFor cr manifest source sid rs = Inl e
    \<or> (\<exists>pre b post. rs = pre @ b @ post \<and> b \<noteq> [] \<and> list_all nr_complete b
        \<and> (assertSegmentSize b = Inl e \<or> identify cr source sid b = Inl e))"
proof (cases "native_source source \<and> 0 < limit")
  case False
  then show ?thesis by (auto simp: native_source_def)
next
  case ok: True
  show ?thesis
  proof (cases "validateRecords rs")
    case (Inl e')
    with assms ok show ?thesis by (simp add: planNativeSegments_def requireSource_def)
  next
    case valid: (Inr u)
    show ?thesis
    proof (cases "anchorsFor cr manifest source sid rs")
      case (Inl e')
      with assms ok valid show ?thesis by (simp add: planNativeSegments_def requireSource_def)
    next
      case (Inr anchors)
      from plan_fails [OF assms _ _ _ Inr] ok valid obtain pre b post where
        b: "complete_prefix rs = pre @ b @ post" "b \<noteq> []" "assertSegmentSize b = Inl e \<or> identify cr source sid b = Inl e"
        unfolding bad_block_def by auto
      from b(1) complete_prefix_split [of rs] have "rs = pre @ b @ (post @ dropWhile nr_complete rs)" "list_all nr_complete b"
        by simp_all
      with b(2,3) show ?thesis by blast
    qed
  qed
qed

section \<open>A sample plan\<close>

text \<open>A prompt and the idle marker after it, planned with a limit the prompt just reaches.\<close>

definition sample_records :: "native_record list" where
  "sample_records = map (\<lambda>(m, w). \<lparr>nr_raw = Obj [(js ''id'', Str (im_id m))], nr_source = m, nr_complete = True, nr_weight = w, nr_omissions = []\<rparr>)
     (zip (rb_messages (rq_body sample_native)) [2, 0])"

definition sample_native_plan :: "planned_segment list result" where
  "sample_native_plan = planNativeSegments plain_crypto sample_source (js ''t'') sample_records None 2 True"

lemma sample_records_unfold:
  "sample_records = [\<lparr>nr_raw = Obj [(js ''id'', Str (js ''a''))],
     nr_source = \<lparr>im_id = js ''a'', im_type = js ''user'', im_text = js ''hi''\<rparr>, nr_complete = True, nr_weight = 2, nr_omissions = []\<rparr>,
   \<lparr>nr_raw = Obj [(js ''id'', Str (js ''b''))],
     nr_source = \<lparr>im_id = js ''b'', im_type = js ''idle'', im_text = []\<rparr>, nr_complete = True, nr_weight = 0, nr_omissions = []\<rparr>]"
  by (simp add: sample_records_def sample_native_def)

lemma sample_source_ok: "native_source sample_source" "ident_ok (src_id sample_source)"
  by (simp_all add: native_source_def sample_source_def ident_ok_def sample_trim)

lemma sample_valid_raw:
  "valid_request (raw_request sample_source (js ''t'') [hd sample_records])"
  "valid_request (raw_request sample_source (js ''t'') [last sample_records])"
  by (simp_all add: valid_request_def raw_request_def sample_records_unfold sample_source_def Let_def ident_ok_def
      sample_trim sample_texts native_message_ok_def native_types_def text_limits_def MAX_MESSAGE_TEXT_CHARS_def
      MAX_SEGMENT_TEXT_CHARS_def)

lemma sample_valid: "validateRecords sample_records = Inr ()"
  by (simp add: validateRecords_def validate_from_iff sample_records_unfold property_def sample_texts
      MAX_MESSAGE_TEXT_CHARS_def)

lemma sample_complete: "complete_prefix sample_records = sample_records"
  by (simp add: complete_prefix_def sample_records_unfold)

lemma sample_chunks: "native_chunks 2 [] 0 sample_records = ([[hd sample_records]], [last sample_records])"
  by (simp add: sample_records_unfold Let_def flip: numeral_eq_enat)

lemma sample_native_plan_runs: "\<exists>p q. sample_native_plan = Inr [p, q] \<and> ps_closed p \<and> \<not> ps_closed q"
proof -
  obtain p where p: "planned plain_crypto sample_source (js ''t'') True [hd sample_records] = Inr p" "ps_closed p"
    using planned_valid [OF sample_source_ok _ sample_valid_raw(1), of plain_crypto True] by fastforce
  obtain q where q: "planned plain_crypto sample_source (js ''t'') False [last sample_records] = Inr q" "\<not> ps_closed q"
    using planned_valid [OF sample_source_ok _ sample_valid_raw(2), of plain_crypto False] by fastforce
  have size: "assertSegmentSize [last sample_records] = Inr ()"
    by (simp add: assertSegmentSize_def textChars_def sample_records_unfold sample_texts MAX_SEGMENT_TEXT_CHARS_def)
  have "sample_native_plan = Inr [p, q]"
    by (simp add: sample_native_plan_def planNativeSegments_def requireSource_def native_source_def sample_valid anchorsFor_def
        sample_complete sample_chunks size p q) (simp add: sample_source_def)
  with p q show ?thesis by blast
qed

theorem native_plan_covers_witness:
  "\<exists>segs anchors blocks tail. sample_native_plan = Inr segs \<and> length segs = 2
    \<and> anchorsFor plain_crypto None sample_source (js ''t'') sample_records = Inr anchors
    \<and> concat blocks @ tail = takeWhile nr_complete sample_records \<and> tail = []"
proof -
  from sample_native_plan_runs obtain segs where s: "sample_native_plan = Inr segs" "length segs = 2" by auto
  from native_plan_covers [OF s(1) [unfolded sample_native_plan_def]] s show ?thesis by blast
qed

theorem native_segment_hydrates_witness:
  "\<exists>p q. sample_native_plan = Inr [p, q] \<and> validateNativeSegmentRequest plain_crypto sample_records (ps_request p) = Inr ()
    \<and> validateNativeSegmentRequest plain_crypto sample_records (ps_request q) = Inr ()"
proof -
  from sample_native_plan_runs obtain p q where s: "sample_native_plan = Inr [p, q]" by auto
  have "\<forall>r\<in>set sample_records. trim (record_id r) = record_id r" by (simp add: sample_records_unfold sample_trim)
  from native_segment_hydrates [OF s [unfolded sample_native_plan_def] this] s show ?thesis by auto
qed

text \<open>An empty session ID: every request the planner would build is rejected.\<close>

lemma anonymous_planned: "\<exists>e. identify plain_crypto sample_source [] [hd sample_records] = Inl e"
proof (cases "requestFor sample_source [] [hd sample_records]")
  case (Inr r)
  then have parse: "parseNativeSegmentCreate (persistedRequest (raw_request sample_source [] [hd sample_records])) = Inr r"
    by (simp add: requestFor_def)
  from parseNativeSegmentCreate_ok [OF parse] have "rb_session_id (rq_body r) \<noteq> []"
    by (auto simp: valid_request_def Let_def ident_ok_def)
  moreover from parse_native_persisted [OF _ _ parse] have "r = trimmed_request (raw_request sample_source [] [hd sample_records])"
    by (simp add: raw_request_def)
  then have "rb_session_id (rq_body r) = trim []" by (simp add: trimmed_request_def raw_request_def)
  moreover have "trim [] = []" by code_simp
  ultimately show ?thesis by simp
qed (simp add: identify_def)

theorem native_plan_fails_only_witness:
  "\<exists>e pre b post. planNativeSegments plain_crypto sample_source [] sample_records None 2 True = Inl e
    \<and> sample_records = pre @ b @ post \<and> b \<noteq> [] \<and> (assertSegmentSize b = Inl e \<or> identify plain_crypto sample_source [] b = Inl e)"
proof -
  from anonymous_planned obtain e where "identify plain_crypto sample_source [] [hd sample_records] = Inl e" by blast
  then have "planned plain_crypto sample_source [] True [hd sample_records] = Inl e" by (simp add: planned_def)
  then have plan: "planNativeSegments plain_crypto sample_source [] sample_records None 2 True = Inl e"
    by (simp add: planNativeSegments_def requireSource_def native_source_def sample_valid anchorsFor_def sample_complete
        sample_chunks) (simp add: sample_source_def)
  from native_plan_fails_only [OF plan]
  have "\<exists>pre b post. sample_records = pre @ b @ post \<and> b \<noteq> [] \<and> (assertSegmentSize b = Inl e \<or> identify plain_crypto sample_source [] b = Inl e)"
    by (auto simp: sample_valid anchorsFor_def sample_source_def)
  with plan show ?thesis by blast
qed

end
