(* ===== verification/NativeHistory.thy ===== *)
theory NativeHistory
  imports NativePlan ToolSource
begin

text \<open>
  Validating and rendering the transcript of an OpenCode V2 session: \<open>packages/opencode-v2-core/src/history.ts\<close>.
  A message is the JSON value the host gives; a template literal's \<open>ToString\<close> of it is \<open>text_of\<close>. The
  URL a string parses to, without credentials, query and fragment, is the parameter \<open>bareUrl\<close> (\<open>None\<close>
  where the URL constructor throws).
\<close>

section \<open>Values\<close>

definition invalid_native :: "string \<Rightarrow> 'a result" where
  "invalid_native m = Inl (''invalid native history message: '' @ m)"

text \<open>\<open>String(v)\<close>; \<open>None\<close> is the source text of a function, which no JSON value holds.\<close>

fun text_of :: "jsval \<Rightarrow> jsstr option" where
  "text_of Undefined = Some (js ''undefined'')"
| "text_of Null = Some (js ''null'')"
| "text_of (Boolean b) = Some (if b then js ''true'' else js ''false'')"
| "text_of (Num n) = Some n"
| "text_of (Str s) = Some s"
| "text_of Callable = None"
| "text_of (Arr vs) = map_option (join (js '',''))
     (all_some (map (\<lambda>v. if v = Undefined \<or> v = Null then Some [] else text_of v) vs))"
| "text_of (Obj ps) = Some (js ''[object Object]'')"

definition shown :: "jsval \<Rightarrow> jsstr" where
  "shown v = (case text_of v of None \<Rightarrow> [] | Some t \<Rightarrow> t)"

abbreviation sub_prop :: "(jsstr \<times> jsval) list \<Rightarrow> string \<Rightarrow> string \<Rightarrow> jsval" where
  "sub_prop ps k k' \<equiv> get_prop (prop_of ps k) (js k')"

definition error_value :: "jsval \<Rightarrow> bool" where
  "error_value v \<longleftrightarrow> record_of v \<noteq> None \<and> is_string (get_prop v (js ''type'')) \<and> is_string (get_prop v (js ''message''))"

definition model_value :: "jsval \<Rightarrow> bool" where
  "model_value v \<longleftrightarrow> record_of v \<noteq> None \<and> is_string (get_prop v (js ''providerID'')) \<and> is_string (get_prop v (js ''id''))"

abbreviation optional_string :: "jsval \<Rightarrow> bool" where
  "optional_string v \<equiv> v = Undefined \<or> is_string v"

section \<open>Files\<close>

record native_file =
  nf_mime :: jsstr
  nf_data :: jsstr
  nf_uri :: "jsval option"
  nf_name :: jsval
  nf_description :: jsval

text \<open>\<open>nf_uri\<close> is absent for inline content.\<close>

definition mention_ok :: "jsval \<Rightarrow> bool" where
  "mention_ok v \<longleftrightarrow> record_of v \<noteq> None \<and> is_finite (get_prop v (js ''start'')) \<and> is_finite (get_prop v (js ''end''))
     \<and> is_string (get_prop v (js ''text''))"

definition file_of :: "jsval \<Rightarrow> native_file result" where
  "file_of v =
     (case record_of v of
        None \<Rightarrow> invalid_native ''file body''
      | Some ps \<Rightarrow>
          (case (prop_of ps ''mime'', prop_of ps ''data'') of
             (Str mime, Str d) \<Rightarrow>
               if \<not> optional_string (prop_of ps ''name'') \<or> \<not> optional_string (prop_of ps ''description'')
               then invalid_native ''file body''
               else let origin = sub_prop ps ''source'' ''type''; uri = sub_prop ps ''source'' ''uri'' in
                 if origin \<noteq> str ''inline'' \<and> \<not> (origin = str ''uri'' \<and> is_string uri)
                 then invalid_native ''file source''
                 else if prop_of ps ''mention'' \<noteq> Undefined \<and> \<not> mention_ok (prop_of ps ''mention'')
                 then invalid_native ''file mention''
                 else Inr \<lparr>nf_mime = mime, nf_data = d, nf_uri = (if origin = str ''uri'' then Some uri else None),
                   nf_name = prop_of ps ''name'', nf_description = prop_of ps ''description''\<rparr>
           | _ \<Rightarrow> invalid_native ''file body''))"

definition filesOf :: "(jsstr \<times> jsval) list \<Rightarrow> native_file list result" where
  "filesOf message =
     (case prop_of message ''files'' of
        Undefined \<Rightarrow> Inr []
      | Arr vs \<Rightarrow> rmap file_of vs
      | _ \<Rightarrow> invalid_native ''files must be an array'')"

text \<open>
  The word units of \<open>\b\<close> and the letters of a URL scheme under the flags \<open>iu\<close>, which fold U+017F and
  U+212A into \<open>s\<close> and \<open>k\<close>.
\<close>

definition folded_letter :: "16 word \<Rightarrow> bool" where
  "folded_letter u \<longleftrightarrow> lower_unit u \<or> upper_unit u \<or> u = 0x17F \<or> u = 0x212A"

fun data_word_after :: "jsstr \<Rightarrow> bool" where
  "data_word_after [] = False"
| "data_word_after (u # s) = ((\<not> (word_unit u \<or> folded_letter u) \<and> data_prefix s) \<or> data_word_after s)"

definition has_data_word :: "jsstr \<Rightarrow> bool" where
  "has_data_word s \<longleftrightarrow> data_prefix s \<or> data_word_after s"

definition has_scheme :: "jsstr \<Rightarrow> bool" where
  "has_scheme s \<longleftrightarrow> (case s of [] \<Rightarrow> False
     | u # rest \<Rightarrow> folded_letter u \<and> starts_with (js ''://'') (dropWhile scheme_unit rest))"

type_synonym bare_url = "jsstr \<Rightarrow> jsstr option"

definition descriptor :: "bare_url \<Rightarrow> jsval \<Rightarrow> bool \<Rightarrow> jsstr" where
  "descriptor bareUrl v bounded =
     (case v of
        Str value \<Rightarrow>
          let safe = (if has_data_word value then js ''[data URL omitted]''
                else if has_scheme value
                then (case bareUrl value of None \<Rightarrow> js ''[invalid URI omitted]'' | Some u \<Rightarrow> u)
                else value)
          in if bounded \<and> length safe > 500 then take 480 safe @ js ''[descriptor truncated]'' else safe
      | _ \<Rightarrow> [])"

definition fileDescriptor :: "bare_url \<Rightarrow> native_file \<Rightarrow> jsstr" where
  "fileDescriptor bareUrl file = 10 # js ''[Attachment '' @ json_text (Obj
     ([field ''name'' (Str (descriptor bareUrl (nf_name file) True)),
       field ''description'' (Str (descriptor bareUrl (nf_description file) True)),
       field ''mime'' (Str (descriptor bareUrl (Str (nf_mime file)) True)),
       field ''source'' (str (if nf_uri file = None then ''inline'' else ''uri''))]
      @ (case nf_uri file of None \<Rightarrow> [] | Some uri \<Rightarrow> [field ''uri'' (Str (descriptor bareUrl uri True))])))
     @ js ''; binary content omitted]''"

section \<open>Assistant content\<close>

definition content_entry_ok :: "jsval \<Rightarrow> bool" where
  "content_entry_ok v \<longleftrightarrow> record_of v \<noteq> None
     \<and> (get_prop v (js ''type'') = str ''text'' \<and> is_string (get_prop v (js ''text''))
        \<or> get_prop v (js ''type'') = str ''file'' \<and> is_string (get_prop v (js ''uri'')) \<and> is_string (get_prop v (js ''mime'')))"

definition toolContent :: "jsval \<Rightarrow> bool" where
  "toolContent v = (case v of Arr vs \<Rightarrow> vs \<noteq> [] \<and> list_all content_entry_ok vs | _ \<Rightarrow> False)"

definition toolState :: "jsval \<Rightarrow> (jsstr \<times> jsval) list result" where
  "toolState v =
     (case record_of v of
        None \<Rightarrow> invalid_native ''assistant tool state''
      | Some ps \<Rightarrow>
          let status = prop_of ps ''status''; input = prop_of ps ''input'' in
          if status = str ''streaming''
          then (if is_string input then Inr ps else invalid_native ''streaming tool state'')
          else if status = str ''running''
          then (if record_of input = None \<or> record_of (prop_of ps ''metadata'') = None
                then invalid_native ''running tool state'' else Inr ps)
          else if status = str ''completed''
          then (if record_of input = None \<or> \<not> toolContent (prop_of ps ''content'')
                then invalid_native ''completed tool state'' else Inr ps)
          else if status = str ''error''
          then (if record_of input = None \<or> \<not> error_value (prop_of ps ''error'')
                  \<or> (prop_of ps ''content'' \<noteq> Undefined \<and> \<not> toolContent (prop_of ps ''content''))
                then invalid_native ''errored tool state'' else Inr ps)
          else invalid_native ''unknown assistant tool state'')"

definition assistantPart :: "jsval \<Rightarrow> unit result" where
  "assistantPart v =
     (case record_of v of
        None \<Rightarrow> invalid_native ''assistant content part''
      | Some ps \<Rightarrow>
          if prop_of ps ''type'' = str ''text'' \<or> prop_of ps ''type'' = str ''reasoning''
          then (if is_string (prop_of ps ''text'') then Inr () else invalid_native ''assistant text part'')
          else if prop_of ps ''type'' \<noteq> str ''tool'' \<or> \<not> is_string (prop_of ps ''id'') \<or> \<not> is_string (prop_of ps ''name'')
            \<or> record_of (prop_of ps ''time'') = None \<or> \<not> is_finite (sub_prop ps ''time'' ''created'')
          then invalid_native ''assistant tool part''
          else rbind (toolState (prop_of ps ''state'')) (\<lambda>_. Inr ()))"

section \<open>Validation\<close>

definition shell_statuses :: "string list" where
  "shell_statuses = [''running'', ''exited'', ''timeout'', ''killed'']"

definition status_in :: "string list \<Rightarrow> jsval \<Rightarrow> bool" where
  "status_in names v \<longleftrightarrow> (case text_of v of None \<Rightarrow> False | Some t \<Rightarrow> t \<in> js ` set names)"

text \<open>The body of a message of each type.\<close>

definition text_body :: "(jsstr \<times> jsval) list \<Rightarrow> unit result" where
  "text_body item =
     (if \<not> is_string (prop_of item ''text'') then invalid_native ''text''
      else rbind (filesOf item) (\<lambda>_. Inr ()))"

definition skill_body :: "(jsstr \<times> jsval) list \<Rightarrow> unit result" where
  "skill_body item = guard (is_string (prop_of item ''text'') \<and> is_string (prop_of item ''skill'')
     \<and> is_string (prop_of item ''name'')) ''invalid native history message: skill body''"

definition assistant_body :: "(jsstr \<times> jsval) list \<Rightarrow> unit result" where
  "assistant_body item =
     (case prop_of item ''content'' of
        Arr parts \<Rightarrow>
          if \<not> is_string (prop_of item ''agent'') \<or> \<not> model_value (prop_of item ''model'')
          then invalid_native ''assistant body''
          else rbind (rmap assistantPart parts) (\<lambda>_. Inr ())
      | _ \<Rightarrow> invalid_native ''assistant body'')"

definition shell_body :: "(jsstr \<times> jsval) list \<Rightarrow> unit result" where
  "shell_body item =
     (let out = prop_of item ''output''; exit = prop_of item ''exit''; failure = prop_of item ''error'' in
      if \<not> is_string (prop_of item ''shellID'') \<or> \<not> is_string (prop_of item ''command'')
        \<or> \<not> status_in shell_statuses (prop_of item ''status'')
      then invalid_native ''shell body''
      else if out \<noteq> Undefined \<and> \<not> is_string out \<and> \<not> is_string (sub_prop item ''output'' ''output'')
      then invalid_native ''shell output''
      else if exit \<noteq> Undefined \<and> exit \<noteq> Null \<and> \<not> is_finite exit then invalid_native ''shell exit''
      else if failure \<noteq> Undefined \<and> \<not> is_string failure \<and> \<not> error_value failure
      then invalid_native ''shell error'' else Inr ())"

definition compaction_body :: "(jsstr \<times> jsval) list \<Rightarrow> unit result" where
  "compaction_body item =
     (let status = prop_of item ''status''; reason = prop_of item ''reason'' in
      guard (status \<in> {str ''running'', str ''completed'', str ''failed''}
        \<and> reason \<in> {str ''auto'', str ''manual''}
        \<and> (if status = str ''failed'' then error_value (prop_of item ''error'')
           else is_string (prop_of item ''summary'') \<and> is_string (prop_of item ''recent'')))
        ''invalid native history message: compaction body'')"

definition native_body :: "jsstr \<Rightarrow> (jsstr \<times> jsval) list \<Rightarrow> unit result" where
  "native_body t item =
     (if t \<in> {js ''user'', js ''synthetic'', js ''system''} then text_body item
      else if t = js ''skill'' then skill_body item
      else if t = js ''assistant'' then assistant_body item
      else if t = js ''shell'' then shell_body item
      else if t = js ''idle''
      then guard (prop_of item ''outcome'' \<in> {str ''succeeded'', str ''failed'', str ''interrupted''})
        ''invalid native history message: idle body''
      else if t = js ''agent-switched''
      then guard (is_string (prop_of item ''agent'')) ''invalid native history message: agent switch''
      else if t = js ''model-switched''
      then guard (model_value (prop_of item ''model'')) ''invalid native history message: model switch''
      else if t = js ''location-switched''
      then guard (is_string (sub_prop item ''location'' ''directory'')) ''invalid native history message: location switch''
      else compaction_body item)"

text \<open>A valid message: its ID, its type and its properties.\<close>

definition validateNativeHistoryMessage :: "jsval \<Rightarrow> (jsstr \<times> jsstr \<times> (jsstr \<times> jsval) list) result" where
  "validateNativeHistoryMessage v =
     (case record_of v of
        None \<Rightarrow> invalid_native ''id, type, or time''
      | Some item \<Rightarrow>
          (case (prop_of item ''id'', prop_of item ''type'') of
             (Str i, Str t) \<Rightarrow>
               if i = [] \<or> length i > 500 \<or> t \<notin> js ` set native_types \<or> record_of (prop_of item ''time'') = None
                 \<or> \<not> is_finite (sub_prop item ''time'' ''created'')
               then invalid_native ''id, type, or time''
               else rbind (native_body t item) (\<lambda>_. Inr (i, t, item))
           | _ \<Rightarrow> invalid_native ''id, type, or time''))"

section \<open>Source text\<close>

text \<open>Adding to the set of omissions, which keeps the order in which they were first added.\<close>

definition omit :: "omission \<Rightarrow> omission list \<Rightarrow> omission list" where
  "omit x xs = (if x \<in> set xs then xs else xs @ [x])"

definition projectedToolState :: "(jsstr \<times> jsval) list \<Rightarrow> jsval" where
  "projectedToolState state =
     (let compacted = sub_prop state ''time'' ''compacted'' in
      Obj ([field ''status'' (prop_of state ''status'')]
        @ filter (\<lambda>p. snd p \<noteq> Undefined) (map (\<lambda>k. field k (prop_of state k)) [''input'', ''content'', ''error''])
        @ (if is_finite compacted then [field ''time'' (Obj [field ''compacted'' compacted])] else [])))"

fun part_omissions :: "jsval list \<Rightarrow> omission list \<Rightarrow> omission list" where
  "part_omissions [] os = os"
| "part_omissions (part # parts) os =
     (let os1 = (if get_prop part (js ''type'') = str ''reasoning'' then omit Reasoning os else os);
          os2 = (if get_prop part (js ''type'') = str ''tool''
            then omit Tool_context (case get_prop (get_prop part (js ''state'')) (js ''content'') of
                Arr entries \<Rightarrow> if list_ex (\<lambda>e. get_prop e (js ''type'') = str ''file'') entries then omit Media os1 else os1
              | _ \<Rightarrow> os1)
            else os1)
      in part_omissions parts os2)"

text \<open>The tool frames of an assistant message without text; the flag says that they were truncated.\<close>

fun tool_frames :: "jsval list \<Rightarrow> jsstr \<Rightarrow> (jsstr \<times> bool) result" where
  "tool_frames [] result = Inr (result, False)"
| "tool_frames (part # parts) result =
     (if get_prop part (js ''type'') \<noteq> str ''tool'' then tool_frames parts result
      else if \<not> is_string (get_prop part (js ''name'')) then invalid_native ''assistant tool name''
      else rbind (toolState (get_prop part (js ''state''))) (\<lambda>state.
        let name = get_prop part (js ''name''); frame = toolSourceText name (projectedToolState state) in
        if length result + length frame \<le> MAX_COMPLETE_TOOL_SOURCE_CHARS
        then tool_frames parts (result @ frame)
        else Inr (result @ truncatedToolSourceText name (MAX_COMPLETE_TOOL_SOURCE_CHARS - length result), True)))"

definition assistant_text :: "jsval list \<Rightarrow> jsstr" where
  "assistant_text parts =
     concat (map (\<lambda>part. string_of (get_prop part (js ''text''))) (filter (\<lambda>part. get_prop part (js ''type'') = str ''text'') parts))"

definition assistantSourceText :: "jsval list \<Rightarrow> (jsstr \<times> omission list) result" where
  "assistantSourceText parts =
     (let os = part_omissions parts [] in
      if assistant_text parts \<noteq> [] then Inr (assistant_text parts, os)
      else rbind (tool_frames parts []) (\<lambda>(result, truncated).
        Inr (result, if truncated then omit Truncated_tool os else os)))"

definition content_of :: "(jsstr \<times> jsval) list \<Rightarrow> jsval list" where
  "content_of item = (case prop_of item ''content'' of Arr parts \<Rightarrow> parts | _ \<Rightarrow> [])"

definition shell_text :: "(jsstr \<times> jsval) list \<Rightarrow> jsstr" where
  "shell_text raw =
     (let out = (case prop_of raw ''output'' of Str s \<Rightarrow> s | _ \<Rightarrow> string_of (sub_prop raw ''output'' ''output''));
          exit = prop_of raw ''exit'';
          failure = prop_of raw ''error''
      in js ''[Shell command]'' @ [10] @ shown (prop_of raw ''command'') @ [10] @ js ''[Shell output]'' @ [10] @ out
        @ [10] @ js ''[Shell status: '' @ shown (prop_of raw ''status'')
        @ (if exit = Undefined \<or> exit = Null then [] else js ''; exit: '' @ shown exit) @ js '']''
        @ (if failure = Undefined then []
           else [10] @ js ''[Shell error]'' @ [10] @ (case failure of Str s \<Rightarrow> s
             | _ \<Rightarrow> shown (get_prop failure (js ''type'')) @ js '': '' @ shown (get_prop failure (js ''message''))))
        @ (if sub_prop raw ''output'' ''truncated'' = Boolean True
           then [10] @ js ''[Shell output already truncated by source]'' else []))"

definition compaction_text :: "(jsstr \<times> jsval) list \<Rightarrow> jsstr" where
  "compaction_text raw =
     js ''[Machine-generated historical summary; not user-authored; '' @ shown (prop_of raw ''status'') @ js '']'' @ [10]
     @ (if prop_of raw ''status'' = str ''failed''
        then shown (sub_prop raw ''error'' ''type'') @ js '': '' @ shown (sub_prop raw ''error'' ''message'')
        else js ''[Summary]'' @ [10] @ shown (prop_of raw ''summary'') @ [10] @ js ''[Recent historical context]'' @ [10]
          @ shown (prop_of raw ''recent''))"

definition model_text :: "(jsstr \<times> jsval) list \<Rightarrow> jsstr" where
  "model_text raw =
     js ''[Model switched] '' @ json_text (modelVisibleToolState (Obj
       ([field ''providerID'' (sub_prop raw ''model'' ''providerID''), field ''id'' (sub_prop raw ''model'' ''id'')]
        @ (if is_string (sub_prop raw ''model'' ''variant'') then [field ''variant'' (sub_prop raw ''model'' ''variant'')] else []))))"

definition sourceFor ::
  "bare_url \<Rightarrow> jsstr \<Rightarrow> (jsstr \<times> jsval) list \<Rightarrow> (jsstr \<times> omission list) result" where
  "sourceFor bareUrl t raw =
     (if t = js ''assistant'' then assistantSourceText (content_of raw)
      else if t \<in> {js ''user'', js ''synthetic'', js ''system'', js ''skill''}
      then rbind (filesOf raw) (\<lambda>files.
        let os1 = (if files \<noteq> [] then [Media] else []);
            os2 = (if t = js ''user'' \<and> (case prop_of raw ''skills'' of Arr ss \<Rightarrow> ss \<noteq> [] | _ \<Rightarrow> False)
                   then omit Tool_context os1 else os1)
        in Inr (shown (prop_of raw ''text'') @ concat (map (fileDescriptor bareUrl) files), os2))
      else if t = js ''shell''
      then Inr (shell_text raw, if sub_prop raw ''output'' ''truncated'' = Boolean True then [Truncated_shell] else [])
      else if t = js ''compaction'' then Inr (compaction_text raw, [])
      else if t = js ''agent-switched''
      then Inr (js ''[Agent switched] '' @ json_text (modelVisibleToolState (Obj [field ''agent'' (prop_of raw ''agent'')])), [])
      else if t = js ''model-switched'' then Inr (model_text raw, [])
      else if t = js ''location-switched''
      then Inr (js ''[Location switched] '' @ json_text (Obj [field ''directory''
        (Str (descriptor bareUrl (sub_prop raw ''location'' ''directory'') False))]), [])
      else Inr ([], []))"

section \<open>Weights\<close>

definition NATIVE_ESTIMATED_CHARS_PER_TOKEN :: enat where
  "NATIVE_ESTIMATED_CHARS_PER_TOKEN = 4"

definition content_media :: "jsval \<Rightarrow> enat" where
  "content_media part =
     (if get_prop part (js ''type'') \<noteq> str ''file'' then 0
      else modelVisibleMediaTokens (Obj [field ''mime'' (get_prop part (js ''mime'')), field ''url'' (get_prop part (js ''uri''))])
        * NATIVE_ESTIMATED_CHARS_PER_TOKEN)"

definition toolPressure :: "jsval \<Rightarrow> enat result" where
  "toolPressure tool =
     (case get_prop tool (js ''name'') of
        Str name \<Rightarrow> rbind (toolState (get_prop tool (js ''state''))) (\<lambda>ps.
          let state = projectedToolState ps in
          Inr (enat (max (length name + tool_state_chars state) (length (toolSourceText (Str name) state)))
            + modelVisibleToolAttachmentTokens state * NATIVE_ESTIMATED_CHARS_PER_TOKEN
            + modelVisibleToolInlineDataTokens state * NATIVE_ESTIMATED_CHARS_PER_TOKEN
            + (case get_prop state (js ''content'') of Arr parts \<Rightarrow> sum_list (map content_media parts) | _ \<Rightarrow> 0)))
      | _ \<Rightarrow> invalid_native ''assistant tool name'')"

definition file_tokens :: "native_file \<Rightarrow> enat" where
  "file_tokens file =
     (if starts_with (js ''image/'') (nf_mime file)
      then modelVisibleMediaTokens (Obj [field ''mime'' (Str (nf_mime file))])
      else max (modelVisibleMediaTokens (Obj [field ''mime'' (str ''image/png'')]))
        (enat (ceil_div (length (nf_data file) * 3) 8)))"

definition content_weight :: "jsval \<Rightarrow> enat result" where
  "content_weight part =
     (if get_prop part (js ''type'') \<in> {str ''text'', str ''reasoning''}
      then Inr (enat (codePointLength (string_of (get_prop part (js ''text'')))))
      else if get_prop part (js ''type'') = str ''tool'' then toolPressure part
      else Inr 0)"

definition weightedCharsFor :: "jsstr \<Rightarrow> (jsstr \<times> jsval) list \<Rightarrow> jsstr \<Rightarrow> enat result" where
  "weightedCharsFor t raw sourceText =
     (if t \<noteq> js ''assistant''
      then rbind (filesOf raw) (\<lambda>files. Inr (enat (codePointLength sourceText)
        + sum_list (map (\<lambda>f. file_tokens f * NATIVE_ESTIMATED_CHARS_PER_TOKEN) files)))
      else rbind (rmap content_weight (content_of raw)) (\<lambda>ws. Inr (sum_list ws)))"

section \<open>The history\<close>

definition complete :: "jsstr \<Rightarrow> (jsstr \<times> jsval) list \<Rightarrow> bool" where
  "complete t raw =
     (if t = js ''assistant''
      then is_finite (sub_prop raw ''time'' ''completed'')
        \<and> \<not> list_ex (\<lambda>part. get_prop (get_prop part (js ''state'')) (js ''status'') \<in> {str ''running'', str ''streaming''})
            (content_of raw)
      else if t = js ''shell'' then status_in [''exited'', ''timeout'', ''killed''] (prop_of raw ''status'')
      else if t = js ''compaction'' then prop_of raw ''status'' \<in> {str ''completed'', str ''failed''}
      else True)"

definition native_record_of :: "bare_url \<Rightarrow> jsval \<Rightarrow> jsstr \<Rightarrow> jsstr \<Rightarrow> (jsstr \<times> jsval) list \<Rightarrow> native_record result" where
  "native_record_of bareUrl v i t raw =
     rbind (sourceFor bareUrl t raw) (\<lambda>(text, os).
     if codePointLength text > MAX_MESSAGE_TEXT_CHARS then Inl ''native source message exceeds the message text limit''
     else rbind (weightedCharsFor t raw text) (\<lambda>weight.
       Inr \<lparr>nr_raw = v, nr_source = \<lparr>im_id = i, im_type = t, im_text = text\<rparr>, nr_complete = complete t raw,
         nr_weight = weight, nr_omissions = os\<rparr>))"

fun canonicalize_from :: "bare_url \<Rightarrow> jsstr set \<Rightarrow> jsval list \<Rightarrow> native_record list result" where
  "canonicalize_from bareUrl ids [] = Inr []"
| "canonicalize_from bareUrl ids (v # vs) =
     rbind (validateNativeHistoryMessage v) (\<lambda>(i, t, raw).
     if i \<in> ids then invalid_native ''duplicate id''
     else rbind (native_record_of bareUrl v i t raw) (\<lambda>r.
       rbind (canonicalize_from bareUrl (insert i ids) vs) (\<lambda>rs. Inr (r # rs))))"

definition canonicalizeNativeHistory :: "bare_url \<Rightarrow> jsval list \<Rightarrow> native_record list result" where
  "canonicalizeNativeHistory bareUrl history = canonicalize_from bareUrl {} history"

end
