(* ===== verification/NativeRendered.thy ===== *)
theory NativeRendered
  imports NativeSafety NativeHistory
begin

text \<open>
  What canonicalising a native transcript guarantees: the records are those the planner accepts, their
  source text is bounded by their weight, and a plan of them without a manifest always succeeds.
\<close>

section \<open>Code points\<close>

lemma code_points_Cons_le: "codePointLength (u # s) \<le> Suc (codePointLength s)"
proof (cases s)
  case (Cons v t)
  have "codePointLength t \<le> codePointLength (v # t)"
  proof (induction t arbitrary: v rule: code_points.induct)
    case (3 a b t)
    then show ?case using "3.IH"(2) by (auto simp: codePointLength_def le_SucI)
  qed (auto simp: codePointLength_def)
  with Cons show ?thesis by (auto simp: codePointLength_def)
qed (simp add: codePointLength_def)

lemma codePointLength_tail: "codePointLength s \<le> codePointLength (v # s)"
proof (induction s arbitrary: v rule: code_points.induct)
  case (3 a b t)
  then show ?case by (auto simp: codePointLength_def le_SucI)
qed (auto simp: codePointLength_def)

lemma codePointLength_append: "codePointLength (s @ t) \<le> codePointLength s + codePointLength t"
proof (induction s rule: code_points.induct)
  case (2 u)
  then show ?case using code_points_Cons_le [of u t] by (simp add: codePointLength_def)
next
  case (3 u v s)
  then show ?case by (auto simp: codePointLength_def)
qed (simp add: codePointLength_def)

lemma codePointLength_le: "codePointLength s \<le> length s"
  by (induction s rule: code_points.induct) (auto simp: codePointLength_def)

lemma length_le_codePoints: "length s \<le> 2 * codePointLength s"
  by (induction s rule: code_points.induct) (auto simp: codePointLength_def)

lemma codePointLength_concat: "codePointLength (concat ss) \<le> sum_list (map codePointLength ss)"
proof (induction ss)
  case Nil
  then show ?case by (simp add: codePointLength_def)
next
  case (Cons s ss)
  then show ?case using codePointLength_append [of s "concat ss"] by simp
qed

section \<open>The records of a history\<close>

lemma canonicalize_from_Inr:
  "canonicalize_from bareUrl ids vs = Inr rs \<longleftrightarrow>
     list_all2 (\<lambda>v r. \<exists>i t raw. validateNativeHistoryMessage v = Inr (i, t, raw) \<and> native_record_of bareUrl v i t raw = Inr r) vs rs
     \<and> distinct (map record_id rs) \<and> set (map record_id rs) \<inter> ids = {}"
proof (induction vs arbitrary: ids rs)
  case (Cons v vs)
  have "canonicalize_from bareUrl ids (v # vs) = Inr rs \<longleftrightarrow> (\<exists>i t raw r rs'. validateNativeHistoryMessage v = Inr (i, t, raw)
      \<and> i \<notin> ids \<and> native_record_of bareUrl v i t raw = Inr r \<and> canonicalize_from bareUrl (insert i ids) vs = Inr rs' \<and> rs = r # rs')"
    by (auto simp: rbind_eq_Inr_iff invalid_native_def)
  moreover have "record_id r = i" if "native_record_of bareUrl v i t raw = Inr r" for i t raw r
    using that by (auto simp: native_record_of_def split: if_splits)
  ultimately show ?case unfolding Cons.IH by (cases rs) (auto; blast)+
qed auto

lemma validated_fields:
  assumes "validateNativeHistoryMessage v = Inr (i, t, raw)"
  shows "get_prop v (js ''id'') = Str i \<and> i \<noteq> [] \<and> length i \<le> 500 \<and> t \<in> js ` set native_types \<and> native_body t raw = Inr ()
    \<and> v = Obj raw"
  using assms by (cases v) (auto simp: validateNativeHistoryMessage_def invalid_native_def prop_of_def
      split: jsval.splits if_splits)

lemma record_fields:
  assumes "native_record_of bareUrl v i t raw = Inr r"
  shows "record_id r = i \<and> nr_raw r = v \<and> im_type (nr_source r) = t \<and> nr_complete r = complete t raw
    \<and> codePointLength (im_text (nr_source r)) \<le> MAX_MESSAGE_TEXT_CHARS
    \<and> sourceFor bareUrl t raw = Inr (im_text (nr_source r), nr_omissions r)
    \<and> weightedCharsFor t raw (im_text (nr_source r)) = Inr (nr_weight r)"
  using assms by (auto simp: native_record_of_def split: if_splits)

lemma canonical_record:
  assumes "canonicalizeNativeHistory bareUrl vs = Inr rs" "r \<in> set rs"
  obtains v i t raw where "v \<in> set vs" "validateNativeHistoryMessage v = Inr (i, t, raw)" "native_record_of bareUrl v i t raw = Inr r"
proof -
  from assms(1) have all: "list_all2 (\<lambda>v r. \<exists>i t raw. validateNativeHistoryMessage v = Inr (i, t, raw)
      \<and> native_record_of bareUrl v i t raw = Inr r) vs rs"
    by (simp add: canonicalizeNativeHistory_def canonicalize_from_Inr)
  from list_all2_right [OF all assms(2)] that show thesis by blast
qed

lemma canonical_valid:
  assumes "canonicalizeNativeHistory bareUrl vs = Inr rs"
  shows "validateRecords rs = Inr ()"
proof -
  have "get_prop (nr_raw r) (js ''id'') = Str (record_id r) \<and> codePointLength (im_text (nr_source r)) \<le> MAX_MESSAGE_TEXT_CHARS"
    if r: "r \<in> set rs" for r
  proof -
    obtain v i t raw where v: "validateNativeHistoryMessage v = Inr (i, t, raw)" "native_record_of bareUrl v i t raw = Inr r"
      by (rule canonical_record [OF assms r])
    from validated_fields [OF v(1)] record_fields [OF v(2)] show ?thesis by auto
  qed
  with assms show ?thesis
    by (simp add: validateRecords_def validate_from_iff canonicalizeNativeHistory_def canonicalize_from_Inr)
qed

section \<open>Text and weight\<close>

lemma enat_le_add: "a \<le> b \<Longrightarrow> a \<le> b + (c :: enat)"
  by (rule add_increasing2) simp

lemma toolPressure_frame:
  assumes "toolPressure part = Inr w" "get_prop part (js ''name'') = Str n" "toolState (get_prop part (js ''state'')) = Inr st"
  shows "enat (length (toolSourceText (Str n) (projectedToolState st))) \<le> w"
proof -
  let ?st = "projectedToolState st"
  let ?f = "length (toolSourceText (Str n) ?st)"
  have "enat ?f \<le> enat (max (length n + tool_state_chars ?st) ?f)" by simp
  then show ?thesis using assms by (auto simp: toolPressure_def Let_def intro!: enat_le_add)
qed

text \<open>A truncation notice may push a text 25 code units past the weight of its frames.\<close>

lemma tool_frames_le:
  assumes "tool_frames parts r = Inr (txt, trunc)" "rmap content_weight parts = Inr ws" "length r \<le> MAX_COMPLETE_TOOL_SOURCE_CHARS"
  shows "enat (length txt) \<le> enat (length r) + sum_list ws + 25 \<and> length txt \<le> TOOL_SOURCE_CHAR_LIMIT"
  using assms
proof (induction parts arbitrary: r ws)
  case Nil
  then show ?case by (simp add: MAX_COMPLETE_TOOL_SOURCE_CHARS_def)
next
  case (Cons part parts)
  from Cons.prems(2) obtain w ws' where w: "content_weight part = Inr w" "rmap content_weight parts = Inr ws'" "ws = w # ws'"
    by (auto simp: rmap_Inr_iff list_all2_Cons1)
  have "sum_list ws' \<le> sum_list ws" unfolding w(3) by (simp add: add_increasing)
  then have mono: "enat (length r) + sum_list ws' + 25 \<le> enat (length r) + sum_list ws + 25"
    by (intro add_mono order_refl)
  show ?case
  proof (cases "get_prop part (js ''type'') = str ''tool''")
    case False
    with Cons.prems(1) have "tool_frames parts r = Inr (txt, trunc)" by simp
    from Cons.IH [OF this w(2) Cons.prems(3)] mono show ?thesis by (meson order_trans)
  next
    case True
    from True Cons.prems(1) obtain n st where n: "get_prop part (js ''name'') = Str n"
      and st: "toolState (get_prop part (js ''state'')) = Inr st"
      by (cases "get_prop part (js ''name'')") (auto simp: invalid_native_def)
    let ?frame = "toolSourceText (Str n) (projectedToolState st)"
    have "toolPressure part = Inr w" using w(1) True by (simp add: content_weight_def str_def)
    from toolPressure_frame [OF this n st] have le: "enat (length ?frame) \<le> w" .
    show ?thesis
    proof (cases "length r + length ?frame \<le> MAX_COMPLETE_TOOL_SOURCE_CHARS")
      case fits: True
      with Cons.prems(1) True n st have "tool_frames parts (r @ ?frame) = Inr (txt, trunc)" by simp
      moreover have "length (r @ ?frame) \<le> MAX_COMPLETE_TOOL_SOURCE_CHARS" using fits by simp
      ultimately have ih: "enat (length txt) \<le> enat (length (r @ ?frame)) + sum_list ws' + 25 \<and> length txt \<le> TOOL_SOURCE_CHAR_LIMIT"
        using Cons.IH [OF _ w(2)] by blast
      have "enat (length (r @ ?frame)) + sum_list ws' + 25 = enat (length r) + (enat (length ?frame) + sum_list ws') + 25"
        by (simp add: add.assoc flip: plus_enat_simps(1))
      also have "\<dots> \<le> enat (length r) + (w + sum_list ws') + 25" using le by (intro add_mono order_refl)
      finally have "enat (length (r @ ?frame)) + sum_list ws' + 25 \<le> enat (length r) + sum_list ws + 25" by (simp add: w(3))
      with ih show ?thesis by (meson order_trans)
    next
      case over: False
      with Cons.prems(1) True n st have out: "txt = r @ truncatedToolSourceText (Str n) (MAX_COMPLETE_TOOL_SOURCE_CHARS - length r)"
        by simp
      have len: "length txt \<le> MAX_COMPLETE_TOOL_SOURCE_CHARS + 26"
        using length_truncatedToolSourceText [of "Str n" "MAX_COMPLETE_TOOL_SOURCE_CHARS - length r"] Cons.prems(3)
        by (simp add: out length_TOOL_SOURCE_TRUNCATION)
      with over have "length txt \<le> length r + length ?frame + 25" by simp
      then have "enat (length txt) \<le> enat (length r) + enat (length ?frame) + 25"
        by (simp add: numeral_eq_enat)
      also have "\<dots> \<le> enat (length r) + sum_list ws + 25"
        using enat_le_add [OF le, of "sum_list ws'"] unfolding w(3) sum_list.Cons by (intro add_mono order_refl)
      finally show ?thesis using len complete_plus_truncation by (simp add: length_TOOL_SOURCE_TRUNCATION)
    qed
  qed
qed

text \<open>What is written never exceeds the weight by more, whatever the message.\<close>

lemma assistant_text_le:
  assumes "rmap content_weight parts = Inr ws"
  shows "enat (codePointLength (assistant_text parts)) \<le> sum_list ws"
proof -
  have "enat (sum_list (map (\<lambda>part. codePointLength (string_of (get_prop part (js ''text''))))
      (filter (\<lambda>part. get_prop part (js ''type'') = str ''text'') parts))) \<le> sum_list ws"
    using assms
  proof (induction parts arbitrary: ws)
    case (Cons part parts)
    then obtain w ws' where w: "content_weight part = Inr w" "rmap content_weight parts = Inr ws'" "ws = w # ws'"
      by (auto simp: rmap_Inr_iff list_all2_Cons1)
    show ?case
    proof (cases "get_prop part (js ''type'') = str ''text''")
      case True
      with w(1) have "w = enat (codePointLength (string_of (get_prop part (js ''text''))))" by (simp add: content_weight_def)
      with True Cons.IH [OF w(2)] show ?thesis
        by (simp add: w(3) flip: plus_enat_simps(1))
    next
      case False
      with Cons.IH [OF w(2)] show ?thesis by (simp add: w(3) add_increasing)
    qed
  qed (simp add: zero_enat_def)
  moreover have "codePointLength (assistant_text parts) \<le> sum_list (map (\<lambda>part. codePointLength (string_of (get_prop part (js ''text''))))
      (filter (\<lambda>part. get_prop part (js ''type'') = str ''text'') parts))"
    unfolding assistant_text_def by (rule order_trans [OF codePointLength_concat]) (simp add: comp_def)
  ultimately show ?thesis by (meson enat_ord_simps(1) order_trans)
qed

lemma source_bounded:
  assumes "native_record_of bareUrl v i t raw = Inr r"
  shows "enat (codePointLength (im_text (nr_source r))) \<le> nr_weight r + 25
    \<and> (t = js ''assistant'' \<and> assistant_text (content_of raw) = [] \<longrightarrow> length (im_text (nr_source r)) \<le> TOOL_SOURCE_CHAR_LIMIT)"
proof -
  let ?text = "im_text (nr_source r)"
  from record_fields [OF assms] have src: "sourceFor bareUrl t raw = Inr (?text, nr_omissions r)"
    and weight: "weightedCharsFor t raw ?text = Inr (nr_weight r)" by simp_all
  show ?thesis
  proof (cases "t = js ''assistant''")
    case False
    with weight have "enat (codePointLength ?text) \<le> nr_weight r" unfolding weightedCharsFor_def
      by (auto simp del: plus_enat_simps) (metis enat_le_add order_refl)
    with False show ?thesis by (simp add: enat_le_add)
  next
    case True
    with weight obtain ws where ws: "rmap content_weight (content_of raw) = Inr ws" "nr_weight r = sum_list ws"
      by (auto simp: weightedCharsFor_def)
    from src True have run: "assistantSourceText (content_of raw) = Inr (?text, nr_omissions r)" by (simp add: sourceFor_def)
    show ?thesis
    proof (cases "assistant_text (content_of raw) = []")
      case no: False
      with run have "?text = assistant_text (content_of raw)" by (simp add: assistantSourceText_def Let_def)
      with assistant_text_le [OF ws(1)] no show ?thesis by (simp add: ws(2) enat_le_add)
    next
      case yes: True
      with run obtain trunc where frames: "tool_frames (content_of raw) [] = Inr (?text, trunc)"
        by (auto simp: assistantSourceText_def Let_def)
      from tool_frames_le [OF this ws(1)] have "enat (length ?text) \<le> sum_list ws + 25" "length ?text \<le> TOOL_SOURCE_CHAR_LIMIT"
        by (simp_all add: zero_enat_def [symmetric])
      moreover have "enat (codePointLength ?text) \<le> enat (length ?text)" using codePointLength_le by simp
      ultimately show ?thesis unfolding ws(2) by (meson order_trans)
    qed
  qed
qed

section \<open>A history and its plan\<close>

lemma block_texts:
  assumes "\<forall>r\<in>set b. enat (codePointLength (im_text (nr_source r))) \<le> nr_weight r + 25" "records_weight b \<le> enat limit"
  shows "textChars b \<le> limit + 25 * length b"
proof -
  have "enat (textChars b) \<le> records_weight b + enat (25 * length b)"
    using assms(1)
  proof (induction b)
    case (Cons r b)
    then have "enat (textChars b) \<le> records_weight b + enat (25 * length b)" "enat (codePointLength (im_text (nr_source r))) \<le> nr_weight r + 25"
      by simp_all
    then have "enat (codePointLength (im_text (nr_source r))) + enat (textChars b)
        \<le> (nr_weight r + 25) + (records_weight b + enat (25 * length b))" by (intro add_mono)
    then show ?case by (simp add: textChars_def numeral_eq_enat ac_simps flip: plus_enat_simps(1))
  qed (simp add: textChars_def)
  also have "\<dots> \<le> enat limit + enat (25 * length b)" using assms(2) by (intro add_mono order_refl)
  finally show ?thesis by simp
qed

lemma block_valid:
  assumes rs: "canonicalizeNativeHistory bareUrl vs = Inr rs" and b: "set b \<subseteq> set rs" "chunk_fits limit b" "distinct (map record_id b)"
    and len: "length b \<le> 10000" and limit: "limit \<le> 1750000"
    and ids: "\<forall>r\<in>set rs. trim (record_id r) = record_id r" and names: "ident_ok (src_id source)" "ident_ok sid"
  shows "valid_request (raw_request source sid b) \<and> textChars b \<le> MAX_SEGMENT_TEXT_CHARS"
proof -
  have each: "ident_ok (record_id r) \<and> im_type (nr_source r) \<in> js ` set native_types
      \<and> codePointLength (im_text (nr_source r)) \<le> MAX_MESSAGE_TEXT_CHARS
      \<and> enat (codePointLength (im_text (nr_source r))) \<le> nr_weight r + 25" if "r \<in> set b" for r
  proof -
    have r: "r \<in> set rs" using that b(1) by blast
    from canonical_record [OF rs r] obtain v i t raw where v: "validateNativeHistoryMessage v = Inr (i, t, raw)"
      and nr: "native_record_of bareUrl v i t raw = Inr r" by metis
    from validated_fields [OF v] record_fields [OF nr] source_bounded [OF nr] ids r show ?thesis
      by (auto simp: ident_ok_def Suc_le_eq)
  qed
  have nonempty: "b \<noteq> []" using b(2) by (simp add: chunk_fits_def)
  have total: "textChars b \<le> MAX_SEGMENT_TEXT_CHARS"
  proof (cases "length b = 1")
    case True
    then obtain r where "b = [r]" by (auto simp: length_Suc_conv)
    with each [of r] show ?thesis by (simp add: textChars_def MAX_SEGMENT_TEXT_CHARS_def MAX_MESSAGE_TEXT_CHARS_def)
  next
    case False
    with b(2) have "textChars b \<le> limit + 25 * length b" using each by (intro block_texts) (auto simp: chunk_fits_def)
    with len limit show ?thesis by (simp add: MAX_SEGMENT_TEXT_CHARS_def)
  qed
  have sum: "foldl (\<lambda>n m. n + codePointLength (im_text m)) k (map nr_source c) = k + textChars c" for k c
    by (induction c arbitrary: k) (simp_all add: textChars_def)
  have short: "length (im_text (nr_source r)) \<le> 2 * MAX_MESSAGE_TEXT_CHARS" if "r \<in> set b" for r
    using each [OF that] length_le_codePoints [of "im_text (nr_source r)"] by linarith
  have ends: "hd b \<in> set b" "last b \<in> set b" using nonempty by simp_all
  have "text_limits (map nr_source b)" using each total by (auto simp: text_limits_def sum)
  moreover have "boundary_ok (Boundary3 (record_id (hd b)) (record_id (last b))) (map nr_source b)"
    using each ends b(3) nonempty by (simp add: hd_map last_map comp_def)
  moreover have "\<forall>m\<in>set (map nr_source b). native_message_ok m" using each short by (auto simp: native_message_ok_def)
  ultimately have "valid_request (raw_request source sid b)"
    using names len nonempty by (simp add: valid_request_def raw_request_def Let_def Suc_le_eq)
  with total show ?thesis by blast
qed

lemma distinct_map_takeWhile: "distinct (map f xs) \<Longrightarrow> distinct (map f (takeWhile P xs))"
  by (induction xs) (auto dest: set_takeWhileD)

lemma length_concat_le: "b \<in> set bs \<Longrightarrow> length b \<le> length (concat bs)"
  by (induction bs) auto

lemma rmap_exists: "(\<And>x. x \<in> set xs \<Longrightarrow> \<exists>y. f x = Inr y) \<Longrightarrow> \<exists>ys. rmap f xs = Inr ys"
  by (induction xs) fastforce+

lemma distinct_block: "distinct (map f (concat bs)) \<Longrightarrow> b \<in> set bs \<Longrightarrow> distinct (map f b)"
  by (auto simp: in_set_conv_decomp)

lemma plan_without_manifest:
  assumes rs: "canonicalizeNativeHistory bareUrl vs = Inr rs" and ids: "\<forall>r\<in>set rs. trim (record_id r) = record_id r"
    and source: "native_source source" "ident_ok (src_id source)" "ident_ok sid"
    and limit: "0 < limit" "limit \<le> 1750000" and len: "length rs \<le> 10000"
  shows "\<exists>segs. planNativeSegments cr source sid rs None limit allowOpen = Inr segs"
proof -
  let ?cs = "complete_prefix rs"
  note valid = canonical_valid [OF rs]
  obtain chunks tail where chunks: "native_chunks limit [] 0 ?cs = (chunks, tail)" by fastforce
  have spec: "concat chunks @ tail = ?cs" "\<forall>c\<in>set chunks. chunk_fits limit c" "tail = [] \<or> records_weight tail < limit"
    using native_chunks_spec [OF chunks _ _ limit(1)] by simp_all
  have sub: "set ?cs \<subseteq> set rs" by (auto simp: complete_prefix_def dest: set_takeWhileD)
  have distinct: "distinct (map record_id (concat (chunks @ [tail])))"
    using validateRecords_distinct [OF valid] spec by (simp add: complete_prefix_def distinct_map_takeWhile)
  have short: "length (concat (chunks @ [tail])) \<le> 10000"
    using spec len length_takeWhile_le [of nr_complete rs] by (simp add: complete_prefix_def)
  have ok: "valid_request (raw_request source sid b) \<and> textChars b \<le> MAX_SEGMENT_TEXT_CHARS"
    if "b \<in> set (chunks @ [tail])" "b \<noteq> []" for b
  proof (rule block_valid [OF rs _ _ _ _ limit(2) ids source(2,3)])
    have "set b \<subseteq> set (concat (chunks @ [tail]))" using that(1) by (simp, blast)
    also have "concat (chunks @ [tail]) = ?cs" using spec by simp
    finally show "set b \<subseteq> set rs" using sub by (rule subset_trans)
    show "chunk_fits limit b" using spec that by (auto simp: chunk_fits_def)
    show "distinct (map record_id b)" by (rule distinct_block [OF distinct that(1)])
    show "length b \<le> 10000" using length_concat_le [OF that(1)] short by linarith
  qed
  have plannable: "\<exists>p. planned cr source sid isClosed b = Inr p" if "b \<in> set (chunks @ [tail])" "b \<noteq> []" for b isClosed
    using planned_valid [OF source(1,2) that(2)] ok [OF that] by blast
  have "\<exists>more. rmap (planned cr source sid True) chunks = Inr more"
    using spec by (intro rmap_exists plannable) (auto simp: chunk_fits_def)
  then obtain more where more: "rmap (planned cr source sid True) chunks = Inr more" by blast
  have "tail \<noteq> [] \<Longrightarrow> assertSegmentSize tail = Inr ()" using ok [of tail] by (simp add: assertSegmentSize_def)
  moreover have "tail \<noteq> [] \<Longrightarrow> \<exists>p. planned cr source sid False tail = Inr p" using plannable [of tail] by simp
  ultimately show ?thesis using source(1) limit(1) valid chunks more
    by (cases "tail \<noteq> [] \<and> allowOpen") (auto simp: planNativeSegments_def requireSource_def anchorsFor_def)
qed

section \<open>The properties\<close>

text \<open>
  C28. The source text of a canonical record is bounded by the record's weight: in code points it exceeds
  the weight by at most 25, the part of a truncation notice no frame accounts for, and never the message
  limit; and the tool frames that stand for an assistant message without text fit the tool budget.
\<close>

theorem native_source_bounded:
  assumes "canonicalizeNativeHistory bareUrl vs = Inr rs" "r \<in> set rs"
  shows "enat (codePointLength (im_text (nr_source r))) \<le> nr_weight r + 25
    \<and> codePointLength (im_text (nr_source r)) \<le> MAX_MESSAGE_TEXT_CHARS
    \<and> (\<exists>raw. nr_raw r = Obj raw
        \<and> (prop_of raw ''type'' = str ''assistant'' \<and> assistant_text (content_of raw) = []
           \<longrightarrow> length (im_text (nr_source r)) \<le> TOOL_SOURCE_CHAR_LIMIT))"
proof -
  from canonical_record [OF assms] obtain v i t raw where v: "validateNativeHistoryMessage v = Inr (i, t, raw)"
    and r: "native_record_of bareUrl v i t raw = Inr r" by metis
  from v have "prop_of raw ''type'' = Str t"
    by (auto simp: validateNativeHistoryMessage_def invalid_native_def split: option.splits jsval.splits if_splits)
  with validated_fields [OF v] record_fields [OF r] source_bounded [OF r] show ?thesis by (auto simp: str_def)
qed

text \<open>
  C29. Canonicalising, planning and validating fit together: a canonical history of at most 10,000
  records, whose IDs carry no surrounding blanks, is planned without failure under any positive limit up
  to 1,750,000 (the default is 20,000) when there is no manifest, and every segment of the plan
  validates against the history.
\<close>

theorem native_history_plans:
  assumes "canonicalizeNativeHistory bareUrl vs = Inr rs" and "length rs \<le> 10000"
    and "\<forall>r\<in>set rs. trim (record_id r) = record_id r"
    and "src_kind source = OpencodeV2" "src_scheme source = SourceV1" "ident_ok (src_id source)" "ident_ok sid"
    and "0 < limit" "limit \<le> 1750000"
  shows "\<exists>segs. planNativeSegments cr source sid rs None limit allowOpen = Inr segs
    \<and> (\<forall>s\<in>set segs. validateNativeSegmentRequest cr rs (ps_request s) = Inr ())"
proof -
  have "native_source source" using assms by (simp add: native_source_def)
  from plan_without_manifest [OF assms(1,3) this assms(6-9,2)] obtain segs
    where "planNativeSegments cr source sid rs None limit allowOpen = Inr segs" by blast
  with segment_hydrates [OF this assms(3)] show ?thesis by blast
qed

section \<open>A sample history\<close>

definition sample_history :: "jsval list" where
  "sample_history =
     [Obj [field ''id'' (str ''a''), field ''type'' (str ''user''), field ''time'' (Obj [field ''created'' (Num (js ''0''))]),
        field ''text'' (str ''hi'')],
      Obj [field ''id'' (str ''b''), field ''type'' (str ''assistant''),
        field ''time'' (Obj [field ''created'' (Num (js ''1'')), field ''completed'' (Num (js ''2''))]),
        field ''agent'' (str ''x''), field ''model'' (Obj [field ''providerID'' (str ''p''), field ''id'' (str ''m'')]),
        field ''content'' (Arr [Obj [field ''type'' (str ''tool''), field ''id'' (str ''c''), field ''name'' (str ''ls''),
          field ''time'' (Obj [field ''created'' (Num (js ''1''))]),
          field ''state'' (Obj [field ''status'' (str ''completed''), field ''input'' (Obj []),
            field ''content'' (Arr [Obj [field ''type'' (str ''text''), field ''text'' (str ''k'')]])])]])]]"

text \<open>A message is valid, has a short source text, and a weight.\<close>

definition renders :: "jsval \<Rightarrow> jsstr \<Rightarrow> bool" where
  "renders v i \<longleftrightarrow>
     (case validateNativeHistoryMessage v of
        Inl e \<Rightarrow> False
      | Inr (k, t, raw) \<Rightarrow> k = i \<and> (case sourceFor Some t raw of Inl e \<Rightarrow> False | Inr (text, os) \<Rightarrow> codePointLength text < 100))"

definition weighs :: "jsval \<Rightarrow> bool" where
  "weighs v \<longleftrightarrow>
     (case validateNativeHistoryMessage v of
        Inl e \<Rightarrow> False
      | Inr (k, t, raw) \<Rightarrow> (case weightedCharsFor t raw [] of Inl e \<Rightarrow> False | Inr w \<Rightarrow> True))"

lemma weight_of_any_text: "weightedCharsFor t raw s = Inr w \<Longrightarrow> \<exists>w. weightedCharsFor t raw s' = Inr w"
  by (auto simp: weightedCharsFor_def split: if_splits)

lemma renders_record:
  assumes "renders v i" "weighs v"
  shows "\<exists>t raw r. validateNativeHistoryMessage v = Inr (i, t, raw) \<and> native_record_of Some v i t raw = Inr r \<and> record_id r = i"
proof -
  from assms obtain t raw where v: "validateNativeHistoryMessage v = Inr (i, t, raw)"
    by (auto simp: renders_def split: sum.splits)
  from assms v obtain out os where r: "sourceFor Some t raw = Inr (out, os)" "codePointLength out < 100"
    by (cases "sourceFor Some t raw") (auto simp: renders_def)
  from assms(2) v obtain w where w: "weightedCharsFor t raw [] = Inr w"
    by (cases "weightedCharsFor t raw []") (auto simp: weighs_def)
  from r(2) have "\<not> codePointLength out > MAX_MESSAGE_TEXT_CHARS" by (simp add: MAX_MESSAGE_TEXT_CHARS_def)
  with r weight_of_any_text [OF w, of out] have "\<exists>r. native_record_of Some v i t raw = Inr r \<and> record_id r = i"
    by (auto simp: native_record_of_def)
  with v show ?thesis by blast
qed

lemma sample_renders: "renders (hd sample_history) (js ''a'')" "renders (last sample_history) (js ''b'')"
  by code_simp+

lemma sample_weighs: "weighs (hd sample_history)" "weighs (last sample_history)"
  by code_simp+

lemma sample_canonical_run:
  obtains rs where "canonicalizeNativeHistory Some sample_history = Inr rs" "map record_id rs = [js ''a'', js ''b'']"
proof -
  have h: "sample_history = [hd sample_history, last sample_history]" by (simp add: sample_history_def)
  obtain p q where pq: "\<exists>t raw. validateNativeHistoryMessage (hd sample_history) = Inr (js ''a'', t, raw)
      \<and> native_record_of Some (hd sample_history) (js ''a'') t raw = Inr p" "record_id p = js ''a''"
    "\<exists>t raw. validateNativeHistoryMessage (last sample_history) = Inr (js ''b'', t, raw)
      \<and> native_record_of Some (last sample_history) (js ''b'') t raw = Inr q" "record_id q = js ''b''"
    using renders_record [OF sample_renders(1) sample_weighs(1)] renders_record [OF sample_renders(2) sample_weighs(2)] by blast
  then have "canonicalizeNativeHistory Some [hd sample_history, last sample_history] = Inr [p, q]"
    unfolding canonicalizeNativeHistory_def canonicalize_from_Inr by auto
  with that [of "[p, q]"] pq h show thesis by simp
qed

theorem native_source_bounded_witness:
  "\<exists>rs. canonicalizeNativeHistory Some sample_history = Inr rs \<and> length rs = 2
    \<and> (\<forall>r\<in>set rs. enat (codePointLength (im_text (nr_source r))) \<le> nr_weight r + 25)"
proof -
  obtain rs where rs: "canonicalizeNativeHistory Some sample_history = Inr rs" "map record_id rs = [js ''a'', js ''b'']"
    by (rule sample_canonical_run)
  from arg_cong [OF rs(2), of length] have "length rs = 2" by simp
  with rs(1) native_source_bounded [OF rs(1)] show ?thesis by blast
qed

theorem native_history_plans_witness:
  "\<exists>rs segs. canonicalizeNativeHistory Some sample_history = Inr rs
    \<and> planNativeSegments plain_crypto sample_source (js ''t'') rs None 20000 True = Inr segs
    \<and> (\<forall>s\<in>set segs. validateNativeSegmentRequest plain_crypto rs (ps_request s) = Inr ())"
proof -
  obtain rs where rs: "canonicalizeNativeHistory Some sample_history = Inr rs" "map record_id rs = [js ''a'', js ''b'']"
    by (rule sample_canonical_run)
  from arg_cong [OF rs(2), of length] have len: "length rs \<le> 10000" by simp
  have "record_id r \<in> {js ''a'', js ''b''}" if "r \<in> set rs" for r
    using imageI [OF that, of record_id] arg_cong [OF rs(2), of set] by simp
  then have ids: "\<forall>r\<in>set rs. trim (record_id r) = record_id r" using sample_trim by fastforce
  have "ident_ok (js ''t'')" by (simp add: ident_ok_def sample_trim)
  from native_history_plans [OF rs(1) len ids _ _ sample_source_ok(2) this] rs(1) show ?thesis
    by (force simp: sample_source_def)
qed

end
