(* ===== verification/NativeTokens.thy ===== *)
theory NativeTokens
  imports ToolSource
begin

text \<open>
  Estimating the size of a model request: \<open>estimateNativeTokens\<close> of
  \<open>packages/opencode-v2-core/src/projection.ts\<close> and the estimation copy of
  \<open>packages/opencode-v2-plugin/src/projection.ts\<close>. The Unicode classes \<open>\p{L}\<close> and \<open>\p{N}\<close> and the page
  count of a PDF are the parameters of an estimator; payloads are trees of JSON values, so the code's
  checks for proxies, accessors, views and cycles do not arise.
\<close>

record estimator =
  es_alnum :: "nat \<Rightarrow> bool"
  es_pdfPageCount :: "jsstr \<Rightarrow> nat"

section \<open>Tokens\<close>

definition space_point :: "nat \<Rightarrow> bool" where
  "space_point c \<longleftrightarrow> c < 0x10000 \<and> is_space (of_nat c)"

text \<open>The number of matches of \<open>/[\p{L}\p{N}_]+|[^\s\p{L}\p{N}_]/gu\<close>; the flag says that a word is open.\<close>

fun lexemes :: "estimator \<Rightarrow> bool \<Rightarrow> nat list \<Rightarrow> nat" where
  "lexemes es inside [] = 0"
| "lexemes es inside (c # cs) =
     (if es_alnum es c \<or> c = 95 then (if inside then 0 else 1) + lexemes es True cs
      else (if space_point c then 0 else 1) + lexemes es False cs)"

definition text_tokens :: "estimator \<Rightarrow> jsstr \<Rightarrow> nat" where
  "text_tokens es s = max (ceil_div (byteLength s) 3) (lexemes es False (code_points s))"

lemma rmap_cong [fundef_cong]: "xs = ys \<Longrightarrow> (\<And>x. x \<in> set ys \<Longrightarrow> f x = g x) \<Longrightarrow> rmap f xs = rmap g ys"
  by (induction ys arbitrary: xs) auto

definition unbounded_types :: "string list" where
  "unbounded_types = [''file'', ''audio'', ''video'', ''input_audio'']"

fun estimateNativeTokens :: "estimator \<Rightarrow> jsval \<Rightarrow> nat result" where
  "estimateNativeTokens es Undefined = Inr 0"
| "estimateNativeTokens es Null = Inr 0"
| "estimateNativeTokens es (Str s) = Inr (text_tokens es s)"
| "estimateNativeTokens es (Num n) = Inr 2"
| "estimateNativeTokens es (Boolean b) = Inr 2"
| "estimateNativeTokens es Callable = Inl ''opaque or cyclic model payload requires an explicit media policy''"
| "estimateNativeTokens es (Arr vs) =
     rbind (rmap (estimateNativeTokens es) vs) (\<lambda>ns. Inr (2 + sum_list (map (\<lambda>n. n + 2) ns)))"
| "estimateNativeTokens es (Obj ps) =
     (if property ps (js ''type'') \<in> (Str \<circ> js) ` set unbounded_types
      then Inl ''unbounded file/audio/video requires an explicit media policy''
      else rbind (rmap (\<lambda>p. rbind (estimateNativeTokens es (snd p)) (\<lambda>n. Inr (text_tokens es (fst p) + n + 2))) ps)
        (\<lambda>ns. Inr (2 + (if property ps (js ''type'') \<in> {str ''image'', str ''image_url''} then 4096 else 0)
          + sum_list ns)))"

section \<open>The estimation copy\<close>

definition reserve_text :: "nat \<Rightarrow> jsstr" where
  "reserve_text n = concat (replicate n (js ''x ''))"

definition PDF_PAGE_RESERVE :: jsstr where
  "PDF_PAGE_RESERVE = reserve_text 4096"

definition image_mimes :: "string list" where
  "image_mimes = [''image/png'', ''image/jpeg'', ''image/webp'', ''image/gif'']"

text \<open>\<open>a ?? b\<close>\<close>

definition nullish :: "jsval \<Rightarrow> jsval \<Rightarrow> jsval" where
  "nullish a b = (if a = Undefined \<or> a = Null then b else a)"

text \<open>What stands for an image or a PDF of the given data, besides the other properties of the part.\<close>

definition media_reserve :: "estimator \<Rightarrow> jsstr \<Rightarrow> jsstr \<Rightarrow> (jsstr \<times> jsval) list \<Rightarrow> jsval" where
  "media_reserve es mime payload metadata =
     (let pdf = mime = js ''application/pdf'';
          kind = (if pdf then ''document'' else ''image'');
          reserve = (if pdf then Arr (replicate (es_pdfPageCount es payload) (Str PDF_PAGE_RESERVE)) else Str (reserve_text 16384))
      in Obj (set_prop (set_prop (set_prop metadata (js ''type'') (str kind)) (js ''reserve'') reserve) (js ''mediaType'') (Str mime)))"

fun estimationValue :: "estimator \<Rightarrow> jsval \<Rightarrow> jsval result" where
  "estimationValue es (Num n) =
     (if finite_num n then Inr (Num n) else Inl ''Reflection: opaque model payload cannot be projected safely'')"
| "estimationValue es Callable = Inl ''Reflection: opaque model payload cannot be projected safely''"
| "estimationValue es (Arr vs) = rbind (rmap (estimationValue es) vs) (\<lambda>ws. Inr (Arr ws))"
| "estimationValue es (Obj item) =
     (let kind = property item (js ''type'') in
      if kind = str ''compaction''
      then Inl ''Reflection: preexisting native checkpoint is forbidden; rebuild from uncompacted history''
      else if kind \<in> {str ''media'', str ''file''}
      then (case nullish (property item (js ''mediaType'')) (property item (js ''mime'')) of
              Str mime \<Rightarrow>
                if mime \<noteq> js ''application/pdf'' \<and> mime \<notin> js ` set image_mimes
                then Inl ''Reflection: unbounded non-image media cannot be projected safely''
                else (case nullish (property item (js ''data'')) (property item (js ''uri'')) of
                    Str payload \<Rightarrow>
                      rbind (rmap (\<lambda>p. rbind (estimationValue es (snd p)) (\<lambda>w. Inr (fst p, w)))
                          (filter (\<lambda>p. fst p \<notin> {js ''data'', js ''uri''}) item)) (\<lambda>metadata.
                        Inr (media_reserve es mime payload metadata))
                  | _ \<Rightarrow> Inl ''Reflection: invalid payload'')
            | _ \<Rightarrow> Inl ''Reflection: unbounded non-image media cannot be projected safely'')
      else rbind (rmap (\<lambda>p. rbind (estimationValue es (snd p)) (\<lambda>w. Inr (fst p, w))) item) (\<lambda>ps. Inr (Obj ps)))"
| "estimationValue es v = Inr v"

section \<open>Messages\<close>

text \<open>\<open>Message\<close> of the AI library: content is a list of parts, \<open>am_metadata\<close> the provider's metadata.\<close>

record ai_message =
  am_id :: "jsstr option"
  am_role :: jsstr
  am_content :: "jsval list"
  am_metadata :: jsval
  am_native :: jsval

definition is_nullish :: "jsval \<Rightarrow> bool" where
  "is_nullish v \<longleftrightarrow> v = Undefined \<or> v = Null"

definition estimateMessage :: "estimator \<Rightarrow> ai_message \<Rightarrow> jsval result" where
  "estimateMessage es m =
     (if \<not> is_nullish (am_native m) then Inl ''Reflection: opaque provider-native message payload is unsupported''
      else estimationValue es (Arr (am_content m
        @ (if is_nullish (am_metadata m) then []
           else [Obj [field ''type'' (str ''reflection-provider-metadata''), field ''providerMetadata'' (am_metadata m)]]))))"

definition message_cost :: "estimator \<Rightarrow> ai_message \<Rightarrow> nat result" where
  "message_cost es m =
     rbind (estimateMessage es m) (\<lambda>content.
     rbind (estimateNativeTokens es (Obj [field ''role'' (Str (am_role m)), field ''content'' content])) (\<lambda>n. Inr (8 + n)))"

definition materializedTokens :: "estimator \<Rightarrow> ai_message list \<Rightarrow> jsval \<Rightarrow> jsval \<Rightarrow> nat result" where
  "materializedTokens es messages system tools =
     rbind (estimateNativeTokens es system) (\<lambda>a.
     rbind (estimateNativeTokens es tools) (\<lambda>b.
     rbind (rmap (message_cost es) messages) (\<lambda>ns. Inr (a + b + sum_list ns))))"

end
