(* ===== verification/Cursor.thy ===== *)
theory Cursor
  imports NativeTokens NativeHistory
begin

text \<open>
  The cursor projection of the OpenCode V2 plugin: \<open>packages/opencode-v2-plugin/src/cursor.ts\<close>. A request's
  old messages are archived: summaries and markers in one notice replace them, and the rest, the tail,
  is sent as it is. Token counts are integers; \<open>measure\<close> and \<open>bound\<close>, the provider's own measurements,
  are functions of the input, \<open>None\<close> where they are absent or give no number.
\<close>

section \<open>State\<close>

definition null_or_string :: "jsval \<Rightarrow> bool" where
  "null_or_string v \<longleftrightarrow> v = Null \<or> is_string v"

text \<open>A cursor state that does not fit is \<open>undefined\<close>.\<close>

definition parseCursorState :: "jsval \<Rightarrow> jsstr \<Rightarrow> jsstr \<Rightarrow> jsval option" where
  "parseCursorState v sourceId sessionId =
     (case record_of v of
        None \<Rightarrow> None
      | Some state \<Rightarrow>
          let block = prop_of state ''block'' in
          if prop_of state ''version'' \<noteq> num 1 \<or> prop_of state ''sourceId'' \<noteq> Str sourceId
            \<or> prop_of state ''sessionId'' \<noteq> Str sessionId
            \<or> \<not> null_or_string (prop_of state ''submittedThrough'') \<or> \<not> null_or_string (prop_of state ''summarizedThrough'')
            \<or> \<not> is_string (prop_of state ''summaryFingerprint'')
            \<or> (\<not> is_nullish (prop_of state ''projectedThrough'') \<and> \<not> is_string (prop_of state ''projectedThrough''))
            \<or> (\<not> is_nullish (prop_of state ''projectedAnchor'') \<and> \<not> is_string (prop_of state ''projectedAnchor''))
            \<or> (block \<noteq> Undefined \<and> (\<not> is_object block \<or> \<not> is_string (get_prop block (js ''through''))
                 \<or> \<not> is_string (get_prop block (js ''text''))))
          then None else Some v)"

definition emptyCursorState :: "jsstr \<Rightarrow> jsstr \<Rightarrow> jsval" where
  "emptyCursorState sourceId sessionId =
     Obj [field ''version'' (num 1), field ''sourceId'' (Str sourceId), field ''sessionId'' (Str sessionId),
       field ''submittedThrough'' Null, field ''summarizedThrough'' Null, field ''summaryFingerprint'' (Str []),
       field ''projectedThrough'' Null]"

text \<open>The summaries of a manifest, where they end, and their fingerprint.\<close>

definition cursorSummaryState ::
  "crypto \<Rightarrow> jsval \<Rightarrow> source_info \<Rightarrow> (native_summary list \<times> jsstr option \<times> jsstr) result" where
  "cursorSummaryState cr v source =
     rbind (parseNativeSessionSegmentsResponse v (src_id source)) (\<lambda>manifest.
     let summaries = nm_segments manifest in
     Inr (summaries, map_option ne_end (last_opt summaries),
       sha256_hex cr (utf8 (json_text (Arr (map (\<lambda>s. Arr [Str (ne_id s), Str (ne_start s), Str (ne_end s), Str (ne_summary s)])
         summaries))))))"

section \<open>Tool-safe starts\<close>

text \<open>
  The scan of the messages: the last message calling each tool-call ID, and the counters that open at
  the message after a call and close after the message with its result.
\<close>

definition bump :: "nat \<Rightarrow> int \<Rightarrow> int list \<Rightarrow> int list" where
  "bump i d xs = xs[i := xs ! i + d]"

definition tool_part ::
  "nat \<Rightarrow> jsval \<Rightarrow> (jsval \<rightharpoonup> nat) \<times> int list \<Rightarrow> (jsval \<rightharpoonup> nat) \<times> int list" where
  "tool_part index part st =
     (let (calls, unsafe) = st; kind = get_prop part (js ''type''); i = get_prop part (js ''id'');
          calls1 = (if kind = str ''tool-call'' then calls(i \<mapsto> index) else calls) in
      if kind \<noteq> str ''tool-result'' then (calls1, unsafe)
      else case calls1 i of
          None \<Rightarrow> (calls1, unsafe)
        | Some call \<Rightarrow>
            if call = index then (calls1, unsafe)
            else (calls1, bump (index + 1) (- 1) (bump (call + 1) 1 unsafe)))"

fun tool_scan ::
  "nat \<Rightarrow> ai_message list \<Rightarrow> (jsval \<rightharpoonup> nat) \<times> int list \<Rightarrow> (jsval \<rightharpoonup> nat) \<times> int list" where
  "tool_scan index [] st = st"
| "tool_scan index (m # ms) st = tool_scan (Suc index) ms (fold (tool_part index) (am_content m) st)"

definition unsafe_counts :: "ai_message list \<Rightarrow> int list" where
  "unsafe_counts ms = snd (tool_scan 0 ms (Map.empty, replicate (length ms + 2) 0))"

definition toolSafeStarts :: "ai_message list \<Rightarrow> bool list" where
  "toolSafeStarts ms = map (\<lambda>i. sum_list (take (Suc i) (unsafe_counts ms)) = 0) [0..<length ms + 1]"

section \<open>The input\<close>

record archive_block =
  ab_through :: jsstr
  ab_text :: jsstr

text \<open>\<open>ci_projectedAnchor\<close> is \<open>undefined\<close>, \<open>null\<close> or an ID.\<close>

record cursor_input =
  ci_sourceId :: jsstr
  ci_messages :: "ai_message list"
  ci_summaries :: "native_summary list"
  ci_cachedBlock :: "archive_block option"
  ci_projectedThrough :: "jsstr option"
  ci_projectedAnchor :: "jsstr option option"
  ci_contextLimit :: nat
  ci_softTokens :: int
  ci_hardTokens :: int
  ci_systemTokens :: int
  ci_measure :: "ai_message list \<Rightarrow> int option"
  ci_bound :: "ai_message list \<Rightarrow> int option"

record cut =
  cut_id :: jsstr
  cut_through :: nat
  cut_start :: nat
  cut_anchor :: "nat option"

record located =
  lo_segment :: native_summary
  lo_start :: nat
  lo_end :: nat

definition message_at :: "cursor_input \<Rightarrow> jsstr \<Rightarrow> nat option" where
  "message_at inp i = last_index (\<lambda>m. am_id m = Some i) (ci_messages inp)"

definition locate :: "cursor_input \<Rightarrow> native_summary \<Rightarrow> located option" where
  "locate inp s =
     (case (message_at inp (ne_start s), message_at inp (ne_end s)) of
        (Some i, Some j) \<Rightarrow> if j < i then None else Some \<lparr>lo_segment = s, lo_start = i, lo_end = j\<rparr>
      | _ \<Rightarrow> None)"

definition compare_located :: "located \<Rightarrow> located \<Rightarrow> int" where
  "compare_located l r = (if lo_start l \<noteq> lo_start r then int (lo_start l) - int (lo_start r)
     else int (lo_end l) - int (lo_end r))"

definition located_summaries :: "cursor_input \<Rightarrow> located list" where
  "located_summaries inp = js_sort compare_located (List.map_filter (locate inp) (ci_summaries inp))"

definition latestUser :: "cursor_input \<Rightarrow> nat option" where
  "latestUser inp = last_index (\<lambda>m. am_role m = js ''user'' \<and> am_id m \<noteq> None) (ci_messages inp)"

section \<open>Cuts\<close>

fun safe_before :: "bool list \<Rightarrow> nat \<Rightarrow> nat" where
  "safe_before safe 0 = 0"
| "safe_before safe (Suc i) = (if safe ! Suc i then Suc i else safe_before safe i)"

definition tool_message :: "ai_message \<Rightarrow> bool" where
  "tool_message m \<longleftrightarrow> am_id m = None \<and> am_role m = js ''tool''"

definition cutThrough :: "cursor_input \<Rightarrow> jsstr \<Rightarrow> cut option" where
  "cutThrough inp i =
     (case message_at inp i of
        None \<Rightarrow> None
      | Some through \<Rightarrow>
          let ms = ci_messages inp; safe = toolSafeStarts ms;
              next = through + 1 + length (takeWhile tool_message (drop (through + 1) ms));
              start = (if next \<ge> length ms \<or> \<not> safe ! next then safe_before safe (through + 1) else next)
          in if start > 0 then Some \<lparr>cut_id = i, cut_through = through, cut_start = start, cut_anchor = None\<rparr> else None)"

definition withAnchor :: "cursor_input \<Rightarrow> cut \<Rightarrow> jsstr option option \<Rightarrow> cut" where
  "withAnchor inp c anchor =
     (let position = (case anchor of
            None \<Rightarrow> latestUser inp
          | Some None \<Rightarrow> None
          | Some (Some i) \<Rightarrow> message_at inp i)
      in case position of
          Some p \<Rightarrow> if p < cut_start c then c\<lparr>cut_anchor := Some p\<rparr> else c
        | None \<Rightarrow> c)"

section \<open>The archive\<close>

definition summary_text :: "native_summary \<Rightarrow> jsstr" where
  "summary_text s = js ''Segment '' @ ne_id s @ [10] @ ne_summary s"

text \<open>The newest summaries within the budget; the list has the newest first.\<close>

fun take_summaries :: "estimator \<Rightarrow> nat \<Rightarrow> located list \<Rightarrow> located list" where
  "take_summaries es remaining [] = []"
| "take_summaries es remaining (l # ls) =
     (let cost = text_tokens es (summary_text (lo_segment l)) + 2 in
      if cost > remaining then [] else l # take_summaries es (remaining - cost) ls)"

text \<open>The archived messages with an ID that no summary covers, as ranges of IDs.\<close>

fun scan_gaps ::
  "(nat \<times> jsstr) list \<Rightarrow> (nat \<times> nat) list \<Rightarrow> (jsstr \<times> jsstr) option \<Rightarrow> (jsstr \<times> jsstr) list" where
  "scan_gaps [] ranges gap = (case gap of None \<Rightarrow> [] | Some g \<Rightarrow> [g])"
| "scan_gaps ((i, k) # ms) ranges gap =
     (let ranges1 = dropWhile (\<lambda>r. snd r < i) ranges in
      if ranges1 \<noteq> [] \<and> fst (hd ranges1) \<le> i
      then (case gap of None \<Rightarrow> [] | Some g \<Rightarrow> [g]) @ scan_gaps ms ranges1 None
      else scan_gaps ms ranges1 (Some (case gap of None \<Rightarrow> (k, k) | Some (f, l) \<Rightarrow> (f, k))))"

definition identified :: "ai_message list \<Rightarrow> nat list \<Rightarrow> (nat \<times> jsstr) list" where
  "identified ms is = List.map_filter (\<lambda>i. map_option (Pair i) (am_id (ms ! i))) is"

record archive =
  ar_text :: jsstr
  ar_omitted :: nat
  ar_missing :: nat

definition gap_text :: "jsstr \<times> jsstr \<Rightarrow> jsstr" where
  "gap_text g = js ''[Reflection omitted '' @ fst g @ js ''..'' @ snd g @ js '': missing-or-stale-summary]''"

text \<open>Through which message the cached block of an earlier archive reaches, when it is used.\<close>

definition cached_through :: "cursor_input \<Rightarrow> cut option \<Rightarrow> (nat \<times> archive_block) option" where
  "cached_through inp co =
     (case (co, ci_cachedBlock inp) of
        (Some c, Some b) \<Rightarrow>
          if ci_summaries inp \<noteq> [] then None
          else (case message_at inp (ab_through b) of
              Some p \<Rightarrow> if p \<le> cut_through c then Some (p, b) else None
            | None \<Rightarrow> None)
      | _ \<Rightarrow> None)"

definition included_summaries :: "cursor_input \<Rightarrow> cut \<Rightarrow> located list" where
  "included_summaries inp c = filter (\<lambda>l. lo_end l \<le> cut_through c) (located_summaries inp)"

definition archive_of :: "estimator \<Rightarrow> cursor_input \<Rightarrow> cut option \<Rightarrow> nat \<Rightarrow> archive" where
  "archive_of es inp co end =
     (let (parts, covered, omitted, ranges) =
        (case cached_through inp co of
           Some (p, b) \<Rightarrow> ([ab_text b], Suc p, 0, [])
         | None \<Rightarrow>
             (case co of
                None \<Rightarrow> ([], 0, 0, [])
              | Some c \<Rightarrow>
                  let included = included_summaries inp c;
                      selected = rev (take_summaries es (ci_contextLimit inp div 20) (rev included));
                      omitted = length included - length selected
                  in ((if omitted > 0 then [js ''['' @ decimal omitted @ js '' older summaries omitted; use memory_search]''] else [])
                        @ map (summary_text \<circ> lo_segment) selected,
                      0, omitted, map (\<lambda>l. (lo_start l, lo_end l)) included)));
          gaps = scan_gaps (identified (ci_messages inp) [covered..<end]) ranges None
      in \<lparr>ar_text = join [10, 10] (parts @ map gap_text gaps), ar_omitted = omitted, ar_missing = length gaps\<rparr>)"

section \<open>The notice\<close>

definition NOTICE_PREFIX :: jsstr where
  "NOTICE_PREFIX = js (''[System-generated Reflection context, not a new user instruction. Archived material may omit details; ''
     @ ''use memory_search and memory_read_segment with source_id and segment_id.]'') @ [10]"

definition ANCHOR_HEADER :: jsstr where
  "ANCHOR_HEADER = [10] @ js ''[Latest actual user input, copied verbatim]'' @ [10]"

definition ANCHOR_FOOTER :: jsstr where
  "ANCHOR_FOOTER = [10] @ js ''[End latest actual user input]''"

definition droppedMarker :: "nat \<Rightarrow> jsstr" where
  "droppedMarker dropped = js ''['' @ decimal dropped
     @ js '' earlier messages omitted to fit the input budget; use memory_search]''"

definition text_content :: "jsstr \<Rightarrow> jsval" where
  "text_content t = Obj [field ''type'' (str ''text''), field ''text'' (Str t)]"

record notice =
  no_message :: ai_message
  no_cost :: nat
  no_omitted :: nat
  no_missing :: nat
  no_block :: "archive_block option"
  no_anchor :: "jsstr option"

definition anchor_message :: "cursor_input \<Rightarrow> cut option \<Rightarrow> nat \<Rightarrow> ai_message option" where
  "anchor_message inp co start =
     (let position = (case Option.bind co cut_anchor of
            Some p \<Rightarrow> Some p
          | None \<Rightarrow> (case latestUser inp of Some u \<Rightarrow> if u < start then Some u else None | None \<Rightarrow> None))
      in map_option ((!) (ci_messages inp)) position)"

definition notice_message :: "crypto \<Rightarrow> jsstr \<Rightarrow> ai_message option \<Rightarrow> ai_message" where
  "notice_message cr t anchor =
     \<lparr>am_id = Some (js ''reflection-cursor-'' @ take 32 (sha256_hex cr (utf8 (json_text
        (Arr [Str t, case Option.bind anchor am_id of None \<Rightarrow> Null | Some i \<Rightarrow> Str i]))))),
      am_role = js ''user'',
      am_content = (case anchor of
          None \<Rightarrow> [text_content t]
        | Some a \<Rightarrow> [text_content t, text_content ANCHOR_HEADER] @ am_content a @ [text_content ANCHOR_FOOTER]),
      am_metadata = (case anchor of None \<Rightarrow> Undefined | Some a \<Rightarrow> if is_nullish (am_metadata a) then Undefined else am_metadata a),
      am_native = Undefined\<rparr>"

definition notice_of :: "crypto \<Rightarrow> estimator \<Rightarrow> cursor_input \<Rightarrow> cut option \<Rightarrow> nat \<Rightarrow> notice result" where
  "notice_of cr es inp co start =
     (let end = (case co of None \<Rightarrow> 0 | Some c \<Rightarrow> cut_start c);
          block = archive_of es inp co end;
          t = join [10, 10] ([rev (dropWhile is_space (rev NOTICE_PREFIX)),
                js ''[Reflection source_id='' @ json_string (ci_sourceId inp) @ js '']'']
              @ (if ar_text block = [] then [] else [ar_text block])
              @ (if start > end then [droppedMarker (start - end)] else []));
          anchor = anchor_message inp co start;
          message = notice_message cr t anchor
      in rbind (message_cost es message) (\<lambda>cost.
        Inr \<lparr>no_message = message, no_cost = cost, no_omitted = ar_omitted block, no_missing = ar_missing block,
          no_block = map_option (\<lambda>c. \<lparr>ab_through = cut_id c, ab_text = ar_text block\<rparr>) co,
          no_anchor = Option.bind anchor am_id\<rparr>))"

section \<open>Candidates\<close>

datatype estimate_source = Provider | Provider_bound | Heuristic

datatype cursor_mode = Raw | Kept | Fired

record projection =
  cp_messages :: "ai_message list"
  cp_estimatedTokens :: int
  cp_measured :: bool
  cp_source :: estimate_source
  cp_omittedSummaries :: nat
  cp_missingRanges :: nat
  cp_projectedThrough :: "jsstr option"
  cp_projectedAnchor :: "jsstr option"
  cp_block :: "archive_block option"

record candidate = projection +
  ca_cut :: "cut option"
  ca_start :: nat
  ca_headCost :: int

record cursor_projection = projection +
  cp_mode :: cursor_mode

definition message_costs :: "estimator \<Rightarrow> cursor_input \<Rightarrow> nat list result" where
  "message_costs es inp = rmap (message_cost es) (ci_messages inp)"

definition suffix_cost :: "nat list \<Rightarrow> nat \<Rightarrow> int" where
  "suffix_cost costs i = int (sum_list (drop i costs))"

definition default_start :: "cut option \<Rightarrow> nat" where
  "default_start co = (case co of None \<Rightarrow> 0 | Some c \<Rightarrow> cut_start c)"

definition candidate_at ::
  "crypto \<Rightarrow> estimator \<Rightarrow> cursor_input \<Rightarrow> nat list \<Rightarrow> cut option \<Rightarrow> nat \<Rightarrow> bool \<Rightarrow> candidate result" where
  "candidate_at cr es inp costs co start bounded =
     rbind (if co = None \<and> start = 0 then Inr None else rbind (notice_of cr es inp co start) (\<lambda>n. Inr (Some n))) (\<lambda>head.
     let messages = (case head of None \<Rightarrow> [] | Some n \<Rightarrow> [no_message n]) @ drop start (ci_messages inp);
         measured = ci_measure inp messages;
         bound = (if measured = None \<and> bounded then ci_bound inp messages else None);
         cost = (case head of None \<Rightarrow> 0 | Some n \<Rightarrow> int (no_cost n))
     in Inr \<lparr>cp_messages = messages,
       cp_estimatedTokens = (case measured of Some t \<Rightarrow> t
         | None \<Rightarrow> (case bound of Some t \<Rightarrow> t | None \<Rightarrow> ci_systemTokens inp + cost + suffix_cost costs start)),
       cp_measured = (measured \<noteq> None),
       cp_source = (if measured \<noteq> None then Provider else if bound \<noteq> None then Provider_bound else Heuristic),
       cp_omittedSummaries = (case head of None \<Rightarrow> 0 | Some n \<Rightarrow> no_omitted n),
       cp_missingRanges = (case head of None \<Rightarrow> 0 | Some n \<Rightarrow> no_missing n),
       cp_projectedThrough = map_option cut_id co,
       cp_projectedAnchor = Option.bind head no_anchor,
       cp_block = Option.bind head no_block,
       ca_cut = co, ca_start = start, ca_headCost = cost\<rparr>)"

definition with_mode :: "cursor_mode \<Rightarrow> candidate \<Rightarrow> cursor_projection" where
  "with_mode mode c = projection.extend (projection.truncate c) \<lparr>cp_mode = mode\<rparr>"

section \<open>Fitting the hard budget\<close>

text \<open>Dropping messages from the front, at most \<open>n\<close> of them, while the request is too large or unsafe.\<close>

fun drop_messages :: "nat \<Rightarrow> int \<Rightarrow> int \<Rightarrow> bool list \<Rightarrow> nat list \<Rightarrow> nat \<Rightarrow> int \<Rightarrow> nat \<times> int" where
  "drop_messages 0 hard reserve safe costs start estimated = (start, estimated)"
| "drop_messages (Suc n) hard reserve safe costs start estimated =
     (if estimated + reserve > hard \<or> \<not> safe ! start
      then drop_messages n hard reserve safe costs (Suc start) (estimated - int (costs ! start))
      else (start, estimated))"

text \<open>Giving messages back until the start is safe.\<close>

fun restore_messages :: "nat \<Rightarrow> bool list \<Rightarrow> nat list \<Rightarrow> nat \<Rightarrow> int \<Rightarrow> nat \<times> int" where
  "restore_messages lo safe costs 0 estimated = (0, estimated)"
| "restore_messages lo safe costs (Suc start) estimated =
     (if Suc start > lo \<and> \<not> safe ! Suc start
      then restore_messages lo safe costs start (estimated + int (costs ! start))
      else (Suc start, estimated))"

definition fit ::
  "crypto \<Rightarrow> estimator \<Rightarrow> cursor_input \<Rightarrow> nat list \<Rightarrow> candidate \<Rightarrow> cursor_mode \<Rightarrow> cursor_projection result" where
  "fit cr es inp costs p mode =
     (if cp_estimatedTokens p \<le> ci_hardTokens inp then Inr (with_mode mode p)
      else let count = length (ci_messages inp); safe = toolSafeStarts (ci_messages inp);
          reserve = int (text_tokens es (droppedMarker count)) + 2;
          (start1, estimated1) = drop_messages (count - 1 - ca_start p) (ci_hardTokens inp) reserve safe costs
            (ca_start p) (cp_estimatedTokens p);
          (start, estimated) = restore_messages (ca_start p) safe costs start1 estimated1
        in if start = ca_start p then Inr (with_mode mode p)
           else rbind (candidate_at cr es inp costs (ca_cut p) start False) (\<lambda>trimmed.
             Inr (with_mode mode (trimmed\<lparr>cp_estimatedTokens := estimated - ca_headCost p + ca_headCost trimmed,
               cp_measured := False, cp_source := Heuristic\<rparr>))))"

section \<open>Choosing a cut\<close>

text \<open>The cuts the summaries end at, in order.\<close>

definition summary_cuts :: "cursor_input \<Rightarrow> cut list" where
  "summary_cuts inp = List.map_filter (\<lambda>l. cutThrough inp (ne_end (lo_segment l))) (located_summaries inp)"

definition tail_target :: "cursor_input \<Rightarrow> int" where
  "tail_target inp = int (ci_contextLimit inp div 4)"

definition summary_cut :: "cursor_input \<Rightarrow> nat list \<Rightarrow> cut option" where
  "summary_cut inp costs =
     (case find (\<lambda>c. suffix_cost costs (cut_start c) \<le> tail_target inp) (summary_cuts inp) of
        Some c \<Rightarrow> Some c
      | None \<Rightarrow> last_opt (summary_cuts inp))"

text \<open>Archiving further than the summaries reach, message by message.\<close>

fun later_cut :: "cursor_input \<Rightarrow> nat list \<Rightarrow> nat \<Rightarrow> nat list \<Rightarrow> cut option \<Rightarrow> cut option" where
  "later_cut inp costs after [] latest = latest"
| "later_cut inp costs after (i # is) latest =
     (case Option.bind (am_id (ci_messages inp ! i)) (cutThrough inp) of
        None \<Rightarrow> later_cut inp costs after is latest
      | Some c \<Rightarrow>
          if cut_start c \<ge> length (ci_messages inp) \<or> cut_start c \<le> after then later_cut inp costs after is latest
          else if suffix_cost costs (cut_start c) \<le> tail_target inp then Some c
          else later_cut inp costs after is (Some c))"

definition fired_cut :: "crypto \<Rightarrow> estimator \<Rightarrow> cursor_input \<Rightarrow> nat list \<Rightarrow> cut option result" where
  "fired_cut cr es inp costs =
     (let first = summary_cut inp costs in
      rbind (case first of
          None \<Rightarrow> Inr True
        | Some c \<Rightarrow>
            let anchored = withAnchor inp c None in
            rbind (candidate_at cr es inp costs (Some anchored) (cut_start anchored) False) (\<lambda>p.
              Inr (cp_estimatedTokens p > ci_softTokens inp))) (\<lambda>further.
      if further
      then let from = (case first of None \<Rightarrow> 0 | Some c \<Rightarrow> Suc (cut_through c));
               after = (case first of None \<Rightarrow> 0 | Some c \<Rightarrow> cut_start c)
           in Inr (case later_cut inp costs after [from..<length (ci_messages inp)] None of
                Some c \<Rightarrow> Some c | None \<Rightarrow> first)
      else Inr first))"

section \<open>The projection\<close>

definition keep_previous ::
  "crypto \<Rightarrow> estimator \<Rightarrow> cursor_input \<Rightarrow> nat list \<Rightarrow> candidate option result" where
  "keep_previous cr es inp costs =
     (case Option.bind (ci_projectedThrough inp) (cutThrough inp) of
        None \<Rightarrow> Inr None
      | Some previous \<Rightarrow>
          let c = withAnchor inp previous (ci_projectedAnchor inp) in
          rbind (candidate_at cr es inp costs (Some c) (cut_start c) True) (\<lambda>kept.
            Inr (if cp_estimatedTokens kept \<le> ci_softTokens inp then Some kept else None)))"

definition selectCursorProjection :: "crypto \<Rightarrow> estimator \<Rightarrow> cursor_input \<Rightarrow> cursor_projection result" where
  "selectCursorProjection cr es inp =
     rbind (message_costs es inp) (\<lambda>costs.
     rbind (keep_previous cr es inp costs) (\<lambda>previous.
     case previous of
       Some kept \<Rightarrow> fit cr es inp costs kept Kept
     | None \<Rightarrow>
         rbind (candidate_at cr es inp costs None 0 True) (\<lambda>raw.
         if cp_estimatedTokens raw \<le> ci_softTokens inp \<or> length (ci_messages inp) < 2
         then fit cr es inp costs raw Raw
         else rbind (fired_cut cr es inp costs) (\<lambda>co.
           case co of
             None \<Rightarrow> fit cr es inp costs raw Raw
           | Some c \<Rightarrow>
               let anchored = withAnchor inp c None in
               rbind (candidate_at cr es inp costs (Some anchored) (cut_start anchored) False) (\<lambda>fired.
               if cp_estimatedTokens fired > ci_hardTokens inp \<and> cp_estimatedTokens raw \<le> ci_hardTokens inp
               then fit cr es inp costs raw Raw
               else fit cr es inp costs fired Fired)))))"

end
