(* ===== verification/CursorSafety.thy ===== *)
theory CursorSafety
  imports Cursor Identity
begin

text \<open>
  What the cursor projection guarantees: the tail it sends never separates a tool result from its call,
  its estimate is the size of the messages it sends, and its archive names what no summary covers.
\<close>

section \<open>Tool-safe starts\<close>

definition calls_tool :: "jsval \<Rightarrow> jsval \<Rightarrow> bool" where
  "calls_tool part k \<longleftrightarrow> get_prop part (js ''type'') = str ''tool-call'' \<and> get_prop part (js ''id'') = k"

definition has_result :: "jsval \<Rightarrow> jsval \<Rightarrow> bool" where
  "has_result part k \<longleftrightarrow> get_prop part (js ''type'') = str ''tool-result'' \<and> get_prop part (js ''id'') = k"

lemma sum_list_update_int: "j < length xs \<Longrightarrow> sum_list (xs[j := v]) = sum_list xs + (v - xs ! j)" for xs :: "int list"
  by (induction xs arbitrary: j) (auto split: nat.split)

lemma bump_sum:
  assumes "j < length xs"
  shows "sum_list (take (Suc i) (bump j d xs)) = sum_list (take (Suc i) xs) + (if j \<le> i then d else (0::int))"
proof (cases "j \<le> i")
  case True
  with assms have "j < length (take (Suc i) xs)" by simp
  from sum_list_update_int [OF this, of "xs ! j + d"] True show ?thesis
    by (simp add: bump_def take_update_swap)
next
  case False
  then have "(take (Suc i) xs)[j := xs ! j + d] = take (Suc i) xs" by (intro list_update_beyond) simp
  with False show ?thesis by (simp add: bump_def take_update_swap)
qed

lemma length_bump [simp]: "length (bump j d xs) = length xs"
  by (simp add: bump_def)

text \<open>The spans from a call to a later result that a start would separate.\<close>

definition open_spans :: "(nat \<times> nat) list \<Rightarrow> nat \<Rightarrow> nat" where
  "open_spans spans i = length (filter (\<lambda>p. fst p < i \<and> i \<le> snd p) spans)"

text \<open>
  What the scan knows: \<open>C\<close> holds the messages calling an ID, \<open>R\<close> the results; the scan has the latest call
  of every ID, counts the open spans at every start, and has a span for every result whose latest call
  is in an earlier message.
\<close>

definition scan_ok ::
  "nat \<Rightarrow> (jsval \<Rightarrow> nat set) \<Rightarrow> (nat \<times> jsval) set \<Rightarrow> (jsval \<rightharpoonup> nat) \<times> int list \<Rightarrow> (nat \<times> nat) list \<Rightarrow> bool" where
  "scan_ok n C R st spans \<longleftrightarrow>
     (\<forall>k. fst st k = None \<longleftrightarrow> C k = {})
     \<and> (\<forall>k c. fst st k = Some c \<longrightarrow> c \<in> C k \<and> (\<forall>c'\<in>C k. c' \<le> c))
     \<and> (\<forall>i. sum_list (take (Suc i) (snd st)) = int (open_spans spans i))
     \<and> (\<forall>(r, k)\<in>R. \<forall>c\<in>C k. c < r \<longrightarrow> (\<exists>c'\<in>C k. c \<le> c' \<and> c' \<le> r \<and> (c' = r \<or> (c', r) \<in> set spans)))
     \<and> (\<forall>k. \<forall>c\<in>C k. c \<le> n) \<and> (\<forall>(r, k)\<in>R. r \<le> n) \<and> n + 2 \<le> length (snd st)"

lemma scan_ok_call:
  assumes "scan_ok n C R (calls, unsafe) spans"
  shows "scan_ok n (C(k := insert n (C k))) R (calls(k \<mapsto> n), unsafe) spans"
proof -
  note o = assms [unfolded scan_ok_def, simplified]
  have "\<forall>(r, k')\<in>R. \<forall>c\<in>(C(k := insert n (C k))) k'. c < r \<longrightarrow>
      (\<exists>c'\<in>(C(k := insert n (C k))) k'. c \<le> c' \<and> c' \<le> r \<and> (c' = r \<or> (c', r) \<in> set spans))"
  proof (intro ballI, clarify)
    fix r k' c assume a: "(r, k') \<in> R" "c \<in> (C(k := insert n (C k))) k'" "c < r"
    from o a(1) have "r \<le> n" by fast
    with a have "c \<in> C k'" by (auto split: if_splits)
    with o a obtain c' where "c' \<in> C k'" "c \<le> c' \<and> c' \<le> r \<and> (c' = r \<or> (c', r) \<in> set spans)" by blast
    moreover from this have "c' \<in> (C(k := insert n (C k))) k'" by auto
    ultimately show "\<exists>c'\<in>(C(k := insert n (C k))) k'. c \<le> c' \<and> c' \<le> r \<and> (c' = r \<or> (c', r) \<in> set spans)" by blast
  qed
  moreover have "\<forall>k'. \<forall>c\<in>(C(k := insert n (C k))) k'. c \<le> n" using o by auto
  moreover have "\<forall>k' c. (calls(k \<mapsto> n)) k' = Some c \<longrightarrow> c \<in> (C(k := insert n (C k))) k' \<and> (\<forall>c'\<in>(C(k := insert n (C k))) k'. c' \<le> c)"
    using o by auto
  ultimately show ?thesis using o unfolding scan_ok_def by auto
qed

text \<open>A result whose call is unknown or in its own message opens nothing; another one opens a span.\<close>

lemma scan_ok_result:
  assumes ok: "scan_ok n C R (calls, unsafe) spans"
    and spans': "spans' = (case calls k of Some c \<Rightarrow> if c = n then spans else (c, n) # spans | None \<Rightarrow> spans)"
    and unsafe': "unsafe' = (case calls k of
      Some c \<Rightarrow> if c = n then unsafe else bump (n + 1) (- 1) (bump (c + 1) 1 unsafe) | None \<Rightarrow> unsafe)"
  shows "scan_ok n C (insert (n, k) R) (calls, unsafe') spans'"
proof -
  note o = ok [unfolded scan_ok_def, simplified]
  have sub: "set spans \<subseteq> set spans'" by (auto simp: spans' split: option.splits)
  have new: "\<forall>c\<in>C k. c < n \<longrightarrow> (\<exists>c'\<in>C k. c \<le> c' \<and> c' \<le> n \<and> (c' = n \<or> (c', n) \<in> set spans'))"
  proof (intro ballI impI)
    fix c assume c: "c \<in> C k" "c < n"
    with o obtain c' where c': "calls k = Some c'" by (metis empty_iff option.exhaust)
    with o c have "c' \<in> C k" "c \<le> c'" by blast+
    moreover from this o have "c' \<le> n" by blast
    moreover have "c' = n \<or> (c', n) \<in> set spans'" using c' by (simp add: spans')
    ultimately show "\<exists>c'\<in>C k. c \<le> c' \<and> c' \<le> n \<and> (c' = n \<or> (c', n) \<in> set spans')" by blast
  qed
  have old: "\<forall>(r, k)\<in>R. \<forall>c\<in>C k. c < r \<longrightarrow> (\<exists>c'\<in>C k. c \<le> c' \<and> c' \<le> r \<and> (c' = r \<or> (c', r) \<in> set spans'))"
  proof (intro ballI, clarify)
    fix r k c assume "(r, k) \<in> R" "c \<in> C k" "c < r"
    with o obtain c' where "c' \<in> C k" "c \<le> c' \<and> c' \<le> r \<and> (c' = r \<or> (c', r) \<in> set spans)" by blast
    with sub show "\<exists>c'\<in>C k. c \<le> c' \<and> c' \<le> r \<and> (c' = r \<or> (c', r) \<in> set spans')" by blast
  qed
  have sums: "sum_list (take (Suc i) unsafe') = int (open_spans spans' i)" for i
  proof -
    have s0: "sum_list (take (Suc i) unsafe) = int (open_spans spans i)" using o by blast
    show ?thesis
    proof (cases "calls k")
      case None
      then show ?thesis by (simp add: unsafe' spans' s0)
    next
      case (Some c)
      with o have c: "c \<le> n" by blast
      show ?thesis
      proof (cases "c = n")
        case True
        with Some show ?thesis by (simp add: unsafe' spans' s0)
      next
        case False
        with c o have "c + 1 < length unsafe" "n + 1 < length unsafe" "c < n" by auto
        with Some False s0 show ?thesis by (simp add: unsafe' spans' bump_sum open_spans_def)
      qed
    qed
  qed
  have "length unsafe' = length unsafe" by (simp add: unsafe' split: option.splits)
  with o new old sums show ?thesis unfolding scan_ok_def by auto
qed

text \<open>One part, one message, all messages.\<close>

definition with_calls :: "nat \<Rightarrow> jsval list \<Rightarrow> (jsval \<Rightarrow> nat set) \<Rightarrow> jsval \<Rightarrow> nat set" where
  "with_calls n parts C = (\<lambda>k. C k \<union> {c. c = n \<and> (\<exists>part\<in>set parts. calls_tool part k)})"

definition with_results :: "nat \<Rightarrow> jsval list \<Rightarrow> (nat \<times> jsval) set \<Rightarrow> (nat \<times> jsval) set" where
  "with_results n parts R = R \<union> {(r, k). r = n \<and> (\<exists>part\<in>set parts. has_result part k)}"

lemma scan_ok_part:
  assumes "scan_ok n C R st spans"
  shows "\<exists>spans'. scan_ok n (with_calls n [part] C) (with_results n [part] R) (tool_part n part st) spans'"
proof -
  obtain calls unsafe where st: "st = (calls, unsafe)" by (cases st)
  let ?k = "get_prop part (js ''id'')" and ?type = "get_prop part (js ''type'')"
  have differ: "str ''tool-call'' \<noteq> str ''tool-result''" by (simp add: str_def)
  consider (call) "?type = str ''tool-call''" | (result) "?type = str ''tool-result''"
    | (other) "?type \<noteq> str ''tool-call''" "?type \<noteq> str ''tool-result''" by blast
  then show ?thesis
  proof cases
    case call
    with differ have "with_calls n [part] C = C(?k := insert n (C ?k))" "with_results n [part] R = R"
      by (auto simp: with_calls_def with_results_def calls_tool_def has_result_def fun_eq_iff)
    moreover have "tool_part n part st = (calls(?k \<mapsto> n), unsafe)" using call differ by (simp add: tool_part_def st)
    ultimately show ?thesis using scan_ok_call [OF assms [unfolded st], of ?k] by auto
  next
    case result
    with differ have "with_calls n [part] C = C" "with_results n [part] R = insert (n, ?k) R"
      by (auto simp: with_calls_def with_results_def calls_tool_def has_result_def)
    moreover have "tool_part n part st = (calls, case calls ?k of
        Some c \<Rightarrow> if c = n then unsafe else bump (n + 1) (- 1) (bump (c + 1) 1 unsafe) | None \<Rightarrow> unsafe)"
      using result differ by (simp add: tool_part_def st split: option.split)
    ultimately show ?thesis using scan_ok_result [OF assms [unfolded st] refl refl, of ?k] by auto
  next
    case other
    then have "with_calls n [part] C = C" "with_results n [part] R = R" "tool_part n part st = st"
      by (auto simp: with_calls_def with_results_def calls_tool_def has_result_def tool_part_def st)
    with assms show ?thesis by auto
  qed
qed

lemma scan_ok_parts:
  assumes "scan_ok n C R st spans"
  shows "\<exists>spans'. scan_ok n (with_calls n parts C) (with_results n parts R) (fold (tool_part n) parts st) spans'"
  using assms
proof (induction parts arbitrary: C R st spans)
  case Nil
  then show ?case by (auto simp: with_calls_def with_results_def)
next
  case (Cons part parts)
  from scan_ok_part [OF Cons.prems] obtain spans' where
    "scan_ok n (with_calls n [part] C) (with_results n [part] R) (tool_part n part st) spans'" by blast
  from Cons.IH [OF this] obtain spans'' where
    "scan_ok n (with_calls n parts (with_calls n [part] C)) (with_results n parts (with_results n [part] R))
      (fold (tool_part n) parts (tool_part n part st)) spans''" by blast
  moreover have "with_calls n parts (with_calls n [part] C) = with_calls n (part # parts) C"
    "with_results n parts (with_results n [part] R) = with_results n (part # parts) R"
    by (auto simp: with_calls_def with_results_def)
  ultimately show ?case by auto
qed

lemma scan_ok_later: "scan_ok n C R st spans \<Longrightarrow> n + 3 \<le> length (snd st) \<Longrightarrow> scan_ok (Suc n) C R st spans"
  unfolding scan_ok_def by (auto; fastforce)

lemma length_tool_parts [simp]: "length (snd (fold (tool_part n) parts st)) = length (snd st)"
proof (induction parts arbitrary: st)
  case (Cons part parts)
  have "length (snd (tool_part n part st)) = length (snd st)"
    by (cases st) (simp add: tool_part_def Let_def split: option.split)
  with Cons show ?case by simp
qed simp

definition calls_from :: "nat \<Rightarrow> ai_message list \<Rightarrow> jsval \<Rightarrow> nat set" where
  "calls_from n ms k = {c. \<exists>j<length ms. c = n + j \<and> (\<exists>part\<in>set (am_content (ms ! j)). calls_tool part k)}"

definition results_from :: "nat \<Rightarrow> ai_message list \<Rightarrow> (nat \<times> jsval) set" where
  "results_from n ms = {(r, k). \<exists>j<length ms. r = n + j \<and> (\<exists>part\<in>set (am_content (ms ! j)). has_result part k)}"

lemma ex_less_Suc: "(\<exists>j<Suc n. P j) \<longleftrightarrow> P 0 \<or> (\<exists>j<n. P (Suc j))"
  using less_Suc_eq_0_disj by auto

lemma calls_from_Cons: "with_calls n (am_content m) C k \<union> calls_from (Suc n) ms k = C k \<union> calls_from n (m # ms) k"
  by (auto simp: with_calls_def calls_from_def ex_less_Suc)

lemma results_from_Cons: "with_results n (am_content m) R \<union> results_from (Suc n) ms = R \<union> results_from n (m # ms)"
  by (auto simp: with_results_def results_from_def ex_less_Suc)

lemma scan_ok_scan:
  assumes "scan_ok n C R st spans" "n + length ms + 2 \<le> length (snd st)"
  shows "\<exists>n' spans' C' R'. scan_ok n' C' R' (tool_scan n ms st) spans'
    \<and> (\<forall>k. C' k = C k \<union> calls_from n ms k) \<and> R' = R \<union> results_from n ms"
  using assms
proof (induction ms arbitrary: n C R st spans)
  case Nil
  then show ?case by (auto simp: calls_from_def results_from_def)
next
  case (Cons m ms)
  from scan_ok_parts [OF Cons.prems(1), of "am_content m"] obtain spans' where
    "scan_ok n (with_calls n (am_content m) C) (with_results n (am_content m) R) (fold (tool_part n) (am_content m) st) spans'" by blast
  from scan_ok_later [OF this] Cons.prems(2)
  have "scan_ok (Suc n) (with_calls n (am_content m) C) (with_results n (am_content m) R) (fold (tool_part n) (am_content m) st) spans'"
    by simp
  from Cons.IH [OF this] Cons.prems(2) show ?case by (simp add: calls_from_Cons results_from_Cons)
qed

lemma toolSafeStarts_sound:
  assumes "toolSafeStarts ms ! i" "i \<le> r" "r < length ms" "part \<in> set (am_content (ms ! r))" "has_result part k"
    and "c < i" "part' \<in> set (am_content (ms ! c))" "calls_tool part' k"
  shows "\<exists>c' part''. i \<le> c' \<and> c' \<le> r \<and> part'' \<in> set (am_content (ms ! c')) \<and> calls_tool part'' k"
proof -
  let ?st = "(Map.empty, replicate (length ms + 2) 0)"
  have "sum_list (take (Suc i) (replicate (length ms + 2) 0)) = (0::int)" for i
    by (simp only: take_replicate sum_list_replicate)
  then have "scan_ok 0 (\<lambda>_. {}) {} ?st []"
    by (simp only: scan_ok_def open_spans_def) simp
  from scan_ok_scan [OF this, of ms] obtain n spans C R where ok: "scan_ok n C R (tool_scan 0 ms ?st) spans"
    and C: "\<forall>k. C k = calls_from 0 ms k" and R: "R = results_from 0 ms" by auto
  have "c < length ms" using assms(2,3,6) by simp
  then have "c \<in> C k" using C assms(7,8) by (auto simp: calls_from_def)
  moreover have "(r, k) \<in> R" using R assms(3-5) by (auto simp: results_from_def)
  ultimately obtain c' where c': "c' \<in> C k" "c \<le> c'" "c' \<le> r" "c' = r \<or> (c', r) \<in> set spans"
    using ok assms(2,6) unfolding scan_ok_def by fastforce
  have "sum_list (take (Suc i) (unsafe_counts ms)) = 0"
    using assms(1-3) by (simp add: toolSafeStarts_def del: upt_Suc)
  then have "open_spans spans i = 0" using ok by (simp add: scan_ok_def unsafe_counts_def)
  then have none: "\<not> (c' < i \<and> i \<le> r)" if "(c', r) \<in> set spans"
    using that by (auto simp: open_spans_def filter_empty_conv)
  with c' assms(2) have "i \<le> c'" by auto
  with c' C show ?thesis by (auto simp: calls_from_def)
qed

lemma toolSafeStarts_zero: "toolSafeStarts ms ! 0"
proof -
  let ?st = "(Map.empty, replicate (length ms + 2) 0)"
  have "sum_list (take (Suc i) (replicate (length ms + 2) 0)) = (0::int)" for i
    by (simp only: take_replicate sum_list_replicate)
  then have "scan_ok 0 (\<lambda>_. {}) {} ?st []"
    by (simp only: scan_ok_def open_spans_def) simp
  from scan_ok_scan [OF this, of ms] obtain n spans C R where ok: "scan_ok n C R (tool_scan 0 ms ?st) spans" by auto
  then have "sum_list (take (Suc 0) (unsafe_counts ms)) = int (open_spans spans 0)"
    unfolding scan_ok_def unsafe_counts_def by blast
  then show ?thesis by (simp add: toolSafeStarts_def open_spans_def del: upt_Suc)
qed

section \<open>Every start is safe\<close>

abbreviation safe_start :: "cursor_input \<Rightarrow> nat \<Rightarrow> bool" where
  "safe_start inp i \<equiv> i \<le> length (ci_messages inp) \<and> toolSafeStarts (ci_messages inp) ! i"

lemma safe_before_le: "safe_before safe i \<le> i"
  by (induction i) auto

lemma safe_before_safe: "safe_before safe i = 0 \<or> safe ! safe_before safe i"
  by (induction i) auto

lemma message_at_less: "message_at inp i = Some p \<Longrightarrow> p < length (ci_messages inp)"
  unfolding message_at_def by (drule last_index_SomeD) simp

lemma cutThrough_safe: "cutThrough inp i = Some c \<Longrightarrow> safe_start inp (cut_start c) \<and> 0 < cut_start c"
proof -
  assume cut: "cutThrough inp i = Some c"
  then obtain p where p: "message_at inp i = Some p" by (auto simp: cutThrough_def split: option.splits)
  let ?ms = "ci_messages inp"
  let ?safe = "toolSafeStarts ?ms" and ?next = "p + 1 + length (takeWhile tool_message (drop (p + 1) ?ms))"
  from cut p have start: "cut_start c = (if ?next \<ge> length ?ms \<or> \<not> ?safe ! ?next then safe_before ?safe (p + 1) else ?next)"
    and pos: "0 < cut_start c"
    by (auto simp: cutThrough_def Let_def split: if_splits)
  show ?thesis
  proof (cases "?next \<ge> length ?ms \<or> \<not> ?safe ! ?next")
    case True
    with start have "cut_start c = safe_before ?safe (p + 1)" by simp
    with pos safe_before_le [of ?safe "p + 1"] safe_before_safe [of ?safe "p + 1"] message_at_less [OF p]
    show ?thesis by simp
  next
    case False
    with start pos show ?thesis by simp
  qed
qed

lemma withAnchor_start [simp]: "cut_start (withAnchor inp c a) = cut_start c" "cut_id (withAnchor inp c a) = cut_id c"
  by (simp_all add: withAnchor_def Let_def split: option.split)

text \<open>A candidate sends at most a notice and then the messages from its start.\<close>

definition candidate_ok :: "estimator \<Rightarrow> cursor_input \<Rightarrow> candidate \<Rightarrow> bool" where
  "candidate_ok es inp p \<longleftrightarrow> safe_start inp (ca_start p)
     \<and> (\<exists>head. cp_messages p = head @ drop (ca_start p) (ci_messages inp) \<and> length head \<le> 1 \<and> (head = [] \<longrightarrow> ca_start p = 0)
        \<and> (\<exists>costs. rmap (message_cost es) head = Inr costs \<and> ca_headCost p = int (sum_list costs)))"

lemma candidate_at_ok:
  assumes run: "candidate_at cr es inp costs co start bounded = Inr p" and safe: "safe_start inp start"
  shows "candidate_ok es inp p \<and> ca_start p = start \<and> ca_cut p = co"
proof -
  from run obtain head where head: "(if co = None \<and> start = 0 then Inr None else rbind (notice_of cr es inp co start) (\<lambda>n. Inr (Some n))) = Inr head"
    and p: "cp_messages p = (case head of None \<Rightarrow> [] | Some n \<Rightarrow> [no_message n]) @ drop start (ci_messages inp)"
      "ca_start p = start" "ca_cut p = co" "ca_headCost p = (case head of None \<Rightarrow> 0 | Some n \<Rightarrow> int (no_cost n))"
    by (auto simp: candidate_at_def Let_def)
  show ?thesis
  proof (cases head)
    case None
    with head have "start = 0" by (auto split: if_splits)
    with None p safe show ?thesis by (auto simp: candidate_ok_def)
  next
    case (Some n)
    with head have "notice_of cr es inp co start = Inr n" by (auto split: if_splits)
    then have "message_cost es (no_message n) = Inr (no_cost n)" by (auto simp: notice_of_def Let_def)
    with Some p safe show ?thesis by (auto simp: candidate_ok_def)
  qed
qed

lemma drop_messages_le:
  "drop_messages n hard reserve safe costs start estimated = (s, e) \<Longrightarrow> start \<le> s \<and> s \<le> start + n"
  by (induction n hard reserve safe costs start estimated rule: drop_messages.induct) (fastforce split: if_splits)+

lemma restore_messages_safe:
  "restore_messages lo safe costs s e = (s', e') \<Longrightarrow> lo \<le> s \<Longrightarrow> lo \<le> s' \<and> s' \<le> s \<and> (s' = lo \<or> safe ! s')"
  by (induction lo safe costs s e rule: restore_messages.induct) (fastforce split: if_splits)+

lemma with_mode_messages [simp]:
  "cp_messages (with_mode mode p) = cp_messages p" "cp_estimatedTokens (with_mode mode p) = cp_estimatedTokens p"
  "cp_mode (with_mode mode p) = mode"
  by (simp_all add: with_mode_def projection.defs)

text \<open>Without measurements of the provider an estimate is the sum of its parts, and dropping keeps it so.\<close>

definition unmeasured :: "cursor_input \<Rightarrow> bool" where
  "unmeasured inp \<longleftrightarrow> (\<forall>ms. ci_measure inp ms = None \<and> ci_bound inp ms = None)"

lemma candidate_estimate:
  "candidate_at cr es inp costs co start bounded = Inr p \<Longrightarrow> unmeasured inp
    \<Longrightarrow> cp_estimatedTokens p = ci_systemTokens inp + ca_headCost p + suffix_cost costs (ca_start p)"
  by (auto simp: candidate_at_def Let_def unmeasured_def)

lemma suffix_cost_step: "i < length costs \<Longrightarrow> suffix_cost costs i = int (costs ! i) + suffix_cost costs (Suc i)"
  by (simp add: suffix_cost_def flip: Cons_nth_drop_Suc)

lemma drop_messages_cost:
  "drop_messages n hard reserve safe costs start estimated = (s, e) \<Longrightarrow> start + n \<le> length costs
    \<Longrightarrow> e - suffix_cost costs s = estimated - suffix_cost costs start"
  by (induction n hard reserve safe costs start estimated rule: drop_messages.induct)
    (auto simp: suffix_cost_step split: if_splits)

lemma restore_messages_cost:
  "restore_messages lo safe costs s e = (s', e') \<Longrightarrow> s \<le> length costs
    \<Longrightarrow> e' - suffix_cost costs s' = e - suffix_cost costs s"
  by (induction lo safe costs s e rule: restore_messages.induct) (auto simp: suffix_cost_step split: if_splits)

lemma fit_result:
  assumes run: "fit cr es inp costs p mode = Inr q" and p: "candidate_ok es inp p" and len: "length costs = length (ci_messages inp)"
    and est: "unmeasured inp \<longrightarrow> cp_estimatedTokens p = ci_systemTokens inp + ca_headCost p + suffix_cost costs (ca_start p)"
  shows "\<exists>t. candidate_ok es inp t \<and> cp_messages q = cp_messages t
    \<and> (unmeasured inp \<longrightarrow> cp_estimatedTokens q = ci_systemTokens inp + ca_headCost t + suffix_cost costs (ca_start t))"
proof -
  let ?ms = "ci_messages inp" and ?safe = "toolSafeStarts (ci_messages inp)"
  let ?n = "length ?ms - 1 - ca_start p" and ?reserve = "int (text_tokens es (droppedMarker (length ?ms))) + 2"
  obtain s1 e1 where d: "drop_messages ?n (ci_hardTokens inp) ?reserve ?safe costs (ca_start p) (cp_estimatedTokens p) = (s1, e1)"
    by fastforce
  obtain s e where r: "restore_messages (ca_start p) ?safe costs s1 e1 = (s, e)" by fastforce
  show ?thesis
  proof (cases "cp_estimatedTokens p \<le> ci_hardTokens inp \<or> s = ca_start p")
    case True
    with run d r have "q = with_mode mode p" by (auto simp: fit_def Let_def split: if_splits)
    with p est show ?thesis by (intro exI [of _ p]) simp
  next
    case False
    with run d r obtain t where t: "candidate_at cr es inp costs (ca_cut p) s False = Inr t" "cp_messages q = cp_messages t"
      "cp_estimatedTokens q = e - ca_headCost p + ca_headCost t"
      by (auto simp: fit_def Let_def)
    from p have start: "ca_start p \<le> length ?ms" by (simp add: candidate_ok_def)
    from drop_messages_le [OF d] start have s1: "ca_start p \<le> s1" "s1 \<le> length ?ms" by auto
    from restore_messages_safe [OF r s1(1)] False have s: "s \<le> s1" "?safe ! s" by auto
    with s1(2) have "safe_start inp s" by simp
    from candidate_at_ok [OF t(1) this] have t_ok: "candidate_ok es inp t" "ca_start t = s" by simp_all
    have "e - suffix_cost costs s = cp_estimatedTokens p - suffix_cost costs (ca_start p)"
      using drop_messages_cost [OF d] restore_messages_cost [OF r] start s1(2) len by simp
    with t t_ok est show ?thesis by (intro exI [of _ t]) auto
  qed
qed

lemma later_cut_safe:
  assumes "later_cut inp costs after is latest = Some c" "\<And>l. latest = Some l \<Longrightarrow> safe_start inp (cut_start l)"
  shows "safe_start inp (cut_start c)"
  using assms
proof (induction inp costs after "is" latest rule: later_cut.induct)
  case (2 inp costs after i "is" latest)
  show ?case
  proof (cases "Option.bind (am_id (ci_messages inp ! i)) (cutThrough inp)")
    case None
    with "2.IH"(1) "2.prems" show ?thesis by simp
  next
    case (Some d)
    then have "safe_start inp (cut_start d)" using cutThrough_safe by (auto simp: bind_eq_Some_conv)
    with Some 2 show ?thesis by (auto split: if_splits)
  qed
qed simp

lemma fired_cut_safe:
  assumes "fired_cut cr es inp costs = Inr (Some c)"
  shows "safe_start inp (cut_start c)"
proof -
  have first: "safe_start inp (cut_start d)" if "summary_cut inp costs = Some d" for d
  proof -
    from that have "d \<in> set (summary_cuts inp)"
      by (auto simp: summary_cut_def last_opt_def find_Some_iff split: option.splits if_splits)
    then show ?thesis using cutThrough_safe by (auto simp: summary_cuts_def List.map_filter_def)
  qed
  from assms consider "summary_cut inp costs = Some c"
    | "later_cut inp costs (case summary_cut inp costs of None \<Rightarrow> 0 | Some c \<Rightarrow> cut_start c)
        [case summary_cut inp costs of None \<Rightarrow> 0 | Some c \<Rightarrow> Suc (cut_through c)..<length (ci_messages inp)] None = Some c"
    by (auto simp: fired_cut_def Let_def split: option.splits if_splits)
  then show ?thesis
  proof cases
    case 1
    then show ?thesis by (rule first)
  next
    case 2
    then show ?thesis by (rule later_cut_safe) simp
  qed
qed

section \<open>The selection\<close>

lemma select_cases:
  assumes "selectCursorProjection cr es inp = Inr q"
  shows "\<exists>costs p mode. message_costs es inp = Inr costs \<and> fit cr es inp costs p mode = Inr q \<and> candidate_ok es inp p
    \<and> (unmeasured inp \<longrightarrow> cp_estimatedTokens p = ci_systemTokens inp + ca_headCost p + suffix_cost costs (ca_start p))"
proof -
  from assms obtain costs previous where costs: "message_costs es inp = Inr costs"
    and previous: "keep_previous cr es inp costs = Inr previous"
    by (auto simp: selectCursorProjection_def)
  have found: ?thesis
    if "candidate_at cr es inp costs co start bounded = Inr p" "safe_start inp start" "fit cr es inp costs p mode = Inr q"
    for p co start bounded mode
    using costs candidate_at_ok [OF that(1,2)] candidate_estimate [OF that(1)] that(3) by blast
  show ?thesis
  proof (cases previous)
    case (Some kept)
    with previous obtain c where c: "Option.bind (ci_projectedThrough inp) (cutThrough inp) = Some c"
      and kept: "candidate_at cr es inp costs (Some (withAnchor inp c (ci_projectedAnchor inp))) (cut_start c) True = Inr kept"
      by (auto simp: keep_previous_def Let_def split: option.splits if_splits)
    from c have "safe_start inp (cut_start c)" using cutThrough_safe by (auto simp: bind_eq_Some_conv)
    moreover from assms costs previous Some have "fit cr es inp costs kept Kept = Inr q" by (simp add: selectCursorProjection_def)
    ultimately show ?thesis by (rule found [OF kept])
  next
    case None
    with assms costs previous obtain raw where raw: "candidate_at cr es inp costs None 0 True = Inr raw"
      by (auto simp: selectCursorProjection_def)
    have zero: "safe_start inp 0" by (simp add: toolSafeStarts_zero)
    from assms costs previous None raw consider (raw) "fit cr es inp costs raw Raw = Inr q"
      | (fired) c fired where "fired_cut cr es inp costs = Inr (Some c)"
        "candidate_at cr es inp costs (Some (withAnchor inp c None)) (cut_start c) False = Inr fired"
        "fit cr es inp costs fired Fired = Inr q"
      by (auto simp: selectCursorProjection_def Let_def split: option.splits if_splits)
    then show ?thesis
    proof cases
      case raw
      with \<open>candidate_at cr es inp costs None 0 True = Inr raw\<close> zero show ?thesis by (rule found)
    next
      case fired
      from found [OF fired(2) fired_cut_safe [OF fired(1)] fired(3)] show ?thesis .
    qed
  qed
qed

lemma select_candidate:
  assumes "selectCursorProjection cr es inp = Inr q"
  obtains costs t where "message_costs es inp = Inr costs" "candidate_ok es inp t" "cp_messages q = cp_messages t"
    "unmeasured inp \<Longrightarrow> cp_estimatedTokens q = ci_systemTokens inp + ca_headCost t + suffix_cost costs (ca_start t)"
proof -
  from select_cases [OF assms] obtain costs p mode where costs: "message_costs es inp = Inr costs"
    and p: "fit cr es inp costs p mode = Inr q" "candidate_ok es inp p"
    and est: "unmeasured inp \<longrightarrow> cp_estimatedTokens p = ci_systemTokens inp + ca_headCost p + suffix_cost costs (ca_start p)"
    by blast
  have "length costs = length (ci_messages inp)" using costs by (simp add: message_costs_def rmap_length)
  from fit_result [OF p this est] costs that show thesis by blast
qed

section \<open>The properties\<close>

text \<open>
  C30. The tail of a cursor projection never separates a tool result from its call: what is sent is at
  most one notice and then a suffix of the request's messages, and when a message of the suffix holds the
  result of a call that an archived message makes, the call is also made in the suffix, no later than
  its result.
\<close>

theorem cursor_tail_keeps_calls:
  assumes "selectCursorProjection cr es inp = Inr q"
  shows "\<exists>head start. cp_messages q = head @ drop start (ci_messages inp) \<and> length head \<le> 1 \<and> start \<le> length (ci_messages inp)
    \<and> (\<forall>r k c. start \<le> r \<and> r < length (ci_messages inp) \<and> c < start
        \<and> (\<exists>part\<in>set (am_content (ci_messages inp ! r)). has_result part k)
        \<and> (\<exists>part\<in>set (am_content (ci_messages inp ! c)). calls_tool part k) \<longrightarrow>
        (\<exists>c'. start \<le> c' \<and> c' \<le> r \<and> (\<exists>part\<in>set (am_content (ci_messages inp ! c')). calls_tool part k)))"
proof -
  obtain t where t: "candidate_ok es inp t" "cp_messages q = cp_messages t"
    using select_candidate [OF assms] by metis
  then obtain head where head: "cp_messages q = head @ drop (ca_start t) (ci_messages inp)" "length head \<le> 1"
    and start: "ca_start t \<le> length (ci_messages inp)" "toolSafeStarts (ci_messages inp) ! ca_start t"
    by (auto simp: candidate_ok_def)
  from toolSafeStarts_sound [OF start(2)] head start(1) show ?thesis
    by (intro exI [of _ head] exI [of _ "ca_start t"]) blast
qed

text \<open>
  C31. The estimate of a cursor projection is the size of what it sends: without measurements of the
  provider it is the system's tokens plus the cost of every message of the projected request, also after
  messages were dropped to fit the hard budget.
\<close>

theorem cursor_estimate_is_materialized:
  assumes "selectCursorProjection cr es inp = Inr q" "\<And>ms. ci_measure inp ms = None" "\<And>ms. ci_bound inp ms = None"
  shows "\<exists>ns. rmap (message_cost es) (cp_messages q) = Inr ns
    \<and> cp_estimatedTokens q = ci_systemTokens inp + int (sum_list ns)"
proof -
  from assms(2,3) have "unmeasured inp" by (simp add: unmeasured_def)
  with select_candidate [OF assms(1)] obtain costs t where costs: "message_costs es inp = Inr costs" and t: "candidate_ok es inp t"
    "cp_messages q = cp_messages t" "cp_estimatedTokens q = ci_systemTokens inp + ca_headCost t + suffix_cost costs (ca_start t)"
    by metis
  then obtain head hs where head: "cp_messages q = head @ drop (ca_start t) (ci_messages inp)"
    "rmap (message_cost es) head = Inr hs" "ca_headCost t = int (sum_list hs)" by (auto simp: candidate_ok_def)
  from costs have "rmap (message_cost es) (drop (ca_start t) (ci_messages inp)) = Inr (drop (ca_start t) costs)"
    by (simp add: message_costs_def rmap_Inr_iff list_all2_dropI)
  with head(2) have "rmap (message_cost es) (cp_messages q) = Inr (hs @ drop (ca_start t) costs)"
    by (simp add: head(1) rmap_Inr_iff list_all2_appendI)
  with head(3) t(3) show ?thesis by (simp add: suffix_cost_def)
qed

section \<open>A sample request\<close>

definition plain_estimator :: estimator where
  "plain_estimator = \<lparr>es_alnum = (\<lambda>c. 97 \<le> c \<and> c \<le> 122), es_pdfPageCount = (\<lambda>_. 1)\<rparr>"

definition sample_message :: "string \<Rightarrow> jsstr option \<Rightarrow> jsval list \<Rightarrow> ai_message" where
  "sample_message role i parts = \<lparr>am_id = i, am_role = js role, am_content = parts, am_metadata = Undefined, am_native = Undefined\<rparr>"

text \<open>A prompt, a tool call with its result, and the next prompt; the first two records were archived before.\<close>

definition sample_input :: cursor_input where
  "sample_input = \<lparr>ci_sourceId = js ''s'', ci_messages =
     [sample_message ''user'' (Some (js ''a'')) [text_content (js ''hi'')],
      sample_message ''assistant'' (Some (js ''b'')) [Obj [field ''type'' (str ''tool-call''), field ''id'' (str ''k'')]],
      sample_message ''tool'' None [Obj [field ''type'' (str ''tool-result''), field ''id'' (str ''k'')]],
      sample_message ''user'' (Some (js ''c'')) [text_content (js ''go'')]],
     ci_summaries = [], ci_cachedBlock = None, ci_projectedThrough = Some (js ''b''), ci_projectedAnchor = None,
     ci_contextLimit = 100, ci_softTokens = 60, ci_hardTokens = 1000, ci_systemTokens = 0,
     ci_measure = (\<lambda>_. Some 5), ci_bound = (\<lambda>_. None)\<rparr>"

lemma sample_cut: "map_option cut_start (cutThrough sample_input (js ''b'')) = Some 3"
  by code_simp

lemma text_content_estimate [simp]: "estimationValue es (text_content t) = Inr (text_content t)"
  by (simp add: text_content_def property_def field_def str_def)

lemma text_estimates: "\<exists>n. estimateNativeTokens es (text_content t) = Inr n"
  by (simp add: text_content_def property_def field_def str_def unbounded_types_def)

lemma texts_cost:
  assumes "am_content m = map text_content ts" "am_metadata m = Undefined" "am_native m = Undefined"
  shows "\<exists>n. message_cost es m = Inr n"
proof -
  have "rmap (estimationValue es) (map text_content ts) = Inr (map text_content ts)"
    by (simp add: rmap_Inr_iff list_all2_conv_all_nth)
  moreover have "rmap (estimateNativeTokens es) (map text_content ts) = Inr (map (projr \<circ> estimateNativeTokens es) (map text_content ts))"
  proof (rule rmap_total)
    fix x assume "x \<in> set (map text_content ts)"
    then obtain t where "x = text_content t" by auto
    with text_estimates [of es t] show "estimateNativeTokens es x = Inr ((projr \<circ> estimateNativeTokens es) x)" by auto
  qed
  ultimately show ?thesis using assms
    by (auto simp: message_cost_def estimateMessage_def is_nullish_def property_def field_def str_def unbounded_types_def)
qed

lemma notice_exists: "anchor_message inp co start = None \<Longrightarrow> \<exists>n. notice_of cr es inp co start = Inr n"
proof -
  assume none: "anchor_message inp co start = None"
  have cost: "\<exists>n. message_cost es (notice_message cr t None) = Inr n" for t
    by (rule texts_cost [of _ "[t]"]) (simp_all add: notice_message_def)
  have total: "\<exists>n. r = Inr n \<Longrightarrow> \<exists>m. rbind r (\<lambda>n. Inr (f n)) = Inr m" for r :: "nat result" and f :: "nat \<Rightarrow> notice" by auto
  show ?thesis unfolding notice_of_def Let_def none by (rule total) (rule cost)
qed

lemma sample_costs: "\<exists>ns. message_costs plain_estimator sample_input = Inr ns"
  by (simp add: message_costs_def sample_input_def sample_message_def message_cost_def estimateMessage_def is_nullish_def
      property_def field_def str_def unbounded_types_def text_content_def)

lemma sample_projection:
  "\<exists>q. selectCursorProjection plain_crypto plain_estimator sample_input = Inr q \<and> cp_mode q = Kept"
proof -
  obtain ns where ns: "message_costs plain_estimator sample_input = Inr ns" using sample_costs by blast
  obtain c where c: "cutThrough sample_input (js ''b'') = Some c" "cut_start c = 3" using sample_cut by auto
  let ?c = "withAnchor sample_input c None"
  have user: "latestUser sample_input = Some 3" by code_simp
  have "cut_anchor c = None" using c(1) by (auto simp: cutThrough_def Let_def split: option.splits if_splits)
  then have "cut_anchor ?c = None" using c user by (simp add: withAnchor_def)
  then have "anchor_message sample_input (Some ?c) 3 = None" using user by (simp add: anchor_message_def)
  then obtain n where "notice_of plain_crypto plain_estimator sample_input (Some ?c) 3 = Inr n"
    using notice_exists by blast
  then obtain p where p: "candidate_at plain_crypto plain_estimator sample_input ns (Some ?c) 3 True = Inr p" "cp_estimatedTokens p = 5"
    by (auto simp: candidate_at_def Let_def sample_input_def)
  with c have "keep_previous plain_crypto plain_estimator sample_input ns = Inr (Some p)"
    by (simp add: keep_previous_def Let_def sample_input_def)
  moreover have "fit plain_crypto plain_estimator sample_input ns p Kept = Inr (with_mode Kept p)"
    using p(2) by (simp add: fit_def sample_input_def)
  ultimately show ?thesis using ns by (simp add: selectCursorProjection_def)
qed

theorem cursor_tail_keeps_calls_witness:
  "\<exists>q head start. selectCursorProjection plain_crypto plain_estimator sample_input = Inr q \<and> cp_mode q = Kept
    \<and> cp_messages q = head @ drop start (ci_messages sample_input) \<and> length head \<le> 1"
  using sample_projection cursor_tail_keeps_calls by metis

definition short_input :: cursor_input where
  "short_input = sample_input\<lparr>ci_messages := [hd (ci_messages sample_input)], ci_projectedThrough := None, ci_measure := (\<lambda>_. None)\<rparr>"

theorem cursor_estimate_is_materialized_witness:
  "\<exists>q ns. selectCursorProjection plain_crypto plain_estimator short_input = Inr q
    \<and> rmap (message_cost plain_estimator) (cp_messages q) = Inr ns \<and> cp_estimatedTokens q = int (sum_list ns)"
proof -
  have "case message_cost plain_estimator (hd (ci_messages sample_input)) of Inl e \<Rightarrow> False | Inr n \<Rightarrow> n \<le> 60" by code_simp
  then obtain n where n: "message_cost plain_estimator (hd (ci_messages sample_input)) = Inr n" "n \<le> 60"
    by (cases "message_cost plain_estimator (hd (ci_messages sample_input))") auto
  let ?i = short_input
  have input: "ci_messages ?i = [hd (ci_messages sample_input)]" "ci_projectedThrough ?i = None" "ci_measure ?i = (\<lambda>_. None)"
    "ci_bound ?i = (\<lambda>_. None)" "ci_softTokens ?i = 60" "ci_hardTokens ?i = 1000" "ci_systemTokens ?i = 0"
    by (simp_all add: short_input_def sample_input_def)
  have "\<exists>q. selectCursorProjection plain_crypto plain_estimator ?i = Inr q"
    using n by (simp add: selectCursorProjection_def message_costs_def keep_previous_def candidate_at_def fit_def suffix_cost_def
        Let_def input)
  then obtain q where q: "selectCursorProjection plain_crypto plain_estimator ?i = Inr q" by blast
  from cursor_estimate_is_materialized [OF q] input q show ?thesis by auto
qed

end
