(* ===== verification/CursorArchive.thy ===== *)
theory CursorArchive
  imports CursorSafety
begin

text \<open>
  What the archive of a cursor projection says about the messages it replaces: every summary that ends
  by the cut is rendered or counted as omitted, and every archived message with an ID that no such
  summary covers lies in one of the ranges the archive names as missing.
\<close>

section \<open>Gaps\<close>

definition covered_at :: "(nat \<times> nat) list \<Rightarrow> nat \<Rightarrow> bool" where
  "covered_at ranges i \<longleftrightarrow> (\<exists>r\<in>set ranges. fst r \<le> i \<and> i \<le> snd r)"

text \<open>The IDs at which a run of messages starts and ends.\<close>

definition run_ends :: "(nat \<times> jsstr) list \<Rightarrow> jsstr \<times> jsstr" where
  "run_ends run = (snd (hd run), snd (last run))"

definition block_of :: "'a list \<Rightarrow> 'a list \<Rightarrow> bool" where
  "block_of run xs \<longleftrightarrow> run \<noteq> [] \<and> (\<exists>before after. xs = before @ run @ after)"

lemma block_of_self: "block_of xs (xs @ ys) \<longleftrightarrow> xs \<noteq> []"
  by (auto simp: block_of_def intro: exI [of _ "[]"])

lemma block_of_append: "block_of run xs \<Longrightarrow> block_of run (ys @ xs)"
  unfolding block_of_def by (metis append.assoc)

lemma covered_at_dropWhile:
  fixes i :: nat
  assumes "sorted (map fst ranges)"
  defines "rest \<equiv> dropWhile (\<lambda>r. snd r < i) ranges"
  shows "(rest \<noteq> [] \<and> fst (hd rest) \<le> i) \<longleftrightarrow> covered_at ranges i"
    and "i \<le> j \<Longrightarrow> covered_at rest j \<longleftrightarrow> covered_at ranges j" and "sorted (map fst rest)"
proof -
  have split: "ranges = takeWhile (\<lambda>r. snd r < i) ranges @ rest" by (simp add: rest_def)
  have dropped: "snd r < i" if "r \<in> set (takeWhile (\<lambda>r. snd r < i) ranges)" for r using set_takeWhileD [OF that] by simp
  have mem: "r \<in> set ranges \<longleftrightarrow> r \<in> set (takeWhile (\<lambda>r. snd r < i) ranges) \<or> r \<in> set rest" for r
    using split by (metis Un_iff set_append)
  show later: "covered_at rest j \<longleftrightarrow> covered_at ranges j" if "i \<le> j" for j
    using that dropped mem unfolding covered_at_def by (meson leD le_trans)
  have sorted: "sorted (map fst rest)" using assms(1) split by (metis map_append sorted_append)
  then show "sorted (map fst rest)" .
  show "(rest \<noteq> [] \<and> fst (hd rest) \<le> i) \<longleftrightarrow> covered_at ranges i"
  proof
    assume a: "rest \<noteq> [] \<and> fst (hd rest) \<le> i"
    then have "\<not> snd (hd rest) < i" unfolding rest_def by (metis hd_dropWhile)
    with a have "covered_at rest i" unfolding covered_at_def by (intro bexI [of _ "hd rest"]) auto
    then show "covered_at ranges i" using later by simp
  next
    assume "covered_at ranges i"
    then have "covered_at rest i" using later [of i] by simp
    then obtain r where r: "r \<in> set rest" "fst r \<le> i" unfolding covered_at_def by blast
    then obtain x xs where "rest = x # xs" by (cases rest) auto
    with sorted r show "rest \<noteq> [] \<and> fst (hd rest) \<le> i" by auto
  qed
qed

lemma scan_gaps_runs:
  assumes "sorted (map fst ranges)" "sorted (map fst ms)"
  shows "\<exists>runs. scan_gaps ms ranges (if opened = [] then None else Some (run_ends opened)) = map run_ends runs
    \<and> concat runs = opened @ filter (\<lambda>m. \<not> covered_at ranges (fst m)) ms
    \<and> (\<forall>run\<in>set runs. block_of run (opened @ ms))"
  using assms
proof (induction ms arbitrary: ranges opened)
  case Nil
  then show ?case by (intro exI [of _ "if opened = [] then [] else [opened]"])
    (use block_of_self [of opened "[]"] in auto)
next
  case (Cons m ms)
  obtain i k where m: "m = (i, k)" by (cases m)
  let ?rest = "dropWhile (\<lambda>r. snd r < i) ranges"
  note c = covered_at_dropWhile [OF Cons.prems(1), of i]
  have later: "i \<le> fst m'" if "m' \<in> set ms" for m' using Cons.prems(2) that by (auto simp: m)
  have same: "filter (\<lambda>m. \<not> covered_at ?rest (fst m)) ms = filter (\<lambda>m. \<not> covered_at ranges (fst m)) ms"
    using c(2) later by (intro filter_cong) auto
  have sorted: "sorted (map fst ms)" using Cons.prems(2) by simp
  show ?case
  proof (cases "covered_at ranges i")
    case True
    from Cons.IH [OF c(3) sorted, of "[]"] obtain runs where runs: "scan_gaps ms ?rest None = map run_ends runs"
      "concat runs = filter (\<lambda>m. \<not> covered_at ranges (fst m)) ms" "\<forall>run\<in>set runs. block_of run ms"
      by (auto simp: same)
    let ?runs = "(if opened = [] then [] else [opened]) @ runs"
    have "scan_gaps (m # ms) ranges (if opened = [] then None else Some (run_ends opened)) = map run_ends ?runs"
      using True c(1) runs(1) by (simp add: m Let_def)
    moreover have "concat ?runs = opened @ filter (\<lambda>m. \<not> covered_at ranges (fst m)) (m # ms)" using True runs(2) by (simp add: m)
    moreover have "\<forall>run\<in>set ?runs. block_of run (opened @ m # ms)"
      using runs(3) block_of_append [of _ ms "opened @ [m]"] by (auto simp: block_of_self)
    ultimately show ?thesis by blast
  next
    case False
    have ends: "Some (case if opened = [] then None else Some (run_ends opened) of None \<Rightarrow> (k, k) | Some (f, l) \<Rightarrow> (f, k))
        = (if opened @ [m] = [] then None else Some (run_ends (opened @ [m])))"
      by (simp add: run_ends_def m)
    from Cons.IH [OF c(3) sorted, of "opened @ [m]"] obtain runs where
      "scan_gaps ms ?rest (if opened @ [m] = [] then None else Some (run_ends (opened @ [m]))) = map run_ends runs"
      "concat runs = (opened @ [m]) @ filter (\<lambda>m. \<not> covered_at ranges (fst m)) ms" "\<forall>run\<in>set runs. block_of run ((opened @ [m]) @ ms)"
      unfolding same by blast
    moreover have "(?rest \<noteq> [] \<and> fst (hd ?rest) \<le> i) = False" using False c(1) by blast
    then have "scan_gaps (m # ms) ranges g = scan_gaps ms ?rest (Some (case g of None \<Rightarrow> (k, k) | Some (f, l) \<Rightarrow> (f, k)))" for g
      unfolding m by (simp only: scan_gaps.simps Let_def if_False)
    then have "scan_gaps (m # ms) ranges (if opened = [] then None else Some (run_ends opened))
        = scan_gaps ms ?rest (if opened @ [m] = [] then None else Some (run_ends (opened @ [m])))"
      unfolding ends [symmetric] .
    ultimately show ?thesis using False by (intro exI [of _ runs]) (simp add: m)
  qed
qed

section \<open>The archive\<close>

lemma sorted_identified: "sorted is \<Longrightarrow> sorted (map fst (identified ms is))"
proof (induction "is")
  case (Cons i "is")
  have "set (map fst (identified ms is)) \<subseteq> set is" by (auto simp: identified_def List.map_filter_def)
  with Cons show ?case by (cases "am_id (ms ! i)") (auto simp: identified_def map_filter_simps)
qed (simp add: identified_def map_filter_simps)

lemma sorted_included: "sorted (map lo_start (included_summaries inp c))"
proof -
  have "sorted (map lo_start (located_summaries inp))"
    unfolding located_summaries_def by (rule sorted_js_sort) (auto simp: compare_located_def split: if_splits)
  then show ?thesis unfolding included_summaries_def by (rule sorted_filter)
qed

lemma take_summaries_prefix: "\<exists>rest. ls = take_summaries es remaining ls @ rest"
  by (induction es remaining ls rule: take_summaries.induct) (auto simp: Let_def)

text \<open>
  The summaries an archive draws on and the positions it accounts for: a cached block, used when no summary
  is available, stands for every message up to the one it reaches; otherwise the summaries that end by the
  cut stand for the messages they span. Without a cut there is nothing.
\<close>

definition archive_summaries :: "cursor_input \<Rightarrow> cut option \<Rightarrow> located list" where
  "archive_summaries inp co =
     (case (cached_through inp co, co) of (None, Some c) \<Rightarrow> included_summaries inp c | _ \<Rightarrow> [])"

definition archive_covers :: "cursor_input \<Rightarrow> cut option \<Rightarrow> nat \<Rightarrow> bool" where
  "archive_covers inp co i \<longleftrightarrow>
     (case cached_through inp co of
        Some (p, b) \<Rightarrow> i \<le> p
      | None \<Rightarrow> (\<exists>l\<in>set (archive_summaries inp co). lo_start l \<le> i \<and> i \<le> lo_end l))"

text \<open>The cached text, or the marker for the summaries left out.\<close>

definition archive_head :: "cursor_input \<Rightarrow> cut option \<Rightarrow> nat \<Rightarrow> jsstr list" where
  "archive_head inp co omitted =
     (case cached_through inp co of
        Some (p, b) \<Rightarrow> [ab_text b]
      | None \<Rightarrow> if omitted = 0 then [] else [js ''['' @ decimal omitted @ js '' older summaries omitted; use memory_search]''])"

lemma identified_append: "identified ms (is @ js') = identified ms is @ identified ms js'"
  by (induction "is") (auto simp: identified_def map_filter_simps split: option.splits)

lemma identified_positions: "m \<in> set (identified ms is) \<Longrightarrow> fst m \<in> set is"
  by (auto simp: identified_def List.map_filter_def)

lemma identified_after:
  "identified ms [Suc p..<n] = filter (\<lambda>m. \<not> fst m \<le> p) (identified ms [0..<n])"
  "\<exists>before. identified ms [0..<n] = before @ identified ms [Suc p..<n]"
proof -
  have split: "identified ms [0..<n] = identified ms [0..<min (Suc p) n] @ identified ms [Suc p..<n]"
  proof (cases "Suc p \<le> n")
    case True
    then have "[0..<n] = [0..<Suc p] @ [Suc p..<n]" by (metis le_add_diff_inverse upt_add_eq_append zero_le)
    with True show ?thesis by (simp add: identified_append min_absorb1 del: upt_Suc)
  next
    case False
    then show ?thesis by (simp add: identified_def map_filter_simps min_absorb2)
  qed
  have low: "fst m \<le> p" if "m \<in> set (identified ms [0..<min (Suc p) n])" for m
    using identified_positions [OF that] by simp
  have high: "\<not> fst m \<le> p" if "m \<in> set (identified ms [Suc p..<n])" for m
    using identified_positions [OF that] by simp
  have "filter (\<lambda>m. \<not> fst m \<le> p) (identified ms [0..<min (Suc p) n]) = []" using low by (simp add: filter_empty_conv)
  moreover have "filter (\<lambda>m. \<not> fst m \<le> p) (identified ms [Suc p..<n]) = identified ms [Suc p..<n]"
    using high by (simp add: filter_id_conv)
  ultimately show "identified ms [Suc p..<n] = filter (\<lambda>m. \<not> fst m \<le> p) (identified ms [0..<n])"
    unfolding split filter_append by simp
  from split show "\<exists>before. identified ms [0..<n] = before @ identified ms [Suc p..<n]" by blast
qed

lemma archive_runs:
  assumes "sorted (map fst ranges)" "sorted is"
  obtains runs where "scan_gaps (identified ms is) ranges None = map run_ends runs"
    "concat runs = filter (\<lambda>m. \<not> covered_at ranges (fst m)) (identified ms is)" "\<forall>run\<in>set runs. block_of run (identified ms is)"
  using scan_gaps_runs [where ranges = ranges and ms = "identified ms is" and opened = "[]",
      OF assms(1) sorted_identified [OF assms(2)]] by auto

lemma archive_of_cached:
  assumes "cached_through inp co = Some (p, b)"
  obtains runs where "archive_of es inp co end = \<lparr>ar_text = join [10, 10] (ab_text b # map gap_text (map run_ends runs)),
      ar_omitted = 0, ar_missing = length runs\<rparr>"
    "concat runs = filter (\<lambda>m. \<not> fst m \<le> p) (identified (ci_messages inp) [0..<end])"
    "\<forall>run\<in>set runs. block_of run (identified (ci_messages inp) [0..<end])"
proof -
  let ?all = "identified (ci_messages inp) [0..<end]" and ?ms = "identified (ci_messages inp) [Suc p..<end]"
  obtain runs where runs: "scan_gaps ?ms [] None = map run_ends runs"
    "concat runs = filter (\<lambda>m. \<not> covered_at [] (fst m)) ?ms" "\<forall>run\<in>set runs. block_of run ?ms"
    using archive_runs [of "[]" "[Suc p..<end]" "ci_messages inp"] by auto
  show thesis
  proof (rule that)
    show "archive_of es inp co end = \<lparr>ar_text = join [10, 10] (ab_text b # map gap_text (map run_ends runs)),
      ar_omitted = 0, ar_missing = length runs\<rparr>" by (simp add: archive_of_def assms runs(1))
    show "concat runs = filter (\<lambda>m. \<not> fst m \<le> p) ?all"
      using runs(2) by (simp add: covered_at_def identified_after(1))
    show "\<forall>run\<in>set runs. block_of run ?all"
      using runs(3) identified_after(2) [of "ci_messages inp" "end" p] block_of_append by metis
  qed
qed

lemma archive_of_summaries:
  assumes "cached_through inp co = None"
    "archive_summaries inp co = older @ rev (take_summaries es (ci_contextLimit inp div 20) (rev (archive_summaries inp co)))"
    "scan_gaps (identified (ci_messages inp) [0..<end]) (map (\<lambda>l. (lo_start l, lo_end l)) (archive_summaries inp co)) None = gaps"
  shows "archive_of es inp co end = \<lparr>ar_text = join [10, 10] (archive_head inp co (length older)
        @ map (summary_text \<circ> lo_segment) (rev (take_summaries es (ci_contextLimit inp div 20) (rev (archive_summaries inp co))))
        @ map gap_text gaps), ar_omitted = length older, ar_missing = length gaps\<rparr>"
proof (cases co)
  case None
  have "cached_through inp None = None" by (simp add: cached_through_def)
  then have none: "archive_summaries inp None = []" by (simp add: archive_summaries_def)
  with assms(2) None have "older = []" by (metis Nil_is_append_conv)
  with assms(3) None none \<open>cached_through inp None = None\<close> show ?thesis
    by (simp add: archive_of_def archive_head_def)
next
  case (Some c)
  have included: "included_summaries inp c = archive_summaries inp co" using assms(1) Some by (simp add: archive_summaries_def)
  have len: "length (archive_summaries inp co)
      - length (rev (take_summaries es (ci_contextLimit inp div 20) (rev (archive_summaries inp co)))) = length older"
    by (subst assms(2)) simp
  have "cached_through inp (Some c) = None" using assms(1) Some by simp
  then show ?thesis
    unfolding archive_of_def Some Let_def option.case included [unfolded Some] len [unfolded Some] assms(3) [unfolded Some]
    by (simp add: assms(3) [unfolded Some] archive_head_def)
qed

text \<open>
  C32. The archive of a cut accounts for what it replaces, in every case: with a cached block, with
  summaries, and without a cut. The summaries it draws on are, from a point on, all rendered, and the older
  ones are counted in a marker; a cached block comes instead of them. The archived messages with an ID that
  neither the cached block nor one of those summaries stands for are exactly those of the reported ranges,
  each a contiguous block of the archived messages named by its first and last ID.
\<close>

theorem archive_accounts_for_messages:
  "\<exists>older selected runs. archive_summaries inp co = older @ selected
    \<and> ar_omitted (archive_of es inp co end) = length older \<and> ar_missing (archive_of es inp co end) = length runs
    \<and> ar_text (archive_of es inp co end) = join [10, 10] (archive_head inp co (length older)
        @ map (summary_text \<circ> lo_segment) selected @ map (gap_text \<circ> run_ends) runs)
    \<and> concat runs = filter (\<lambda>m. \<not> archive_covers inp co (fst m)) (identified (ci_messages inp) [0..<end])
    \<and> (\<forall>run\<in>set runs. block_of run (identified (ci_messages inp) [0..<end]))"
proof (cases "cached_through inp co")
  case (Some pb)
  obtain p b where pb: "cached_through inp co = Some (p, b)" using Some by (cases pb) simp
  obtain runs where "archive_of es inp co end = \<lparr>ar_text = join [10, 10] (ab_text b # map gap_text (map run_ends runs)),
      ar_omitted = 0, ar_missing = length runs\<rparr>"
    "concat runs = filter (\<lambda>m. \<not> fst m \<le> p) (identified (ci_messages inp) [0..<end])"
    "\<forall>run\<in>set runs. block_of run (identified (ci_messages inp) [0..<end])"
    by (rule archive_of_cached [OF pb])
  then show ?thesis
    by (intro exI [of _ "[]"] exI [of _ runs]) (simp add: pb archive_summaries_def archive_covers_def archive_head_def)
next
  case None
  let ?included = "archive_summaries inp co" and ?ms = "identified (ci_messages inp) [0..<end]"
  let ?ranges = "map (\<lambda>l. (lo_start l, lo_end l)) ?included"
  let ?taken = "take_summaries es (ci_contextLimit inp div 20) (rev ?included)"
  obtain rest where "rev ?included = ?taken @ rest" using take_summaries_prefix by blast
  from arg_cong [OF this, of rev] have split: "?included = rev rest @ rev ?taken" by simp
  have "sorted (map fst ?ranges)"
    using sorted_included [of inp] by (simp add: comp_def archive_summaries_def None split: option.splits)
  then obtain runs where runs: "scan_gaps ?ms ?ranges None = map run_ends runs"
    "concat runs = filter (\<lambda>m. \<not> covered_at ?ranges (fst m)) ?ms" "\<forall>run\<in>set runs. block_of run ?ms"
    using archive_runs [of ?ranges "[0..<end]" "ci_messages inp"] by auto
  have covered: "covered_at ?ranges i \<longleftrightarrow> archive_covers inp co i" for i
    by (auto simp: covered_at_def archive_covers_def None)
  show ?thesis
    by (rule exI [of _ "rev rest"], rule exI [of _ "rev ?taken"], rule exI [of _ runs])
      (use runs split in \<open>simp add: archive_of_summaries [OF None split runs(1)] covered\<close>)
qed

text \<open>Without a summary or a cached block everything archived is reported missing; a cached block stands for its messages.\<close>

definition cached_input :: cursor_input where
  "cached_input = sample_input\<lparr>ci_cachedBlock := Some \<lparr>ab_through = js ''a'', ab_text = js ''old''\<rparr>\<rparr>"

theorem archive_accounts_for_messages_witness:
  "(\<exists>c runs. cutThrough sample_input (js ''b'') = Some c
    \<and> ar_missing (archive_of plain_estimator sample_input (Some c) 3) = length runs
    \<and> concat runs = [(0 :: nat, js ''a''), (Suc 0, js ''b'')])
  \<and> (\<exists>c runs. cutThrough cached_input (js ''b'') = Some c
    \<and> ar_missing (archive_of plain_estimator cached_input (Some c) 3) = length runs
    \<and> concat runs = [(Suc 0, js ''b'')])"
proof
  obtain c where c: "cutThrough sample_input (js ''b'') = Some c" using sample_cut by auto
  have none: "cached_through sample_input (Some c) = None" by (simp add: cached_through_def sample_input_def)
  have "ci_summaries sample_input = []" by (simp add: sample_input_def)
  then have "archive_summaries sample_input (Some c) = []"
    by (simp add: archive_summaries_def none included_summaries_def located_summaries_def map_filter_simps)
  moreover have "identified (ci_messages sample_input) [0..<3] = [(0, js ''a''), (1, js ''b'')]" by code_simp
  ultimately obtain runs where "ar_missing (archive_of plain_estimator sample_input (Some c) 3) = length runs"
    "concat runs = [(0, js ''a''), (Suc 0, js ''b'')]"
    using archive_accounts_for_messages [of sample_input "Some c" plain_estimator 3] by (auto simp: archive_covers_def none)
  with c show "\<exists>c runs. cutThrough sample_input (js ''b'') = Some c
    \<and> ar_missing (archive_of plain_estimator sample_input (Some c) 3) = length runs
    \<and> concat runs = [(0 :: nat, js ''a''), (Suc 0, js ''b'')]" by blast
next
  have "case cutThrough cached_input (js ''b'') of None \<Rightarrow> False
    | Some c \<Rightarrow> (case cached_through cached_input (Some c) of None \<Rightarrow> False | Some (p, b) \<Rightarrow> p = 0)" by code_simp
  then obtain c b where c: "cutThrough cached_input (js ''b'') = Some c" "cached_through cached_input (Some c) = Some (0, b)"
    by (auto split: option.splits)
  have "identified (ci_messages cached_input) [0..<3] = [(0, js ''a''), (1, js ''b'')]" by code_simp
  then obtain runs where "ar_missing (archive_of plain_estimator cached_input (Some c) 3) = length runs"
    "concat runs = [(Suc 0, js ''b'')]"
    using archive_accounts_for_messages [of cached_input "Some c" plain_estimator 3] by (auto simp: archive_covers_def c(2))
  with c(1) show "\<exists>c runs. cutThrough cached_input (js ''b'') = Some c
    \<and> ar_missing (archive_of plain_estimator cached_input (Some c) 3) = length runs
    \<and> concat runs = [(Suc 0, js ''b'')]" by blast
qed

section \<open>Persisted state\<close>

lemma empty_state_parses: "parseCursorState (emptyCursorState sourceId sessionId) sourceId sessionId = Some (emptyCursorState sourceId sessionId)"
  by (simp add: parseCursorState_def emptyCursorState_def prop_of_def property_def field_def Let_def null_or_string_def
      is_nullish_def)

end
