(* ===== verification/Checkpoint.thy ===== *)
theory Checkpoint
  imports Segmentation Identity
begin

text \<open>
  Checkpoints of the OpenCode V1 plugin, the first half of \<open>plugin/src/projection.ts\<close>: the messages of
  a request, how many tokens they are estimated to take, and \<open>applyCheckpoint\<close>, which replaces the
  archived prefix of a transcript by one restored-context message.
\<close>

section \<open>Messages of the host\<close>

text \<open>
  A message is the JSON value the host gives, an object of \<open>info\<close> and \<open>parts\<close>. \<open>typed\<close> reads the
  fields \<open>OpenCodeMessage\<close> declares; an optional field of another type reads as absent.
\<close>

type_synonym props = "(jsstr \<times> jsval) list"

record host_message =
  hm_info :: props
  hm_parts :: "props list"

definition info_of :: "host_message \<Rightarrow> string \<Rightarrow> jsval" where
  "info_of m k = prop_of (hm_info m) k"

definition hm_id :: "host_message \<Rightarrow> jsstr" where
  "hm_id m = string_of (info_of m ''id'')"

definition opt_string :: "jsval \<Rightarrow> jsstr option" where
  "opt_string v = (case v of Str s \<Rightarrow> Some s | _ \<Rightarrow> None)"

definition opt_bool :: "jsval \<Rightarrow> bool option" where
  "opt_bool v = (case v of Boolean b \<Rightarrow> Some b | _ \<Rightarrow> None)"

definition part_kind_of :: "jsstr \<Rightarrow> part_kind" where
  "part_kind_of s =
     (if s = js ''text'' then PText else if s = js ''reasoning'' then PReasoning
      else if s = js ''tool'' then PTool else if s = js ''file'' then PFile
      else if s = js ''compaction'' then PCompaction else if s = js ''step-start'' then PStepStart
      else POther s)"

definition typed_part :: "props \<Rightarrow> msg_part" where
  "typed_part ps =
     \<lparr>p_type = part_kind_of (string_of (prop_of ps ''type'')), p_text = opt_string (prop_of ps ''text''),
      p_tool = prop_of ps ''tool'', p_state = prop_of ps ''state'',
      p_synthetic = opt_bool (prop_of ps ''synthetic''), p_ignored = opt_bool (prop_of ps ''ignored''),
      p_filename = opt_string (prop_of ps ''filename''), p_mime = opt_string (prop_of ps ''mime''),
      p_url = opt_string (prop_of ps ''url''), p_metadata = prop_of ps ''metadata''\<rparr>"

definition typed :: "host_message \<Rightarrow> message" where
  "typed m =
     \<lparr>m_id = hm_id m, m_role = (if info_of m ''role'' = str ''user'' then User else Assistant),
      m_parentID = opt_string (info_of m ''parentID''), m_error = info_of m ''error'',
      m_time = info_of m ''time'', m_parts = map typed_part (hm_parts m)\<rparr>"

abbreviation is_assistant :: "host_message \<Rightarrow> bool" where
  "is_assistant m \<equiv> m_role (typed m) = Assistant"

abbreviation msg_visible :: "host_message \<Rightarrow> bool" where
  "msg_visible m \<equiv> isModelVisibleMessage (typed m)"

abbreviation normal_user :: "host_message \<Rightarrow> bool" where
  "normal_user m \<equiv> isNormalUserMessage (typed m)"

abbreviation part_visible :: "host_message \<Rightarrow> props \<Rightarrow> bool" where
  "part_visible m p \<equiv> isModelVisiblePart (typed m) (typed_part p)"

definition host_json :: "host_message \<Rightarrow> jsval" where
  "host_json m = Obj [field ''info'' (Obj (hm_info m)), field ''parts'' (Arr (map Obj (hm_parts m)))]"

definition contributesModelContent :: "host_message \<Rightarrow> props \<Rightarrow> bool" where
  "contributesModelContent m p =
     (part_visible m p
      \<and> (let t = typed_part p in
         if p_type t = PText \<or> p_type t = PReasoning then (case p_text t of Some s \<Rightarrow> s \<noteq> [] | None \<Rightarrow> False)
         else p_type t = PFile \<or> p_type t = PTool))"

definition latestUserMessage :: "host_message list \<Rightarrow> host_message option" where
  "latestUserMessage ms = find normal_user (rev ms)"

text \<open>\<open>None\<close> for \<open>null\<close>; otherwise session, provider and model.\<close>

definition activeModel :: "host_message list \<Rightarrow> (jsval \<times> jsval \<times> jsval) option" where
  "activeModel ms =
     (case latestUserMessage ms of
        None \<Rightarrow> None
      | Some user \<Rightarrow>
          if \<not> truthy (info_of user ''model'') \<or> \<not> truthy (info_of user ''sessionID'') then None
          else Some (info_of user ''sessionID'', get_prop (info_of user ''model'') (js ''providerID''),
                     get_prop (info_of user ''model'') (js ''modelID'')))"

definition isNewUserTurn :: "host_message list \<Rightarrow> bool" where
  "isNewUserTurn ms = (case last_opt ms of None \<Rightarrow> False | Some m \<Rightarrow> normal_user m)"

text \<open>The scan from the newest message backwards.\<close>

fun completed_scan :: "host_message list \<Rightarrow> bool" where
  "completed_scan [] = False"
| "completed_scan (m # ms) =
     (if normal_user m then False
      else if \<not> is_assistant m \<or> \<not> msg_visible m then completed_scan ms
      else (case record_of (info_of m ''time'') of
              None \<Rightarrow> False | Some time \<Rightarrow> is_finite (prop_of time ''completed'')))"

definition latestVisibleAssistantIsCompleted :: "host_message list \<Rightarrow> bool" where
  "latestVisibleAssistantIsCompleted ms = completed_scan (rev ms)"

section \<open>Numbers\<close>

definition int_text :: "int \<Rightarrow> jsstr" where
  "int_text i = (if i < 0 then 45 # decimal (nat (- i)) else decimal (nat i))"

text \<open>\<open>n - 1\<close>; a number that is not finite stays what it is.\<close>

definition number_pred :: "jsstr \<Rightarrow> jsstr" where
  "number_pred n = (case int_value n of None \<Rightarrow> n | Some i \<Rightarrow> int_text (i - 1))"

section \<open>Checkpoints\<close>

definition CONTEXT_RESTORATION_NOTICE :: jsstr where
  "CONTEXT_RESTORATION_NOTICE =
     js ''This is system-generated context restoration, not a new user-authored request.''"

definition CAUSAL_USER_REQUEST_HEADER :: jsstr where
  "CAUSAL_USER_REQUEST_HEADER = js ''## Causal user request (verbatim)'' @ 10 # js ''The retained assistant messages that follow were responding to this user request. It remains the active instruction.''"

definition CAUSAL_USER_REQUEST_FOOTER :: jsstr where
  "CAUSAL_USER_REQUEST_FOOTER = js ''## End of causal user request (verbatim)''"

record archived_segment =
  as_id :: jsstr
  as_sourceFingerprint :: jsstr
  as_startUserMessageId :: jsstr
  as_endUserMessageId :: jsstr
  as_sourceBoundaryVersion :: nat
  as_startSourceMessageId :: "jsstr option"
  as_endSourceMessageId :: "jsstr option"

record checkpoint =
  ck_tailStartMessageId :: jsstr
  ck_archivedPrefixFingerprint :: jsstr
  ck_canonicalSourceFingerprint :: jsstr
  ck_summaryText :: jsstr
  ck_createdAtMessageId :: jsstr
  ck_lossy :: "bool option"
  ck_archivedSegments :: "archived_segment list"
  ck_summaryFingerprint :: jsstr

definition archivedPrefixFingerprint :: "crypto \<Rightarrow> host_message list \<Rightarrow> jsstr" where
  "archivedPrefixFingerprint cr ms =
     sha256_hex cr (utf8 (frames (map (\<lambda>m. json_text (host_json m)) ms)))"

definition context_created :: "jsval \<Rightarrow> jsval" where
  "context_created time =
     (case record_of time of
        None \<Rightarrow> num 0
      | Some ps \<Rightarrow> (case prop_of ps ''created'' of Num n \<Rightarrow> Num (number_pred n) | _ \<Rightarrow> num 0))"

definition context_text_part :: "jsstr \<Rightarrow> jsval \<Rightarrow> string \<Rightarrow> jsstr \<Rightarrow> props" where
  "context_text_part userId sessionId suffix body =
     [field ''id'' (Str (userId @ js suffix)), field ''sessionID'' sessionId,
      field ''messageID'' (Str userId), field ''type'' (str ''text''), field ''text'' (Str body),
      field ''synthetic'' (Boolean True), field ''ignored'' (Boolean False)]"

text \<open>\<open>{ ...ps, k1: v1, k2: v2, ... }\<close>\<close>

definition spread :: "props \<Rightarrow> (string \<times> jsval) list \<Rightarrow> props" where
  "spread ps kvs = foldl (\<lambda>ps (k, v). set_prop ps (js k) v) ps kvs"

definition causalUser :: "host_message list \<Rightarrow> host_message \<Rightarrow> host_message option" where
  "causalUser prefix first =
     (case (if truthy (info_of first ''parentID'')
            then find (\<lambda>m. info_of m ''id'' = info_of first ''parentID'' \<and> normal_user m) prefix
            else None) of
        Some user \<Rightarrow> Some user
      | None \<Rightarrow> latestUserMessage prefix)"

definition copied_part :: "jsstr \<Rightarrow> jsval \<Rightarrow> nat \<times> props \<Rightarrow> props" where
  "copied_part userId sessionId entry =
     spread (snd entry)
       [(''id'', Str (userId @ js ''_causal_'' @ decimal (fst entry))), (''sessionID'', sessionId),
        (''messageID'', Str userId), (''synthetic'', Boolean True)]"

definition causal_request :: "jsstr \<Rightarrow> jsval \<Rightarrow> host_message list \<Rightarrow> host_message \<Rightarrow> props list" where
  "causal_request userId sessionId prefix first =
     (case causalUser prefix first of
        None \<Rightarrow> []
      | Some user \<Rightarrow>
          let causalParts = filter (part_visible user) (hm_parts user) in
          if causalParts = [] then []
          else context_text_part userId sessionId ''_causal_header'' CAUSAL_USER_REQUEST_HEADER
            # map (copied_part userId sessionId) (zip [0..<length causalParts] causalParts)
            @ [context_text_part userId sessionId ''_causal_footer'' CAUSAL_USER_REQUEST_FOOTER])"

definition context_user :: "checkpoint \<Rightarrow> host_message \<Rightarrow> host_message list \<Rightarrow> host_message \<Rightarrow> host_message" where
  "context_user ck activeUser prefix first =
     (let userId = hm_id first @ js ''_reflection_context_user'';
          sessionId = info_of activeUser ''sessionID'' in
      \<lparr>hm_info = spread (hm_info activeUser)
         [(''id'', Str userId), (''role'', str ''user''), (''sessionID'', sessionId),
          (''parentID'', Undefined), (''time'', Obj [field ''created'' (context_created (info_of first ''time''))]),
          (''summary'', Undefined), (''system'', Undefined), (''tools'', Undefined)],
       hm_parts =
         context_text_part userId sessionId ''_part_0''
           (CONTEXT_RESTORATION_NOTICE @ 10 # 10 # ck_summaryText ck)
         # (if is_assistant first then causal_request userId sessionId prefix first else [])\<rparr>)"

definition applyCheckpoint ::
  "crypto \<Rightarrow> host_message list \<Rightarrow> checkpoint \<Rightarrow> bool \<Rightarrow> host_message list option" where
  "applyCheckpoint cr messages ck skipPrefixFingerprint =
     (case find_index (\<lambda>m. hm_id m = ck_tailStartMessageId ck) messages of
        None \<Rightarrow> None
      | Some tailIndex \<Rightarrow>
          let prefix = take tailIndex messages; tail = drop tailIndex messages in
          if \<not> skipPrefixFingerprint \<and> archivedPrefixFingerprint cr prefix \<noteq> ck_archivedPrefixFingerprint ck
          then None
          else case latestUserMessage messages of
              None \<Rightarrow> None
            | Some activeUser \<Rightarrow>
                if \<not> truthy (info_of activeUser ''sessionID'') \<or> \<not> truthy (info_of activeUser ''model'')
                then None
                else Some (context_user ck activeUser prefix (hd tail) # tail))"

section \<open>Token estimates\<close>

definition estimateMessageTokens :: "host_message list \<Rightarrow> enat" where
  "estimateMessageTokens ms = wire_tokens (modelWireSize (map typed ms))"

definition estimateMessageBytes :: "host_message list \<Rightarrow> enat" where
  "estimateMessageBytes ms = wire_bytes (modelWireSize (map typed ms))"

definition reported_count :: "jsval \<Rightarrow> int option" where
  "reported_count v = (case v of Num n \<Rightarrow> int_value n | _ \<Rightarrow> Some 0)"

definition reportedInputTokens :: "host_message \<Rightarrow> nat option" where
  "reportedInputTokens m =
     (if \<not> is_assistant m \<or> \<not> msg_visible m then None
      else let tokens = info_of m ''tokens''; cache = get_prop tokens (js ''cache'') in
        if \<not> is_object tokens then None
        else case (reported_count (get_prop tokens (js ''input'')), reported_count (get_prop cache (js ''read'')),
                   reported_count (get_prop cache (js ''write''))) of
            (Some a, Some b, Some c) \<Rightarrow> if a + b + c > 0 then Some (nat (a + b + c)) else None
          | _ \<Rightarrow> None)"

text \<open>The messages the loop does not \<open>continue\<close> past.\<close>

definition is_anchor :: "jsval \<Rightarrow> host_message \<Rightarrow> bool" where
  "is_anchor active m =
     (is_assistant m \<and> msg_visible m
      \<and> \<not> (truthy active \<and> (info_of m ''providerID'' \<noteq> get_prop active (js ''providerID'')
                           \<or> info_of m ''modelID'' \<noteq> get_prop active (js ''modelID'')))
      \<and> reportedInputTokens m \<noteq> None)"

definition estimateRequestTokens :: "host_message list \<Rightarrow> nat \<Rightarrow> checkpoint option \<Rightarrow> enat" where
  "estimateRequestTokens ms contextLimit ck =
     (let fullEstimate = estimateMessageTokens ms in
      if fullEstimate = \<infinity> then \<infinity>
      else let active = (case latestUserMessage ms of None \<Rightarrow> Undefined | Some u \<Rightarrow> info_of u ''model'');
               from = (case ck of
                   None \<Rightarrow> 0
                 | Some c \<Rightarrow> (case find_index (\<lambda>m. hm_id m = ck_createdAtMessageId c) ms of
                     None \<Rightarrow> 0 | Some i \<Rightarrow> i + 1)) in
        case last_index (is_anchor active) (drop from ms) of
          Some k \<Rightarrow> max (enat (the (reportedInputTokens (ms ! (from + k))))
                       + estimateMessageTokens (drop (from + k) ms) * 2) fullEstimate
        | None \<Rightarrow> fullEstimate * 2 + enat (min 20000 (contextLimit div 10)))"

end
