(* ===== verification/Projection.thy ===== *)
theory Projection
  imports SummaryText
begin

text \<open>
  \<open>projectMessages\<close> of \<open>plugin/src/projection.ts\<close>: when a transcript outgrows the context of its model,
  the closed segments before a cut are archived under a checkpoint, and the messages from the cut on are
  sent after one restored-context message. The callbacks that validate a checkpoint and load segments and
  summaries are functions of the input. The context limit is a natural number below 2^46, so that the
  floors of its fractional shares are integer divisions.
\<close>

section \<open>Segment identities and fingerprints\<close>

definition submitted_message :: "reflection_message \<Rightarrow> ingest_message" where
  "submitted_message r = \<lparr>im_id = [], im_type = string_of (role_text (r_role r)), im_text = r_text r\<rparr>"

definition segment_body :: "jsstr \<Rightarrow> source_boundary \<Rightarrow> segment \<Rightarrow> request_body" where
  "segment_body sessionId b s =
     \<lparr>rb_session_id = sessionId, rb_boundary = b, rb_projection_version = 0,
      rb_processing_priority = 0, rb_messages = map submitted_message (sg_messages s)\<rparr>"

definition submissionSourceFingerprint :: "crypto \<Rightarrow> jsstr \<Rightarrow> segment \<Rightarrow> jsstr result" where
  "submissionSourceFingerprint cr sessionId s =
     (if sg_sourceBoundaryVersion s = 1
      then if sg_startSourceMessageId s \<noteq> None \<or> sg_endSourceMessageId s \<noteq> None
           then Inl ''V1 segments cannot contain source cursors''
           else Inr (sourceFingerprint cr (segment_body sessionId
             (Boundary1 (sg_startUserMessageId s) (sg_endUserMessageId s)) s))
      else case (sg_startSourceMessageId s, sg_endSourceMessageId s) of
          (Some ss, Some es) \<Rightarrow> Inr (sourceFingerprint cr (segment_body sessionId
             (Boundary2 (sg_startUserMessageId s) (sg_endUserMessageId s) ss es) s))
        | _ \<Rightarrow> Inl ''V2 segments require both source cursors'')"

definition segmentIdentity :: "crypto \<Rightarrow> jsstr \<Rightarrow> segment \<Rightarrow> jsstr result" where
  "segmentIdentity cr sessionId s =
     (if sg_sourceBoundaryVersion s = 1
      then segmentIdForRequest cr (segment_body sessionId
             (Boundary1 (sg_startUserMessageId s) (sg_endUserMessageId s)) s)
      else case sg_startSourceMessageId s of
          None \<Rightarrow> Inl ''V2 segment identity requires a start source cursor''
        | Some ss \<Rightarrow> segmentIdForRequest cr (segment_body sessionId
             (Boundary2 (sg_startUserMessageId s) (sg_endUserMessageId s) ss ss) s))"

type_synonym identity = "jsstr \<Rightarrow> segment \<Rightarrow> jsstr result"

text \<open>The boundary of a summary is that of the segment.\<close>

definition same_boundary :: "segment_summary \<Rightarrow> segment \<Rightarrow> bool" where
  "same_boundary u s \<longleftrightarrow>
     su_start_user_message_id u = sg_startUserMessageId s
     \<and> su_end_user_message_id u = sg_endUserMessageId s
     \<and> su_source_boundary_version u = sg_sourceBoundaryVersion s
     \<and> su_start_source_message_id u = sg_startSourceMessageId s
     \<and> su_end_source_message_id u = sg_endSourceMessageId s"

definition summaryMatchesSegment ::
  "identity \<Rightarrow> jsstr \<Rightarrow> segment \<Rightarrow> segment_summary \<Rightarrow> bool result" where
  "summaryMatchesSegment identity sessionId s u =
     rbind (identity sessionId s) (\<lambda>i. Inr (su_id u = i \<and> same_boundary u s))"

text \<open>\<open>xs.find(p)\<close> for a predicate that may throw.\<close>

fun rfind :: "('a \<Rightarrow> bool result) \<Rightarrow> 'a list \<Rightarrow> 'a option result" where
  "rfind p [] = Inr None"
| "rfind p (x # xs) = rbind (p x) (\<lambda>b. if b then Inr (Some x) else rfind p xs)"

definition summaryCoverage ::
  "identity \<Rightarrow> jsstr \<Rightarrow> segment list \<Rightarrow> segment_summary list \<Rightarrow> (segment_summary list \<times> bool) result" where
  "summaryCoverage identity sessionId archivedSegments summaries =
     rbind (rmap (\<lambda>s. rfind (summaryMatchesSegment identity sessionId s) summaries) archivedSegments) (\<lambda>found.
       let selected = List.map_filter id found in
       Inr (selected, length selected = length archivedSegments))"

definition projectionSourcesFingerprint ::
  "crypto \<Rightarrow> identity \<Rightarrow> jsstr \<Rightarrow> segment list \<Rightarrow> jsstr result" where
  "projectionSourcesFingerprint cr identity sessionId archivedSegments =
     rbind (rmap (\<lambda>s.
         rbind (identity sessionId s) (\<lambda>i.
         rbind (submissionSourceFingerprint cr sessionId s) (\<lambda>fp.
           Inr (Obj [field ''id'' (Str i), field ''sourceFingerprint'' (Str fp),
                     field ''sourceMessageIds'' (Arr (map Str (sg_sourceMessageIds s))),
                     field ''closed'' (Boolean (sg_closed s))])))) archivedSegments) (\<lambda>entries.
       Inr (sha256_hex cr (utf8 (json_text (Obj [field ''segments'' (Arr entries)])))))"

definition toProjectionArchivedSegment ::
  "crypto \<Rightarrow> identity \<Rightarrow> jsstr \<Rightarrow> segment \<Rightarrow> archived_segment result" where
  "toProjectionArchivedSegment cr identity sessionId s =
     rbind (identity sessionId s) (\<lambda>i.
     rbind (submissionSourceFingerprint cr sessionId s) (\<lambda>fp.
       let v1 = sg_sourceBoundaryVersion s = 1 in
       Inr \<lparr>as_id = i, as_sourceFingerprint = fp,
            as_startUserMessageId = sg_startUserMessageId s, as_endUserMessageId = sg_endUserMessageId s,
            as_sourceBoundaryVersion = (if v1 then 1 else 2),
            as_startSourceMessageId = (if v1 then None else sg_startSourceMessageId s),
            as_endSourceMessageId = (if v1 then None else sg_endSourceMessageId s)\<rparr>))"

definition archived_matches :: "archived_segment \<Rightarrow> segment_summary \<Rightarrow> bool" where
  "archived_matches a u \<longleftrightarrow>
     su_id u = as_id a \<and> su_start_user_message_id u = as_startUserMessageId a
     \<and> su_end_user_message_id u = as_endUserMessageId a
     \<and> su_source_boundary_version u = as_sourceBoundaryVersion a
     \<and> su_start_source_message_id u = as_startSourceMessageId a
     \<and> su_end_source_message_id u = as_endSourceMessageId a"

definition projectionSummaryFingerprint ::
  "crypto \<Rightarrow> archived_segment list \<Rightarrow> segment_summary list \<Rightarrow> jsstr" where
  "projectionSummaryFingerprint cr archivedSegments summaries =
     sha256_hex cr (utf8 (json_text (Arr (map (\<lambda>a. Obj [field ''id'' (Str (as_id a)),
       field ''summary'' (case find (archived_matches a) summaries of None \<Rightarrow> Null | Some u \<Rightarrow> Str (su_summary u))])
       archivedSegments))))"

section \<open>Safe cuts\<close>

text \<open>\<open>modelIndexes.get(id)\<close>: absent, \<open>null\<close> when the ID occurs twice, or its index.\<close>

datatype index_entry = Absent | Ambiguous | At nat

definition model_index :: "host_message list \<Rightarrow> jsstr \<Rightarrow> index_entry" where
  "model_index ms i =
     (case filter (\<lambda>k. hm_id (ms ! k) = i) [0..<length ms] of [] \<Rightarrow> Absent | [k] \<Rightarrow> At k | _ \<Rightarrow> Ambiguous)"

record tail_candidate =
  tc_tailIndex :: nat
  tc_archivedSegments :: "segment list"

definition mapped_start :: "host_message list \<Rightarrow> segment \<Rightarrow> index_entry" where
  "mapped_start ms s = model_index ms (sg_startMessageId s)"

definition nonmonotonic :: "host_message list \<Rightarrow> segment list \<Rightarrow> nat \<Rightarrow> nat \<Rightarrow> bool" where
  "nonmonotonic ms segments index tailIndex \<longleftrightarrow>
     (\<exists>s\<in>set (take index segments). case mapped_start ms s of At k \<Rightarrow> tailIndex \<le> k | _ \<Rightarrow> False)
     \<or> (\<exists>s\<in>set (drop (index + 1) segments). case mapped_start ms s of At k \<Rightarrow> k \<le> tailIndex | _ \<Rightarrow> False)"

definition sourceIdsRespectCut :: "host_message list \<Rightarrow> segment list \<Rightarrow> nat \<Rightarrow> nat \<Rightarrow> bool" where
  "sourceIdsRespectCut ms segments index tailIndex \<longleftrightarrow>
     list_all (\<lambda>(candidateIndex, s). list_all (\<lambda>i. case model_index ms i of
         Absent \<Rightarrow> True
       | Ambiguous \<Rightarrow> False
       | At k \<Rightarrow> if candidateIndex < index then k < tailIndex else k \<ge> tailIndex) (sg_sourceMessageIds s))
       (zip [0..<length segments] segments)"

definition previous_index :: "host_message list \<Rightarrow> checkpoint option \<Rightarrow> int" where
  "previous_index ms previous =
     (case previous of
        None \<Rightarrow> - 1
      | Some ck \<Rightarrow> (case find_index (\<lambda>m. hm_id m = ck_tailStartMessageId ck) ms of
          None \<Rightarrow> - 1 | Some k \<Rightarrow> int k))"

definition tail_candidate_at ::
  "host_message list \<Rightarrow> segment list \<Rightarrow> checkpoint option \<Rightarrow> nat \<Rightarrow> tail_candidate option" where
  "tail_candidate_at ms segments previous index =
     (case mapped_start ms (segments ! index) of
        At tailIndex \<Rightarrow>
          if index = 0 \<or> nonmonotonic ms segments index tailIndex
            \<or> \<not> list_all sg_closed (take index segments)
            \<or> \<not> sourceIdsRespectCut ms segments index tailIndex
          then None
          else if previous_index ms previous < int tailIndex \<and> historyStart ms \<le> tailIndex \<and> 0 < tailIndex
          then Some \<lparr>tc_tailIndex = tailIndex, tc_archivedSegments = take index segments\<rparr>
          else None
      | _ \<Rightarrow> None)"

definition tail_candidates ::
  "host_message list \<Rightarrow> segment list \<Rightarrow> checkpoint option \<Rightarrow> tail_candidate list" where
  "tail_candidates ms segments previous =
     List.map_filter (tail_candidate_at ms segments previous) [0..<length segments]"

text \<open>The first candidate whose tail fits a quarter of the context, and those after it; else the last.\<close>

definition safeTailCandidates ::
  "host_message list \<Rightarrow> segment list \<Rightarrow> nat \<Rightarrow> checkpoint option \<Rightarrow> tail_candidate list" where
  "safeTailCandidates ms segments contextLimit previous =
     (let candidates = tail_candidates ms segments previous; targetTokens = contextLimit div 4 in
      case find_index (\<lambda>c. estimateMessageTokens (drop (tc_tailIndex c) ms) \<le> enat targetTokens) candidates of
        None \<Rightarrow> drop (length candidates - 1) candidates
      | Some preferred \<Rightarrow> drop preferred candidates)"

section \<open>Projecting\<close>

record session_state =
  st_contextLimit :: nat
  st_checkpoint :: "checkpoint option"

text \<open>\<open>loadSummaries\<close> also gets the number of the call: it may answer differently each time.\<close>

record project_input =
  pi_messages :: "host_message list"
  pi_contextLimit :: nat
  pi_inputLimit :: "nat option"
  pi_outputLimit :: "nat option"
  pi_previous :: "session_state option"
  pi_validateCheckpoint :: "(checkpoint \<Rightarrow> bool result) option"
  pi_skipPrefixFingerprint :: bool
  pi_segmentIdentity :: "identity option"
  pi_loadCanonicalSegments :: "segment list result"
  pi_loadSummaries :: "nat \<Rightarrow> segment list \<Rightarrow> segment_summary list result"

record reset_diagnostic =
  rd_sessionId :: jsstr
  rd_tailStartMessageId :: jsstr
  rd_archivedMessageCount :: nat
  rd_archivedUserTurnCount :: nat
  rd_includedSummaryCount :: nat
  rd_lossy :: bool
  rd_omissionReasons :: "jsstr list"

record projection_result =
  pr_messages :: "host_message list"
  pr_state :: session_state
  pr_estimatedTokens :: enat
  pr_estimatedBytes :: enat
  pr_thresholdTokens :: nat
  pr_hardLimitTokens :: nat
  pr_reset :: bool
  pr_diagnostic :: "reset_diagnostic option"

definition DEFAULT_OUTPUT_LIMIT :: nat where
  "DEFAULT_OUTPUT_LIMIT = 32000"

definition maxOutput :: "project_input \<Rightarrow> nat" where
  "maxOutput inp = (case pi_outputLimit inp of None \<Rightarrow> DEFAULT_OUTPUT_LIMIT
     | Some n \<Rightarrow> if n > 0 then n else DEFAULT_OUTPUT_LIMIT)"

definition usableInput :: "project_input \<Rightarrow> int" where
  "usableInput inp =
     (case pi_inputLimit inp of
        Some n \<Rightarrow> if n > 0 then int n - int (min 20000 (maxOutput inp))
                  else int (pi_contextLimit inp) - int (maxOutput inp)
      | None \<Rightarrow> int (pi_contextLimit inp) - int (maxOutput inp))"

definition hardInput :: "project_input \<Rightarrow> int" where
  "hardInput inp =
     min (int (case pi_inputLimit inp of None \<Rightarrow> pi_contextLimit inp | Some n \<Rightarrow> n))
         (int (pi_contextLimit inp) - int (maxOutput inp))"

definition hardLimit :: "project_input \<Rightarrow> nat" where
  "hardLimit inp = nat (max 0 (min (int (pi_contextLimit inp * 9 div 10)) (hardInput inp)))"

definition threshold :: "project_input \<Rightarrow> nat" where
  "threshold inp = nat (max 0 (min (min (int (pi_contextLimit inp * 3 div 4)) (usableInput inp)) (int (hardLimit inp))))"

definition identity_of :: "crypto \<Rightarrow> project_input \<Rightarrow> identity" where
  "identity_of cr inp = (case pi_segmentIdentity inp of None \<Rightarrow> segmentIdentity cr | Some f \<Rightarrow> f)"

text \<open>The checkpoint that survives validation and still applies, and what it makes of the transcript.\<close>

definition current_checkpoint :: "crypto \<Rightarrow> project_input \<Rightarrow> (checkpoint option \<times> host_message list) result" where
  "current_checkpoint cr inp =
     (case Option.bind (pi_previous inp) st_checkpoint of
        None \<Rightarrow> Inr (None, pi_messages inp)
      | Some ck \<Rightarrow>
          rbind (case pi_validateCheckpoint inp of None \<Rightarrow> Inr True | Some f \<Rightarrow> f ck) (\<lambda>ok.
            if \<not> ok then Inr (None, pi_messages inp)
            else case applyCheckpoint cr (pi_messages inp) ck (pi_skipPrefixFingerprint inp) of
                None \<Rightarrow> Inr (None, pi_messages inp)
              | Some projected \<Rightarrow> Inr (Some ck, projected)))"

definition modelShrank :: "project_input \<Rightarrow> enat \<Rightarrow> bool" where
  "modelShrank inp estimated \<longleftrightarrow>
     (case pi_previous inp of None \<Rightarrow> False
      | Some previous \<Rightarrow> pi_contextLimit inp < st_contextLimit previous
          \<and> estimated > enat (pi_contextLimit inp div 4))"

definition reset_possible :: "project_input \<Rightarrow> enat \<Rightarrow> bool" where
  "reset_possible inp estimated \<longleftrightarrow>
     (estimated \<ge> enat (threshold inp) \<or> modelShrank inp estimated)
     \<and> (isNewUserTurn (pi_messages inp) \<or> latestVisibleAssistantIsCompleted (pi_messages inp)
        \<or> modelShrank inp estimated \<or> estimated \<ge> enat (hardLimit inp))"

definition unchangedResult ::
  "project_input \<Rightarrow> checkpoint option \<Rightarrow> host_message list \<Rightarrow> enat \<Rightarrow> projection_result" where
  "unchangedResult inp ck projected estimated =
     \<lparr>pr_messages = projected,
      pr_state = \<lparr>st_contextLimit = pi_contextLimit inp, st_checkpoint = ck\<rparr>,
      pr_estimatedTokens = estimated, pr_estimatedBytes = estimateMessageBytes projected,
      pr_thresholdTokens = threshold inp, pr_hardLimitTokens = hardLimit inp,
      pr_reset = False, pr_diagnostic = None\<rparr>"

text \<open>What the loop over the candidates carries from one to the next.\<close>

record summary_cache =
  sc_summaries :: "segment_summary list"
  sc_failed :: bool
  sc_requested :: "jsstr list"
  sc_calls :: nat

definition load_summaries ::
  "project_input \<Rightarrow> tail_candidate \<Rightarrow> jsstr list \<Rightarrow> summary_cache \<Rightarrow> summary_cache" where
  "load_summaries inp c requiredIds cache =
     (if \<not> sc_failed cache \<and> (\<exists>i\<in>set requiredIds. i \<notin> set (sc_requested cache))
      then (case pi_loadSummaries inp (sc_calls cache) (tc_archivedSegments c) of
              Inl _ \<Rightarrow> cache\<lparr>sc_failed := True, sc_calls := sc_calls cache + 1\<rparr>
            | Inr summaries \<Rightarrow> cache\<lparr>sc_summaries := summaries, sc_calls := sc_calls cache + 1,
                sc_requested := sc_requested cache @ requiredIds\<rparr>)
      else cache)"

definition reset_omissions ::
  "host_message list \<Rightarrow> tail_candidate \<Rightarrow> summary_cache \<Rightarrow> bool \<Rightarrow> jsstr list" where
  "reset_omissions ms c cache all_matched =
     (if sc_failed cache then [js ''summary-service-unavailable''] else [])
     @ (if \<not> all_matched then [js ''missing-segment-summaries''] else [])
     @ (if containsReasoning (leading_context ms (tc_tailIndex c)) then [js ''inherited-reasoning-omitted''] else [])
     @ archivedContentOmissions (take (tc_tailIndex c) ms)
     @ canonicalCoverageOmissions (take (tc_tailIndex c) ms) (tc_archivedSegments c)"

definition next_checkpoint ::
  "crypto \<Rightarrow> project_input \<Rightarrow> jsstr \<Rightarrow> tail_candidate \<Rightarrow> summary_cache \<Rightarrow> (checkpoint \<times> built_summary) result" where
  "next_checkpoint cr inp sessionId c cache =
     (let ms = pi_messages inp; prefix = take (tc_tailIndex c) ms; identity = identity_of cr inp;
          tailStartId = hm_id (ms ! tc_tailIndex c) in
      rbind (summaryCoverage identity sessionId (tc_archivedSegments c) (sc_summaries cache)) (\<lambda>(segments, all_matched).
      let built = buildSummaryText segments prefix (pi_contextLimit inp) (inherited_entries ms (tc_tailIndex c))
            (reset_omissions ms c cache all_matched) in
      rbind (rmap (toProjectionArchivedSegment cr identity sessionId) (tc_archivedSegments c)) (\<lambda>meta.
      rbind (projectionSourcesFingerprint cr identity sessionId (tc_archivedSegments c)) (\<lambda>sources.
        Inr (\<lparr>ck_tailStartMessageId = tailStartId,
              ck_archivedPrefixFingerprint = archivedPrefixFingerprint cr prefix,
              ck_canonicalSourceFingerprint = sources, ck_summaryText = bs_text built,
              ck_createdAtMessageId = (case last_opt ms of None \<Rightarrow> tailStartId | Some m \<Rightarrow> hm_id m),
              ck_lossy = (if bs_lossy built then Some True else None),
              ck_archivedSegments = meta,
              ck_summaryFingerprint = projectionSummaryFingerprint cr meta (sc_summaries cache)\<rparr>, built)))))"

definition reset_result ::
  "project_input \<Rightarrow> jsstr \<Rightarrow> tail_candidate \<Rightarrow> checkpoint \<Rightarrow> built_summary \<Rightarrow> host_message list \<Rightarrow> projection_result" where
  "reset_result inp sessionId c ck built projected =
     \<lparr>pr_messages = projected,
      pr_state = \<lparr>st_contextLimit = pi_contextLimit inp, st_checkpoint = Some ck\<rparr>,
      pr_estimatedTokens = estimateRequestTokens projected (pi_contextLimit inp) (Some ck),
      pr_estimatedBytes = estimateMessageBytes projected,
      pr_thresholdTokens = threshold inp, pr_hardLimitTokens = hardLimit inp,
      pr_reset = True, pr_diagnostic = Some \<lparr>rd_sessionId = sessionId, rd_tailStartMessageId = ck_tailStartMessageId ck,
        rd_archivedMessageCount = tc_tailIndex c,
        rd_archivedUserTurnCount = length (filter normal_user (take (tc_tailIndex c) (pi_messages inp))),
        rd_includedSummaryCount = bs_includedSummaryCount built, rd_lossy = bs_lossy built,
        rd_omissionReasons = bs_omissionReasons built\<rparr>\<rparr>"

text \<open>One candidate: a result when its projection is small enough, and the cache for the next.\<close>

definition try_candidate ::
  "crypto \<Rightarrow> project_input \<Rightarrow> jsstr \<Rightarrow> tail_candidate \<Rightarrow> summary_cache
     \<Rightarrow> (projection_result option \<times> summary_cache) result" where
  "try_candidate cr inp sessionId c cache =
     rbind (rmap (identity_of cr inp sessionId) (tc_archivedSegments c)) (\<lambda>requiredIds.
     let cache1 = load_summaries inp c requiredIds cache in
     rbind (next_checkpoint cr inp sessionId c cache1) (\<lambda>(ck, built).
       case applyCheckpoint cr (pi_messages inp) ck False of
         None \<Rightarrow> Inr (None, cache1)
       | Some projected \<Rightarrow>
           if estimateRequestTokens projected (pi_contextLimit inp) (Some ck) \<ge> enat (threshold inp)
           then Inr (None, cache1)
           else Inr (Some (reset_result inp sessionId c ck built projected), cache1)))"

fun try_candidates ::
  "crypto \<Rightarrow> project_input \<Rightarrow> jsstr \<Rightarrow> tail_candidate list \<Rightarrow> summary_cache \<Rightarrow> projection_result option result" where
  "try_candidates cr inp sessionId [] cache = Inr None"
| "try_candidates cr inp sessionId (c # cs) cache =
     rbind (try_candidate cr inp sessionId c cache) (\<lambda>(found, cache1).
       case found of Some r \<Rightarrow> Inr (Some r) | None \<Rightarrow> try_candidates cr inp sessionId cs cache1)"

definition projectMessages :: "crypto \<Rightarrow> project_input \<Rightarrow> projection_result result" where
  "projectMessages cr inp =
     (if pi_contextLimit inp = 0 then Inl ''Model context limit must be positive''
      else rbind (current_checkpoint cr inp) (\<lambda>(ck, projected).
        let estimated = estimateRequestTokens projected (pi_contextLimit inp) ck;
            emergency = estimated \<ge> enat (hardLimit inp);
            unchanged = unchangedResult inp ck projected estimated in
        if \<not> reset_possible inp estimated then Inr unchanged
        else rbind (pi_loadCanonicalSegments inp) (\<lambda>segments.
          let cs = safeTailCandidates (pi_messages inp) segments (pi_contextLimit inp) ck in
          if cs = []
          then if \<not> emergency then Inr unchanged
               else Inl ''Reflection could not find a safe message-aligned projection cutoff''
          else case map_option (\<lambda>u. info_of u ''sessionID'') (latestUserMessage (pi_messages inp)) of
              Some (Str sessionId) \<Rightarrow>
                if sessionId = [] then Inl ''Reflection could not identify the projection session''
                else rbind (try_candidates cr inp sessionId cs
                    \<lparr>sc_summaries = [], sc_failed = False, sc_requested = [], sc_calls = 0\<rparr>) (\<lambda>found.
                  case found of
                    Some r \<Rightarrow> Inr r
                  | None \<Rightarrow> if \<not> emergency then Inr unchanged
                      else Inl ''Reflection could not fit any safe message-aligned projection tail'')
            | _ \<Rightarrow> Inl ''Reflection could not identify the projection session'')))"

end
