(* ===== verification/ProjectionSafety.thy ===== *)
theory ProjectionSafety
  imports ProjectionSample ParseSound "HOL-Library.Sublist"
begin

text \<open>
  What \<open>projectMessages\<close> guarantees: a reset cuts the transcript between two segments of which all
  archived ones are closed, no request is returned that is estimated to reach the hard limit, and it
  fails only when an emergency leaves no choice.
\<close>

section \<open>Candidates\<close>

lemma model_index_filter:
  "set (filter (\<lambda>k. hm_id (ms ! k) = i) [0..<length ms]) = {k. k < length ms \<and> hm_id (ms ! k) = i}"
  by auto

lemma model_index_At:
  assumes "model_index ms i = At k"
  shows "k < length ms" "hm_id (ms ! k) = i" "j < length ms \<Longrightarrow> hm_id (ms ! j) = i \<Longrightarrow> j = k"
proof -
  have "filter (\<lambda>k. hm_id (ms ! k) = i) [0..<length ms] = [k]"
    using assms by (auto simp: model_index_def split: list.splits)
  then have "{k. k < length ms \<and> hm_id (ms ! k) = i} = {k}"
    using model_index_filter [of ms i] by simp
  then show "k < length ms" "hm_id (ms ! k) = i" "j < length ms \<Longrightarrow> hm_id (ms ! j) = i \<Longrightarrow> j = k"
    by blast+
qed

lemma model_index_Absent: "model_index ms i = Absent \<Longrightarrow> j < length ms \<Longrightarrow> hm_id (ms ! j) \<noteq> i"
proof -
  assume "model_index ms i = Absent" and j: "j < length ms"
  then have "filter (\<lambda>k. hm_id (ms ! k) = i) [0..<length ms] = []"
    by (auto simp: model_index_def split: list.splits)
  then have "{k. k < length ms \<and> hm_id (ms ! k) = i} = {}"
    using model_index_filter [of ms i] by simp
  with j show ?thesis by blast
qed

text \<open>A cut at message \<open>t\<close> before segment \<open>k\<close>: everything archived is closed and lies before it.\<close>

definition cut_between :: "host_message list \<Rightarrow> segment list \<Rightarrow> nat \<Rightarrow> nat \<Rightarrow> bool" where
  "cut_between ms segments k t \<longleftrightarrow>
     0 < k \<and> k < length segments \<and> 0 < t \<and> t < length ms \<and> hm_id (ms ! t) = sg_startMessageId (segments ! k)
     \<and> (\<forall>s\<in>set (take k segments). sg_closed s)
     \<and> (\<forall>i\<in>set (segments_ids (take k segments)). \<forall>j<length ms. hm_id (ms ! j) = i \<longrightarrow> j < t)
     \<and> (\<forall>i\<in>set (segments_ids (drop k segments)). \<forall>j<length ms. hm_id (ms ! j) = i \<longrightarrow> t \<le> j)"

lemma respects_cut:
  assumes "sourceIdsRespectCut ms segments index t" "c < length segments"
    "i \<in> set (sg_sourceMessageIds (segments ! c))" "j < length ms" "hm_id (ms ! j) = i"
  shows "if c < index then j < t else t \<le> j"
proof -
  have "(c, segments ! c) \<in> set (zip [0..<length segments] segments)"
    using assms(2) by (auto simp: in_set_zip intro!: exI [of _ c])
  from bspec [OF assms(1) [unfolded sourceIdsRespectCut_def list_all_iff] this] assms(3)
  have "case model_index ms i of Absent \<Rightarrow> True | Ambiguous \<Rightarrow> False
      | At k \<Rightarrow> if c < index then k < t else k \<ge> t"
    by simp
  with assms(4,5) model_index_At(3) [of ms i _ j] model_index_Absent [of ms i j] show ?thesis
    by (auto split: index_entry.splits if_splits)
qed

lemma in_take_ids: "i \<in> set (segments_ids (take k segments)) \<Longrightarrow>
  \<exists>c<k. c < length segments \<and> i \<in> set (sg_sourceMessageIds (segments ! c))"
proof -
  assume "i \<in> set (segments_ids (take k segments))"
  then obtain s where "s \<in> set (take k segments)" "i \<in> set (sg_sourceMessageIds s)"
    by (auto simp: segments_ids_def)
  then show ?thesis by (auto simp: in_set_take_iff)
qed

lemma in_drop_ids: "i \<in> set (segments_ids (drop k segments)) \<Longrightarrow>
  \<exists>c\<ge>k. c < length segments \<and> i \<in> set (sg_sourceMessageIds (segments ! c))"
proof -
  assume "i \<in> set (segments_ids (drop k segments))"
  then obtain s where s: "s \<in> set (drop k segments)" "i \<in> set (sg_sourceMessageIds s)"
    by (auto simp: segments_ids_def)
  then obtain n where "n < length (drop k segments)" "drop k segments ! n = s"
    by (meson in_set_conv_nth)
  with s have "n < length (drop k segments)" "i \<in> set (sg_sourceMessageIds (drop k segments ! n))"
    by simp_all
  then show ?thesis by (intro exI [of _ "k + n"]) auto
qed

lemma tail_candidate_at_cut:
  assumes "tail_candidate_at ms segments previous k = Some c" "k < length segments"
  shows "cut_between ms segments k (tc_tailIndex c)" "tc_archivedSegments c = take k segments"
    "historyStart ms \<le> tc_tailIndex c" "previous_index ms previous < int (tc_tailIndex c)"
    "model_index ms (hm_id (ms ! tc_tailIndex c)) = At (tc_tailIndex c)"
proof -
  obtain t where t: "mapped_start ms (segments ! k) = At t" "c = \<lparr>tc_tailIndex = t, tc_archivedSegments = take k segments\<rparr>"
    and ok: "k \<noteq> 0" "list_all sg_closed (take k segments)" "sourceIdsRespectCut ms segments k t" "0 < t"
      "historyStart ms \<le> t" "previous_index ms previous < int t"
    using assms(1) by (auto simp: tail_candidate_at_def split: index_entry.splits if_splits)
  note at = model_index_At [OF t(1) [unfolded mapped_start_def]]
  show "tc_archivedSegments c = take k segments" "historyStart ms \<le> tc_tailIndex c"
    "previous_index ms previous < int (tc_tailIndex c)"
    using t(2) ok by simp_all
  show "model_index ms (hm_id (ms ! tc_tailIndex c)) = At (tc_tailIndex c)"
    using t at(2) by (simp add: mapped_start_def)
  have "j < t" if "i \<in> set (segments_ids (take k segments))" "j < length ms" "hm_id (ms ! j) = i" for i j
    using in_take_ids [OF that(1)] respects_cut [OF ok(3) _ _ that(2,3)] by fastforce
  moreover have "t \<le> j" if "i \<in> set (segments_ids (drop k segments))" "j < length ms" "hm_id (ms ! j) = i" for i j
    using in_drop_ids [OF that(1)] respects_cut [OF ok(3) _ _ that(2,3)] by fastforce
  ultimately show "cut_between ms segments k (tc_tailIndex c)"
    using t(2) ok(1,2,4) at(1,2) assms(2) unfolding cut_between_def list_all_iff by fastforce
qed

lemma safe_candidate_set: "set (safeTailCandidates ms segments limit previous) \<subseteq> set (tail_candidates ms segments previous)"
  by (auto simp: safeTailCandidates_def Let_def split: option.splits dest: in_set_dropD)

lemma safe_candidate_cut:
  assumes "c \<in> set (safeTailCandidates ms segments limit previous)"
  obtains k where "cut_between ms segments k (tc_tailIndex c)" "tc_archivedSegments c = take k segments"
    "historyStart ms \<le> tc_tailIndex c" "previous_index ms previous < int (tc_tailIndex c)"
    "model_index ms (hm_id (ms ! tc_tailIndex c)) = At (tc_tailIndex c)"
proof -
  from assms safe_candidate_set obtain k where "k < length segments" "tail_candidate_at ms segments previous k = Some c"
    by (fastforce simp: tail_candidates_def List.map_filter_def)
  with tail_candidate_at_cut [OF this(2,1)] that show ?thesis by blast
qed

section \<open>Applying a checkpoint\<close>

lemma applyCheckpoint_Some_iff:
  "applyCheckpoint cr ms ck skip = Some out \<longleftrightarrow>
     (\<exists>t user. find_index (\<lambda>m. hm_id m = ck_tailStartMessageId ck) ms = Some t
       \<and> (skip \<or> archivedPrefixFingerprint cr (take t ms) = ck_archivedPrefixFingerprint ck)
       \<and> latestUserMessage ms = Some user \<and> truthy (info_of user ''sessionID'') \<and> truthy (info_of user ''model'')
       \<and> out = context_user ck user (take t ms) (ms ! t) # drop t ms)"
proof (cases "find_index (\<lambda>m. hm_id m = ck_tailStartMessageId ck) ms")
  case None
  then show ?thesis by (simp add: applyCheckpoint_def)
next
  case (Some t)
  then have "hd (drop t ms) = ms ! t"
    using find_index_SomeD [OF Some] by (simp add: hd_drop_conv_nth)
  then show ?thesis
    by (cases "latestUserMessage ms") (auto simp: applyCheckpoint_def Some Let_def split: if_splits)
qed

lemma hm_id_context_user: "hm_id (context_user ck user archived first) = hm_id first @ js ''_reflection_context_user''"
  by (simp add: hm_id_def info_of_def context_user_def Let_def spread_def prop_of_set_prop string_of_def)

lemma hm_parts_context_user:
  "info_of user ''sessionID'' = info_of old ''sessionID'' \<Longrightarrow>
   hm_parts (context_user ck user archived first) = hm_parts (context_user ck old archived first)"
  by (simp add: context_user_def Let_def)

lemma find_index_append: "find_index p xs = Some i \<Longrightarrow> find_index p (xs @ ys) = Some i"
  by (induction xs arbitrary: i) (auto split: if_splits)

section \<open>The loop over the candidates\<close>

definition cache_loaded :: "project_input \<Rightarrow> summary_cache \<Rightarrow> bool" where
  "cache_loaded inp cache \<longleftrightarrow>
     sc_summaries cache = [] \<or> (\<exists>n segs. pi_loadSummaries inp n segs = Inr (sc_summaries cache))"

lemma load_summaries_loaded: "cache_loaded inp cache \<Longrightarrow> cache_loaded inp (load_summaries inp c ids cache)"
  by (auto simp: load_summaries_def cache_loaded_def split: sum.splits)

lemma try_candidate_cases:
  assumes "try_candidate cr inp sid c cache = Inr (found, cache')"
  obtains ids ck built where "rmap (identity_of cr inp sid) (tc_archivedSegments c) = Inr ids"
    "cache' = load_summaries inp c ids cache" "next_checkpoint cr inp sid c cache' = Inr (ck, built)"
    "\<And>r. found = Some r \<Longrightarrow> \<exists>projected. applyCheckpoint cr (pi_messages inp) ck False = Some projected
       \<and> estimateRequestTokens projected (pi_contextLimit inp) (Some ck) < enat (threshold inp)
       \<and> r = reset_result inp sid c ck built projected"
proof -
  obtain ids where ids: "rmap (identity_of cr inp sid) (tc_archivedSegments c) = Inr ids"
    using assms by (auto simp: try_candidate_def)
  obtain x where x: "next_checkpoint cr inp sid c (load_summaries inp c ids cache) = Inr x"
    using assms by (auto simp: try_candidate_def ids Let_def)
  obtain ck built where ckb: "x = (ck, built)" by fastforce
  have "cache' = load_summaries inp c ids cache"
    using assms by (auto simp: try_candidate_def ids Let_def x ckb split: option.splits if_splits)
  moreover have "\<exists>projected. applyCheckpoint cr (pi_messages inp) ck False = Some projected
       \<and> estimateRequestTokens projected (pi_contextLimit inp) (Some ck) < enat (threshold inp)
       \<and> r = reset_result inp sid c ck built projected" if "found = Some r" for r
    using assms that by (auto simp: try_candidate_def ids Let_def x ckb not_le split: option.splits if_splits)
  ultimately show ?thesis using that ids x ckb by blast
qed

lemma try_candidates_found:
  assumes "try_candidates cr inp sid cs cache = Inr (Some r)" "cache_loaded inp cache"
  obtains c cache0 cache1 where "c \<in> set cs" "try_candidate cr inp sid c cache0 = Inr (Some r, cache1)"
    "cache_loaded inp cache1"
  using assms
proof (induction cs arbitrary: cache thesis)
  case Nil
  then show ?case by simp
next
  case (Cons c cs)
  from Cons.prems(2) obtain found cache1
    where c: "try_candidate cr inp sid c cache = Inr (found, cache1)" by fastforce
  then have loaded: "cache_loaded inp cache1"
    by (elim try_candidate_cases) (simp add: load_summaries_loaded Cons.prems(3))
  show ?case
  proof (cases found)
    case None
    with Cons.prems(2) c have "try_candidates cr inp sid cs cache1 = Inr (Some r)" by simp
    from Cons.IH [OF _ this loaded] Cons.prems(1) show ?thesis by (metis list.set_intros(2))
  next
    case (Some r')
    with Cons.prems(2) c have "found = Some r" by simp
    with c loaded Cons.prems(1) show ?thesis by (metis list.set_intros(1))
  qed
qed

lemma try_candidates_total:
  assumes "\<And>c cache. c \<in> set cs \<Longrightarrow> \<exists>x. try_candidate cr inp sid c cache = Inr x"
  shows "\<exists>x. try_candidates cr inp sid cs cache = Inr x"
  using assms
proof (induction cs arbitrary: cache)
  case Nil
  then show ?case by simp
next
  case (Cons c cs)
  obtain found cache1 where "try_candidate cr inp sid c cache = Inr (found, cache1)"
    using Cons.prems [of c cache] by auto
  with Cons show ?case by (cases found) auto
qed

section \<open>Outcomes\<close>

lemma threshold_le: "threshold inp \<le> hardLimit inp"
  by (simp add: threshold_def)

lemma reset_possible_emergency: "enat (hardLimit inp) \<le> e \<Longrightarrow> reset_possible inp e"
  using order_trans [of "enat (threshold inp)" "enat (hardLimit inp)" e] threshold_le [of inp]
  by (auto simp: reset_possible_def)

lemma projectMessages_cases:
  assumes "projectMessages cr inp = Inr r"
  obtains (unchanged) ck projected where "current_checkpoint cr inp = Inr (ck, projected)"
      "r = unchangedResult inp ck projected (estimateRequestTokens projected (pi_contextLimit inp) ck)"
      "estimateRequestTokens projected (pi_contextLimit inp) ck < enat (hardLimit inp)"
    | (reset) ck projected segments sid c cache0 cache1 where "current_checkpoint cr inp = Inr (ck, projected)"
      "pi_loadCanonicalSegments inp = Inr segments"
      "c \<in> set (safeTailCandidates (pi_messages inp) segments (pi_contextLimit inp) ck)"
      "try_candidate cr inp sid c cache0 = Inr (Some r, cache1)" "cache_loaded inp cache1"
proof -
  obtain ck projected where cp: "current_checkpoint cr inp = Inr (ck, projected)"
    using assms by (auto simp: projectMessages_def split: if_splits)
  define e where "e = estimateRequestTokens projected (pi_contextLimit inp) ck"
  define start where "start = \<lparr>sc_summaries = [], sc_failed = False, sc_requested = [], sc_calls = 0\<rparr>"
  have start: "cache_loaded inp start" by (simp add: start_def cache_loaded_def)
  show ?thesis
  proof (cases "r = unchangedResult inp ck projected e \<and> e < enat (hardLimit inp)")
    case True
    then show ?thesis using cp unchanged unfolding e_def by blast
  next
    case False
    then have possible: "reset_possible inp e"
      using assms reset_possible_emergency [of inp e]
      by (auto simp: projectMessages_def cp e_def [symmetric] not_less Let_def split: if_splits)
    then obtain segments where segs: "pi_loadCanonicalSegments inp = Inr segments"
      using assms by (auto simp: projectMessages_def cp e_def [symmetric] Let_def split: if_splits)
    define cs where "cs = safeTailCandidates (pi_messages inp) segments (pi_contextLimit inp) ck"
    from assms False possible obtain sid where
      "rbind (try_candidates cr inp sid cs start) (\<lambda>found. case found of Some r \<Rightarrow> Inr r
         | None \<Rightarrow> if \<not> enat (hardLimit inp) \<le> e then Inr (unchangedResult inp ck projected e)
             else Inl ''Reflection could not fit any safe message-aligned projection tail'') = Inr r"
      by (auto simp: projectMessages_def cp e_def [symmetric] segs cs_def [symmetric] start_def [symmetric] Let_def
          split: if_splits option.splits jsval.splits)
    with False have "try_candidates cr inp sid cs start = Inr (Some r)"
      by (auto simp: not_le split: option.splits if_splits)
    from try_candidates_found [OF this start] show ?thesis
      using reset [OF cp segs] unfolding cs_def by metis
  qed
qed

lemma reset_checkpoint:
  assumes "try_candidate cr inp sid c cache0 = Inr (Some r, cache1)"
  obtains ck built projected where "next_checkpoint cr inp sid c cache1 = Inr (ck, built)"
    "applyCheckpoint cr (pi_messages inp) ck False = Some projected"
    "estimateRequestTokens projected (pi_contextLimit inp) (Some ck) < enat (threshold inp)"
    "r = reset_result inp sid c ck built projected"
  using assms by (elim try_candidate_cases) blast

lemma next_checkpoint_fields:
  assumes "next_checkpoint cr inp sid c cache = Inr (ck, built)"
  shows "ck_tailStartMessageId ck = hm_id (pi_messages inp ! tc_tailIndex c)"
    "rmap (toProjectionArchivedSegment cr (identity_of cr inp) sid) (tc_archivedSegments c) = Inr (ck_archivedSegments ck)"
    "ck_lossy ck = (if bs_lossy built then Some True else None)" "ck_summaryText ck = bs_text built"
    "\<exists>segments all_matched.
       summaryCoverage (identity_of cr inp) sid (tc_archivedSegments c) (sc_summaries cache) = Inr (segments, all_matched)
       \<and> built = buildSummaryText segments (take (tc_tailIndex c) (pi_messages inp)) (pi_contextLimit inp)
           (inherited_entries (pi_messages inp) (tc_tailIndex c)) (reset_omissions (pi_messages inp) c cache all_matched)"
  using assms by (auto simp: next_checkpoint_def Let_def split: prod.splits)

text \<open>Everything a reset decides, as the properties below use it.\<close>

lemma reset_facts:
  assumes "projectMessages cr inp = Inr r" "pr_reset r"
  obtains segments k sid c cache ck built user where
    "pi_loadCanonicalSegments inp = Inr segments" "cut_between (pi_messages inp) segments k (tc_tailIndex c)"
    "tc_archivedSegments c = take k segments" "next_checkpoint cr inp sid c cache = Inr (ck, built)"
    "cache_loaded inp cache" "latestUserMessage (pi_messages inp) = Some user"
    "find_index (\<lambda>m. hm_id m = ck_tailStartMessageId ck) (pi_messages inp) = Some (tc_tailIndex c)"
    "archivedPrefixFingerprint cr (take (tc_tailIndex c) (pi_messages inp)) = ck_archivedPrefixFingerprint ck"
    "pr_messages r = context_user ck user (take (tc_tailIndex c) (pi_messages inp)) (pi_messages inp ! tc_tailIndex c)
       # drop (tc_tailIndex c) (pi_messages inp)"
    "pr_estimatedTokens r = estimateRequestTokens (pr_messages r) (pi_contextLimit inp) (Some ck)"
    "pr_estimatedTokens r < enat (threshold inp)" "st_checkpoint (pr_state r) = Some ck"
  using assms(1)
proof (cases rule: projectMessages_cases)
  case (unchanged ck projected)
  with assms(2) show ?thesis by (simp add: unchangedResult_def)
next
  case (reset ck0 projected0 segments sid c cache0 cache)
  from safe_candidate_cut [OF reset(3)] obtain k where
    k: "cut_between (pi_messages inp) segments k (tc_tailIndex c)" "tc_archivedSegments c = take k segments"
      "model_index (pi_messages inp) (hm_id (pi_messages inp ! tc_tailIndex c)) = At (tc_tailIndex c)"
    by blast
  from reset(4) obtain ck built projected where ck: "next_checkpoint cr inp sid c cache = Inr (ck, built)"
    "applyCheckpoint cr (pi_messages inp) ck False = Some projected"
    "estimateRequestTokens projected (pi_contextLimit inp) (Some ck) < enat (threshold inp)"
    "r = reset_result inp sid c ck built projected"
    by (rule reset_checkpoint)
  have tail: "find_index (\<lambda>m. hm_id m = ck_tailStartMessageId ck) (pi_messages inp) = Some (tc_tailIndex c)"
    using k(1) model_index_At(3) [OF k(3)]
    by (intro find_index_unique) (auto simp: next_checkpoint_fields(1) [OF ck(1)] cut_between_def)
  from ck(2) obtain user where
    "archivedPrefixFingerprint cr (take (tc_tailIndex c) (pi_messages inp)) = ck_archivedPrefixFingerprint ck"
    "latestUserMessage (pi_messages inp) = Some user"
    "projected = context_user ck user (take (tc_tailIndex c) (pi_messages inp)) (pi_messages inp ! tc_tailIndex c)
       # drop (tc_tailIndex c) (pi_messages inp)"
    by (auto simp: applyCheckpoint_Some_iff tail)
  with that reset(2,5) k(1,2) ck tail show ?thesis by (simp add: reset_result_def)
qed

section \<open>Properties\<close>

text \<open>
  C33. A reset cuts the transcript between two segments: the archived segments are closed, none of
  their source messages is among the messages kept, every source message of a later segment is, and
  what is sent is one context message followed by exactly the transcript from the cut on. The
  checkpoint lists the archived segments.
\<close>

theorem reset_cuts_between_segments:
  assumes "projectMessages cr inp = Inr r" "pr_reset r"
  shows "\<exists>segments k t ck. pi_loadCanonicalSegments inp = Inr segments
    \<and> cut_between (pi_messages inp) segments k t \<and> tl (pr_messages r) = drop t (pi_messages inp)
    \<and> st_checkpoint (pr_state r) = Some ck \<and> ck_tailStartMessageId ck = sg_startMessageId (segments ! k)
    \<and> map as_startUserMessageId (ck_archivedSegments ck) = map sg_startUserMessageId (take k segments)
    \<and> map as_endUserMessageId (ck_archivedSegments ck) = map sg_endUserMessageId (take k segments)"
proof -
  have meta: "map as_startUserMessageId as = map sg_startUserMessageId ss \<and> map as_endUserMessageId as = map sg_endUserMessageId ss"
    if "rmap (toProjectionArchivedSegment cr f sid) ss = Inr as" for f sid ss as
    using that by (induction ss arbitrary: as) (auto simp: toProjectionArchivedSegment_def Let_def)
  from assms obtain segments k sid c cache ck built user where
    f: "pi_loadCanonicalSegments inp = Inr segments" "cut_between (pi_messages inp) segments k (tc_tailIndex c)"
      "tc_archivedSegments c = take k segments" "next_checkpoint cr inp sid c cache = Inr (ck, built)"
      "pr_messages r = context_user ck user (take (tc_tailIndex c) (pi_messages inp)) (pi_messages inp ! tc_tailIndex c)
       # drop (tc_tailIndex c) (pi_messages inp)" "st_checkpoint (pr_state r) = Some ck"
    by (rule reset_facts)
  note n = next_checkpoint_fields [OF f(4)]
  from meta [OF n(2)] f n(1) show ?thesis
    by (intro exI [of _ segments] exI [of _ k] exI [of _ "tc_tailIndex c"] exI [of _ ck])
      (simp add: cut_between_def)
qed

theorem reset_cuts_between_segments_witness:
  "\<exists>k t. cut_between sample_messages [archived_sample, live_sample] k t \<and> tl sample_projected = drop t sample_messages"
  using reset_cuts_between_segments [OF sample_reset] by (auto simp: reset_result_def sample_fields)

lemma hard_limit_facts:
  assumes "projectMessages cr inp = Inr r"
  shows "pr_estimatedTokens r = estimateRequestTokens (pr_messages r) (pi_contextLimit inp) (st_checkpoint (pr_state r))"
    and "pr_estimatedTokens r < enat (hardLimit inp)"
    and "10 * hardLimit inp \<le> 9 * pi_contextLimit inp"
    and "hardLimit inp + maxOutput inp \<le> pi_contextLimit inp"
    and "case pi_inputLimit inp of None \<Rightarrow> True | Some n \<Rightarrow> hardLimit inp \<le> n"
proof -
  show est: "pr_estimatedTokens r = estimateRequestTokens (pr_messages r) (pi_contextLimit inp) (st_checkpoint (pr_state r))"
    using assms
  proof (cases rule: projectMessages_cases)
    case (unchanged ck projected)
    then show ?thesis by (simp add: unchangedResult_def)
  next
    case (reset ck projected segments sid c cache0 cache1)
    from reset(4) show ?thesis by (rule reset_checkpoint) (simp add: reset_result_def)
  qed
  show below: "pr_estimatedTokens r < enat (hardLimit inp)"
    using assms
  proof (cases rule: projectMessages_cases)
    case (unchanged ck projected)
    then show ?thesis by (simp add: unchangedResult_def)
  next
    case (reset ck projected segments sid c cache0 cache1)
    have "enat (threshold inp) \<le> enat (hardLimit inp)" using threshold_le by simp
    moreover from reset(4) have "pr_estimatedTokens r < enat (threshold inp)"
      by (rule reset_checkpoint) (simp add: reset_result_def)
    ultimately show ?thesis by (rule less_le_trans [rotated])
  qed
  then have "0 < hardLimit inp" by (cases "hardLimit inp = 0") (simp_all add: zero_enat_def [symmetric])
  then have pos: "int (hardLimit inp) = min (int (pi_contextLimit inp * 9 div 10)) (hardInput inp)"
    by (simp add: hardLimit_def)
  then show "10 * hardLimit inp \<le> 9 * pi_contextLimit inp" by linarith
  from pos have "int (hardLimit inp) \<le> hardInput inp" by simp
  then show "hardLimit inp + maxOutput inp \<le> pi_contextLimit inp"
    "case pi_inputLimit inp of None \<Rightarrow> True | Some n \<Rightarrow> hardLimit inp \<le> n"
    by (auto simp: hardInput_def split: option.splits)
qed

text \<open>
  C34. Whatever \<open>projectMessages\<close> returns, reset or not, is estimated below the hard limit, and the
  hard limit leaves a tenth of the context, the whole output and the declared input limit free.
\<close>

theorem projection_within_hard_limit:
  assumes "projectMessages cr inp = Inr r"
  shows "pr_estimatedTokens r = estimateRequestTokens (pr_messages r) (pi_contextLimit inp) (st_checkpoint (pr_state r))
    \<and> pr_estimatedTokens r < enat (hardLimit inp) \<and> 10 * hardLimit inp \<le> 9 * pi_contextLimit inp
    \<and> hardLimit inp + maxOutput inp \<le> pi_contextLimit inp
    \<and> (case pi_inputLimit inp of None \<Rightarrow> True | Some n \<Rightarrow> hardLimit inp \<le> n)"
  using hard_limit_facts [OF assms] by blast

theorem projection_within_hard_limit_witness:
  "estimateRequestTokens sample_projected 20000 (Some sample_checkpoint) < enat 18000"
  using projection_within_hard_limit [OF sample_reset] by (simp add: reset_result_def sample_limits sample_fields)

text \<open>
  C35. A checkpoint stays applicable as the session grows: after any further messages of the same
  session it gives the same context message parts, the same tail and then the new messages.
\<close>

theorem checkpoint_survives_growth:
  assumes "projectMessages cr inp = Inr r" "pr_reset r" "st_checkpoint (pr_state r) = Some ck"
    and "latestUserMessage (pi_messages inp) = Some old" "latestUserMessage (pi_messages inp @ new) = Some user"
    and "truthy (info_of user ''sessionID'')" "truthy (info_of user ''model'')"
    and "info_of user ''sessionID'' = info_of old ''sessionID''"
  shows "\<exists>first. applyCheckpoint cr (pi_messages inp @ new) ck False = Some (first # tl (pr_messages r) @ new)
    \<and> hm_parts first = hm_parts (hd (pr_messages r)) \<and> hm_id first = hm_id (hd (pr_messages r))"
  using assms(1,2)
proof (cases rule: reset_facts)
  case (1 segments k sid c cache ck' built user')
  note f = 1(6-9) 1(12)
  from f assms(3,4) have [simp]: "ck' = ck" "user' = old" by simp_all
  let ?t = "tc_tailIndex c" and ?ms = "pi_messages inp"
  have t: "?t < length ?ms" using find_index_SomeD [OF f(2)] by simp
  have "find_index (\<lambda>m. hm_id m = ck_tailStartMessageId ck) (?ms @ new) = Some ?t"
    using find_index_append [OF f(2)] by simp
  then have "applyCheckpoint cr (?ms @ new) ck False =
      Some (context_user ck user (take ?t ?ms) (?ms ! ?t) # drop ?t ?ms @ new)"
    using assms(5-7) f(3) t by (auto simp: applyCheckpoint_Some_iff nth_append)
  then show ?thesis
    by (simp add: f(4) hm_id_context_user hm_parts_context_user [OF assms(8)])
qed

theorem checkpoint_survives_growth_witness:
  "\<exists>first. applyCheckpoint sample_crypto (sample_messages @ [assistant_message ''w'' ''1'']) sample_checkpoint False
     = Some (first # tl sample_projected @ [assistant_message ''w'' ''1''])
    \<and> hm_parts first = hm_parts (hd sample_projected) \<and> hm_id first = hm_id (hd sample_projected)"
proof -
  have "latestUserMessage (sample_messages @ [assistant_message ''w'' ''1'']) = Some (user_message ''v'')"
    "truthy (info_of (user_message ''v'') ''sessionID'')" "truthy (info_of (user_message ''v'') ''model'')"
    by code_simp+
  then show ?thesis
    using checkpoint_survives_growth [OF sample_reset, of sample_checkpoint "user_message ''v''"
        "[assistant_message ''w'' ''1'']" "user_message ''v''"]
    by (simp add: reset_result_def sample_latest sample_fields)
qed

text \<open>The prefix fingerprint frames each message, so it can be taken apart again.\<close>

lemma frames_not_empty: "utf8 (frames (v # vs)) \<noteq> []"
  using utf8_frame_append [of "frames vs" v] by simp

lemma frames_decode: "utf8 (frames vs) = utf8 (frames ws) \<Longrightarrow> map utf8 vs = map utf8 ws"
proof (induction vs arbitrary: ws)
  case Nil
  then show ?case using frames_not_empty [of "hd ws" "tl ws"] by (cases ws) auto
next
  case (Cons v vs)
  show ?case
  proof (cases ws)
    case Nil
    with Cons.prems frames_not_empty [of v vs] show ?thesis by simp
  next
    case (Cons w ws')
    with Cons.prems have "utf8 v = utf8 w \<and> utf8 (frames vs) = utf8 (frames ws')"
      by (intro utf8Frame_inject) simp_all
    with Cons.IH [of ws'] Cons show ?thesis by simp
  qed
qed

definition host_bytes :: "host_message \<Rightarrow> nat list" where
  "host_bytes m = utf8 (json_text (host_json m))"

text \<open>
  C36. A checkpoint archives one history only: a transcript it applies to begins with the archived messages
  byte for byte, as JSON, up to an explicit SHA-256 collision. Editing, reverting or inserting a message
  before the cut makes the checkpoint inapplicable.
\<close>

theorem checkpoint_archives_one_history:
  assumes "projectMessages cr inp = Inr r" "pr_reset r" "st_checkpoint (pr_state r) = Some ck"
    and "applyCheckpoint cr ms ck False = Some out"
  shows "\<exists>t t'. tl (pr_messages r) = drop t (pi_messages inp) \<and> tl out = drop t' ms
    \<and> (map host_bytes (take t' ms) = map host_bytes (take t (pi_messages inp))
       \<or> (\<exists>a b. a \<noteq> b \<and> sha256_hex cr a = sha256_hex cr b
            \<and> a = utf8 (frames (map (\<lambda>m. json_text (host_json m)) (take t' ms)))
            \<and> b = utf8 (frames (map (\<lambda>m. json_text (host_json m)) (take t (pi_messages inp))))))"
  using assms(1,2)
proof (cases rule: reset_facts)
  case (1 segments k sid c cache ck' built user)
  let ?t = "tc_tailIndex c"
  from 1(12) assms(3) have [simp]: "ck' = ck" by simp
  from assms(4) obtain t' user' where t': "archivedPrefixFingerprint cr (take t' ms) = ck_archivedPrefixFingerprint ck"
    "out = context_user ck user' (take t' ms) (ms ! t') # drop t' ms"
    by (auto simp: applyCheckpoint_Some_iff)
  let ?pre = "\<lambda>xs. utf8 (frames (map (\<lambda>m. json_text (host_json m)) xs))"
  have "sha256_hex cr (?pre (take t' ms)) = sha256_hex cr (?pre (take ?t (pi_messages inp)))"
    using t'(1) 1(8) by (simp add: archivedPrefixFingerprint_def)
  moreover have "map host_bytes (take t' ms) = map host_bytes (take ?t (pi_messages inp))"
    if "?pre (take t' ms) = ?pre (take ?t (pi_messages inp))"
    using frames_decode [OF that] by (simp add: host_bytes_def [abs_def] comp_def)
  ultimately show ?thesis
    using t'(2) 1(9) by (intro exI [of _ ?t] exI [of _ t']) auto
qed

theorem checkpoint_archives_one_history_witness:
  "\<exists>t t'. tl sample_projected = drop t sample_messages \<and> tl sample_projected = drop t' sample_messages
    \<and> (map host_bytes (take t' sample_messages) = map host_bytes (take t sample_messages)
       \<or> (\<exists>a b. a \<noteq> b \<and> sha256_hex sample_crypto a = sha256_hex sample_crypto b))"
  using checkpoint_archives_one_history [OF sample_reset, of sample_checkpoint sample_messages sample_projected]
  by (fastforce simp: reset_result_def sample_fields sample_applied)

end
