(* ===== verification/Lossless.thy ===== *)
theory Lossless
  imports ProjectionSafety
begin

text \<open>
  A checkpoint that is not marked lossy has lost nothing it could name: every archived segment is
  represented by its exact summary, every archived message with content belongs to an archived segment,
  and every tool record is in the text.
\<close>

section \<open>Texts within texts\<close>

lemma sublist_concat: "x \<in> set xs \<Longrightarrow> sublist (f x) (concat (map f xs))"
  by (auto simp: sublist_def dest!: split_list) blast

lemma sublist_join: "x \<in> set xs \<Longrightarrow> sublist x (join sep xs)"
proof (cases xs)
  case (Cons y ys)
  assume "x \<in> set xs"
  then consider "x = y" | "x \<in> set ys" using Cons by auto
  then show ?thesis
  proof cases
    case 1
    then show ?thesis by (auto simp: Cons join_def sublist_def)
  next
    case 2
    from sublist_concat [OF this, of "\<lambda>y. sep @ y"]
    obtain a b where "concat (map (\<lambda>y. sep @ y) ys) = a @ (sep @ x) @ b" by (auto simp: sublist_def)
    then have "join sep xs = (y @ a @ sep) @ x @ b" by (simp add: Cons join_def)
    then show ?thesis unfolding sublist_def by blast
  qed
qed simp

section \<open>Budgets and reasons\<close>

lemma newest_fitting_length: "length (newest_fitting es n) \<le> length es"
  by (induction es arbitrary: n) (auto intro: le_SucI)

lemma newest_fitting_all: "length (newest_fitting es n) = length es \<Longrightarrow> newest_fitting es n = rev es \<and> [] \<notin> set es"
proof (induction es arbitrary: n)
  case Nil
  then show ?case by simp
next
  case (Cons e es)
  then show ?case
    using newest_fitting_length [of es n] newest_fitting_length [of es "n - length e"]
    by (auto split: if_splits)
qed

lemma boundedNewest_all:
  assumes "boundedNewest es n = (sel, 0)"
  shows "sel = es" "[] \<notin> set es"
proof -
  from assms have sel: "sel = newest_fitting (rev es) n" "length es \<le> length sel"
    by (auto simp: boundedNewest_def Let_def)
  then have "length (newest_fitting (rev es) n) = length (rev es)"
    using newest_fitting_length [of "rev es" n] by simp
  from newest_fitting_all [OF this] sel show "sel = es" "[] \<notin> set es" by simp_all
qed

lemma set_add_reason: "set (add_reason r rs) = insert r (set rs)"
  by (auto simp: add_reason_def)

lemma set_fold_add_reason: "set (fold add_reason xs rs) = set xs \<union> set rs"
  by (induction xs arbitrary: rs) (auto simp: set_add_reason)

lemma fold_add_reason_Nil: "fold add_reason xs rs = [] \<longleftrightarrow> xs = [] \<and> rs = []"
  using set_fold_add_reason [of xs rs] by (metis set_empty sup_eq_bot_iff)

lemma add_reason_not_Nil: "add_reason r rs \<noteq> []"
  by (auto simp: add_reason_def)

lemma sort_Nil_iff: "sort xs = [] \<longleftrightarrow> xs = []"
  by (metis set_empty set_sort)

section \<open>What an unmarked text holds\<close>

lemma buildSummaryText_lossless:
  assumes "built = buildSummaryText segments archived limit inherited omissions" "\<not> bs_lossy built"
  shows "omissions = []" "tr_reasons (toolEntries archived) = []" "\<not> tr_truncated (toolEntries archived)"
    "u \<in> set segments \<Longrightarrow> sublist (segment_entry u) (bs_text built)"
    "e \<in> set inherited \<Longrightarrow> sublist e (bs_text built)"
    "e \<in> set (tr_entries (toolEntries archived)) \<Longrightarrow> sublist e (bs_text built)"
proof -
  let ?tools = "toolEntries archived" and ?all = "inherited @ map segment_entry segments"
  obtain b1 b2 where b: "content_budgets limit (inherited \<noteq> [] \<or> segments \<noteq> []) (tr_entries ?tools \<noteq> []) = (b1, b2)"
    by fastforce
  obtain sel n where sel: "boundedNewest ?all b1 = (sel, n)" by fastforce
  obtain tools k where tools: "boundedNewest (tr_entries ?tools) b2 = (tools, k)" by fastforce
  note parts = assms(1) buildSummaryText_def Let_def b sel tools prod.case built_summary.select_convs
  have "sort (fold add_reason (omissions @ tr_reasons ?tools
      @ (if n > 0 then [js ''summary-budget-omission''] else [])
      @ (if k > 0 then [js ''tool-budget-omission''] else [])
      @ (if tr_truncated ?tools then [js ''tool-record-truncation''] else [])) []) = []"
    using assms(2) by (simp only: parts not_not)
  then have "omissions @ tr_reasons ?tools
      @ (if n > 0 then [js ''summary-budget-omission''] else [])
      @ (if k > 0 then [js ''tool-budget-omission''] else [])
      @ (if tr_truncated ?tools then [js ''tool-record-truncation''] else []) = []"
    unfolding sort_Nil_iff fold_add_reason_Nil by (rule conjunct1)
  then have none: "omissions = [] \<and> tr_reasons ?tools = [] \<and> n = 0 \<and> k = 0 \<and> \<not> tr_truncated ?tools"
    by (simp split: if_splits)
  then show "omissions = []" "tr_reasons ?tools = []" "\<not> tr_truncated ?tools" by simp_all
  from none sel tools have all: "sel = ?all" "[] \<notin> set ?all" "tools = tr_entries ?tools" "[] \<notin> set (tr_entries ?tools)"
    by (auto dest: boundedNewest_all)
  have "sublist e (bs_text built)" if "e \<in> set sel \<union> set tools" for e
  proof -
    have "e \<noteq> []" using that all by auto
    have "e \<in> set (filter (\<lambda>t. t \<noteq> []) (xs @ filter (\<lambda>e. e \<in> set inherited) sel @ ys
        @ filter (\<lambda>e. e \<notin> set inherited) sel @ zs @ tools @ ws))" for xs ys zs ws
      using that \<open>e \<noteq> []\<close> by auto
    then have "sublist e (join [10, 10] (filter (\<lambda>t. t \<noteq> []) (xs @ filter (\<lambda>e. e \<in> set inherited) sel @ ys
        @ filter (\<lambda>e. e \<notin> set inherited) sel @ zs @ tools @ ws)))" for xs ys zs ws
      by (rule sublist_join)
    from this [of "[_, _] @ _ @ [_, _, _]"] show ?thesis by (simp only: parts append_assoc)
  qed
  with all show "u \<in> set segments \<Longrightarrow> sublist (segment_entry u) (bs_text built)"
    "e \<in> set inherited \<Longrightarrow> sublist e (bs_text built)"
    "e \<in> set (tr_entries ?tools) \<Longrightarrow> sublist e (bs_text built)" by auto
qed

lemma set_content_omissions:
  "set (fold (content_omissions m) ps rs) = set rs
     \<union> (if \<exists>p\<in>set ps. has_reasoning m p then {REASONING} else {})
     \<union> (if \<exists>p\<in>set ps. part_visible m p \<and> p_type (typed_part p) = PFile then {MEDIA} else {})"
  by (induction ps arbitrary: rs) (auto simp: content_omissions_def Let_def set_add_reason)

lemma archivedContentOmissions_Nil:
  assumes "archivedContentOmissions ms = []" "m \<in> set ms" "msg_visible m" "p \<in> set (hm_parts m)"
  shows "\<not> has_reasoning m p" "part_visible m p \<Longrightarrow> p_type (typed_part p) \<noteq> PFile"
proof -
  let ?step = "\<lambda>m rs. if msg_visible m then fold (content_omissions m) (hm_parts m) rs else rs"
  have mono: "set rs \<subseteq> set (fold ?step ms rs)" for ms rs
    by (induction ms arbitrary: rs) (fastforce simp: set_content_omissions)+
  have "set (fold (content_omissions m) (hm_parts m) rs) \<subseteq> set (fold ?step ms rs')"
    if "m \<in> set ms" "rs = []" for rs rs' ms
    using that
  proof (induction ms arbitrary: rs')
    case Nil
    then show ?case by simp
  next
    case (Cons m' ms)
    show ?case
    proof (cases "m' = m")
      case True
      have "set (fold (content_omissions m) (hm_parts m) []) \<subseteq> set (?step m rs')"
        using assms(3) by (auto simp: set_content_omissions)
      with mono [of "?step m rs'" ms] True Cons.prems(2) show ?thesis by auto
    next
      case False
      with Cons show ?thesis by simp
    qed
  qed
  from this [OF assms(2) refl, of "[]"] assms(1)
  have "set (fold (content_omissions m) (hm_parts m) []) = {}"
    by (simp add: archivedContentOmissions_def)
  with assms(4) show "\<not> has_reasoning m p" "part_visible m p \<Longrightarrow> p_type (typed_part p) \<noteq> PFile"
    by (auto simp: set_content_omissions split: if_splits)
qed

lemma canonicalCoverageOmissions_Nil:
  assumes "canonicalCoverageOmissions ms segments = []" "i \<le> j" "j < length ms" "normal_user (ms ! i)"
  shows "\<not> unsegmented segments (ms ! j)"
proof -
  have "\<exists>m\<in>set ms. normal_user m" using assms(2-4) by (metis le_less_trans nth_mem)
  then obtain f where f: "find_index normal_user ms = Some f"
    by (cases "find_index normal_user ms") (auto simp: find_index_None_iff)
  then have "f \<le> i" using find_index_SomeD [OF f] assms(4) by (meson not_le)
  with assms(2,3) have "ms ! j \<in> set (drop f ms)"
    by (auto simp: in_set_conv_nth intro!: exI [of _ "j - f"])
  with assms(1) f show ?thesis by (auto simp: canonicalCoverageOmissions_def split: if_splits)
qed

section \<open>Coverage\<close>

lemma rfind_Some: "rfind p xs = Inr (Some x) \<Longrightarrow> x \<in> set xs \<and> p x = Inr True"
  by (induction xs) (auto split: if_splits)

lemma length_map_filter_all:
  "length (List.map_filter id xs) = length xs \<Longrightarrow> None \<notin> set xs"
proof (induction xs)
  case Nil
  then show ?case by simp
next
  case (Cons x xs)
  have "length (List.map_filter id xs) \<le> length xs" by (simp add: List.map_filter_def)
  with Cons show ?case by (cases x) (auto simp: List.map_filter_simps id_def)
qed

lemma summaryCoverage_complete:
  assumes "summaryCoverage f sid archived summaries = Inr (selected, True)" "s \<in> set archived"
  obtains u where "u \<in> set selected" "u \<in> set summaries" "f sid s = Inr (su_id u)" "same_boundary u s"
proof -
  obtain found where found: "rmap (\<lambda>s. rfind (summaryMatchesSegment f sid s) summaries) archived = Inr found"
    "selected = List.map_filter id found" "length (List.map_filter id found) = length archived"
    using assms(1) by (auto simp: summaryCoverage_def Let_def)
  with rmap_length [OF found(1)] have "None \<notin> set found" by (intro length_map_filter_all) simp
  moreover obtain y where "y \<in> set found" "rfind (summaryMatchesSegment f sid s) summaries = Inr y"
    using rmap_InrD [OF found(1) assms(2)] by blast
  ultimately obtain u where u: "Some u \<in> set found" "rfind (summaryMatchesSegment f sid s) summaries = Inr (Some u)"
    by (cases y) auto
  then have "u \<in> set selected" unfolding found(2) by (force simp: List.map_filter_def)
  moreover have "u \<in> set summaries" "summaryMatchesSegment f sid s u = Inr True"
    using rfind_Some [OF u(2)] by simp_all
  ultimately show ?thesis using that by (auto simp: summaryMatchesSegment_def)
qed

section \<open>Properties\<close>

text \<open>
  C37. A reset whose checkpoint is not marked lossy kept everything the projection accounts for: each
  archived segment has a stored summary with its identity and boundary, and that summary is in the text;
  no archived message has reasoning or media; from the first user request on, no archived message has
  content outside the archived segments; every archived tool record is in the text, unshortened; and so
  is all context inherited from before.
\<close>

theorem lossless_reset_keeps_everything:
  assumes "projectMessages cr inp = Inr r" "pr_reset r" "st_checkpoint (pr_state r) = Some ck" "ck_lossy ck = None"
  shows "\<exists>segments k t sid. pi_loadCanonicalSegments inp = Inr segments \<and> cut_between (pi_messages inp) segments k t
    \<and> (\<forall>s\<in>set (take k segments). \<exists>u. (\<exists>n segs us. pi_loadSummaries inp n segs = Inr us \<and> u \<in> set us)
         \<and> identity_of cr inp sid s = Inr (su_id u) \<and> same_boundary u s \<and> sublist (segment_entry u) (ck_summaryText ck))
    \<and> (\<forall>m\<in>set (take t (pi_messages inp)). \<forall>p\<in>set (hm_parts m). part_visible m p \<longrightarrow>
         p_type (typed_part p) \<noteq> PFile \<and> \<not> has_reasoning m p)
    \<and> (\<forall>i j. i \<le> j \<longrightarrow> j < t \<longrightarrow> normal_user (pi_messages inp ! i) \<longrightarrow>
         \<not> unsegmented (take k segments) (pi_messages inp ! j))
    \<and> tr_reasons (toolEntries (take t (pi_messages inp))) = [] \<and> \<not> tr_truncated (toolEntries (take t (pi_messages inp)))
    \<and> (\<forall>e\<in>set (tr_entries (toolEntries (take t (pi_messages inp)))) \<union> set (inherited_entries (pi_messages inp) t).
         sublist e (ck_summaryText ck))"
  using assms(1,2)
proof (cases rule: reset_facts)
  case (1 segments k sid c cache ck' built user)
  let ?t = "tc_tailIndex c" and ?ms = "pi_messages inp"
  note n = next_checkpoint_fields [OF 1(4)]
  from 1(12) assms(3) have [simp]: "ck' = ck" by simp
  from n(3) assms(4) have lossless: "\<not> bs_lossy built" by (simp split: if_splits)
  obtain selected all_matched where
    cov: "summaryCoverage (identity_of cr inp) sid (take k segments) (sc_summaries cache) = Inr (selected, all_matched)"
    and built: "built = buildSummaryText selected (take ?t ?ms) (pi_contextLimit inp) (inherited_entries ?ms ?t)
        (reset_omissions ?ms c cache all_matched)"
    using n(5) 1(3) by auto
  note l = buildSummaryText_lossless [OF built lossless]
  from l(1) 1(3) have none: "all_matched" "archivedContentOmissions (take ?t ?ms) = []"
    "canonicalCoverageOmissions (take ?t ?ms) (take k segments) = []"
    by (auto simp: reset_omissions_def split: if_splits)
  have summary: "\<exists>u. (\<exists>n segs us. pi_loadSummaries inp n segs = Inr us \<and> u \<in> set us)
         \<and> identity_of cr inp sid s = Inr (su_id u) \<and> same_boundary u s \<and> sublist (segment_entry u) (ck_summaryText ck)"
    if s: "s \<in> set (take k segments)" for s
  proof -
    from cov none(1) obtain u where u: "u \<in> set selected" "u \<in> set (sc_summaries cache)"
      "identity_of cr inp sid s = Inr (su_id u)" "same_boundary u s"
      using summaryCoverage_complete [OF _ s] by (metis (full_types))
    then have "\<exists>n segs us. pi_loadSummaries inp n segs = Inr us \<and> u \<in> set us"
      using 1(5) by (auto simp: cache_loaded_def)
    with u l(4) [OF u(1)] n(4) show ?thesis by auto
  qed
  have content: "p_type (typed_part p) \<noteq> PFile \<and> \<not> has_reasoning m p"
    if "m \<in> set (take ?t ?ms)" "p \<in> set (hm_parts m)" "part_visible m p" for m p
    using archivedContentOmissions_Nil [OF none(2) that(1) _ that(2)] that(3) by (auto simp: isModelVisiblePart_def)
  have covered: "\<not> unsegmented (take k segments) (?ms ! j)" if "i \<le> j" "j < ?t" "normal_user (?ms ! i)" for i j
    using canonicalCoverageOmissions_Nil [OF none(3) that(1)] that 1(2) by (simp add: cut_between_def)
  from 1(1,2) summary content covered l(2,3,5,6) n(4) show ?thesis
    by (intro exI [of _ segments] exI [of _ k] exI [of _ ?t] exI [of _ sid]) auto
qed

theorem lossless_reset_keeps_everything_witness:
  "\<exists>u n us. pi_loadSummaries reset_input n [archived_sample] = Inr us \<and> u \<in> set us \<and> same_boundary u archived_sample
     \<and> sublist (segment_entry u) sample_text"
proof -
  have "ck_lossy sample_checkpoint = None" "ck_summaryText sample_checkpoint = sample_text"
    by (simp_all add: sample_checkpoint_def)
  then obtain k t where "cut_between sample_messages [archived_sample, live_sample] k t"
    "\<forall>s\<in>set (take k [archived_sample, live_sample]). \<exists>u. (\<exists>n segs us. pi_loadSummaries reset_input n segs = Inr us \<and> u \<in> set us)
       \<and> same_boundary u s \<and> sublist (segment_entry u) sample_text"
    using lossless_reset_keeps_everything [OF sample_reset] by (fastforce simp: reset_result_def sample_fields)
  then show ?thesis by (cases k) (auto simp: cut_between_def sample_fields)
qed

section \<open>When projecting fails\<close>

definition well_formed_segment :: "segment \<Rightarrow> bool" where
  "well_formed_segment s \<longleftrightarrow>
     (if sg_sourceBoundaryVersion s = 1 then sg_startSourceMessageId s = None \<and> sg_endSourceMessageId s = None
      else sg_startSourceMessageId s \<noteq> None \<and> sg_endSourceMessageId s \<noteq> None)"

lemma fingerprint_total: "well_formed_segment s \<Longrightarrow> \<exists>fp. submissionSourceFingerprint cr sid s = Inr fp"
  by (auto simp: well_formed_segment_def submissionSourceFingerprint_def split: if_splits)

lemma rmap_exists_all: "(\<And>x. x \<in> set xs \<Longrightarrow> \<exists>y. f x = Inr y) \<Longrightarrow> \<exists>ys. rmap f xs = Inr ys"
  by (induction xs) force+

lemma rbind_exists: "\<exists>x. r = Inr x \<Longrightarrow> \<exists>y. rbind r (\<lambda>x. Inr (g x)) = Inr y"
  by auto

lemma rfind_total: "(\<And>x. x \<in> set xs \<Longrightarrow> \<exists>b. p x = Inr b) \<Longrightarrow> \<exists>y. rfind p xs = Inr y"
  by (induction xs) force+

lemma try_candidate_total:
  assumes "\<And>s. s \<in> set (tc_archivedSegments c) \<Longrightarrow> well_formed_segment s \<and> (\<exists>i. identity_of cr inp sid s = Inr i)"
  shows "\<exists>x. try_candidate cr inp sid c cache = Inr x"
proof -
  let ?id = "identity_of cr inp" and ?ss = "tc_archivedSegments c"
  obtain ids where ids: "rmap (?id sid) ?ss = Inr ids" using rmap_exists_all assms by metis
  define cache1 where "cache1 = load_summaries inp c ids cache"
  have "\<exists>y. rfind (summaryMatchesSegment ?id sid s) (sc_summaries cache1) = Inr y" if "s \<in> set ?ss" for s
    using assms [OF that] by (intro rfind_total) (auto simp: summaryMatchesSegment_def)
  then obtain found where found: "rmap (\<lambda>s. rfind (summaryMatchesSegment ?id sid s) (sc_summaries cache1)) ?ss = Inr found"
    using rmap_exists_all by metis
  have "\<exists>a. toProjectionArchivedSegment cr ?id sid s = Inr a" if "s \<in> set ?ss" for s
    using assms [OF that] fingerprint_total [of s cr sid] by (auto simp: toProjectionArchivedSegment_def Let_def)
  then obtain meta where meta: "rmap (toProjectionArchivedSegment cr ?id sid) ?ss = Inr meta"
    using rmap_exists_all by metis
  have "\<exists>fp. projectionSourcesFingerprint cr ?id sid ?ss = Inr fp"
    unfolding projectionSourcesFingerprint_def
  proof (rule rbind_exists, rule rmap_exists_all)
    fix s
    assume s: "s \<in> set ?ss"
    obtain i fp where "?id sid s = Inr i" "submissionSourceFingerprint cr sid s = Inr fp"
      using assms [OF s] fingerprint_total [of s cr sid] by blast
    then show "\<exists>e. rbind (?id sid s) (\<lambda>i. rbind (submissionSourceFingerprint cr sid s) (\<lambda>fp.
        Inr (Obj [field ''id'' (Str i), field ''sourceFingerprint'' (Str fp),
          field ''sourceMessageIds'' (Arr (map Str (sg_sourceMessageIds s))),
          field ''closed'' (Boolean (sg_closed s))]))) = Inr e" by simp
  qed
  then obtain fp where fp: "projectionSourcesFingerprint cr ?id sid ?ss = Inr fp" by blast
  have "\<exists>x. next_checkpoint cr inp sid c cache1 = Inr x"
    by (simp add: next_checkpoint_def summaryCoverage_def found meta fp Let_def)
  then show ?thesis
    by (auto simp: try_candidate_def ids Let_def cache1_def [symmetric] split: option.splits)
qed

text \<open>
  C38. \<open>projectMessages\<close> fails for want of a session, or when the request is estimated to reach the hard
  limit and no cut brings it below: never while the request as it stands could be sent, as long as the
  segments load, are well formed and have identities, and the checkpoint's validation returns.
\<close>

theorem projection_fails_only:
  assumes "projectMessages cr inp = Inl e" "0 < pi_contextLimit inp"
    and "current_checkpoint cr inp = Inr (ck, projected)" "pi_loadCanonicalSegments inp = Inr segments"
    and "\<And>s. s \<in> set segments \<Longrightarrow> well_formed_segment s \<and> (\<forall>sid. \<exists>i. identity_of cr inp sid s = Inr i)"
  shows "(\<nexists>user sid. latestUserMessage (pi_messages inp) = Some user \<and> info_of user ''sessionID'' = Str sid \<and> sid \<noteq> [])
    \<or> enat (hardLimit inp) \<le> estimateRequestTokens projected (pi_contextLimit inp) ck"
proof (rule ccontr)
  assume "\<not> ?thesis"
  then obtain user sid where user: "latestUserMessage (pi_messages inp) = Some user"
      "info_of user ''sessionID'' = Str sid" "sid \<noteq> []"
    and small: "\<not> enat (hardLimit inp) \<le> estimateRequestTokens projected (pi_contextLimit inp) ck" by blast
  let ?cs = "safeTailCandidates (pi_messages inp) segments (pi_contextLimit inp) ck"
  have "\<exists>x. try_candidates cr inp sid ?cs cache = Inr x" for cache
  proof (rule try_candidates_total)
    fix c cache
    assume "c \<in> set ?cs"
    then obtain k where k: "tc_archivedSegments c = take k segments" by (rule safe_candidate_cut)
    show "\<exists>x. try_candidate cr inp sid c cache = Inr x"
    proof (rule try_candidate_total)
      fix s
      assume "s \<in> set (tc_archivedSegments c)"
      then have "s \<in> set segments" unfolding k by (rule in_set_takeD)
      from assms(5) [OF this] show "well_formed_segment s \<and> (\<exists>i. identity_of cr inp sid s = Inr i)" by blast
    qed
  qed
  then obtain found where found: "try_candidates cr inp sid ?cs
      \<lparr>sc_summaries = [], sc_failed = False, sc_requested = [], sc_calls = 0\<rparr> = Inr found" by blast
  have "\<exists>r. projectMessages cr inp = Inr r"
  proof (cases "reset_possible inp (estimateRequestTokens projected (pi_contextLimit inp) ck)")
    case possible: True
    show ?thesis
    proof (cases "?cs = []")
      case True
      with possible assms(2) small show ?thesis by (simp add: projectMessages_def assms(3,4) Let_def)
    next
      case False
      with possible assms(2) small user show ?thesis
        by (cases found) (simp_all add: projectMessages_def assms(3,4) found Let_def)
    qed
  qed (use assms(2) in \<open>simp add: projectMessages_def assms(3) Let_def\<close>)
  with assms(1) show False by simp
qed

theorem projection_fails_only_witness:
  "enat 15300 \<le> estimateRequestTokens sample_messages 17000 None"
proof -
  obtain e where e: "projectMessages sample_crypto stuck_input = Inl e" using stuck_fails by blast
  have "info_of (user_message ''v'') ''sessionID'' = Str (js ''s'')" by code_simp
  with projection_fails_only [OF e _ stuck_checkpoint, of "[]"] show ?thesis
    by (auto simp: stuck_limit) (auto simp: stuck_input_def reset_input_def sample_latest js_Nil_iff)
qed

end
