(* ===== verification/HistoryReader.thy ===== *)
theory HistoryReader
  imports Checkpoint Complex_Main
begin

text \<open>
  Reading a session's transcript back from its source: \<open>plugin/src/history-reader.ts\<close>. The answers of
  the source's server are a function of the number of the request and its cursor; an aborted signal, a
  transport error or a rejected response is a failed answer. Parsing an endpoint's URL is a parameter.
\<close>

section \<open>Configuration\<close>

record reader_config =
  rc_kind :: source_kind
  rc_url :: jsstr
  rc_username :: "jsstr option"
  rc_password :: "jsstr option"

record endpoint =
  ep_protocol :: jsstr
  ep_username :: jsstr
  ep_password :: jsstr

text \<open>\<open>pg_before\<close> is the header \<open>X-Next-Cursor\<close>.\<close>

record page_answer =
  pg_value :: jsval
  pg_before :: "jsstr option"

record reader_options =
  ro_sources :: "jsstr \<Rightarrow> reader_config option"
  ro_endpoint :: "jsstr \<Rightarrow> endpoint option"
  ro_readOwnV1 :: "(jsstr \<Rightarrow> jsval list result) option"
  ro_fetch :: "nat \<Rightarrow> jsstr option \<Rightarrow> page_answer result"

definition configuredSource :: "source_info \<Rightarrow> reader_options \<Rightarrow> reader_config result" where
  "configuredSource source opts =
     (case ro_sources opts (src_id source) of
        None \<Rightarrow> Inl ''source is not configured for history reads''
      | Some configured \<Rightarrow>
          if rc_kind configured \<noteq> src_kind source then Inl ''source kind does not match its registry entry''
          else Inr configured)"

text \<open>The credentials are checked whenever a page is fetched; a failure there is reported like any other.\<close>

definition fetchJson :: "reader_options \<Rightarrow> reader_config \<Rightarrow> nat \<Rightarrow> jsstr option \<Rightarrow> page_answer result" where
  "fetchJson opts configured n cursor =
     (if (rc_username configured = None) \<noteq> (rc_password configured = None)
      then Inl ''history source unavailable or returned an invalid response''
      else case ro_fetch opts n cursor of
          Inl _ \<Rightarrow> Inl ''history source unavailable or returned an invalid response''
        | Inr answer \<Rightarrow> Inr answer)"

section \<open>Native messages\<close>

definition is_record :: "jsval \<Rightarrow> bool" where
  "is_record v \<longleftrightarrow> record_of v \<noteq> None"

definition is_text :: "jsval \<Rightarrow> bool" where
  "is_text v = (case v of Str s \<Rightarrow> True | _ \<Rightarrow> False)"

abbreviation text_at :: "jsval \<Rightarrow> string \<Rightarrow> bool" where
  "text_at v k \<equiv> is_text (get_prop v (js k))"

abbreviation value_at :: "jsval \<Rightarrow> string \<Rightarrow> jsval" where
  "value_at v k \<equiv> get_prop v (js k)"

definition valid_time :: "jsval \<Rightarrow> bool" where
  "valid_time v \<longleftrightarrow> is_record v \<and> is_finite (value_at v ''created'')"

definition valid_model :: "jsval \<Rightarrow> bool" where
  "valid_model v \<longleftrightarrow> is_record v \<and> text_at v ''providerID'' \<and> text_at v ''id''"

definition valid_error :: "jsval \<Rightarrow> bool" where
  "valid_error v \<longleftrightarrow> is_record v \<and> text_at v ''type'' \<and> text_at v ''message''"

definition oneOf :: "jsval \<Rightarrow> string list \<Rightarrow> bool" where
  "oneOf v choices \<longleftrightarrow> v \<in> set (map str choices)"

definition tool_content :: "jsval \<Rightarrow> bool" where
  "tool_content v =
     (case v of
        Arr vs \<Rightarrow> vs \<noteq> [] \<and> list_all (\<lambda>p. is_record p
          \<and> ((value_at p ''type'' = str ''text'' \<and> text_at p ''text'')
             \<or> (value_at p ''type'' = str ''file'' \<and> text_at p ''uri'' \<and> text_at p ''mime''))) vs
      | _ \<Rightarrow> False)"

definition valid_tool_state :: "jsval \<Rightarrow> bool" where
  "valid_tool_state state =
     (let status = value_at state ''status'' in
      if status = str ''streaming'' then text_at state ''input''
      else if status = str ''running'' then is_record (value_at state ''input'') \<and> is_record (value_at state ''metadata'')
      else if status = str ''completed'' then is_record (value_at state ''input'') \<and> tool_content (value_at state ''content'')
      else if status = str ''error''
      then is_record (value_at state ''input'') \<and> valid_error (value_at state ''error'')
        \<and> (value_at state ''content'' = Undefined \<or> tool_content (value_at state ''content''))
      else False)"

definition assistant_part :: "jsval \<Rightarrow> bool" where
  "assistant_part part =
     (is_record part
      \<and> (if value_at part ''type'' = str ''text'' \<or> value_at part ''type'' = str ''reasoning'' then text_at part ''text''
         else value_at part ''type'' = str ''tool'' \<and> text_at part ''id'' \<and> text_at part ''name''
           \<and> valid_time (value_at part ''time'') \<and> is_record (value_at part ''state'')
           \<and> valid_tool_state (value_at part ''state'')))"

definition valid_compaction :: "jsval \<Rightarrow> bool" where
  "valid_compaction m \<longleftrightarrow>
     oneOf (value_at m ''reason'') [''auto'', ''manual'']
     \<and> (if value_at m ''status'' = str ''failed'' then valid_error (value_at m ''error'')
        else oneOf (value_at m ''status'') [''running'', ''completed''] \<and> text_at m ''summary'' \<and> text_at m ''recent'')"

text \<open>The body a message type requires; \<open>None\<close> for an unknown type.\<close>

definition valid_body :: "jsval \<Rightarrow> bool option" where
  "valid_body m =
     (let kind = value_at m ''type'' in
      if oneOf kind [''user'', ''synthetic'', ''system''] then Some (text_at m ''text'')
      else if kind = str ''skill'' then Some (text_at m ''text'' \<and> text_at m ''skill'' \<and> text_at m ''name'')
      else if kind = str ''assistant''
      then Some (text_at m ''agent'' \<and> valid_model (value_at m ''model'')
        \<and> (case value_at m ''content'' of Arr parts \<Rightarrow> list_all assistant_part parts | _ \<Rightarrow> False))
      else if kind = str ''shell''
      then Some (text_at m ''shellID'' \<and> text_at m ''command''
        \<and> oneOf (value_at m ''status'') [''running'', ''exited'', ''timeout'', ''killed''])
      else if kind = str ''idle'' then Some (oneOf (value_at m ''outcome'') [''succeeded'', ''failed'', ''interrupted''])
      else if kind = str ''agent-switched'' then Some (text_at m ''agent'')
      else if kind = str ''model-switched'' then Some (valid_model (value_at m ''model''))
      else if kind = str ''location-switched''
      then Some (is_record (value_at m ''location'') \<and> text_at (value_at m ''location'') ''directory'')
      else if kind = str ''compaction'' then Some (valid_compaction m)
      else None)"

definition validateV2Message :: "jsval \<Rightarrow> unit result" where
  "validateV2Message m =
     (if \<not> is_record m \<or> \<not> text_at m ''id'' \<or> \<not> starts_with (js ''msg_'') (string_of (value_at m ''id''))
        \<or> \<not> valid_time (value_at m ''time'')
      then Inl ''history source returned an invalid v2 message''
      else case valid_body m of
          None \<Rightarrow> Inl ''history source returned an unknown v2 message type''
        | Some ok \<Rightarrow> if ok then Inr () else Inl ''history source returned an invalid v2 message body'')"

section \<open>Pages\<close>

definition messages_of :: "jsval \<Rightarrow> jsval list result" where
  "messages_of v = (case v of Arr vs \<Rightarrow> Inr vs | _ \<Rightarrow> Inl ''history source returned a non-array message response'')"

definition v2Page :: "jsval \<Rightarrow> (jsval list \<times> jsstr option) result" where
  "v2Page v =
     (if \<not> is_record v then Inl ''history source returned an invalid v2 page''
      else rbind (messages_of (value_at v ''data'')) (\<lambda>data.
        let cursor = value_at v ''cursor''; next_cursor = value_at cursor ''next'' in
        if \<not> is_record cursor then Inl ''history source returned an invalid v2 cursor''
        else if next_cursor = Undefined \<or> next_cursor = Null then Inr (data, None)
        else case next_cursor of
            Str s \<Rightarrow> if s = [] then Inl ''history source returned an invalid v2 cursor'' else Inr (data, Some s)
          | _ \<Rightarrow> Inl ''history source returned an invalid v2 cursor''))"

definition page_of :: "source_kind \<Rightarrow> page_answer \<Rightarrow> (jsval list \<times> jsstr option) result" where
  "page_of kind answer =
     (if kind = OpencodeV1 then rbind (messages_of (pg_value answer)) (\<lambda>data. Inr (data, pg_before answer))
      else v2Page (pg_value answer))"

definition message_id :: "source_kind \<Rightarrow> jsval \<Rightarrow> jsval result" where
  "message_id kind m =
     (if kind = OpencodeV2 then rbind (validateV2Message m) (\<lambda>_. Inr (value_at m ''id''))
      else Inr (value_at (value_at m ''info'') ''id''))"

text \<open>The IDs seen so far, extended by those of a page.\<close>

fun check_ids :: "source_kind \<Rightarrow> jsval list \<Rightarrow> jsstr list \<Rightarrow> jsstr list result" where
  "check_ids kind [] seen = Inr seen"
| "check_ids kind (m # ms) seen =
     rbind (message_id kind m) (\<lambda>v. case v of
         Str i \<Rightarrow>
           if i = [] then Inl ''history source returned a message without an ID''
           else if i \<in> set seen then Inl ''history source returned duplicate messages''
           else check_ids kind ms (seen @ [i])
       | _ \<Rightarrow> Inl ''history source returned a message without an ID'')"

record read_state =
  rs_result :: "jsval list"
  rs_seenCursors :: "jsstr list"
  rs_seenMessageIds :: "jsstr list"
  rs_cursor :: "jsstr option"
  rs_requests :: nat

definition start_state :: read_state where
  "start_state = \<lparr>rs_result = [], rs_seenCursors = [], rs_seenMessageIds = [], rs_cursor = None, rs_requests = 0\<rparr>"

text \<open>One round of the loop; its new cursor is \<open>None\<close> when the loop ends.\<close>

definition read_page ::
  "source_kind \<Rightarrow> (nat \<Rightarrow> jsstr option \<Rightarrow> page_answer result) \<Rightarrow> read_state \<Rightarrow> read_state result" where
  "read_page kind get st =
     rbind (get (rs_requests st) (rs_cursor st)) (\<lambda>answer.
     rbind (page_of kind answer) (\<lambda>(data, next_cursor).
     rbind (check_ids kind data (rs_seenMessageIds st)) (\<lambda>seen.
       let st1 = st\<lparr>rs_result := (if kind = OpencodeV1 then data @ rs_result st else rs_result st @ data),
             rs_seenMessageIds := seen, rs_cursor := next_cursor, rs_requests := rs_requests st + 1\<rparr> in
       case next_cursor of
         None \<Rightarrow> Inr st1
       | Some c \<Rightarrow>
           if c \<in> set (rs_seenCursors st) then Inl ''history source returned a repeated cursor''
           else Inr (st1\<lparr>rs_seenCursors := rs_seenCursors st @ [c]\<rparr>))))"

text \<open>The loop, \<open>None\<close> when the fuel does not suffice: a server may invent new cursors for ever.\<close>

fun read_loop ::
  "source_kind \<Rightarrow> (nat \<Rightarrow> jsstr option \<Rightarrow> page_answer result) \<Rightarrow> nat \<Rightarrow> read_state \<Rightarrow> read_state result option" where
  "read_loop kind get 0 st = None"
| "read_loop kind get (Suc fuel) st =
     (case read_page kind get st of
        Inl e \<Rightarrow> Some (Inl e)
      | Inr st1 \<Rightarrow> if rs_cursor st1 = None then Some (Inr st1) else read_loop kind get fuel st1)"

text \<open>Creation times of a V1 transcript; a message without one is passed over.\<close>

definition created_of :: "jsval \<Rightarrow> jsstr option" where
  "created_of m = (case value_at (value_at (value_at m ''info'') ''time'') ''created'' of Num n \<Rightarrow> Some n | _ \<Rightarrow> None)"

text \<open>
  The number a text \<open>Number::toString\<close> gives stands for: a sign, digits, a fraction and an exponent. It is the
  shortest decimal that reads back as the number, so two numbers compare as these decimals do.
\<close>

definition time_value :: "jsstr \<Rightarrow> rat" where
  "time_value n =
     (let negative = (take 1 n = [45]);
          body = (if negative then drop 1 n else n);
          mantissa = takeWhile (\<lambda>u. u \<noteq> 0x65) body;
          exponent = drop (Suc (length mantissa)) body;
          whole = takeWhile digit_unit mantissa;
          fraction = drop (Suc (length whole)) mantissa;
          size = decimal_value (drop 1 exponent);
          digits = of_nat (decimal_value (whole @ fraction)) / 10 ^ length fraction;
          scaled = (if take 1 exponent = [45] then digits / 10 ^ size else digits * 10 ^ size)
      in if negative then - scaled else scaled)"

fun check_order :: "jsval list \<Rightarrow> rat option \<Rightarrow> unit result" where
  "check_order [] previous = Inr ()"
| "check_order (m # ms) previous =
     (case created_of m of
        None \<Rightarrow> check_order ms previous
      | Some n \<Rightarrow>
          if \<not> finite_num n \<or> (case previous of None \<Rightarrow> False | Some p \<Rightarrow> time_value n < p)
          then Inl ''history source returned out-of-order messages''
          else check_order ms (Some (time_value n)))"

definition readPages ::
  "nat \<Rightarrow> source_info \<Rightarrow> jsstr \<Rightarrow> reader_options \<Rightarrow> jsstr option \<Rightarrow> jsval list result option" where
  "readPages fuel source sessionId opts ownSourceId =
     (case configuredSource source opts of
        Inl e \<Rightarrow> Some (Inl e)
      | Inr configured \<Rightarrow>
          (case ro_endpoint opts (rc_url configured) of
             None \<Rightarrow> Some (Inl ''Invalid URL'')
           | Some ep \<Rightarrow>
               if ep_protocol ep \<notin> {js ''http:'', js ''https:''} \<or> ep_username ep \<noteq> [] \<or> ep_password ep \<noteq> []
               then Some (Inl ''invalid history source endpoint'')
               else if ownSourceId = Some (src_id source) \<and> src_kind source = OpencodeV1 \<and> ro_readOwnV1 opts \<noteq> None
               then Some (the (ro_readOwnV1 opts) sessionId)
               else map_option (\<lambda>r. rbind r (\<lambda>st.
                   if src_kind source = OpencodeV2 then Inr (rs_result st)
                   else rbind (check_order (rs_result st) None) (\<lambda>_. Inr (rs_result st))))
                 (read_loop (src_kind source) (fetchJson opts configured) fuel start_state)))"

definition readHistory ::
  "nat \<Rightarrow> source_info \<Rightarrow> jsstr \<Rightarrow> reader_options \<Rightarrow> jsstr option \<Rightarrow> jsval list result option" where
  "readHistory fuel source sessionId opts ownSourceId =
     (if src_kind source \<noteq> OpencodeV1 then Some (Inl ''native v2 history requires its typed reader and range contract'')
      else readPages fuel source sessionId opts ownSourceId)"

definition readNativeV2History :: "nat \<Rightarrow> source_info \<Rightarrow> jsstr \<Rightarrow> reader_options \<Rightarrow> jsval list result option" where
  "readNativeV2History fuel source sessionId opts =
     (if src_kind source \<noteq> OpencodeV2 then Some (Inl ''expected an opencode-v2 source'')
      else readPages fuel source sessionId opts None)"

definition assertReadableBoundary :: "source_info \<Rightarrow> nat \<Rightarrow> unit result" where
  "assertReadableBoundary source version =
     (if version = 3
      then if src_kind source \<noteq> OpencodeV2 \<or> src_scheme source \<noteq> SourceV1
           then Inl ''native hydration requires an opencode-v2 source-v1 registry entry'' else Inr ()
      else if src_kind source = OpencodeV2
      then Inl ''cannot hydrate legacy turn boundaries from an opencode-v2 source'' else Inr ())"

end
