(* ===== verification/ReaderSafety.thy ===== *)
theory ReaderSafety
  imports HistoryReader
begin

text \<open>
  What reading a transcript guarantees: the messages are those of the pages a chain of cursors links, in
  transcript order and without duplicates, and reading ends as soon as the server has no new cursor.
\<close>

section \<open>Pages\<close>

text \<open>The pages fetched from request \<open>n\<close> with cursor \<open>c\<close> on, oldest request first.\<close>

inductive pages_from ::
  "source_kind \<Rightarrow> (nat \<Rightarrow> jsstr option \<Rightarrow> page_answer result) \<Rightarrow> nat \<Rightarrow> jsstr option \<Rightarrow> jsval list list \<Rightarrow> bool"
  for kind :: source_kind and get :: "nat \<Rightarrow> jsstr option \<Rightarrow> page_answer result" where
  last_page: "get n c = Inr answer \<Longrightarrow> page_of kind answer = Inr (data, None) \<Longrightarrow> pages_from kind get n c [data]"
| more_pages: "get n c = Inr answer \<Longrightarrow> page_of kind answer = Inr (data, Some c') \<Longrightarrow>
    pages_from kind get (Suc n) (Some c') pages \<Longrightarrow> pages_from kind get n c (data # pages)"

text \<open>Cursors of V1 lead to older pages, those of V2 to newer ones.\<close>

definition in_order :: "source_kind \<Rightarrow> jsval list list \<Rightarrow> jsval list" where
  "in_order kind pages = concat (if kind = OpencodeV1 then rev pages else pages)"

definition identified_by :: "source_kind \<Rightarrow> jsval \<Rightarrow> jsstr \<Rightarrow> bool" where
  "identified_by kind m i \<longleftrightarrow> message_id kind m = Inr (Str i) \<and> i \<noteq> []"

lemma check_ids_Inr:
  "check_ids kind ms seen = Inr seen' \<Longrightarrow> distinct seen \<Longrightarrow>
   distinct seen' \<and> (\<exists>ids. seen' = seen @ ids \<and> list_all2 (identified_by kind) ms ids)"
proof (induction ms arbitrary: seen)
  case Nil
  then show ?case by simp
next
  case (Cons m ms)
  from Cons.prems(1) obtain i where i: "message_id kind m = Inr (Str i)" "i \<noteq> []" "i \<notin> set seen"
    "check_ids kind ms (seen @ [i]) = Inr seen'"
    by (auto split: jsval.splits if_splits)
  from Cons.IH [OF i(4)] Cons.prems(2) i(3) obtain ids where
    "distinct seen'" "seen' = seen @ i # ids" "list_all2 (identified_by kind) ms ids" by auto
  moreover have "identified_by kind m i" using i(1,2) by (simp add: identified_by_def)
  ultimately show ?case by (intro conjI exI [of _ "i # ids"]) simp_all
qed

lemma read_page_Inr:
  assumes "read_page kind get st = Inr st1"
  obtains answer data c where "get (rs_requests st) (rs_cursor st) = Inr answer" "page_of kind answer = Inr (data, c)"
    "rs_cursor st1 = c" "rs_requests st1 = Suc (rs_requests st)"
    "rs_result st1 = (if kind = OpencodeV1 then data @ rs_result st else rs_result st @ data)"
    "check_ids kind data (rs_seenMessageIds st) = Inr (rs_seenMessageIds st1)"
    "rs_seenCursors st1 = rs_seenCursors st @ (case c of None \<Rightarrow> [] | Some s \<Rightarrow> [s])"
    "c = None \<or> the c \<notin> set (rs_seenCursors st)"
  using assms by (auto simp: read_page_def Let_def split: option.splits if_splits)

definition ids_ok :: "source_kind \<Rightarrow> read_state \<Rightarrow> bool" where
  "ids_ok kind st \<longleftrightarrow> distinct (rs_seenMessageIds st)
     \<and> (\<exists>ids. mset ids = mset (rs_seenMessageIds st) \<and> list_all2 (identified_by kind) (rs_result st) ids)"

lemma read_page_ids_ok:
  assumes "read_page kind get st = Inr st1" "ids_ok kind st"
  shows "ids_ok kind st1"
  using assms(1)
proof (rule read_page_Inr)
  fix answer data c
  assume r: "rs_result st1 = (if kind = OpencodeV1 then data @ rs_result st else rs_result st @ data)"
    and c: "check_ids kind data (rs_seenMessageIds st) = Inr (rs_seenMessageIds st1)"
  from assms(2) obtain ids where ids: "mset ids = mset (rs_seenMessageIds st)"
    "list_all2 (identified_by kind) (rs_result st) ids" by (auto simp: ids_ok_def)
  from check_ids_Inr [OF c] assms(2) obtain new where new: "distinct (rs_seenMessageIds st1)"
    "rs_seenMessageIds st1 = rs_seenMessageIds st @ new" "list_all2 (identified_by kind) data new"
    by (auto simp: ids_ok_def)
  then have "mset (if kind = OpencodeV1 then new @ ids else ids @ new) = mset (rs_seenMessageIds st1)"
    "list_all2 (identified_by kind) (rs_result st1) (if kind = OpencodeV1 then new @ ids else ids @ new)"
    using ids r by (auto intro: list_all2_appendI)
  with new(1) show ?thesis unfolding ids_ok_def by blast
qed

lemma read_loop_cases:
  assumes "read_loop kind get fuel st = Some (Inr st')"
  obtains (last) k where "fuel = Suc k" "read_page kind get st = Inr st'" "rs_cursor st' = None"
    | (more) k st1 s where "fuel = Suc k" "read_page kind get st = Inr st1" "rs_cursor st1 = Some s"
        "read_loop kind get k st1 = Some (Inr st')"
  using assms by (cases fuel) (auto split: sum.splits if_splits)

lemma read_loop_ids_ok: "read_loop kind get fuel st = Some (Inr st') \<Longrightarrow> ids_ok kind st \<Longrightarrow> ids_ok kind st'"
proof (induction fuel arbitrary: st)
  case (Suc fuel)
  from Suc.prems(1) show ?case
    by (cases rule: read_loop_cases) (use Suc read_page_ids_ok in blast)+
qed simp

lemma read_loop_pages:
  "read_loop kind get fuel st = Some (Inr st') \<Longrightarrow> \<exists>pages. pages_from kind get (rs_requests st) (rs_cursor st) pages
    \<and> rs_result st' = (if kind = OpencodeV1 then in_order kind pages @ rs_result st else rs_result st @ in_order kind pages)"
proof (induction fuel arbitrary: st)
  case (Suc fuel)
  from Suc.prems show ?case
  proof (cases rule: read_loop_cases)
    case (last k)
    from last(2) show ?thesis
    proof (rule read_page_Inr)
      fix answer data c
      assume p: "get (rs_requests st) (rs_cursor st) = Inr answer" "page_of kind answer = Inr (data, c)" "rs_cursor st' = c"
        "rs_result st' = (if kind = OpencodeV1 then data @ rs_result st else rs_result st @ data)"
      have "pages_from kind get (rs_requests st) (rs_cursor st) [data]"
        by (rule pages_from.last_page) (use p last in auto)
      with p show ?thesis by (intro exI [of _ "[data]"]) (simp add: in_order_def)
    qed
  next
    case (more k st1 s)
    then obtain pages where pages: "pages_from kind get (rs_requests st1) (rs_cursor st1) pages"
      "rs_result st' = (if kind = OpencodeV1 then in_order kind pages @ rs_result st1 else rs_result st1 @ in_order kind pages)"
      using Suc.IH [of st1] by auto
    from more(2) show ?thesis
    proof (rule read_page_Inr)
      fix answer data c
      assume p: "get (rs_requests st) (rs_cursor st) = Inr answer" "page_of kind answer = Inr (data, c)" "rs_cursor st1 = c"
        "rs_requests st1 = Suc (rs_requests st)"
        "rs_result st1 = (if kind = OpencodeV1 then data @ rs_result st else rs_result st @ data)"
      have "pages_from kind get (rs_requests st) (rs_cursor st) (data # pages)"
        by (rule pages_from.more_pages) (use p more pages in auto)
      with p pages show ?thesis by (intro exI [of _ "data # pages"]) (auto simp: in_order_def)
    qed
  qed
qed simp

text \<open>Reading ends when the server's cursors run out.\<close>

lemma read_loop_ends:
  assumes "\<And>n c answer data s. get n c = Inr answer \<Longrightarrow> page_of kind answer = Inr (data, Some s) \<Longrightarrow> s \<in> set cursors"
    and "distinct (rs_seenCursors st)" "set (rs_seenCursors st) \<subseteq> set cursors"
    and "length (rs_seenCursors st) + fuel > card (set cursors)"
  shows "read_loop kind get fuel st \<noteq> None"
  using assms(2-4)
proof (induction fuel arbitrary: st)
  case 0
  have "length (rs_seenCursors st) \<le> card (set cursors)"
    using 0 by (metis card_mono distinct_card finite_set)
  with 0 show ?case by simp
next
  case (Suc fuel)
  show ?case
  proof (cases "read_page kind get st")
    case (Inr st1)
    then show ?thesis
    proof (rule read_page_Inr)
      fix answer data c
      assume p: "get (rs_requests st) (rs_cursor st) = Inr answer" "page_of kind answer = Inr (data, c)"
        "rs_cursor st1 = c" "rs_seenCursors st1 = rs_seenCursors st @ (case c of None \<Rightarrow> [] | Some s \<Rightarrow> [s])"
        "c = None \<or> the c \<notin> set (rs_seenCursors st)"
      show ?thesis
      proof (cases c)
        case None
        with p Inr show ?thesis by simp
      next
        case (Some s)
        with assms(1) [OF p(1)] p(2) have "s \<in> set cursors" by simp
        with Some p Suc.prems have "read_loop kind get fuel st1 \<noteq> None" by (intro Suc.IH) auto
        with Inr p Some show ?thesis by simp
      qed
    qed
  qed simp
qed

lemma check_order_sorted:
  "check_order ms previous = Inr u \<Longrightarrow>
   sorted (map time_value (List.map_filter created_of ms)) \<and> (\<forall>n\<in>set (List.map_filter created_of ms). finite_num n)
   \<and> (case previous of None \<Rightarrow> True | Some p \<Rightarrow> \<forall>n\<in>set (List.map_filter created_of ms). p \<le> time_value n)"
proof (induction ms arbitrary: previous)
  case Nil
  then show ?case by (simp add: List.map_filter_simps split: option.splits)
next
  case (Cons m ms)
  show ?case
  proof (cases "created_of m")
    case None
    then have same: "List.map_filter created_of (m # ms) = List.map_filter created_of ms"
      by (simp add: List.map_filter_simps)
    from Cons.prems None have "check_order ms previous = Inr u" by simp
    from Cons.IH [OF this] show ?thesis unfolding same .
  next
    case (Some n)
    with Cons.prems have n: "finite_num n" "case previous of None \<Rightarrow> True | Some p \<Rightarrow> p \<le> time_value n"
      "check_order ms (Some (time_value n)) = Inr u"
      by (auto split: if_splits option.splits)
    from Cons.IH [OF n(3)] n Some show ?thesis
      by (auto simp: List.map_filter_simps split: option.splits intro: order_trans)
  qed
qed

text \<open>Fractions and exponents count: \<open>7.5\<close> may follow \<open>5\<close>, but \<open>2.5\<close> may not follow \<open>7.5\<close>.\<close>

lemma time_value_decimals:
  "time_value (js ''7.5'') = 15 / 2" "time_value (js ''-1.25e-7'') = - 1 / 8000000" "time_value (js ''1e+21'') = 10 ^ 21"
  by code_simp+

section \<open>Property\<close>

text \<open>Every further cursor the server answers with is one of \<open>cursors\<close>.\<close>

definition cursors_from :: "source_kind \<Rightarrow> reader_options \<Rightarrow> jsstr list \<Rightarrow> bool" where
  "cursors_from kind opts cursors \<longleftrightarrow>
     (\<forall>n c answer data s. ro_fetch opts n c = Inr answer \<longrightarrow> page_of kind answer = Inr (data, Some s) \<longrightarrow> s \<in> set cursors)"

text \<open>
  C39. Reading a transcript over the network: if the server answers with cursors from a finite set, one
  request more than there are cursors is enough, whatever it answers. When reading succeeds, the messages
  are those of the pages a chain of cursors links from the first request to an answer without a cursor,
  V1 pages in reverse and V2 pages in order; their IDs are distinct and not empty, every V2 message is
  valid, and the creation times the messages of a V1 transcript have are finite and, as numbers, ascend.
\<close>

theorem reading_ends_with_the_transcript:
  assumes "cursors_from (src_kind source) opts cursors" and "card (set cursors) < fuel" "ro_readOwnV1 opts = None"
  shows "\<exists>r. readPages fuel source sid opts own = Some r \<and> (\<forall>ms. r = Inr ms \<longrightarrow>
    (\<exists>configured pages ids. configuredSource source opts = Inr configured
      \<and> pages_from (src_kind source) (fetchJson opts configured) 0 None pages \<and> ms = in_order (src_kind source) pages
      \<and> list_all2 (identified_by (src_kind source)) ms ids \<and> distinct ids
      \<and> (src_kind source = OpencodeV2 \<longrightarrow> list_all (\<lambda>m. validateV2Message m = Inr ()) ms)
      \<and> (src_kind source = OpencodeV1 \<longrightarrow> list_all finite_num (List.map_filter created_of ms)
        \<and> sorted (map time_value (List.map_filter created_of ms)))))"
proof (cases "\<exists>configured ep. configuredSource source opts = Inr configured \<and> ro_endpoint opts (rc_url configured) = Some ep
    \<and> ep_protocol ep \<in> {js ''http:'', js ''https:''} \<and> ep_username ep = [] \<and> ep_password ep = []")
  case False
  then show ?thesis
    using assms(3) by (auto simp: readPages_def split: sum.splits option.splits)
next
  case True
  then obtain configured ep where c: "configuredSource source opts = Inr configured"
    "ro_endpoint opts (rc_url configured) = Some ep" "ep_protocol ep \<in> {js ''http:'', js ''https:''}"
    "ep_username ep = []" "ep_password ep = []" by blast
  let ?kind = "src_kind source" and ?get = "fetchJson opts configured"
  have "s \<in> set cursors" if "?get n cu = Inr answer" "page_of ?kind answer = Inr (data, Some s)" for n cu answer data s
    using that assms(1) by (auto simp: fetchJson_def cursors_from_def split: if_splits sum.splits)
  then obtain r where r: "read_loop ?kind ?get fuel start_state = Some r"
    using read_loop_ends [of ?get ?kind cursors start_state fuel] assms(2) by (auto simp: start_state_def)
  define q where "q = rbind r (\<lambda>st. if ?kind = OpencodeV2 then Inr (rs_result st)
      else rbind (check_order (rs_result st) None) (\<lambda>_. Inr (rs_result st)))"
  have eval: "readPages fuel source sid opts own = Some q"
    using c r assms(3) by (auto simp: readPages_def q_def)
  have facts: "\<exists>pages ids. pages_from ?kind ?get 0 None pages \<and> rs_result st = in_order ?kind pages
      \<and> list_all2 (identified_by ?kind) (rs_result st) ids \<and> distinct ids" if "r = Inr st" for st
  proof -
    from read_loop_pages [of ?kind ?get fuel start_state st] r that obtain pages where
      "pages_from ?kind ?get 0 None pages" "rs_result st = in_order ?kind pages"
      by (auto simp: start_state_def)
    moreover have "ids_ok ?kind st"
      using read_loop_ids_ok [of ?kind ?get fuel start_state st] r that by (simp add: ids_ok_def start_state_def)
    ultimately show ?thesis by (auto simp: ids_ok_def dest: mset_eq_imp_distinct_iff)
  qed
  have valid: "list_all (\<lambda>m. validateV2Message m = Inr ()) ms" if "list_all2 (identified_by OpencodeV2) ms ids" for ms ids
    using that by (induction ms ids rule: list_all2_induct) (auto simp: identified_by_def message_id_def)
  show ?thesis
  proof (rule exI [of _ q], rule conjI [OF eval], intro allI impI)
    fix ms
    assume "q = Inr ms"
    then obtain st where st: "r = Inr st" "ms = rs_result st"
      "?kind = OpencodeV2 \<or> check_order (rs_result st) None = Inr ()"
      by (auto simp: q_def split: if_splits)
    from facts [OF st(1)] obtain pages ids where f: "pages_from ?kind ?get 0 None pages" "ms = in_order ?kind pages"
      "list_all2 (identified_by ?kind) ms ids" "distinct ids" using st(2) by auto
    moreover have "?kind = OpencodeV2 \<longrightarrow> list_all (\<lambda>m. validateV2Message m = Inr ()) ms"
      using valid f(3) by auto
    moreover have "?kind = OpencodeV1 \<longrightarrow> list_all finite_num (List.map_filter created_of ms) \<and> sorted (map time_value (List.map_filter created_of ms))"
      using st check_order_sorted [of ms None] by (auto simp: list_all_iff)
    ultimately show "\<exists>configured pages ids. configuredSource source opts = Inr configured
      \<and> pages_from ?kind (fetchJson opts configured) 0 None pages \<and> ms = in_order ?kind pages
      \<and> list_all2 (identified_by ?kind) ms ids \<and> distinct ids
      \<and> (?kind = OpencodeV2 \<longrightarrow> list_all (\<lambda>m. validateV2Message m = Inr ()) ms)
      \<and> (?kind = OpencodeV1 \<longrightarrow> list_all finite_num (List.map_filter created_of ms) \<and> sorted (map time_value (List.map_filter created_of ms)))"
      using c(1) by blast
  qed
qed

text \<open>Two pages of a V1 session.\<close>

definition stored_message :: "string \<Rightarrow> string \<Rightarrow> jsval" where
  "stored_message i created = Obj [field ''info'' (Obj [field ''id'' (str i),
     field ''time'' (Obj [field ''created'' (Num (js created))])])]"

lemma check_order_decimals:
  "check_order [stored_message ''a'' ''5'', stored_message ''b'' ''7.5''] None = Inr ()"
  "check_order [stored_message ''a'' ''7.5'', stored_message ''b'' ''2.5''] None = Inl ''history source returned out-of-order messages''"
  by code_simp+

definition sample_reader :: reader_options where
  "sample_reader = \<lparr>ro_sources = (\<lambda>i. Some \<lparr>rc_kind = OpencodeV1, rc_url = [], rc_username = None, rc_password = None\<rparr>),
     ro_endpoint = (\<lambda>u. Some \<lparr>ep_protocol = js ''http:'', ep_username = [], ep_password = []\<rparr>),
     ro_readOwnV1 = None,
     ro_fetch = (\<lambda>n c. Inr (if c = None
        then \<lparr>pg_value = Arr [stored_message ''b'' ''2.5''], pg_before = Some (js ''p'')\<rparr>
        else \<lparr>pg_value = Arr [stored_message ''a'' ''1''], pg_before = None\<rparr>))\<rparr>"

definition v1_source :: source_info where
  "v1_source = \<lparr>src_id = js ''s'', src_kind = OpencodeV1, src_scheme = SourceV1\<rparr>"

theorem reading_ends_with_the_transcript_witness:
  "readPages 3 v1_source (js ''t'') sample_reader None = Some (Inr [stored_message ''a'' ''1'', stored_message ''b'' ''2.5''])
   \<and> (\<exists>ids. list_all2 (identified_by OpencodeV1) [stored_message ''a'' ''1'', stored_message ''b'' ''2.5''] ids \<and> distinct ids)
   \<and> sorted (map time_value (List.map_filter created_of [stored_message ''a'' ''1'', stored_message ''b'' ''2.5'']))"
proof -
  have run: "readPages 3 v1_source (js ''t'') sample_reader None
      = Some (Inr [stored_message ''a'' ''1'', stored_message ''b'' ''2.5''])"
    by code_simp
  have kind: "src_kind v1_source = OpencodeV1" by (simp add: v1_source_def)
  have cursors: "cursors_from (src_kind v1_source) sample_reader [js ''p'']"
    by (auto simp: cursors_from_def sample_reader_def page_of_def kind messages_of_def split: if_splits jsval.splits)
  have own: "ro_readOwnV1 sample_reader = None" by (simp add: sample_reader_def)
  have fuel: "card (set [js ''p'']) < 3" by simp
  from reading_ends_with_the_transcript [OF cursors fuel own, of "js ''t''" None]
  show ?thesis unfolding run kind by blast
qed

end
