(* ===== verification/Effects.thy ===== *)
theory Effects
  imports Main
begin

text \<open>
  Statements of the OpenCode V2 plugin that change a client's state and may throw: the state a statement
  has changed stays changed when it throws, as in an asynchronous function without a transaction. Errors
  are those \<open>Transport.request\<close> classifies, and the messages the code throws itself.
\<close>

text \<open>
  \<open>RequestRejectedError\<close>, \<open>AvailabilityError\<close> with its status, and any other failure of a request: the
  operation was cancelled, or the answer is not JSON.
\<close>

datatype http_error = Rejected nat | Unavailable "nat option" | Broken

datatype client_error = Http http_error | Thrown string

type_synonym ('s, 'a) action = "'s \<Rightarrow> (client_error + 'a) \<times> 's"

definition io_return :: "'a \<Rightarrow> ('s, 'a) action" where
  "io_return x c = (Inr x, c)"

definition io_throw :: "client_error \<Rightarrow> ('s, 'a) action" where
  "io_throw e c = (Inl e, c)"

definition io_bind :: "('s, 'a) action \<Rightarrow> ('a \<Rightarrow> ('s, 'b) action) \<Rightarrow> ('s, 'b) action" where
  "io_bind m f c = (case m c of (Inl e, c') \<Rightarrow> (Inl e, c') | (Inr x, c') \<Rightarrow> f x c')"

text \<open>A pure step that may throw.\<close>

definition io_lift :: "client_error + 'a \<Rightarrow> ('s, 'a) action" where
  "io_lift r c = (r, c)"

named_theorems io_simps \<open>equations of the effects\<close>

lemmas [io_simps] = io_return_def io_throw_def io_bind_def io_lift_def

lemma io_bind_Inr:
  assumes "io_bind m f c = (Inr y, c')"
  obtains x c1 where "m c = (Inr x, c1)" "f x c1 = (Inr y, c')"
  using assms by (auto simp: io_bind_def split: prod.splits sum.splits)

end
