(* ===== verification/Submission.thy ===== *)
theory Submission
  imports NativePlan JobStore Effects
begin

text \<open>
  Submitting planned segments from the OpenCode V2 plugin: \<open>submit\<close> and \<open>retryJob\<close> of
  \<open>packages/opencode-v2-plugin/src/ingestion.ts\<close>. What the server answers to a request, and whether the
  signal is aborted by then, are functions of the requests and answers so far; \<open>Operations.queue\<close> runs
  the calls of a session one after another, so a call is one transition of the client.
\<close>

section \<open>Data\<close>

record native_job =
  nj_id :: jsstr
  nj_segment_id :: jsstr
  nj_status :: job_status
  nj_attempts :: nat
  nj_started_at :: "jsstr option"
  nj_finished_at :: "jsstr option"
  nj_source_fingerprint :: jsstr
  nj_projection_version :: nat
  nj_start_source_message_id :: jsstr
  nj_end_source_message_id :: jsstr

record submit_target = native_entry +
  te_status :: job_status
  te_source_fingerprint :: jsstr
  te_projection_version :: nat

record submit_boundary = native_entry +
  be_source_fingerprint :: "jsstr option"
  be_projection_version :: nat
  be_source_eligible :: bool

record submit_manifest =
  sm_session_id :: jsstr
  sm_targets :: "submit_target list"
  sm_boundaries :: "submit_boundary list"

text \<open>Keys of the client's maps; the code joins their parts as JSON text.\<close>

type_synonym seg_key = "jsstr \<times> jsstr"

type_synonym ret_key = "jsstr \<times> jsstr \<times> jsstr"

datatype wire_request =
    PostSegment planned_segment nat
  | ReadJob jsstr
  | PostRetry ret_key jsstr

type_synonym wire_event = "wire_request \<times> (http_error + native_job)"

record pending_retry =
  pe_original :: native_job
  pe_httpFailure :: bool

record submission =
  sn_hash :: jsstr
  sn_priority :: nat

record ingest_client =
  ic_submitted :: "seg_key \<rightharpoonup> submission"
  ic_retried :: "ret_key set"
  ic_retrying :: "ret_key set"
  ic_pendingRetries :: "ret_key \<rightharpoonup> pending_retry"
  ic_trace :: "wire_event list"

record ingest_service =
  sv_answer :: "wire_event list \<Rightarrow> wire_request \<Rightarrow> http_error + native_job"
  sv_aborted :: "wire_event list \<Rightarrow> bool"
  sv_sourceId :: jsstr

section \<open>Effects\<close>

type_synonym 'a io = "(ingest_client, 'a) action"

definition http_request :: "ingest_service \<Rightarrow> wire_request \<Rightarrow> native_job io" where
  "http_request sv r c =
     (let answer = sv_answer sv (ic_trace c) r
      in (map_sum Http id answer, c\<lparr>ic_trace := ic_trace c @ [(r, answer)]\<rparr>))"

definition throwIfAborted :: "ingest_service \<Rightarrow> unit io" where
  "throwIfAborted sv c = (if sv_aborted sv (ic_trace c) then Inl (Http Broken) else Inr (), c)"

section \<open>Retrying a failed job\<close>

definition same_target :: "native_job \<Rightarrow> native_job \<Rightarrow> bool" where
  "same_target a b \<longleftrightarrow>
     nj_id a = nj_id b \<and> nj_segment_id a = nj_segment_id b
     \<and> nj_source_fingerprint a = nj_source_fingerprint b
     \<and> nj_projection_version a = nj_projection_version b
     \<and> nj_start_source_message_id a = nj_start_source_message_id b
     \<and> nj_end_source_message_id a = nj_end_source_message_id b"

definition validate_job :: "native_job \<Rightarrow> native_job \<Rightarrow> native_job io" where
  "validate_job current original =
     (if same_target current original then io_return current
      else io_throw (Thrown ''reconciled/retried job ID/hash/boundary mismatch''))"

definition signature :: "native_job \<Rightarrow> job_status \<times> nat \<times> jsstr option \<times> jsstr option" where
  "signature j = (nj_status j, nj_attempts j, nj_started_at j, nj_finished_at j)"

definition confirm_retry :: "ret_key \<Rightarrow> ingest_client \<Rightarrow> ingest_client" where
  "confirm_retry key c =
     c\<lparr>ic_retried := insert key (ic_retried c), ic_pendingRetries := (ic_pendingRetries c)(key := None)\<rparr>"

definition observe :: "ret_key \<Rightarrow> native_job \<Rightarrow> pending_retry \<Rightarrow> native_job io" where
  "observe key current pending c =
     (if nj_status current \<in> {Pending, Running, Succeeded}
        \<or> (nj_status current = Failed \<and> signature current \<noteq> signature (pe_original pending))
      then (Inr current, confirm_retry key c)
      else if nj_status current = Failed \<and> pe_httpFailure pending
      then (Inr current, c\<lparr>ic_pendingRetries := (ic_pendingRetries c)(key := None)\<rparr>)
      else (Inl (Http (Unavailable None)), c))"

text \<open>A rejected read is only an unavailable one.\<close>

definition read_job :: "ingest_service \<Rightarrow> jsstr \<Rightarrow> native_job io" where
  "read_job sv i c =
     (case http_request sv (ReadJob i) c of
        (Inl (Http (Rejected status)), c') \<Rightarrow> (Inl (Http (Unavailable (Some status))), c')
      | r \<Rightarrow> r)"

definition reconcile :: "ingest_service \<Rightarrow> ret_key \<Rightarrow> pending_retry \<Rightarrow> native_job io" where
  "reconcile sv key pending =
     io_bind (read_job sv (nj_id (pe_original pending))) (\<lambda>answer.
     io_bind (validate_job answer (pe_original pending)) (\<lambda>current. observe key current pending))"

definition set_pending :: "ret_key \<Rightarrow> pending_retry \<Rightarrow> unit io" where
  "set_pending key p c = (Inr (), c\<lparr>ic_pendingRetries := (ic_pendingRetries c)(key \<mapsto> p)\<rparr>)"

definition http_failure :: "http_error \<Rightarrow> bool" where
  "http_failure e = (case e of Rejected status \<Rightarrow> True | Unavailable status \<Rightarrow> status \<noteq> None | Broken \<Rightarrow> False)"

definition remained_failed :: "'a io" where
  "remained_failed = io_throw (Thrown ''exact target remained failed after one retry'')"

text \<open>The handler of a request that failed: the attempt, also as it is kept, learns how.\<close>

definition retry_failed :: "ingest_service \<Rightarrow> ret_key \<Rightarrow> native_job \<Rightarrow> http_error \<Rightarrow> native_job io" where
  "retry_failed sv key job e =
     (let attempt = \<lparr>pe_original = job, pe_httpFailure = http_failure e\<rparr> in
      io_bind (set_pending key attempt) (\<lambda>_.
      io_bind (throwIfAborted sv) (\<lambda>_.
      io_bind (reconcile sv key attempt) (\<lambda>current c.
        if key \<notin> ic_retried c then io_throw (Http e) c
        else if nj_status current = Failed then remained_failed c
        else io_return current c))))"

definition retry_answered :: "ingest_service \<Rightarrow> ret_key \<Rightarrow> native_job \<Rightarrow> native_job \<Rightarrow> native_job io" where
  "retry_answered sv key job answer =
     (let attempt = \<lparr>pe_original = job, pe_httpFailure = False\<rparr> in
      io_bind (validate_job answer job) (\<lambda>current.
      io_bind (if nj_status current = Failed \<and> signature current = signature job
               then reconcile sv key attempt else observe key current attempt) (\<lambda>seen.
        if nj_status seen = Failed then remained_failed else io_return seen)))"

definition post_retry :: "ingest_service \<Rightarrow> ret_key \<Rightarrow> native_job \<Rightarrow> native_job io" where
  "post_retry sv key job =
     io_bind (set_pending key \<lparr>pe_original = job, pe_httpFailure = False\<rparr>) (\<lambda>_ c.
       case http_request sv (PostRetry key (nj_id job)) c of
         (Inl (Http e), c') \<Rightarrow> retry_failed sv key job e c'
       | (Inl e, c') \<Rightarrow> (Inl e, c')
       | (Inr answer, c') \<Rightarrow> retry_answered sv key job answer c')"

definition retry_body :: "ingest_service \<Rightarrow> native_job \<Rightarrow> ret_key \<Rightarrow> native_job io" where
  "retry_body sv job key c =
     io_bind (case ic_pendingRetries c key of None \<Rightarrow> io_return job | Some pending \<Rightarrow> reconcile sv key pending)
       (\<lambda>current c1.
          if nj_status current \<noteq> Failed then io_return current c1
          else if key \<in> ic_retried c1 then remained_failed c1
          else post_retry sv key current c1) c"

text \<open>\<open>try { ... } finally { this.retrying.delete(key) }\<close>\<close>

definition retryJob :: "ingest_service \<Rightarrow> native_job \<Rightarrow> ret_key \<Rightarrow> native_job io" where
  "retryJob sv job key c =
     (if key \<in> ic_retrying c then (Inl (Http (Unavailable None)), c)
      else let (r, c') = retry_body sv job key (c\<lparr>ic_retrying := insert key (ic_retrying c)\<rparr>)
           in (r, c'\<lparr>ic_retrying := ic_retrying c' - {key}\<rparr>))"

section \<open>Submitting segments\<close>

definition range_start :: "planned_segment \<Rightarrow> jsstr" where
  "range_start s = (case start_source (rb_boundary (rq_body (ps_request s))) of None \<Rightarrow> [] | Some i \<Rightarrow> i)"

definition range_end :: "planned_segment \<Rightarrow> jsstr" where
  "range_end s = (case end_source (rb_boundary (rq_body (ps_request s))) of None \<Rightarrow> [] | Some i \<Rightarrow> i)"

definition session_of :: "planned_segment \<Rightarrow> jsstr" where
  "session_of s = rb_session_id (rq_body (ps_request s))"

definition exact_target :: "planned_segment \<Rightarrow> submit_target \<Rightarrow> bool" where
  "exact_target s t \<longleftrightarrow> te_source_fingerprint t = ps_fingerprint s \<and> te_projection_version t = 3
     \<and> ne_start t = range_start s \<and> ne_end t = range_end s"

definition exact_boundary :: "planned_segment \<Rightarrow> submit_boundary \<Rightarrow> bool" where
  "exact_boundary s b \<longleftrightarrow> be_source_fingerprint b = Some (ps_fingerprint s) \<and> be_projection_version b = 3
     \<and> ne_start b = range_start s \<and> ne_end b = range_end s"

text \<open>A replacement target owns the range; without one the committed boundary does.\<close>

definition confirmed :: "submit_manifest \<Rightarrow> planned_segment \<Rightarrow> bool" where
  "confirmed m s =
     (let targets = filter (\<lambda>t. ne_id t = ps_id s) (sm_targets m);
          boundaries = filter (\<lambda>b. ne_id b = ps_id s) (sm_boundaries m) in
      if targets \<noteq> [] then list_all (\<lambda>t. exact_target s t \<and> te_status t \<in> {Pending, Running, Succeeded}) targets
      else boundaries \<noteq> [] \<and> list_all (\<lambda>b. exact_boundary s b \<and> be_source_eligible b) boundaries)"

definition job_matches :: "planned_segment \<Rightarrow> native_job \<Rightarrow> bool" where
  "job_matches s j \<longleftrightarrow> nj_segment_id j = ps_id s \<and> nj_source_fingerprint j = ps_fingerprint s
     \<and> nj_projection_version j = 3 \<and> nj_start_source_message_id j = range_start s
     \<and> nj_end_source_message_id j = range_end s"

definition segment_key :: "planned_segment \<Rightarrow> seg_key" where
  "segment_key s = (session_of s, ps_id s)"

definition retry_key :: "planned_segment \<Rightarrow> ret_key" where
  "retry_key s = (session_of s, ps_id s, ps_fingerprint s)"

definition already_submitted :: "ingest_client \<Rightarrow> submit_manifest \<Rightarrow> planned_segment \<Rightarrow> nat \<Rightarrow> bool" where
  "already_submitted c m s priority \<longleftrightarrow>
     (case ic_submitted c (segment_key s) of
        None \<Rightarrow> False
      | Some sent \<Rightarrow> sn_hash sent = ps_fingerprint s \<and> sn_priority sent \<ge> priority)
     \<and> confirmed m s \<and> ic_pendingRetries c (retry_key s) = None"

definition next_priority :: "submission option \<Rightarrow> submit_manifest \<Rightarrow> planned_segment \<Rightarrow> nat \<Rightarrow> nat" where
  "next_priority sent m s priority =
     (case sent of
        None \<Rightarrow> priority
      | Some p \<Rightarrow> if confirmed m s \<and> sn_hash p = ps_fingerprint s then max priority (sn_priority p) else priority)"

definition post_segment :: "ingest_service \<Rightarrow> submit_manifest \<Rightarrow> nat \<Rightarrow> planned_segment \<Rightarrow> unit io" where
  "post_segment sv m priority s c0 =
     (let sent = ic_submitted c0 (segment_key s);
          c1 = (if confirmed m s then c0 else c0\<lparr>ic_submitted := (ic_submitted c0)(segment_key s := None)\<rparr>) in
      io_bind (http_request sv (PostSegment s priority)) (\<lambda>job c.
        if \<not> job_matches s job then io_throw (Thrown ''owned job ID/hash/boundary mismatch'') c
        else io_bind (if nj_status job = Failed \<or> ic_pendingRetries c (retry_key s) \<noteq> None
                      then retryJob sv job (retry_key s) else io_return job) (\<lambda>settled c'.
               if nj_status settled = Superseded then io_throw (Thrown ''target superseded during submission'') c'
               else (Inr (), c'\<lparr>ic_submitted := (ic_submitted c')(segment_key s \<mapsto>
                 \<lparr>sn_hash = ps_fingerprint s, sn_priority = next_priority sent m s priority\<rparr>)\<rparr>)) c) c1)"

definition submit_segment :: "ingest_service \<Rightarrow> submit_manifest \<Rightarrow> nat \<Rightarrow> planned_segment \<Rightarrow> unit io" where
  "submit_segment sv m requestedPriority s =
     io_bind (throwIfAborted sv) (\<lambda>_ c.
       if sm_session_id m \<noteq> session_of s \<or> rq_source_id (ps_request s) \<noteq> sv_sourceId sv
       then io_throw (Thrown ''submission source/session mismatch'') c
       else let priority = (if ps_closed s then requestedPriority else 0) in
         if already_submitted c m s priority then io_return () c
         else post_segment sv m priority s c)"

fun submit :: "ingest_service \<Rightarrow> submit_manifest \<Rightarrow> nat \<Rightarrow> planned_segment list \<Rightarrow> unit io" where
  "submit sv m requestedPriority [] = io_return ()"
| "submit sv m requestedPriority (s # ss) =
     io_bind (submit_segment sv m requestedPriority s) (\<lambda>_. submit sv m requestedPriority ss)"

text \<open>\<open>clear\<close>: what the client remembers of a session, but for the revisions of the sweep.\<close>

definition clear_session :: "jsstr \<Rightarrow> ingest_client \<Rightarrow> ingest_client" where
  "clear_session i c =
     c\<lparr>ic_submitted := (\<lambda>k. if fst k = i then None else ic_submitted c k),
       ic_retried := {k \<in> ic_retried c. fst k \<noteq> i},
       ic_pendingRetries := (\<lambda>k. if fst k = i then None else ic_pendingRetries c k)\<rparr>"

definition new_client :: ingest_client where
  "new_client = \<lparr>ic_submitted = Map.empty, ic_retried = {}, ic_retrying = {}, ic_pendingRetries = Map.empty, ic_trace = []\<rparr>"

end
