(* ===== verification/SubmissionSafety.thy ===== *)
theory SubmissionSafety
  imports Submission
begin

text \<open>
  What the client's bookkeeping guarantees: whatever the server answers, loses or delays, a failed job is
  retried at most once, but for retries the server itself has refused.
\<close>

section \<open>Retries sent\<close>

text \<open>A retry counts as delivered unless it was answered with an HTTP failure.\<close>

definition delivers :: "ret_key \<Rightarrow> wire_event \<Rightarrow> bool" where
  "delivers k e = (case e of
     (PostRetry k' i, answer) \<Rightarrow> k' = k \<and> (case answer of Inl err \<Rightarrow> \<not> http_failure err | Inr j \<Rightarrow> True)
   | _ \<Rightarrow> False)"

definition delivered :: "ret_key \<Rightarrow> ingest_client \<Rightarrow> nat" where
  "delivered k c = length (filter (delivers k) (ic_trace c))"

definition awaited :: "ret_key \<Rightarrow> ingest_client \<Rightarrow> bool" where
  "awaited k c \<longleftrightarrow> k \<in> ic_retried c \<or> (\<exists>p. ic_pendingRetries c k = Some p \<and> \<not> pe_httpFailure p)"

definition retry_ok :: "ret_key \<Rightarrow> ingest_client \<Rightarrow> bool" where
  "retry_ok k c \<longleftrightarrow> delivered k c \<le> 1 \<and> (delivered k c = 1 \<longrightarrow> awaited k c)"

text \<open>What a step that does not concern a key leaves alone.\<close>

definition keeps :: "ret_key \<Rightarrow> ingest_client \<Rightarrow> ingest_client \<Rightarrow> bool" where
  "keeps k c c' \<longleftrightarrow> delivered k c' = delivered k c \<and> (k \<in> ic_retried c' \<longleftrightarrow> k \<in> ic_retried c)
     \<and> ic_pendingRetries c' k = ic_pendingRetries c k"

lemmas [io_simps] = throwIfAborted_def set_pending_def remained_failed_def
  validate_job_def

lemma keeps_refl: "keeps k c c"
  by (simp add: keeps_def)

lemma keeps_trans: "keeps k a b \<Longrightarrow> keeps k b c \<Longrightarrow> keeps k a c"
  by (simp add: keeps_def)

lemma keeps_ok: "keeps k c c' \<Longrightarrow> retry_ok k c \<Longrightarrow> retry_ok k c'"
  by (simp add: keeps_def retry_ok_def awaited_def)

lemma http_trace: "http_request sv r c = (x, c') \<Longrightarrow> \<exists>answer. x = map_sum Http id answer
    \<and> c' = c\<lparr>ic_trace := ic_trace c @ [(r, answer)]\<rparr>"
  by (auto simp: http_request_def Let_def)

lemma http_keeps: "http_request sv r c = (x, c') \<Longrightarrow> \<forall>i. r \<noteq> PostRetry k i \<Longrightarrow> keeps k c c'"
  by (cases r) (auto simp: http_request_def Let_def keeps_def delivered_def delivers_def)

lemma read_job_keeps: "read_job sv i c = (x, c') \<Longrightarrow> keeps k c c'"
proof -
  assume r: "read_job sv i c = (x, c')"
  obtain y c1 where y: "http_request sv (ReadJob i) c = (y, c1)" by fastforce
  with r have "c' = c1" by (auto simp: read_job_def split: sum.splits client_error.splits http_error.splits)
  with http_keeps [OF y] show ?thesis by simp
qed

lemma observe_ok:
  assumes "observe key current p c = (x, c')" "retry_ok key c" "ic_pendingRetries c key = Some p"
  shows "retry_ok key c' \<and> (\<forall>j. x = Inr j \<longrightarrow> nj_status j = Failed \<longrightarrow> key \<in> ic_retried c' \<or> ic_pendingRetries c' key = None)"
  using assms
  by (auto simp: observe_def confirm_retry_def retry_ok_def awaited_def delivered_def split: if_splits)

lemma observe_keeps: "observe key current p c = (x, c') \<Longrightarrow> k \<noteq> key \<Longrightarrow> keeps k c c'"
  by (auto simp: observe_def confirm_retry_def keeps_def delivered_def split: if_splits)

lemma reconcile_cases:
  assumes "reconcile sv key p c = (x, c')"
  obtains (failed) e where "x = Inl e" "\<And>k. keeps k c c'"
    | (seen) current c1 where "\<And>k. keeps k c c1" "observe key current p c1 = (x, c')"
proof -
  obtain y c1 where y: "read_job sv (nj_id (pe_original p)) c = (y, c1)" by fastforce
  note k = read_job_keeps [OF y]
  show ?thesis
  proof (cases y)
    case (Inl e)
    with assms y k failed show ?thesis by (auto simp: reconcile_def io_simps)
  next
    case (Inr current)
    show ?thesis
    proof (cases "same_target current (pe_original p)")
      case True
      with assms y Inr have "observe key current p c1 = (x, c')" by (simp add: reconcile_def io_simps)
      with k seen show ?thesis by blast
    next
      case False
      with assms y Inr k failed show ?thesis by (auto simp: reconcile_def io_simps)
    qed
  qed
qed

lemma reconcile_ok:
  assumes "reconcile sv key p c = (x, c')" "retry_ok key c" "ic_pendingRetries c key = Some p"
  shows "retry_ok key c' \<and> (\<forall>j. x = Inr j \<longrightarrow> nj_status j = Failed \<longrightarrow> key \<in> ic_retried c' \<or> ic_pendingRetries c' key = None)"
  using assms(1)
proof (cases rule: reconcile_cases)
  case (failed e)
  with keeps_ok [OF failed(2) assms(2)] show ?thesis by simp
next
  case (seen current c1)
  note kept = seen(1) [of key]
  from kept assms(3) have p: "ic_pendingRetries c1 key = Some p" by (simp add: keeps_def)
  from observe_ok [OF seen(2) keeps_ok [OF kept assms(2)] p] show ?thesis .
qed

lemma reconcile_keeps:
  assumes "reconcile sv key p c = (x, c')" "k \<noteq> key"
  shows "keeps k c c'"
  using assms(1)
proof (cases rule: reconcile_cases)
  case (failed e)
  from failed(2) [of k] show ?thesis .
next
  case (seen current c1)
  from keeps_trans [OF seen(1) [of k] observe_keeps [OF seen(2) assms(2)]] show ?thesis .
qed

section \<open>A retry\<close>

lemma retry_failed_cases:
  assumes "retry_failed sv key job e c = (x, c')"
  obtains c1 where "c1 = c\<lparr>ic_pendingRetries := (ic_pendingRetries c)(key \<mapsto> \<lparr>pe_original = job, pe_httpFailure = http_failure e\<rparr>)\<rparr>"
    "c' = c1 \<or> (\<exists>y. reconcile sv key \<lparr>pe_original = job, pe_httpFailure = http_failure e\<rparr> c1 = (y, c'))"
  using assms
  by (auto simp: retry_failed_def io_simps Let_def split: sum.splits prod.splits if_splits)

lemma retry_answered_cases:
  assumes "retry_answered sv key job answer c = (x, c')"
  shows "c' = c \<or> (\<exists>y. reconcile sv key \<lparr>pe_original = job, pe_httpFailure = False\<rparr> c = (y, c'))
    \<or> (\<exists>y. observe key answer \<lparr>pe_original = job, pe_httpFailure = False\<rparr> c = (y, c'))"
  using assms
  by (auto simp: retry_answered_def io_simps Let_def split: sum.splits prod.splits if_splits)

lemma post_retry_ok:
  assumes "post_retry sv key job c = (x, c')" "retry_ok key c" "key \<notin> ic_retried c" "ic_pendingRetries c key = None"
  shows "retry_ok key c'"
proof -
  let ?p = "\<lparr>pe_original = job, pe_httpFailure = False\<rparr>"
  let ?c = "c\<lparr>ic_pendingRetries := (ic_pendingRetries c)(key \<mapsto> ?p)\<rparr>"
  obtain y c1 where y: "http_request sv (PostRetry key (nj_id job)) ?c = (y, c1)" by fastforce
  from http_trace [OF y] obtain answer where answer: "y = map_sum Http id answer"
    "c1 = ?c\<lparr>ic_trace := ic_trace c @ [(PostRetry key (nj_id job), answer)]\<rparr>" by auto
  have zero: "delivered key c = 0" using assms(2-4) by (auto simp: retry_ok_def awaited_def)
  have ok: "retry_ok key c1" "ic_pendingRetries c1 key = Some ?p"
    using zero answer(2) by (auto simp: retry_ok_def awaited_def delivered_def)
  show ?thesis
  proof (cases answer)
    case (Inl e)
    with assms(1) y answer(1) have "retry_failed sv key job e c1 = (x, c')"
      by (simp add: post_retry_def io_simps)
    then obtain c2 where c2: "c2 = c1\<lparr>ic_pendingRetries := (ic_pendingRetries c1)(key \<mapsto> ?p\<lparr>pe_httpFailure := http_failure e\<rparr>)\<rparr>"
      "c' = c2 \<or> (\<exists>y. reconcile sv key (?p\<lparr>pe_httpFailure := http_failure e\<rparr>) c2 = (y, c'))"
      by (auto elim: retry_failed_cases)
    have "retry_ok key c2"
      using zero answer(2) Inl c2(1)
      by (cases "http_failure e") (auto simp: retry_ok_def awaited_def delivered_def delivers_def)
    with c2 reconcile_ok show ?thesis by fastforce
  next
    case (Inr j)
    with assms(1) y answer(1) have "retry_answered sv key job j c1 = (x, c')"
      by (simp add: post_retry_def io_simps)
    from retry_answered_cases [OF this] ok show ?thesis
      using reconcile_ok observe_ok by blast
  qed
qed

lemma post_retry_keeps:
  assumes "post_retry sv key job c = (x, c')" "k \<noteq> key"
  shows "keeps k c c'"
proof -
  let ?p = "\<lparr>pe_original = job, pe_httpFailure = False\<rparr>"
  let ?c = "c\<lparr>ic_pendingRetries := (ic_pendingRetries c)(key \<mapsto> ?p)\<rparr>"
  obtain y c1 where y: "http_request sv (PostRetry key (nj_id job)) ?c = (y, c1)" by fastforce
  from http_trace [OF y] obtain answer where answer: "y = map_sum Http id answer" by blast
  have "keeps k c ?c" using assms(2) by (simp add: keeps_def delivered_def)
  moreover have "keeps k ?c c1" using http_keeps [OF y, of k] assms(2) by simp
  moreover have "keeps k c1 c'"
  proof (cases answer)
    case (Inl e)
    with assms(1) y answer have "retry_failed sv key job e c1 = (x, c')"
      by (simp add: post_retry_def io_simps)
    then show ?thesis
    proof (rule retry_failed_cases)
      fix c2
      assume c2: "c2 = c1\<lparr>ic_pendingRetries := (ic_pendingRetries c1)(key \<mapsto> \<lparr>pe_original = job, pe_httpFailure = http_failure e\<rparr>)\<rparr>"
        "c' = c2 \<or> (\<exists>y. reconcile sv key \<lparr>pe_original = job, pe_httpFailure = http_failure e\<rparr> c2 = (y, c'))"
      have "keeps k c1 c2" using assms(2) by (simp add: c2(1) keeps_def delivered_def)
      with c2(2) reconcile_keeps [OF _ assms(2)] keeps_trans show ?thesis by blast
    qed
  next
    case (Inr j)
    with assms(1) y answer have "retry_answered sv key job j c1 = (x, c')"
      by (simp add: post_retry_def io_simps)
    from retry_answered_cases [OF this] show ?thesis
      using reconcile_keeps [OF _ assms(2)] observe_keeps [OF _ assms(2)] keeps_refl by metis
  qed
  ultimately show ?thesis using keeps_trans by blast
qed

lemma retry_body_cases:
  assumes "retry_body sv job key c = (x, c')"
  obtains (stopped) y where "ic_pendingRetries c key = None \<longrightarrow> c' = c"
      "\<forall>p. ic_pendingRetries c key = Some p \<longrightarrow> reconcile sv key p c = (y, c')"
    | (posted) c1 current where "ic_pendingRetries c key = None \<longrightarrow> c1 = c"
      "\<forall>p. ic_pendingRetries c key = Some p \<longrightarrow> reconcile sv key p c = (Inr current, c1)"
      "nj_status current = Failed" "key \<notin> ic_retried c1" "post_retry sv key current c1 = (x, c')"
proof -
  let ?m = "case ic_pendingRetries c key of None \<Rightarrow> io_return job | Some pending \<Rightarrow> reconcile sv key pending"
  obtain y c1 where y: "?m c = (y, c1)" by fastforce
  have pre: "ic_pendingRetries c key = None \<longrightarrow> c1 = c"
    "\<forall>p. ic_pendingRetries c key = Some p \<longrightarrow> reconcile sv key p c = (y, c1)"
    using y by (auto simp: io_return_def)
  show ?thesis
  proof (cases y)
    case (Inl e)
    with assms y have "c' = c1" by (simp add: retry_body_def io_bind_def)
    with pre stopped [of y] show ?thesis by simp
  next
    case (Inr current)
    consider (out) "c' = c1" | (go) "nj_status current = Failed" "key \<notin> ic_retried c1" "post_retry sv key current c1 = (x, c')"
      using assms y Inr by (auto simp: retry_body_def io_simps split: if_splits)
    then show ?thesis
    proof cases
      case out
      with pre stopped [of y] show ?thesis by simp
    next
      case go
      with pre Inr posted [of c1 current] show ?thesis by simp
    qed
  qed
qed

lemma retry_body_ok:
  assumes "retry_body sv job key c = (x, c')" "retry_ok key c"
  shows "retry_ok key c'"
  using assms(1)
proof (cases rule: retry_body_cases)
  case (stopped y)
  show ?thesis
  proof (cases "ic_pendingRetries c key")
    case None
    with stopped assms(2) show ?thesis by simp
  next
    case (Some p)
    with stopped(2) have "reconcile sv key p c = (y, c')" by simp
    from reconcile_ok [OF this assms(2) Some] show ?thesis by blast
  qed
next
  case (posted c1 current)
  have "retry_ok key c1 \<and> ic_pendingRetries c1 key = None"
  proof (cases "ic_pendingRetries c key")
    case None
    with posted assms(2) show ?thesis by simp
  next
    case (Some p)
    with posted(2) have "reconcile sv key p c = (Inr current, c1)" by simp
    from reconcile_ok [OF this assms(2) Some] posted(3,4) show ?thesis by blast
  qed
  with post_retry_ok [OF posted(5) _ posted(4)] show ?thesis by simp
qed

lemma retry_body_keeps:
  assumes "retry_body sv job key c = (x, c')" "k \<noteq> key"
  shows "keeps k c c'"
  using assms(1)
proof (cases rule: retry_body_cases)
  case (stopped y)
  then show ?thesis
    by (cases "ic_pendingRetries c key") (auto intro: keeps_refl dest: reconcile_keeps [OF _ assms(2)])
next
  case (posted c1 current)
  from posted(1,2) have "keeps k c c1"
    by (cases "ic_pendingRetries c key") (auto intro: keeps_refl dest: reconcile_keeps [OF _ assms(2)])
  from keeps_trans [OF this post_retry_keeps [OF posted(5) assms(2)]] show ?thesis .
qed

section \<open>Every call keeps the count\<close>

definition io_keeps :: "ret_key \<Rightarrow> 'a io \<Rightarrow> bool" where
  "io_keeps k m \<longleftrightarrow> (\<forall>c. retry_ok k c \<longrightarrow> retry_ok k (snd (m c)))"

named_theorems io_intros \<open>effects that keep the count of retries\<close>

lemma io_keeps_bind [io_intros]: "io_keeps k m \<Longrightarrow> (\<And>x. io_keeps k (f x)) \<Longrightarrow> io_keeps k (io_bind m f)"
  by (auto simp: io_keeps_def io_bind_def split: prod.splits sum.splits)

lemma io_keeps_return [io_intros]: "io_keeps k (io_return x)"
  by (simp add: io_keeps_def io_return_def)

lemma io_keeps_throw [io_intros]: "io_keeps k (io_throw e)"
  by (simp add: io_keeps_def io_throw_def)

lemma io_keeps_abort [io_intros]: "io_keeps k (throwIfAborted sv)"
  by (simp add: io_keeps_def throwIfAborted_def)

lemma io_keeps_post [io_intros]: "io_keeps k (http_request sv (PostSegment s priority))"
  unfolding io_keeps_def
  by (metis http_keeps keeps_ok prod.collapse wire_request.distinct(3))

lemma retry_ok_frame [simp]:
  "retry_ok k (c\<lparr>ic_retrying := r\<rparr>) = retry_ok k c"
  "retry_ok k (c\<lparr>ic_submitted := f\<rparr>) = retry_ok k c"
  by (simp_all add: retry_ok_def awaited_def delivered_def)

lemma io_keeps_retry [io_intros]: "io_keeps k (retryJob sv job key)"
  unfolding io_keeps_def
proof (intro allI impI)
  fix c
  assume ok: "retry_ok k c"
  let ?c = "c\<lparr>ic_retrying := insert key (ic_retrying c)\<rparr>"
  obtain x c' where r: "retry_body sv job key ?c = (x, c')" by fastforce
  have "retry_ok k ?c" using ok by simp
  then have "retry_ok k c'"
    using retry_body_ok [OF r] keeps_ok [OF retry_body_keeps [OF r, of k]] by (cases "k = key") auto
  then have "retry_ok k (c'\<lparr>ic_retrying := ic_retrying c' - {key}\<rparr>)" by simp
  with r ok show "retry_ok k (snd (retryJob sv job key c))" by (simp add: retryJob_def)
qed

lemma io_keeps_settle: "io_keeps k (\<lambda>c. if nj_status settled = Superseded then io_throw e c
    else (Inr (), c\<lparr>ic_submitted := (ic_submitted c)(sk \<mapsto> v)\<rparr>))"
  by (simp add: io_keeps_def io_throw_def)

lemma io_keeps_segment: "io_keeps k (post_segment sv m priority s)"
proof -
  let ?next = "\<lambda>sent job c. if \<not> job_matches s job then io_throw (Thrown ''owned job ID/hash/boundary mismatch'') c
        else io_bind (if nj_status job = Failed \<or> ic_pendingRetries c (retry_key s) \<noteq> None
                      then retryJob sv job (retry_key s) else io_return job) (\<lambda>settled c'.
               if nj_status settled = Superseded then io_throw (Thrown ''target superseded during submission'') c'
               else (Inr (), c'\<lparr>ic_submitted := (ic_submitted c')(segment_key s \<mapsto>
                 \<lparr>sn_hash = ps_fingerprint s, sn_priority = next_priority sent m s priority\<rparr>)\<rparr>)) c"
  have continue: "io_keeps k (?next sent job)" for sent job
  proof -
    have "io_keeps k (io_bind (if b then retryJob sv job (retry_key s) else io_return job) (\<lambda>settled c'.
               if nj_status settled = Superseded then io_throw (Thrown ''target superseded during submission'') c'
               else (Inr (), c'\<lparr>ic_submitted := (ic_submitted c')(segment_key s \<mapsto>
                 \<lparr>sn_hash = ps_fingerprint s, sn_priority = next_priority sent m s priority\<rparr>)\<rparr>)))" for b
      by (rule io_keeps_bind) (simp_all add: io_intros io_keeps_settle)
    then show ?thesis by (simp add: io_keeps_def io_throw_def)
  qed
  have "io_keeps k (io_bind (http_request sv (PostSegment s priority)) (?next sent))" for sent
    by (intro io_keeps_bind io_keeps_post continue)
  moreover have "retry_ok k (if confirmed m s then c else c\<lparr>ic_submitted := g\<rparr>) = retry_ok k c" for c g
    by simp
  ultimately show ?thesis by (simp add: io_keeps_def post_segment_def Let_def)
qed

lemma io_keeps_submit_segment: "io_keeps k (submit_segment sv m p s)"
proof -
  have "io_keeps k (\<lambda>c. if q then io_throw e c else let priority = (if ps_closed s then p else 0) in
      if already_submitted c m s priority then io_return () c else post_segment sv m priority s c)" for q e
    using io_keeps_segment [of k sv m _ s] by (simp add: io_keeps_def io_throw_def io_return_def Let_def)
  then show ?thesis
    unfolding submit_segment_def by (intro io_keeps_bind io_keeps_abort)
qed

lemma io_keeps_submit: "io_keeps k (submit sv m p ss)"
  by (induction ss) (simp_all add: io_intros io_keeps_submit_segment)

section \<open>Runs of the client\<close>

datatype client_call =
    Submit ingest_service submit_manifest nat "planned_segment list"
  | Clear jsstr

fun client_step :: "client_call \<Rightarrow> ingest_client \<Rightarrow> ingest_client" where
  "client_step (Submit sv m p ss) c = snd (submit sv m p ss c)"
| "client_step (Clear i) c = clear_session i c"

definition client_run :: "client_call list \<Rightarrow> ingest_client" where
  "client_run calls = fold client_step calls new_client"

lemma clear_keeps: "fst k \<noteq> i \<Longrightarrow> keeps k c (clear_session i c)"
  by (simp add: keeps_def clear_session_def delivered_def)

lemma client_step_ok: "retry_ok k c \<Longrightarrow> call \<noteq> Clear (fst k) \<Longrightarrow> retry_ok k (client_step call c)"
  by (cases call) (metis client_step.simps(1) io_keeps_def io_keeps_submit, metis clear_keeps client_step.simps(2) keeps_ok)

lemma client_run_ok:
  assumes "Clear (fst k) \<notin> set calls"
  shows "retry_ok k (client_run calls)"
proof -
  have "retry_ok k c \<Longrightarrow> retry_ok k (fold client_step calls c)" for c
    using assms by (induction calls arbitrary: c) (auto simp: client_step_ok)
  moreover have "retry_ok k new_client" by (simp add: retry_ok_def delivered_def new_client_def)
  ultimately show ?thesis by (simp add: client_run_def)
qed

section \<open>At most one retry\<close>

text \<open>C40. However the server answers, loses or delays the requests, and in whatever order plans are submitted
  and other sessions forgotten, a target of a session gets at most one retry that was not refused with an
  HTTP failure: a retry lost in transit is reconciled with the job's state and never posted again.\<close>

theorem failed_job_retried_at_most_once:
  assumes "Clear (fst k) \<notin> set calls"
  shows "length (filter (delivers k) (ic_trace (client_run calls))) \<le> 1"
  using client_run_ok [OF assms] by (simp add: retry_ok_def delivered_def)

section \<open>A run\<close>

text \<open>A server whose job has failed, and which loses the first retry: the second submission only reads.\<close>

definition lost_segment :: planned_segment where
  "lost_segment =
     \<lparr>ps_request = \<lparr>rq_source_id = js ''s'',
        rq_body = \<lparr>rb_session_id = js ''t'', rb_boundary = Boundary3 (js ''a'') (js ''b''), rb_projection_version = 3,
          rb_processing_priority = 50, rb_messages = []\<rparr>\<rparr>,
      ps_id = js ''i'', ps_fingerprint = js ''f'', ps_closed = True, ps_sourceMessageIds = [js ''a'', js ''b''],
      ps_weightedChars = 1\<rparr>"

definition lost_job :: native_job where
  "lost_job =
     \<lparr>nj_id = js ''j'', nj_segment_id = js ''i'', nj_status = Failed, nj_attempts = 1, nj_started_at = None,
      nj_finished_at = None, nj_source_fingerprint = js ''f'', nj_projection_version = 3,
      nj_start_source_message_id = js ''a'', nj_end_source_message_id = js ''b''\<rparr>"

definition lost_service :: ingest_service where
  "lost_service =
     \<lparr>sv_answer = (\<lambda>events r. case r of PostRetry k i \<Rightarrow> Inl (Unavailable None) | _ \<Rightarrow> Inr lost_job),
      sv_aborted = (\<lambda>events. False), sv_sourceId = js ''s''\<rparr>"

definition lost_calls :: "client_call list" where
  "lost_calls =
     (let m = \<lparr>sm_session_id = js ''t'', sm_targets = [], sm_boundaries = []\<rparr>
      in [Submit lost_service m 50 [lost_segment], Clear (js ''u''), Submit lost_service m 50 [lost_segment]])"

lemmas lost_simps = lost_segment_def lost_job_def lost_service_def lost_calls_def client_run_def new_client_def
  submit_segment_def post_segment_def io_simps already_submitted_def segment_key_def retry_key_def session_of_def
  range_start_def range_end_def confirmed_def job_matches_def http_request_def retryJob_def retry_body_def
  post_retry_def retry_failed_def http_failure_def reconcile_def read_job_def observe_def same_target_def
  signature_def clear_session_def Let_def

lemma lost_trace:
  "map fst (ic_trace (client_run lost_calls)) =
     [PostSegment lost_segment 50, PostRetry (js ''t'', js ''i'', js ''f'') (js ''j''), ReadJob (js ''j''),
      PostSegment lost_segment 50, ReadJob (js ''j'')]"
  by (simp add: lost_simps)

theorem failed_job_retried_at_most_once_witness:
  "length (filter (delivers (js ''t'', js ''i'', js ''f'')) (ic_trace (client_run lost_calls))) \<le> 1
   \<and> (\<exists>e \<in> set (ic_trace (client_run lost_calls)). fst e = PostRetry (js ''t'', js ''i'', js ''f'') (js ''j''))"
proof -
  have "Clear (fst (js ''t'', js ''i'', js ''f'')) \<notin> set lost_calls"
    by (simp add: lost_calls_def Let_def js_def)
  from failed_job_retried_at_most_once [OF this]
  have "length (filter (delivers (js ''t'', js ''i'', js ''f'')) (ic_trace (client_run lost_calls))) \<le> 1" .
  moreover have "PostRetry (js ''t'', js ''i'', js ''f'') (js ''j'') \<in> fst ` set (ic_trace (client_run lost_calls))"
    unfolding set_map [symmetric] lost_trace by simp
  then obtain e where "e \<in> set (ic_trace (client_run lost_calls))"
    "fst e = PostRetry (js ''t'', js ''i'', js ''f'') (js ''j'')" by (rule imageE) simp
  ultimately show ?thesis by blast
qed

end
