(* ===== verification/Transport.thy ===== *)
theory Transport
  imports Effects NativeHistory HistoryReader
begin

text \<open>
  Requests, paged transcripts and stable snapshots: \<open>packages/opencode-v2-plugin/src/transport.ts\<close>. What is
  fetched, and whether the operation's signal is aborted, are functions of the requests and answers so far.
  The fuel of a paged read stands for the operation's time limit: when it is used up, the signal is aborted.
\<close>

section \<open>Requests\<close>

text \<open>All but the registry's go to the endpoint of a source, whose ID comes first.\<close>

datatype t_request =
    RegistryEntry jsstr
  | SessionEntry jsstr jsstr
  | ActiveSessions jsstr
  | MessagePage jsstr source_kind jsstr "jsstr option"

text \<open>
  A response: its status, its content type (empty when the header is missing), the JSON of its body and the
  body's size in bytes, the header \<open>X-Next-Cursor\<close>, and whether the request's own time limit has passed.
\<close>

record response =
  rp_status :: nat
  rp_type :: jsstr
  rp_body :: "jsval option"
  rp_size :: nat
  rp_before :: "jsstr option"
  rp_timed_out :: bool

datatype fetched = Unreachable | Answered response

type_synonym t_trace = "(t_request \<times> fetched) list"

record transport_service =
  ts_fetch :: "t_trace \<Rightarrow> t_request \<Rightarrow> fetched"
  ts_aborted :: "t_trace \<Rightarrow> bool"
  ts_kind :: "jsstr \<Rightarrow> source_kind option"
  ts_bareUrl :: bare_url

record history_cache =
  hc_records :: "native_record list"
  hc_ids :: "jsstr set"
  hc_last :: jsstr

text \<open>\<open>histories\<close> in insertion order; its keys are JSON texts of pairs in the code.\<close>

type_synonym history_key = "jsstr \<times> jsstr"

record transport =
  tr_registry :: "jsstr \<rightharpoonup> source_info"
  tr_histories :: "(history_key \<times> history_cache) list"
  tr_trace :: t_trace

definition new_transport :: transport where
  "new_transport = \<lparr>tr_registry = Map.empty, tr_histories = [], tr_trace = []\<rparr>"

type_synonym 'a t_action = "(transport, 'a) action"

definition from_source :: "t_request \<Rightarrow> bool" where
  "from_source r = (case r of RegistryEntry i \<Rightarrow> False | _ \<Rightarrow> True)"

text \<open>\<open>String.prototype.toLowerCase\<close> as far as a comparison with ASCII text without k shows.\<close>

definition lower_ascii :: "jsstr \<Rightarrow> jsstr" where
  "lower_ascii s = map (\<lambda>u. if 65 \<le> u \<and> u \<le> 90 then u + 32 else u) s"

definition MAX_ERROR_BODY_BYTES :: nat where
  "MAX_ERROR_BODY_BYTES = 65536"

definition isApplicationError :: "response \<Rightarrow> bool" where
  "isApplicationError p \<longleftrightarrow>
     lower_ascii (trim (takeWhile (\<lambda>u. u \<noteq> 59) (rp_type p))) = js ''application/json''
     \<and> rp_size p \<le> MAX_ERROR_BODY_BYTES
     \<and> (case rp_body p of
          Some (Obj ps) \<Rightarrow> (case prop_of ps ''detail'' of Str s \<Rightarrow> True | Arr vs \<Rightarrow> True | _ \<Rightarrow> False)
        | _ \<Rightarrow> False)"

definition failed_response :: "bool \<Rightarrow> bool \<Rightarrow> response \<Rightarrow> http_error" where
  "failed_response own_source aborted p =
     (if rp_status p \<ge> 500 \<or> rp_status p = 408 \<or> rp_status p = 429 then Unavailable (Some (rp_status p))
      else if own_source then Rejected (rp_status p)
      else if aborted then Broken
      else if \<not> isApplicationError p then Unavailable (Some (rp_status p))
      else Rejected (rp_status p))"

definition answer_of :: "bool \<Rightarrow> bool \<Rightarrow> fetched \<Rightarrow> client_error + jsval \<times> jsstr option" where
  "answer_of own_source aborted f =
     (case f of
        Unreachable \<Rightarrow> Inl (Http (if aborted then Broken else Unavailable None))
      | Answered p \<Rightarrow>
          if \<not> (200 \<le> rp_status p \<and> rp_status p < 300) then Inl (Http (failed_response own_source aborted p))
          else if aborted then Inl (Http Broken)
          else (case rp_body p of
                  None \<Rightarrow> Inl (Http (if rp_timed_out p then Unavailable None else Broken))
                | Some v \<Rightarrow> Inr (v, rp_before p)))"

definition send_request :: "transport_service \<Rightarrow> t_request \<Rightarrow> (jsval \<times> jsstr option) t_action" where
  "send_request sv r c =
     (if ts_aborted sv (tr_trace c) then (Inl (Http Broken), c)
      else let f = ts_fetch sv (tr_trace c) r; events = tr_trace c @ [(r, f)]
           in (answer_of (from_source r) (ts_aborted sv events) f, c\<lparr>tr_trace := events\<rparr>))"

section \<open>Values\<close>

definition object_props :: "jsval \<Rightarrow> client_error + (jsstr \<times> jsval) list" where
  "object_props v = (case v of Obj ps \<Rightarrow> Inr ps | _ \<Rightarrow> Inl (Thrown ''invalid object response''))"

definition pageValue :: "jsval \<Rightarrow> client_error + jsval list \<times> jsstr option" where
  "pageValue v =
     rbind (object_props v) (\<lambda>entry.
     rbind (object_props (prop_of entry ''cursor'')) (\<lambda>cursor.
       case (prop_of entry ''data'', prop_of cursor ''next'') of
         (Arr vs, Undefined) \<Rightarrow> Inr (vs, None)
       | (Arr vs, Null) \<Rightarrow> Inr (vs, None)
       | (Arr vs, Str s) \<Rightarrow> if s = [] then Inl (Thrown ''invalid page response'') else Inr (vs, Some s)
       | _ \<Rightarrow> Inl (Thrown ''invalid page response'')))"

text \<open>\<open>Buffer.toString("base64url")\<close>: six bits a character, without padding.\<close>

definition base64_unit :: "nat \<Rightarrow> 16 word" where
  "base64_unit d = of_nat (if d < 26 then 65 + d else if d < 52 then 71 + d else if d < 62 then d - 4
     else if d = 62 then 45 else 95)"

fun base64url :: "nat list \<Rightarrow> jsstr" where
  "base64url [] = []"
| "base64url [a] = [base64_unit (a div 4), base64_unit (a mod 4 * 16)]"
| "base64url [a, b] = [base64_unit (a div 4), base64_unit (a mod 4 * 16 + b div 16), base64_unit (b mod 16 * 4)]"
| "base64url (a # b # c # bs) =
     base64_unit (a div 4) # base64_unit (a mod 4 * 16 + b div 16) # base64_unit (b mod 16 * 4 + c div 64)
     # base64_unit (c mod 64) # base64url bs"

definition nativeCursorAfter :: "jsstr \<Rightarrow> jsstr" where
  "nativeCursorAfter i = base64url (utf8 (json_text (Obj [field ''id'' (Str i), field ''order'' (str ''asc''),
     field ''direction'' (str ''next'')])))"

section \<open>The registry\<close>

definition source_value :: "jsval \<Rightarrow> source_info option" where
  "source_value v =
     (case v of
        Obj ps \<Rightarrow>
          (case (parseSourceId (prop_of ps ''id''), prop_of ps ''kind'', prop_of ps ''identity_scheme'') of
             (Inr i, Str kind, Str scheme) \<Rightarrow>
               if \<not> only_keys [''id'', ''kind'', ''identity_scheme''] ps
                 \<or> kind \<notin> {js ''opencode-v1'', js ''opencode-v2''} \<or> scheme \<notin> {js ''legacy'', js ''source-v1''}
               then None
               else Some \<lparr>src_id = i, src_kind = (if kind = js ''opencode-v1'' then OpencodeV1 else OpencodeV2),
                 src_scheme = (if scheme = js ''legacy'' then Legacy else SourceV1)\<rparr>
           | _ \<Rightarrow> None)
      | _ \<Rightarrow> None)"

definition registry_error :: "client_error \<Rightarrow> client_error" where
  "registry_error e =
     (case e of
        Http (Unavailable status) \<Rightarrow> Http (Unavailable status)
      | Http (Rejected status) \<Rightarrow> if status = 404 then Http (Unavailable (Some 404))
          else Thrown ''source registry missing, unavailable, or invalid''
      | _ \<Rightarrow> Thrown ''source registry missing, unavailable, or invalid'')"

definition fetch_source :: "transport_service \<Rightarrow> jsstr \<Rightarrow> source_info t_action" where
  "fetch_source sv i c =
     (case send_request sv (RegistryEntry i) c of
        (Inl e, c') \<Rightarrow> (Inl (registry_error e), c')
      | (Inr (v, before), c') \<Rightarrow>
          (case source_value v of
             None \<Rightarrow> (Inl (Thrown ''source registry missing, unavailable, or invalid''), c')
           | Some s \<Rightarrow> (Inr s, c')))"

definition registrySource :: "transport_service \<Rightarrow> jsstr \<Rightarrow> source_info t_action" where
  "registrySource sv i c =
     (case tr_registry c i of
        Some s \<Rightarrow> (Inr s, c)
      | None \<Rightarrow>
          (case ts_kind sv i of
             None \<Rightarrow> (Inl (Thrown ''requested source is not configured''), c)
           | Some kind \<Rightarrow>
               io_bind (fetch_source sv i) (\<lambda>s c'.
                 if src_id s \<noteq> i \<or> src_kind s \<noteq> kind \<or> (src_kind s = OpencodeV2 \<and> src_scheme s \<noteq> SourceV1)
                 then (Inl (Thrown ''source registry identity/kind mismatch''), c')
                 else (Inr s, c'\<lparr>tr_registry := (tr_registry c')(i \<mapsto> s)\<rparr>)) c))"

definition readerFor :: "transport_service \<Rightarrow> source_info \<Rightarrow> client_error + unit" where
  "readerFor sv s =
     (if ts_kind sv (src_id s) = Some (src_kind s) then Inr () else Inl (Thrown ''source endpoint/kind mismatch''))"

section \<open>Paged transcripts\<close>

record page_state =
  hp_messages :: "jsval list"
  hp_cursors :: "jsstr list"
  hp_ids :: "jsstr list"
  hp_cursor :: "jsstr option"

definition batch_of :: "source_kind \<Rightarrow> jsval \<Rightarrow> jsstr option \<Rightarrow> client_error + jsval list \<times> jsstr option" where
  "batch_of kind v before =
     (if kind = OpencodeV2 then pageValue v
      else case v of Arr vs \<Rightarrow> Inr (vs, before) | _ \<Rightarrow> Inl (Thrown ''invalid history array''))"

definition history_id :: "source_kind \<Rightarrow> jsval \<Rightarrow> client_error + jsval" where
  "history_id kind raw =
     rbind (object_props raw) (\<lambda>item.
       if kind = OpencodeV2 then Inr (prop_of item ''id'')
       else rbind (object_props (prop_of item ''info'')) (\<lambda>info. Inr (prop_of info ''id'')))"

fun take_ids :: "source_kind \<Rightarrow> jsval list \<Rightarrow> jsstr list \<Rightarrow> client_error + jsstr list" where
  "take_ids kind [] ids = Inr ids"
| "take_ids kind (raw # raws) ids =
     rbind (history_id kind raw) (\<lambda>v.
       case v of
         Str i \<Rightarrow> if i = [] \<or> i \<in> set ids then Inl (Thrown ''missing or duplicate history ID'')
           else take_ids kind raws (ids @ [i])
       | _ \<Rightarrow> Inl (Thrown ''missing or duplicate history ID''))"

definition next_page :: "source_kind \<Rightarrow> jsval \<Rightarrow> jsstr option \<Rightarrow> page_state \<Rightarrow> client_error + page_state" where
  "next_page kind v before st =
     rbind (batch_of kind v before) (\<lambda>(raws, cursor).
     rbind (take_ids kind raws (hp_ids st)) (\<lambda>ids.
       let messages = (if kind = OpencodeV1 then raws @ hp_messages st else hp_messages st @ raws) in
       case cursor of
         None \<Rightarrow> Inr (st\<lparr>hp_messages := messages, hp_ids := ids, hp_cursor := None\<rparr>)
       | Some s \<Rightarrow>
           if s = [] then Inr (st\<lparr>hp_messages := messages, hp_ids := ids, hp_cursor := None\<rparr>)
           else if s \<in> set (hp_cursors st) then Inl (Thrown ''repeated history cursor'')
           else Inr (st\<lparr>hp_messages := messages, hp_ids := ids, hp_cursor := Some s, hp_cursors := hp_cursors st @ [s]\<rparr>)))"

fun history_loop :: "transport_service \<Rightarrow> source_info \<Rightarrow> jsstr \<Rightarrow> nat \<Rightarrow> page_state \<Rightarrow> jsval list t_action" where
  "history_loop sv source i 0 st = io_throw (Http Broken)"
| "history_loop sv source i (Suc pages) st =
     io_bind (send_request sv (MessagePage (src_id source) (src_kind source) i (hp_cursor st))) (\<lambda>(v, before).
     io_bind (io_lift (next_page (src_kind source) v before st)) (\<lambda>st'.
       if hp_cursor st' = None then io_return (hp_messages st') else history_loop sv source i pages st'))"

definition pagedHistory ::
  "transport_service \<Rightarrow> nat \<Rightarrow> source_info \<Rightarrow> jsstr \<Rightarrow> jsstr option \<Rightarrow> jsval list t_action" where
  "pagedHistory sv pages source i after =
     io_bind (io_lift (readerFor sv source)) (\<lambda>_.
       if after \<noteq> None \<and> src_kind source \<noteq> OpencodeV2
       then io_throw (Thrown ''resumed history requires an opencode-v2 source'')
       else history_loop sv source i pages
         \<lparr>hp_messages = [], hp_cursors = [], hp_ids = [], hp_cursor = map_option nativeCursorAfter after\<rparr>)"

section \<open>Session metadata and status\<close>

definition session_value :: "jsstr \<Rightarrow> jsval \<Rightarrow> client_error + (jsstr \<times> jsval) list" where
  "session_value i v =
     rbind (object_props v) (\<lambda>envelope.
     rbind (object_props (prop_of envelope ''data'')) (\<lambda>info.
       if prop_of info ''id'' \<noteq> Str i then Inl (Thrown ''invalid session metadata'')
       else rbind (object_props (prop_of info ''location'')) (\<lambda>location.
         if \<not> is_string (prop_of location ''directory'') then Inl (Thrown ''invalid session metadata'')
         else rbind (object_props (prop_of info ''time'')) (\<lambda>time.
           if \<not> is_num (prop_of time ''updated'') then Inl (Thrown ''invalid session metadata'')
           else Inr info))))"

definition sessionInfo :: "transport_service \<Rightarrow> source_info \<Rightarrow> jsstr \<Rightarrow> (jsstr \<times> jsval) list t_action" where
  "sessionInfo sv source i =
     io_bind (send_request sv (SessionEntry (src_id source) i)) (\<lambda>(v, before). io_lift (session_value i v))"

definition status_text :: "jsval \<Rightarrow> jsstr" where
  "status_text entry = (if entry = Undefined then js ''inactive'' else json_text entry)"

fun find_entry :: "jsstr \<Rightarrow> jsval list \<Rightarrow> client_error + jsval" where
  "find_entry i [] = Inr Undefined"
| "find_entry i (v # vs) =
     rbind (object_props v) (\<lambda>ps. if prop_of ps ''id'' = Str i then Inr v else find_entry i vs)"

definition active_value :: "jsstr \<Rightarrow> jsval \<Rightarrow> client_error + jsstr" where
  "active_value i v =
     rbind (object_props v) (\<lambda>envelope.
       case prop_of envelope ''data'' of
         Arr vs \<Rightarrow> rbind (find_entry i vs) (\<lambda>entry. Inr (status_text entry))
       | d \<Rightarrow> rbind (object_props d) (\<lambda>ps. Inr (status_text (property ps i))))"

definition activeStatus :: "transport_service \<Rightarrow> source_info \<Rightarrow> jsstr \<Rightarrow> jsstr t_action" where
  "activeStatus sv source i =
     io_bind (send_request sv (ActiveSessions (src_id source))) (\<lambda>(v, before). io_lift (active_value i v))"

section \<open>The cache of settled prefixes\<close>

definition HISTORY_CACHE_SESSIONS :: nat where
  "HISTORY_CACHE_SESSIONS = 8"

definition canonical :: "transport_service \<Rightarrow> jsval list \<Rightarrow> client_error + native_record list" where
  "canonical sv history = map_sum Thrown id (canonicalizeNativeHistory (ts_bareUrl sv) history)"

definition forget :: "jsstr \<Rightarrow> jsstr \<Rightarrow> transport \<Rightarrow> transport" where
  "forget sourceId i c = c\<lparr>tr_histories := filter (\<lambda>p. fst p \<noteq> (sourceId, i)) (tr_histories c)\<rparr>"

definition is_assistant_record :: "native_record \<Rightarrow> bool" where
  "is_assistant_record r \<longleftrightarrow> get_prop (nr_raw r) (js ''type'') = str ''assistant''"

definition latest_assistant :: "native_record list \<Rightarrow> nat option" where
  "latest_assistant rs = (case filter (\<lambda>k. is_assistant_record (rs ! k)) [0..<length rs] of [] \<Rightarrow> None | ks \<Rightarrow> Some (last ks))"

definition settled_end :: "native_record list \<Rightarrow> nat" where
  "settled_end rs =
     (let end_index = length (takeWhile nr_complete rs)
      in case latest_assistant rs of None \<Rightarrow> end_index | Some k \<Rightarrow> min end_index k)"

definition history_entry :: "native_record list \<Rightarrow> history_cache" where
  "history_entry settled =
     \<lparr>hc_records = settled, hc_ids = set (map record_id settled), hc_last = json_text (nr_raw (last settled))\<rparr>"

text \<open>The oldest entries go until the cache holds at most eight.\<close>

definition remember :: "jsstr \<Rightarrow> jsstr \<Rightarrow> native_record list \<Rightarrow> transport \<Rightarrow> transport" where
  "remember sourceId i records c =
     (let c1 = forget sourceId i c; n = settled_end records in
      if n < 2 then c1
      else let entries = tr_histories c1 @ [((sourceId, i), history_entry (take n records))]
           in c1\<lparr>tr_histories := drop (length entries - HISTORY_CACHE_SESSIONS) entries\<rparr>)"

text \<open>The read resumed after the last message but one of the cache: \<open>Inr None\<close> when it is rejected.\<close>

definition resumed_tail ::
  "transport_service \<Rightarrow> nat \<Rightarrow> source_info \<Rightarrow> jsstr \<Rightarrow> history_cache \<Rightarrow> jsval list option t_action" where
  "resumed_tail sv pages source i cached c =
     (case pagedHistory sv pages source i (Some (record_id (hc_records cached ! (length (hc_records cached) - 2)))) c of
        (Inl (Http (Rejected status)), c') \<Rightarrow> (Inr None, c')
      | (Inl e, c') \<Rightarrow> (Inl e, c')
      | (Inr tail, c') \<Rightarrow> (Inr (Some tail), c'))"

definition full_records :: "transport_service \<Rightarrow> nat \<Rightarrow> source_info \<Rightarrow> jsstr \<Rightarrow> native_record list t_action" where
  "full_records sv pages source i = io_bind (pagedHistory sv pages source i None) (\<lambda>ms. io_lift (canonical sv ms))"

definition cachedRecords ::
  "transport_service \<Rightarrow> nat \<Rightarrow> source_info \<Rightarrow> jsstr \<Rightarrow> native_record list t_action" where
  "cachedRecords sv pages source i c =
     (case map_of (tr_histories c) (src_id source, i) of
        None \<Rightarrow> full_records sv pages source i c
      | Some cached \<Rightarrow>
          io_bind (resumed_tail sv pages source i cached) (\<lambda>tail c1.
            let reread = full_records sv pages source i (forget (src_id source) i c1) in
            case tail of
              Some (m # ms) \<Rightarrow>
                if json_text m \<noteq> hc_last cached then reread
                else io_bind (io_lift (canonical sv ms)) (\<lambda>fresh c2.
                  if list_all (\<lambda>r. record_id r \<notin> hc_ids cached) fresh then (Inr (hc_records cached @ fresh), c2)
                  else full_records sv pages source i (forget (src_id source) i c2)) c1
            | _ \<Rightarrow> reread) c)"

section \<open>Snapshots\<close>

text \<open>Waiting before another attempt: it throws when the signal is aborted.\<close>

definition pause :: "transport_service \<Rightarrow> unit t_action" where
  "pause sv c = (if ts_aborted sv (tr_trace c) then Inl (Http Broken) else Inr (), c)"

definition read_records ::
  "transport_service \<Rightarrow> nat \<Rightarrow> source_info \<Rightarrow> jsstr \<Rightarrow> bool \<Rightarrow> native_record list t_action" where
  "read_records sv pages source i cacheable =
     (if cacheable then cachedRecords sv pages source i else full_records sv pages source i)"

definition settle_snapshot ::
  "jsstr \<Rightarrow> jsstr \<Rightarrow> bool \<Rightarrow> (jsstr \<times> jsval) list \<Rightarrow> native_record list
   \<Rightarrow> ((jsstr \<times> jsval) list \<times> native_record list) option t_action" where
  "settle_snapshot sourceId i cacheable info records c =
     (Inr (Some (info, records)), if cacheable then remember sourceId i records c else c)"

text \<open>
  One attempt: the metadata and the records when neither metadata nor status has changed while reading,
  \<open>None\<close> when one has.
\<close>

definition snapshot_attempt ::
  "transport_service \<Rightarrow> nat \<Rightarrow> source_info \<Rightarrow> jsstr \<Rightarrow> bool \<Rightarrow> bool
   \<Rightarrow> ((jsstr \<times> jsval) list \<times> native_record list) option t_action" where
  "snapshot_attempt sv pages source i inactive cacheable =
     io_bind (sessionInfo sv source i) (\<lambda>before.
     io_bind (activeStatus sv source i) (\<lambda>status.
       if inactive \<and> status \<noteq> js ''inactive'' then io_throw (Thrown ''session is active'')
       else io_bind (read_records sv pages source i cacheable) (\<lambda>records.
         io_bind (sessionInfo sv source i) (\<lambda>after.
         io_bind (activeStatus sv source i) (\<lambda>finalStatus.
           if json_text (Obj before) = json_text (Obj after) \<and> status = finalStatus
           then settle_snapshot (src_id source) i cacheable after records else io_return None)))))"

text \<open>\<open>SNAPSHOT_RETRY_DELAYS_MS\<close> has two entries, so there are at most two further attempts.\<close>

fun snapshot_attempts ::
  "nat \<Rightarrow> transport_service \<Rightarrow> nat \<Rightarrow> source_info \<Rightarrow> jsstr \<Rightarrow> bool \<Rightarrow> bool
   \<Rightarrow> ((jsstr \<times> jsval) list \<times> native_record list) t_action" where
  "snapshot_attempts 0 sv pages source i inactive cacheable =
     io_bind (snapshot_attempt sv pages source i inactive cacheable) (\<lambda>r.
       case r of
         Some found \<Rightarrow> io_return found
       | None \<Rightarrow> io_throw (Thrown ''history revision/status changed while paging''))"
| "snapshot_attempts (Suc retries) sv pages source i inactive cacheable =
     io_bind (snapshot_attempt sv pages source i inactive cacheable) (\<lambda>r.
       case r of
         Some found \<Rightarrow> io_return found
       | None \<Rightarrow> io_bind (pause sv) (\<lambda>_. snapshot_attempts retries sv pages source i inactive cacheable))"

definition snapshot ::
  "transport_service \<Rightarrow> nat \<Rightarrow> source_info \<Rightarrow> jsstr \<Rightarrow> bool \<Rightarrow> bool
   \<Rightarrow> ((jsstr \<times> jsval) list \<times> native_record list) t_action" where
  "snapshot sv pages source i inactive incremental =
     io_bind (io_lift (readerFor sv source)) (\<lambda>_.
       snapshot_attempts 2 sv pages source i inactive (incremental \<and> src_kind source = OpencodeV2))"

section \<open>Legacy transcripts and the host's configuration\<close>

definition legacy_created :: "jsval \<Rightarrow> client_error + jsval" where
  "legacy_created v =
     rbind (object_props v) (\<lambda>item.
     rbind (object_props (prop_of item ''info'')) (\<lambda>info.
       let role = prop_of info ''role'' in
       if role \<noteq> str ''user'' \<and> role \<noteq> str ''assistant'' then Inl (Thrown ''invalid legacy history'')
       else case prop_of item ''parts'' of
           Arr parts \<Rightarrow>
             rbind (rmap (\<lambda>part. rbind (object_props part) (\<lambda>ps.
               if is_string (prop_of ps ''type'') then Inr () else Inl (Thrown ''invalid legacy history''))) parts) (\<lambda>_.
             rbind (object_props (prop_of info ''time'')) (\<lambda>time. Inr (prop_of time ''created'')))
         | _ \<Rightarrow> Inl (Thrown ''invalid legacy history'')))"

text \<open>The time before is \<open>None\<close> for \<open>-Infinity\<close>.\<close>

fun legacy_order :: "jsval list \<Rightarrow> rat option \<Rightarrow> client_error + unit" where
  "legacy_order [] previous = Inr ()"
| "legacy_order (v # vs) previous =
     rbind (legacy_created v) (\<lambda>created.
       case created of
         Num n \<Rightarrow>
           if \<not> finite_num n \<or> (case previous of None \<Rightarrow> False | Some p \<Rightarrow> time_value n < p)
           then Inl (Thrown ''legacy history out of order'')
           else legacy_order vs (Some (time_value n))
       | _ \<Rightarrow> Inl (Thrown ''legacy history out of order''))"

definition legacyHistory :: "jsval list \<Rightarrow> client_error + jsval list" where
  "legacyHistory history = rbind (legacy_order history None) (\<lambda>_. Inr history)"

fun compaction_entries :: "jsval list \<Rightarrow> bool \<Rightarrow> client_error + bool" where
  "compaction_entries [] auto = Inr auto"
| "compaction_entries (entry # entries) auto =
     rbind (object_props entry) (\<lambda>document.
       if prop_of document ''type'' = str ''directory''
       then if is_string (prop_of document ''path'') then compaction_entries entries auto
         else Inl (Thrown ''invalid config directory entry'')
       else if prop_of document ''type'' \<noteq> str ''document'' then Inl (Thrown ''unknown config entry type'')
       else rbind (object_props (prop_of document ''info'')) (\<lambda>info.
         if prop_of info ''compaction'' \<in> {Undefined, Null} then compaction_entries entries auto
         else rbind (object_props (prop_of info ''compaction'')) (\<lambda>compaction.
           case prop_of compaction ''auto'' of
             Undefined \<Rightarrow> compaction_entries entries auto
           | Boolean enabled \<Rightarrow> compaction_entries entries enabled
           | _ \<Rightarrow> Inl (Thrown ''invalid compaction configuration''))))"

definition automaticCompaction :: "jsval \<Rightarrow> client_error + bool" where
  "automaticCompaction v =
     (case v of Arr entries \<Rightarrow> compaction_entries entries True | _ \<Rightarrow> Inl (Thrown ''expected normalized Config.Entry[]''))"

end
