(* ===== verification/HostSession.thy ===== *)
theory HostSession
  imports Transport JsonText NativeRendered
begin

text \<open>
  What the OpenCode host does to a session's transcript between two reads, as the comments of
  \<open>packages/opencode-v2-plugin/src/transport.ts\<close> state it: rows are appended, records that are not complete
  are updated in place, a step retry revives the assistant message of the current step, and a committed
  revert removes a suffix. A prefix of complete records that no retry can reach any more is then either
  unchanged or has lost its last message.
\<close>

section \<open>Steps of the host\<close>

record host_session =
  hs_messages :: "jsval list"
  hs_used :: "jsstr set"
  hs_sealed :: "jsstr set"

definition message_key :: "jsval \<Rightarrow> jsstr" where
  "message_key v = string_of (get_prop v (js ''id''))"

definition host_assistant :: "jsval \<Rightarrow> bool" where
  "host_assistant v \<longleftrightarrow> get_prop v (js ''type'') = str ''assistant''"

definition settled_message :: "jsval \<Rightarrow> bool" where
  "settled_message v = (case v of Obj ps \<Rightarrow> NativeHistory.complete (string_of (prop_of ps ''type'')) ps | _ \<Rightarrow> False)"

definition same_message :: "jsval \<Rightarrow> jsval \<Rightarrow> bool" where
  "same_message v w \<longleftrightarrow> message_key w = message_key v \<and> get_prop w (js ''type'') = get_prop v (js ''type'') \<and> json_value w"

text \<open>Message IDs are never used again; an assistant message is sealed when the next one begins.\<close>

inductive host_step :: "host_session \<Rightarrow> host_session \<Rightarrow> bool" where
  appended: "message_key m \<notin> hs_used h \<Longrightarrow> json_value m \<Longrightarrow>
    host_step h (h\<lparr>hs_messages := hs_messages h @ [m], hs_used := insert (message_key m) (hs_used h),
      hs_sealed := (if host_assistant m then hs_sealed h \<union> message_key ` set (hs_messages h) else hs_sealed h)\<rparr>)"
| updated: "k < length (hs_messages h) \<Longrightarrow> \<not> settled_message (hs_messages h ! k) \<Longrightarrow> same_message (hs_messages h ! k) m \<Longrightarrow>
    host_step h (h\<lparr>hs_messages := (hs_messages h)[k := m]\<rparr>)"
| revived: "k < length (hs_messages h) \<Longrightarrow> host_assistant (hs_messages h ! k) \<Longrightarrow>
    message_key (hs_messages h ! k) \<notin> hs_sealed h \<Longrightarrow> same_message (hs_messages h ! k) m \<Longrightarrow>
    host_step h (h\<lparr>hs_messages := (hs_messages h)[k := m]\<rparr>)"
| reverted: "host_step h (h\<lparr>hs_messages := take k (hs_messages h)\<rparr>)"

abbreviation host_run :: "host_session \<Rightarrow> host_session \<Rightarrow> bool" where
  "host_run \<equiv> host_step\<^sup>*\<^sup>*"

definition host_ok :: "host_session \<Rightarrow> bool" where
  "host_ok h \<longleftrightarrow> distinct (map message_key (hs_messages h)) \<and> message_key ` set (hs_messages h) \<subseteq> hs_used h
     \<and> list_all json_value (hs_messages h)
     \<and> (\<forall>i k. i < k \<longrightarrow> k < length (hs_messages h) \<longrightarrow> host_assistant (hs_messages h ! i) \<longrightarrow> host_assistant (hs_messages h ! k)
          \<longrightarrow> message_key (hs_messages h ! i) \<in> hs_sealed h)"

lemma keys_update:
  assumes "k < length ms" "same_message (ms ! k) m"
  shows "map message_key (ms[k := m]) = map message_key ms"
proof -
  have "map message_key (ms[k := m]) = (map message_key ms)[k := message_key m]" by (rule map_update)
  with assms show ?thesis by (simp add: same_message_def list_update_same_conv)
qed

lemma update_ok:
  assumes "host_ok h" "k < length (hs_messages h)" "same_message (hs_messages h ! k) m"
  shows "host_ok (h\<lparr>hs_messages := (hs_messages h)[k := m]\<rparr>)"
proof -
  let ?ms = "hs_messages h"
  have keys: "map message_key (?ms[k := m]) = map message_key ?ms" by (rule keys_update [OF assms(2,3)])
  have nth: "message_key (?ms[k := m] ! j) = message_key (?ms ! j) \<and> host_assistant (?ms[k := m] ! j) = host_assistant (?ms ! j)"
    if "j < length ?ms" for j
    using assms(3) that by (cases "j = k") (auto simp: same_message_def host_assistant_def)
  have "message_key ` set (?ms[k := m]) = message_key ` set ?ms" using arg_cong [OF keys, of set] by simp
  moreover have "list_all json_value (?ms[k := m])"
    using assms by (auto simp: host_ok_def list_all_iff same_message_def dest: set_update_subset_insert [THEN subsetD])
  ultimately show ?thesis
    using assms(1) keys nth by (simp add: host_ok_def)
qed

lemma host_step_ok: "host_step h h' \<Longrightarrow> host_ok h \<Longrightarrow> host_ok h'"
proof (induction rule: host_step.induct)
  case (appended m h)
  let ?ms = "hs_messages h"
  have "message_key ((?ms @ [m]) ! i) \<in> (if host_assistant m then hs_sealed h \<union> message_key ` set ?ms else hs_sealed h)"
    if "i < k" "k < length (?ms @ [m])" "host_assistant ((?ms @ [m]) ! i)" "host_assistant ((?ms @ [m]) ! k)" for i k
  proof (cases "k < length ?ms")
    case True
    with that appended(3) show ?thesis by (auto simp: host_ok_def nth_append)
  next
    case False
    with that show ?thesis by (auto simp: nth_append)
  qed
  with appended show ?case by (auto simp: host_ok_def)
next
  case (reverted h k)
  then show ?case by (auto simp: host_ok_def list_all_iff take_map [symmetric] image_subset_iff dest: in_set_takeD)
qed (auto intro: update_ok)

lemma host_run_ok: "host_run h h' \<Longrightarrow> host_ok h \<Longrightarrow> host_ok h'"
  by (induction rule: rtranclp_induct) (auto intro: host_step_ok)

section \<open>Prefixes that are settled\<close>

definition settled_prefix :: "jsval list \<Rightarrow> host_session \<Rightarrow> bool" where
  "settled_prefix p h \<longleftrightarrow> distinct (map message_key p) \<and> message_key ` set p \<subseteq> hs_used h
     \<and> (\<forall>m\<in>set p. settled_message m \<and> (host_assistant m \<longrightarrow> message_key m \<in> hs_sealed h))"

text \<open>What is left of the prefix is where it was; the rest of it never comes back.\<close>

definition keeps_prefix :: "jsval list \<Rightarrow> host_session \<Rightarrow> bool" where
  "keeps_prefix p h \<longleftrightarrow> settled_prefix p h
     \<and> (\<exists>l \<le> length p. take l (hs_messages h) = take l p \<and> l \<le> length (hs_messages h)
          \<and> (\<forall>m\<in>set (drop l (hs_messages h)). message_key m \<notin> message_key ` set p))"

lemma keeps_update:
  assumes "keeps_prefix p h" "k < length (hs_messages h)" "same_message (hs_messages h ! k) m"
    "\<not> (settled_message (hs_messages h ! k) \<and> (host_assistant (hs_messages h ! k) \<longrightarrow> message_key (hs_messages h ! k) \<in> hs_sealed h))"
  shows "keeps_prefix p (h\<lparr>hs_messages := (hs_messages h)[k := m]\<rparr>)"
proof -
  let ?ms = "hs_messages h"
  obtain l where l: "l \<le> length p" "take l ?ms = take l p" "l \<le> length ?ms"
    "\<forall>m\<in>set (drop l ?ms). message_key m \<notin> message_key ` set p" and p: "settled_prefix p h"
    using assms(1) by (auto simp: keeps_prefix_def)
  have "l \<le> k"
  proof (rule ccontr)
    assume "\<not> l \<le> k"
    then have "?ms ! k = p ! k" "k < length p" using l(1,2) by (metis not_le nth_take, simp)
    with p assms(4) show False by (auto simp: settled_prefix_def)
  qed
  moreover have "message_key x \<notin> message_key ` set p" if "x \<in> set (drop l (?ms[k := m]))" for x
  proof -
    have "map message_key (drop l (?ms[k := m])) = map message_key (drop l ?ms)"
      using keys_update [OF assms(2,3)] by (metis drop_map)
    then have "message_key x \<in> message_key ` set (drop l ?ms)" using that by (metis image_eqI set_map)
    then obtain y where "y \<in> set (drop l ?ms)" "message_key x = message_key y" by (rule imageE) simp
    with l(4) show ?thesis by metis
  qed
  ultimately show ?thesis
    using l(1-3) p by (auto simp: keeps_prefix_def settled_prefix_def intro!: exI [of _ l])
qed

lemma keeps_step: "host_step h h' \<Longrightarrow> keeps_prefix p h \<Longrightarrow> keeps_prefix p h'"
proof (induction rule: host_step.induct)
  case (appended m h)
  obtain l where l: "l \<le> length p" "take l (hs_messages h) = take l p" "l \<le> length (hs_messages h)"
    "\<forall>m\<in>set (drop l (hs_messages h)). message_key m \<notin> message_key ` set p" and p: "settled_prefix p h"
    using appended(3) by (auto simp: keeps_prefix_def)
  have "message_key m \<notin> message_key ` set p" using appended(1) p by (auto simp: settled_prefix_def)
  with l p show ?case by (auto simp: keeps_prefix_def settled_prefix_def intro!: exI [of _ l])
next
  case (reverted h k)
  obtain l where l: "l \<le> length p" "take l (hs_messages h) = take l p" "l \<le> length (hs_messages h)"
    "\<forall>m\<in>set (drop l (hs_messages h)). message_key m \<notin> message_key ` set p" and p: "settled_prefix p h"
    using reverted by (auto simp: keeps_prefix_def)
  let ?l = "min l (length (take k (hs_messages h)))"
  have "take ?l (take k (hs_messages h)) = take ?l p"
    using l(2) by (metis length_take min.assoc min.commute min.idem take_take)
  moreover have "set (drop ?l (take k (hs_messages h))) \<subseteq> set (drop l (hs_messages h))"
    by (cases "l \<le> k") (auto simp: drop_take min_def dest: in_set_takeD)
  then have "\<forall>m\<in>set (drop ?l (take k (hs_messages h))). message_key m \<notin> message_key ` set p"
    using l(4) by blast
  ultimately show ?case
    using l(1) p by (auto simp: keeps_prefix_def settled_prefix_def intro!: exI [of _ ?l])
qed (auto intro: keeps_update)

lemma keeps_run: "host_run h h' \<Longrightarrow> keeps_prefix p h \<Longrightarrow> keeps_prefix p h'"
  by (induction rule: rtranclp_induct) (auto intro: keeps_step)

section \<open>Resuming after a prefix\<close>

text \<open>The messages after the one with an ID; none when there is no such message.\<close>

definition after_message :: "jsval list \<Rightarrow> jsstr \<Rightarrow> jsval list" where
  "after_message ms i = tl (dropWhile (\<lambda>m. message_key m \<noteq> i) ms)"

lemma set_after_message: "set (after_message ms i) \<subseteq> set ms"
proof -
  have "set (tl xs) \<subseteq> set xs" for xs :: "jsval list" by (cases xs) auto
  moreover have "set (dropWhile P ms) \<subseteq> set ms" for P by (auto dest: set_dropWhileD)
  ultimately show ?thesis unfolding after_message_def by blast
qed

lemma resumed_prefix:
  assumes "keeps_prefix p h" "2 \<le> length p"
    "after_message (hs_messages h) (message_key (p ! (length p - 2))) = last p # rest"
  shows "hs_messages h = p @ rest"
proof -
  let ?ms = "hs_messages h"
  obtain l where l: "l \<le> length p" "take l ?ms = take l p" "l \<le> length ?ms"
    "\<forall>m\<in>set (drop l ?ms). message_key m \<notin> message_key ` set p" and p: "settled_prefix p h"
    using assms(1) by (auto simp: keeps_prefix_def)
  have "length (drop (length p - 2) p) = 2" using assms(2) by simp
  then obtain a b where "drop (length p - 2) p = [a, b]"
    by (cases "drop (length p - 2) p"; cases "tl (drop (length p - 2) p)") (simp_all del: length_drop)
  then obtain q where q: "p = q @ [a, b]" by (metis append_take_drop_id)
  have "b \<in> set ?ms"
    using set_after_message [of ?ms "message_key (p ! (length p - 2))"] unfolding assms(3) by (simp add: q)
  moreover have "b \<notin> set (drop l ?ms)" using l(4) by (auto simp: q)
  ultimately have "b \<in> set (take l ?ms)" using set_append [of "take l ?ms" "drop l ?ms"] by simp
  then have "b \<in> set (take l p)" using l(2) by simp
  moreover have "distinct p" using p by (auto simp: settled_prefix_def distinct_map)
  ultimately have "\<not> l \<le> length q + 1"
    unfolding q by (cases "l \<le> length q") (auto simp: take_Cons' dest: in_set_takeD)
  then have len: "l = length p" using l(1) q by simp
  then have ms: "?ms = q @ a # b # drop l ?ms" using l(2) q by (metis append_Cons append_Nil append_assoc append_take_drop_id order_refl take_all)
  have "\<forall>m\<in>set q. message_key m \<noteq> message_key a"
    using p q by (auto simp: settled_prefix_def image_iff)
  then have "after_message ?ms (message_key a) = b # drop l ?ms"
    by (subst ms) (simp add: after_message_def dropWhile_append2)
  with assms(3) q have "rest = drop l ?ms" by simp
  with ms q show ?thesis by simp
qed

end
