(* ===== verification/TransportSafety.thy ===== *)
theory TransportSafety
  imports HostSession
begin

text \<open>
  What a snapshot is worth: whether it reads the whole transcript or resumes after a cached prefix, the
  records it returns are the canonical records of the session's transcript at some moment of the call. The
  cache entry of a session is an invariant of the client: it is the settled prefix of the transcript at an
  earlier moment.
\<close>

section \<open>A source that serves a session\<close>

definition answer_at :: "transport_service \<Rightarrow> t_request \<Rightarrow> t_trace \<Rightarrow> client_error + jsval \<times> jsstr option" where
  "answer_at sv r t = (let f = ts_fetch sv t r in answer_of (from_source r) (ts_aborted sv (t @ [(r, f)])) f)"

definition session_text :: "transport_service \<Rightarrow> source_info \<Rightarrow> jsstr \<Rightarrow> t_trace \<Rightarrow> jsstr option" where
  "session_text sv source i t =
     (case answer_at sv (SessionEntry (src_id source) i) t of
        Inl e \<Rightarrow> None
      | Inr (v, before) \<Rightarrow> (case session_value i v of Inl e \<Rightarrow> None | Inr ps \<Rightarrow> Some (json_text (Obj ps))))"

definition status_at :: "transport_service \<Rightarrow> source_info \<Rightarrow> jsstr \<Rightarrow> t_trace \<Rightarrow> jsstr option" where
  "status_at sv source i t =
     (case answer_at sv (ActiveSessions (src_id source)) t of
        Inl e \<Rightarrow> None
      | Inr (v, before) \<Rightarrow> (case active_value i v of Inl e \<Rightarrow> None | Inr s \<Rightarrow> Some s))"

text \<open>The session as the host has it when the client has made \<open>n\<close> requests, and the messages after a cursor.\<close>

record transcript_host =
  th_at :: "nat \<Rightarrow> host_session"
  th_rest :: "jsval list \<Rightarrow> jsstr option \<Rightarrow> jsval list"

abbreviation transcript :: "transcript_host \<Rightarrow> nat \<Rightarrow> jsval list" where
  "transcript h n \<equiv> hs_messages (th_at h n)"

text \<open>
  The pages of an unchanged transcript link up, a cursor made from a message's ID resumes after it, and
  metadata and status that are the same after a read as before it mean nothing changed in between.
\<close>

definition serves_pages :: "transport_service \<Rightarrow> source_info \<Rightarrow> jsstr \<Rightarrow> transcript_host \<Rightarrow> bool" where
  "serves_pages sv source i h \<longleftrightarrow>
     (\<forall>t c v before raws cursor. answer_at sv (MessagePage (src_id source) (src_kind source) i c) t = Inr (v, before) \<longrightarrow>
        pageValue v = Inr (raws, cursor) \<longrightarrow>
        th_rest h (transcript h (length t)) c
          = raws @ (case cursor of None \<Rightarrow> [] | Some s \<Rightarrow> th_rest h (transcript h (length t)) (Some s)))"

definition serves_revisions :: "transport_service \<Rightarrow> source_info \<Rightarrow> jsstr \<Rightarrow> transcript_host \<Rightarrow> bool" where
  "serves_revisions sv source i h \<longleftrightarrow>
     (\<forall>t e e' u e''. session_text sv source i t \<noteq> None \<longrightarrow>
        session_text sv source i (t @ [e, e'] @ u) = session_text sv source i t \<longrightarrow>
        status_at sv source i (t @ [e]) \<noteq> None \<longrightarrow>
        status_at sv source i (t @ [e, e'] @ u @ [e'']) = status_at sv source i (t @ [e]) \<longrightarrow>
        (\<forall>k. length t + 2 \<le> k \<longrightarrow> k \<le> length t + 2 + length u \<longrightarrow> transcript h k = transcript h (length t + 2)))"

definition serves :: "transport_service \<Rightarrow> source_info \<Rightarrow> jsstr \<Rightarrow> transcript_host \<Rightarrow> bool" where
  "serves sv source i h \<longleftrightarrow>
     src_kind source = OpencodeV2 \<and> host_ok (th_at h 0) \<and> (\<forall>n. host_run (th_at h n) (th_at h (Suc n)))
     \<and> (\<forall>ms. th_rest h ms None = ms) \<and> (\<forall>n. \<forall>j\<in>hs_used (th_at h n). \<forall>ms. th_rest h ms (Some (nativeCursorAfter j)) = after_message ms j)
     \<and> serves_pages sv source i h \<and> serves_revisions sv source i h"

lemma serves_run: "serves sv source i h \<Longrightarrow> n \<le> m \<Longrightarrow> host_run (th_at h n) (th_at h m)"
proof (induction "m - n" arbitrary: m)
  case 0
  then show ?case by simp
next
  case (Suc d)
  then obtain m' where m: "m = Suc m'" "n \<le> m'" by (cases m) auto
  with Suc have "host_run (th_at h n) (th_at h m')" by simp
  moreover have "host_run (th_at h m') (th_at h m)" using Suc.prems(1) m by (simp add: serves_def)
  ultimately show ?case by simp
qed

lemma serves_ok: "serves sv source i h \<Longrightarrow> host_ok (th_at h n)"
  using serves_run [of sv source i h 0 n] host_run_ok by (auto simp: serves_def)

section \<open>Actions that cache nothing\<close>

definition shrinks :: "transport \<Rightarrow> transport \<Rightarrow> bool" where
  "shrinks c c' \<longleftrightarrow> set (tr_histories c') \<subseteq> set (tr_histories c) \<and> (\<exists>u. tr_trace c' = tr_trace c @ u)"

definition caches_nothing :: "'a t_action \<Rightarrow> bool" where
  "caches_nothing m \<longleftrightarrow> (\<forall>c. shrinks c (snd (m c)))"

named_theorems quiet \<open>actions that cache nothing\<close>

lemma shrinks_refl [simp]: "shrinks c c"
  by (simp add: shrinks_def)

lemma shrinks_trans: "shrinks a b \<Longrightarrow> shrinks b c \<Longrightarrow> shrinks a c"
  unfolding shrinks_def by (meson append_assoc subset_trans) (metis append_assoc subset_trans)

lemma quiet_bind [quiet]: "caches_nothing m \<Longrightarrow> (\<And>x. caches_nothing (f x)) \<Longrightarrow> caches_nothing (io_bind m f)"
  unfolding caches_nothing_def
  by (auto simp: io_bind_def split: prod.splits sum.splits) (metis shrinks_trans snd_conv)+

lemma quiet_pure [quiet]: "caches_nothing (io_return x)" "caches_nothing (io_throw e)" "caches_nothing (io_lift r)"
  by (simp_all add: caches_nothing_def io_simps)

lemma quiet_request [quiet]: "caches_nothing (send_request sv r)"
  by (auto simp: caches_nothing_def send_request_def shrinks_def Let_def)

lemma quiet_pause [quiet]: "caches_nothing (pause sv)"
  by (simp add: caches_nothing_def pause_def)

lemma quiet_loop [quiet]: "caches_nothing (history_loop sv source i pages st)"
  by (induction pages arbitrary: st) (auto intro!: quiet split: prod.splits)

lemma quiet_history [quiet]: "caches_nothing (pagedHistory sv pages source i after)"
  unfolding pagedHistory_def by (auto intro!: quiet)

lemma quiet_info [quiet]: "caches_nothing (sessionInfo sv source i)" "caches_nothing (activeStatus sv source i)"
  unfolding sessionInfo_def activeStatus_def by (auto intro!: quiet split: prod.splits)

lemma quiet_full [quiet]: "caches_nothing (full_records sv pages source i)"
  unfolding full_records_def by (auto intro!: quiet)

lemma shrinks_forget: "shrinks c (forget s j c)"
  by (auto simp: shrinks_def forget_def)

lemma quietD: "caches_nothing m \<Longrightarrow> m c = (x, c') \<Longrightarrow> shrinks c c'"
  unfolding caches_nothing_def by (metis snd_conv)

lemma quiet_tail [quiet]: "caches_nothing (resumed_tail sv pages source i cached)"
  using quiet_history by (auto simp: caches_nothing_def resumed_tail_def split: prod.splits sum.splits client_error.splits http_error.splits)
    (metis snd_conv)+

lemma quiet_forget [quiet]: "caches_nothing m \<Longrightarrow> caches_nothing (\<lambda>c. m (forget s j c))"
  unfolding caches_nothing_def using shrinks_forget shrinks_trans by blast

lemma quiet_cached [quiet]: "caches_nothing (cachedRecords sv pages source i)"
proof -
  have reread: "caches_nothing (\<lambda>c. full_records sv pages source i (forget (src_id source) i c))"
    by (intro quiet)
  have fresh: "caches_nothing (\<lambda>c2. if list_all p fresh then (Inr (rs @ fresh), c2)
      else full_records sv pages source i (forget (src_id source) i c2))" for p rs fresh
    using reread by (cases "list_all p fresh") (simp_all add: caches_nothing_def)
  have resumed: "caches_nothing (io_bind (resumed_tail sv pages source i cached) (\<lambda>tail c1.
            let reread = full_records sv pages source i (forget (src_id source) i c1) in
            case tail of
              Some (m # ms) \<Rightarrow>
                if json_text m \<noteq> hc_last cached then reread
                else io_bind (io_lift (canonical sv ms)) (\<lambda>fresh c2.
                  if list_all (\<lambda>r. record_id r \<notin> hc_ids cached) fresh then (Inr (hc_records cached @ fresh), c2)
                  else full_records sv pages source i (forget (src_id source) i c2)) c1
            | _ \<Rightarrow> reread))" for cached
  proof (rule quiet_bind [OF quiet_tail])
    fix tail
    have "caches_nothing (io_bind (io_lift (canonical sv ms)) (\<lambda>fresh c2.
                  if list_all (\<lambda>r. record_id r \<notin> hc_ids cached) fresh then (Inr (hc_records cached @ fresh), c2)
                  else full_records sv pages source i (forget (src_id source) i c2)))" for ms
      by (intro quiet_bind quiet_pure fresh)
    with reread show "caches_nothing (\<lambda>c1.
            let reread = full_records sv pages source i (forget (src_id source) i c1) in
            case tail of
              Some (m # ms) \<Rightarrow>
                if json_text m \<noteq> hc_last cached then reread
                else io_bind (io_lift (canonical sv ms)) (\<lambda>fresh c2.
                  if list_all (\<lambda>r. record_id r \<notin> hc_ids cached) fresh then (Inr (hc_records cached @ fresh), c2)
                  else full_records sv pages source i (forget (src_id source) i c2)) c1
            | _ \<Rightarrow> reread)"
      by (auto simp: caches_nothing_def Let_def split: option.splits list.splits)
  qed
  show ?thesis
    unfolding caches_nothing_def cachedRecords_def
    using quiet_full resumed by (auto simp: caches_nothing_def split: option.splits)
qed

lemma quiet_read [quiet]: "caches_nothing (read_records sv pages source i cacheable)"
  by (auto simp: read_records_def intro: quiet)

section \<open>Reading pages\<close>

abbreviation now :: "transport \<Rightarrow> nat" where
  "now c \<equiv> length (tr_trace c)"

text \<open>The transcript does not change between two moments.\<close>

definition unchanged :: "transcript_host \<Rightarrow> nat \<Rightarrow> nat \<Rightarrow> jsval list \<Rightarrow> bool" where
  "unchanged h n m ms \<longleftrightarrow> (\<forall>k. n \<le> k \<longrightarrow> k \<le> m \<longrightarrow> transcript h k = ms)"

lemma unchanged_sub: "unchanged h n m ms \<Longrightarrow> n \<le> n' \<Longrightarrow> m' \<le> m \<Longrightarrow> unchanged h n' m' ms"
  by (simp add: unchanged_def)

lemma shrinks_now: "shrinks c c' \<Longrightarrow> now c \<le> now c'"
  by (auto simp: shrinks_def)

lemma send_request_Inr:
  assumes "send_request sv r c = (Inr a, c')"
  shows "answer_at sv r (tr_trace c) = Inr a \<and> (\<exists>e. tr_trace c' = tr_trace c @ [e])"
  using assms by (auto simp: send_request_def answer_at_def Let_def split: if_splits)

lemma pageValue_cursor:
  assumes "pageValue v = Inr (raws, Some s)"
  shows "s \<noteq> []"
proof -
  from assms obtain entry cursor where "object_props v = Inr entry" "object_props (prop_of entry ''cursor'') = Inr cursor"
    by (auto simp: pageValue_def)
  with assms show ?thesis
    by (cases "prop_of entry ''data''"; cases "prop_of cursor ''next''") (auto simp: pageValue_def split: if_splits)
qed

lemma next_page_Inr:
  assumes "next_page OpencodeV2 v before st = Inr st'"
  obtains raws where "pageValue v = Inr (raws, hp_cursor st')" "hp_messages st' = hp_messages st @ raws"
proof -
  from assms obtain raws cursor ids where r: "pageValue v = Inr (raws, cursor)" "take_ids OpencodeV2 raws (hp_ids st) = Inr ids"
    by (auto simp: next_page_def batch_of_def)
  have "hp_cursor st' = cursor \<and> hp_messages st' = hp_messages st @ raws"
  proof (cases cursor)
    case None
    with assms r show ?thesis by (auto simp: next_page_def batch_of_def)
  next
    case (Some s)
    with r have "s \<noteq> []" using pageValue_cursor by simp
    with assms r Some show ?thesis by (auto simp: next_page_def batch_of_def split: if_splits)
  qed
  with r(1) that show thesis by simp
qed

lemma history_loop_rest:
  assumes "serves sv source i h" "history_loop sv source i pages st c = (Inr ms, c')" "unchanged h (now c) (now c') T"
  shows "ms = hp_messages st @ th_rest h T (hp_cursor st)"
  using assms(2,3)
proof (induction pages arbitrary: st c)
  case 0
  then show ?case by (simp add: io_simps)
next
  case (Suc pages)
  have kind: "src_kind source = OpencodeV2" using assms(1) by (simp add: serves_def)
  from Suc.prems(1) obtain v before c1 st' where
    send: "send_request sv (MessagePage (src_id source) OpencodeV2 i (hp_cursor st)) c = (Inr (v, before), c1)" and
    st': "next_page OpencodeV2 v before st = Inr st'" and
    go: "(if hp_cursor st' = None then io_return (hp_messages st') else history_loop sv source i pages st') c1 = (Inr ms, c')"
    by (auto simp: kind io_lift_def elim!: io_bind_Inr)
  obtain e where e: "tr_trace c1 = tr_trace c @ [e]"
    and reply: "answer_at sv (MessagePage (src_id source) (src_kind source) i (hp_cursor st)) (tr_trace c) = Inr (v, before)"
    using send_request_Inr [OF send] kind by auto
  obtain raws where raws: "pageValue v = Inr (raws, hp_cursor st')" "hp_messages st' = hp_messages st @ raws"
    using next_page_Inr [OF st'] .
  have "caches_nothing (if hp_cursor st' = None then io_return (hp_messages st') else history_loop sv source i pages st')"
    by (auto intro: quiet)
  from shrinks_now [OF quietD [OF this go]] have later: "now c1 \<le> now c'" .
  with e Suc.prems(2) have T: "transcript h (length (tr_trace c)) = T" by (simp add: unchanged_def)
  have rest: "th_rest h T (hp_cursor st) = raws @ (case hp_cursor st' of None \<Rightarrow> [] | Some s \<Rightarrow> th_rest h T (Some s))"
    using assms(1) reply raws(1) T unfolding serves_def serves_pages_def by metis
  show ?case
  proof (cases "hp_cursor st'")
    case None
    with go raws(2) rest show ?thesis by (simp add: io_simps)
  next
    case (Some s)
    have "unchanged h (now c1) (now c') T" using Suc.prems(2) e by (auto simp: unchanged_def)
    with Suc.IH [of st' c1] go Some raws(2) rest show ?thesis by simp
  qed
qed

lemma pagedHistory_rest:
  assumes "serves sv source i h" "pagedHistory sv pages source i after c = (Inr ms, c')" "unchanged h (now c) (now c') T"
    and "\<And>j. after = Some j \<Longrightarrow> \<exists>n. j \<in> hs_used (th_at h n)"
  shows "ms = (case after of None \<Rightarrow> T | Some j \<Rightarrow> after_message T j)"
proof -
  have "src_kind source = OpencodeV2" using assms(1) by (simp add: serves_def)
  with assms(2) have "history_loop sv source i pages
      \<lparr>hp_messages = [], hp_cursors = [], hp_ids = [], hp_cursor = map_option nativeCursorAfter after\<rparr> c = (Inr ms, c')"
    by (auto simp: pagedHistory_def io_simps split: sum.splits)
  from history_loop_rest [OF assms(1) this assms(3)] have ms: "ms = th_rest h T (map_option nativeCursorAfter after)" by simp
  show ?thesis
  proof (cases after)
    case None
    with ms assms(1) show ?thesis by (simp add: serves_def)
  next
    case (Some j)
    then obtain n where "j \<in> hs_used (th_at h n)" using assms(4) by blast
    with assms(1) have "th_rest h T (Some (nativeCursorAfter j)) = after_message T j" unfolding serves_def by blast
    with ms Some show ?thesis by simp
  qed
qed

abbreviation canonical_of :: "transport_service \<Rightarrow> jsval list \<Rightarrow> native_record list result" where
  "canonical_of sv \<equiv> canonicalizeNativeHistory (ts_bareUrl sv)"

lemma canonical_Inr: "canonical sv ms = Inr rs \<longleftrightarrow> canonical_of sv ms = Inr rs"
  by (cases "canonicalizeNativeHistory (ts_bareUrl sv) ms") (simp_all add: canonical_def)

lemma full_records_Inr:
  assumes "serves sv source i h" "full_records sv pages source i c = (Inr rs, c')" "unchanged h (now c) (now c') T"
  shows "canonical_of sv T = Inr rs"
proof -
  from assms(2) obtain ms where "pagedHistory sv pages source i None c = (Inr ms, c')" "canonical sv ms = Inr rs"
    by (auto simp: full_records_def io_lift_def elim!: io_bind_Inr)
  with pagedHistory_rest [OF assms(1) _ assms(3), of pages None ms] show ?thesis by (simp add: canonical_Inr)
qed

section \<open>Records and messages\<close>

lemma canonical_records:
  assumes "canonicalizeNativeHistory bareUrl ms = Inr rs"
  shows "map nr_raw rs = ms"
    and "r \<in> set rs \<Longrightarrow> record_id r = message_key (nr_raw r) \<and> nr_complete r = settled_message (nr_raw r)"
proof -
  from assms have all: "list_all2 (\<lambda>v r. \<exists>i t raw. validateNativeHistoryMessage v = Inr (i, t, raw)
      \<and> native_record_of bareUrl v i t raw = Inr r) ms rs"
    by (simp add: canonicalizeNativeHistory_def canonicalize_from_Inr)
  have "list_all2 (\<lambda>v r. nr_raw r = v) ms rs"
    by (rule list.rel_mono_strong [OF all]) (auto dest: record_fields)
  then show "map nr_raw rs = ms" by (induction rule: list_all2_induct) simp_all
  assume "r \<in> set rs"
  then obtain v i t raw where v: "validateNativeHistoryMessage v = Inr (i, t, raw)" "native_record_of bareUrl v i t raw = Inr r"
    by (rule canonical_record [OF assms])
  moreover from v(1) have "prop_of raw ''type'' = Str t"
    by (cases v) (auto simp: validateNativeHistoryMessage_def invalid_native_def split: jsval.splits if_splits)
  ultimately show "record_id r = message_key (nr_raw r) \<and> nr_complete r = settled_message (nr_raw r)"
    using validated_fields [OF v(1)] record_fields [OF v(2)]
    by (auto simp: message_key_def settled_message_def string_of_def)
qed

lemma canonical_take:
  assumes "canonicalizeNativeHistory bareUrl ms = Inr rs"
  shows "canonicalizeNativeHistory bareUrl (take n ms) = Inr (take n rs)"
  using assms unfolding canonicalizeNativeHistory_def canonicalize_from_Inr
  by (auto simp: take_map [symmetric] list_all2_takeI)

lemma canonical_append:
  assumes "canonicalizeNativeHistory bareUrl ms = Inr rs" "canonicalizeNativeHistory bareUrl ms' = Inr rs'"
    "set (map record_id rs) \<inter> set (map record_id rs') = {}"
  shows "canonicalizeNativeHistory bareUrl (ms @ ms') = Inr (rs @ rs')"
  using assms unfolding canonicalizeNativeHistory_def canonicalize_from_Inr
  by (auto intro: list_all2_appendI)

section \<open>Cache entries\<close>

lemma settled_end_le: "settled_end rs \<le> length (takeWhile nr_complete rs)"
  by (simp add: settled_end_def Let_def split: option.splits)

lemma latest_assistant_some:
  assumes "k < length rs" "is_assistant_record (rs ! k)"
  obtains j where "latest_assistant rs = Some j" "j < length rs" "is_assistant_record (rs ! j)"
proof -
  let ?ks = "filter (\<lambda>k. is_assistant_record (rs ! k)) [0..<length rs]"
  have "k \<in> set ?ks" using assms by simp
  then have ne: "?ks \<noteq> []" by force
  then have "last ?ks \<in> set ?ks" by (rule last_in_set)
  then have "last ?ks < length rs" "is_assistant_record (rs ! last ?ks)" unfolding set_filter by simp_all
  moreover have "latest_assistant rs = Some (last ?ks)" using ne by (auto simp: latest_assistant_def split: list.splits)
  ultimately show thesis using that by blast
qed

lemma keeps_prefix_now:
  assumes "host_ok h" "canonicalizeNativeHistory bareUrl (hs_messages h) = Inr rs" "n \<le> settled_end rs"
  shows "keeps_prefix (take n (hs_messages h)) h"
proof -
  let ?ms = "hs_messages h" and ?p = "take n (hs_messages h)"
  note raws = canonical_records(1) [OF assms(2)]
  have len: "length rs = length ?ms" using arg_cong [OF raws, of length] by simp
  have n: "n \<le> length (takeWhile nr_complete rs)" "n \<le> length ?ms"
    using assms(3) settled_end_le [of rs] length_takeWhile_le [of nr_complete rs] len by linarith+
  have at: "nr_raw (rs ! k) = ?ms ! k" if "k < length ?ms" for k using raws that len by (metis nth_map)
  have settled: "settled_message (?ms ! k)" if "k < n" for k
  proof -
    have k: "k < length (takeWhile nr_complete rs)" "k < length ?ms" using that n by linarith+
    then have "rs ! k \<in> set rs" "nr_complete (rs ! k)"
      using len nth_mem [OF k(1)] by (auto simp: takeWhile_nth dest: set_takeWhileD)
    with canonical_records(2) [OF assms(2)] at [OF k(2)] show ?thesis by metis
  qed
  have sealed: "message_key (?ms ! k) \<in> hs_sealed h" if "k < n" "host_assistant (?ms ! k)" for k
  proof -
    have k: "k < length rs" "is_assistant_record (rs ! k)"
      using that n len at [of k] by (auto simp: is_assistant_record_def host_assistant_def)
    obtain j where j: "latest_assistant rs = Some j" "j < length rs" "is_assistant_record (rs ! j)"
      by (rule latest_assistant_some [OF k])
    then have "n \<le> j" using assms(3) by (simp add: settled_end_def Let_def)
    moreover have "host_assistant (?ms ! j)"
      using j at [of j] len by (simp add: is_assistant_record_def host_assistant_def)
    moreover have "k < j" "j < length ?ms" using that(1) \<open>n \<le> j\<close> j(2) len by simp_all
    ultimately show ?thesis using assms(1) that(2) unfolding host_ok_def by blast
  qed
  have keys: "distinct (map message_key (take n ?ms @ drop n ?ms))" using assms(1) by (simp add: host_ok_def)
  have "message_key m \<notin> message_key ` set ?p" if "m \<in> set (drop n ?ms)" for m
    using keys that unfolding map_append distinct_append by auto
  moreover have "settled_message m \<and> (host_assistant m \<longrightarrow> message_key m \<in> hs_sealed h)" if "m \<in> set ?p" for m
    using that settled sealed n(2) by (auto simp: in_set_conv_nth)
  moreover have "distinct (map message_key ?p)" using keys unfolding map_append distinct_append by blast
  moreover have "message_key ` set ?p \<subseteq> hs_used h" using assms(1) by (auto simp: host_ok_def dest: in_set_takeD)
  ultimately show ?thesis
    using n(2) unfolding keeps_prefix_def settled_prefix_def by (intro conjI exI [of _ n]) auto
qed

text \<open>An entry is the settled prefix of the transcript as it was at an earlier moment.\<close>

definition entry_good :: "transport_service \<Rightarrow> transcript_host \<Rightarrow> nat \<Rightarrow> history_cache \<Rightarrow> bool" where
  "entry_good sv h n e \<longleftrightarrow> (\<exists>k \<le> n. \<exists>rs. canonical_of sv (transcript h k) = Inr rs \<and> 2 \<le> settled_end rs
     \<and> e = history_entry (take (settled_end rs) rs))"

definition cache_good :: "transport_service \<Rightarrow> source_info \<Rightarrow> jsstr \<Rightarrow> transcript_host \<Rightarrow> transport \<Rightarrow> bool" where
  "cache_good sv source i h c \<longleftrightarrow> (\<forall>e. ((src_id source, i), e) \<in> set (tr_histories c) \<longrightarrow> entry_good sv h (now c) e)"

lemma cache_good_shrinks: "cache_good sv source i h c \<Longrightarrow> shrinks c c' \<Longrightarrow> cache_good sv source i h c'"
  unfolding cache_good_def shrinks_def entry_good_def
  by (metis (no_types, lifting) le_add1 le_trans length_append subsetD)

lemma entry_anchor_used:
  assumes "serves sv source i h" "entry_good sv h n e"
  shows "\<exists>k. record_id (hc_records e ! (length (hc_records e) - 2)) \<in> hs_used (th_at h k)"
proof -
  obtain k rs where k: "canonical_of sv (transcript h k) = Inr rs" "2 \<le> settled_end rs"
    "e = history_entry (take (settled_end rs) rs)"
    using assms(2) by (auto simp: entry_good_def)
  have "settled_end rs \<le> length rs" using settled_end_le [of rs] length_takeWhile_le [of nr_complete rs] by linarith
  with k(2) have r: "rs ! (settled_end rs - 2) \<in> set rs" by simp
  then have "nr_raw (rs ! (settled_end rs - 2)) \<in> set (transcript h k)"
    using canonical_records(1) [OF k(1)] by (metis image_eqI list.set_map)
  with r canonical_records(2) [OF k(1)] serves_ok [OF assms(1), of k]
  have "record_id (rs ! (settled_end rs - 2)) \<in> hs_used (th_at h k)" unfolding host_ok_def by (metis image_subset_iff)
  with k(2,3) \<open>settled_end rs \<le> length rs\<close> show ?thesis by (auto simp: history_entry_def)
qed

lemma resumed_transcript:
  assumes "serves sv source i h" "entry_good sv h n e" "n \<le> m"
    "after_message (transcript h m) (record_id (hc_records e ! (length (hc_records e) - 2))) = v # vs"
    "json_text v = hc_last e" "canonical_of sv vs = Inr fresh" "list_all (\<lambda>r. record_id r \<notin> hc_ids e) fresh"
  shows "canonical_of sv (transcript h m) = Inr (hc_records e @ fresh)"
proof -
  obtain k rs where k: "k \<le> n" "canonical_of sv (transcript h k) = Inr rs" "2 \<le> settled_end rs"
    "e = history_entry (take (settled_end rs) rs)"
    using assms(2) by (auto simp: entry_good_def)
  let ?n = "settled_end rs" and ?p = "take (settled_end rs) (transcript h k)"
  have raws: "map nr_raw rs = transcript h k" by (rule canonical_records(1) [OF k(2)])
  have n: "?n \<le> length rs" using settled_end_le [of rs] length_takeWhile_le [of nr_complete rs] by linarith
  have raw: "map nr_raw (take ?n rs) = ?p" using raws by (metis take_map)
  have len: "length (take ?n rs) = ?n" "length ?p = ?n" using n arg_cong [OF raws, of length] by auto
  have ne: "take ?n rs \<noteq> []" "?p \<noteq> []" using len k(3) by (metis list.size(3) not_numeral_le_zero)+
  have last: "nr_raw (last (take ?n rs)) = last ?p" using raw ne by (metis last_map)
  have "rs ! (?n - 2) \<in> set rs" using n k(3) by simp
  moreover have "nr_raw (rs ! (?n - 2)) = transcript h k ! (?n - 2)"
    using raws n k(3) by (metis diff_less le_less_trans less_le_trans nth_map pos2 zero_less_diff diff_le_self order_less_le_trans)
  ultimately have anchor: "record_id (hc_records e ! (length (hc_records e) - 2)) = message_key (?p ! (length ?p - 2))"
    using canonical_records(2) [OF k(2)] k(3,4) len by (simp add: history_entry_def)
  have "keeps_prefix ?p (th_at h m)"
    by (rule keeps_run [OF serves_run [OF assms(1)] keeps_prefix_now [OF serves_ok [OF assms(1)] k(2)]]) (use k(1) assms(3) in auto)
  moreover have "v = last ?p"
  proof (rule json_text_injective)
    have "v \<in> set (transcript h m)" using set_after_message assms(4) by (metis list.set_intros(1) subsetD)
    then show "json_value v" using serves_ok [OF assms(1), of m] by (auto simp: host_ok_def list_all_iff)
    have "last ?p \<in> set (transcript h k)" using ne(2) by (meson in_set_takeD last_in_set)
    then show "json_value (last ?p)" using serves_ok [OF assms(1), of k] by (auto simp: host_ok_def list_all_iff)
    show "json_text v = json_text (last ?p)" using assms(5) k(4) last by (simp add: history_entry_def)
  qed
  ultimately have "transcript h m = ?p @ vs"
    using resumed_prefix [of ?p "th_at h m" vs] assms(4) k(3) len anchor by simp
  moreover have "set (map record_id (take ?n rs)) \<inter> set (map record_id fresh) = {}"
  proof (rule ccontr)
    assume "\<not> ?thesis"
    then obtain j where "j \<in> set (map record_id (take ?n rs))" "j \<in> set (map record_id fresh)" by blast
    moreover have "hc_ids e = set (map record_id (take ?n rs))" by (simp add: k(4) history_entry_def)
    moreover have "j \<notin> hc_ids e" if "j \<in> set (map record_id fresh)" for j
      using assms(7) that by (auto simp: list_all_iff)
    ultimately show False by blast
  qed
  ultimately show ?thesis
    using canonical_append [OF canonical_take [OF k(2), of ?n] assms(6)] k(4) by (simp add: history_entry_def)
qed

section \<open>Snapshots\<close>

lemma resumed_tail_Inr:
  assumes "resumed_tail sv pages source i e c = (Inr (Some ms), c')"
  shows "pagedHistory sv pages source i (Some (record_id (hc_records e ! (length (hc_records e) - 2)))) c = (Inr ms, c')"
  using assms by (auto simp: resumed_tail_def split: prod.splits sum.splits client_error.splits http_error.splits)

lemma cachedRecords_cases:
  assumes "cachedRecords sv pages source i c = (Inr rs, c')"
  obtains (full) c1 where "shrinks c c1" "full_records sv pages source i c1 = (Inr rs, c')"
  | (resumed) e v vs fresh where "((src_id source, i), e) \<in> set (tr_histories c)"
      "resumed_tail sv pages source i e c = (Inr (Some (v # vs)), c')" "json_text v = hc_last e"
      "canonical sv vs = Inr fresh" "list_all (\<lambda>r. record_id r \<notin> hc_ids e) fresh" "rs = hc_records e @ fresh"
proof (cases "map_of (tr_histories c) (src_id source, i)")
  case None
  with assms full [of c] show ?thesis by (simp add: cachedRecords_def)
next
  case (Some e)
  let ?reread = "\<lambda>c1. full_records sv pages source i (forget (src_id source) i c1)"
  obtain tail c1 where tail: "resumed_tail sv pages source i e c = (Inr tail, c1)"
    and go: "(case tail of
              Some (m # ms) \<Rightarrow>
                if json_text m \<noteq> hc_last e then ?reread c1
                else io_bind (io_lift (canonical sv ms)) (\<lambda>fresh c2.
                  if list_all (\<lambda>r. record_id r \<notin> hc_ids e) fresh then (Inr (hc_records e @ fresh), c2)
                  else ?reread c2) c1
            | _ \<Rightarrow> ?reread c1) = (Inr rs, c')"
    using assms Some by (auto simp: cachedRecords_def Let_def elim!: io_bind_Inr)
  have "shrinks c (forget (src_id source) i c1)"
    using quietD [OF quiet_tail tail] shrinks_forget shrinks_trans by blast
  note reread = full [OF this]
  show ?thesis
  proof (cases "\<exists>v vs fresh. tail = Some (v # vs) \<and> json_text v = hc_last e \<and> canonical sv vs = Inr fresh
      \<and> list_all (\<lambda>r. record_id r \<notin> hc_ids e) fresh")
    case True
    then obtain v vs fresh where v: "tail = Some (v # vs)" "json_text v = hc_last e" "canonical sv vs = Inr fresh"
      "list_all (\<lambda>r. record_id r \<notin> hc_ids e) fresh" by blast
    with go have "rs = hc_records e @ fresh" "c' = c1" by (auto simp: io_simps)
    with v tail show ?thesis by (intro resumed [OF map_of_SomeD [OF Some]]) simp_all
  next
    case False
    then have "?reread c1 = (Inr rs, c')"
      using go by (cases tail) (auto simp: io_simps split: list.splits if_splits sum.splits)
    then show ?thesis by (rule reread)
  qed
qed

lemma read_records_Inr:
  assumes "serves sv source i h" "cache_good sv source i h c"
    and "read_records sv pages source i cacheable c = (Inr rs, c')" "unchanged h (now c) (now c') T"
  shows "canonical_of sv T = Inr rs"
proof (cases cacheable)
  case False
  with assms(3) full_records_Inr [OF assms(1) _ assms(4)] show ?thesis by (simp add: read_records_def)
next
  case True
  with assms(3) have "cachedRecords sv pages source i c = (Inr rs, c')" by (simp add: read_records_def)
  then show ?thesis
  proof (cases rule: cachedRecords_cases)
    case (full c1)
    have "unchanged h (now c1) (now c') T"
      by (rule unchanged_sub [OF assms(4) shrinks_now [OF full(1)]]) simp
    from full_records_Inr [OF assms(1) full(2) this] show ?thesis .
  next
    case (resumed e v vs fresh)
    have good: "entry_good sv h (now c) e" using assms(2) resumed(1) by (simp add: cache_good_def)
    have "now c \<le> now c'" by (rule shrinks_now [OF quietD [OF quiet_tail resumed(2)]])
    then have T: "transcript h (now c) = T" using assms(4) by (simp add: unchanged_def)
    from pagedHistory_rest [OF assms(1) resumed_tail_Inr [OF resumed(2)] assms(4)] entry_anchor_used [OF assms(1) good]
    have "after_message (transcript h (now c)) (record_id (hc_records e ! (length (hc_records e) - 2))) = v # vs"
      by (simp add: T)
    from resumed_transcript [OF assms(1) good order_refl this resumed(3)] resumed(4-6) show ?thesis
      by (simp add: T canonical_Inr)
  qed
qed

lemma io_bind_cases:
  assumes "io_bind m f c = (x, c')"
  obtains (stop) e where "m c = (Inl e, c')" "x = Inl e" | (go) y c1 where "m c = (Inr y, c1)" "f y c1 = (x, c')"
  using assms by (cases "m c"; cases "fst (m c)") (auto simp: io_bind_def)

text \<open>An attempt that finds nothing caches nothing; one that finds something has read it between two equal views.\<close>

definition stable_read ::
  "transport_service \<Rightarrow> nat \<Rightarrow> source_info \<Rightarrow> jsstr \<Rightarrow> bool \<Rightarrow> transport \<Rightarrow> (jsstr \<times> jsval) list \<Rightarrow> native_record list \<Rightarrow> transport \<Rightarrow> bool" where
  "stable_read sv pages source i cacheable c info rs c' \<longleftrightarrow>
     (\<exists>before status c1 c2 c3 c4. sessionInfo sv source i c = (Inr before, c1) \<and> activeStatus sv source i c1 = (Inr status, c2)
        \<and> read_records sv pages source i cacheable c2 = (Inr rs, c3) \<and> sessionInfo sv source i c3 = (Inr info, c4)
        \<and> activeStatus sv source i c4 = (Inr status, c') \<and> json_text (Obj before) = json_text (Obj info))"

lemma snapshot_attempt_cases:
  assumes "snapshot_attempt sv pages source i inactive cacheable c = (x, c')"
  obtains (none) "shrinks c c'" "\<forall>found. x \<noteq> Inr (Some found)"
  | (found) info rs c5 where "x = Inr (Some (info, rs))" "stable_read sv pages source i cacheable c info rs c5"
      "c' = (if cacheable then remember (src_id source) i rs c5 else c5)"
  using assms [unfolded snapshot_attempt_def]
proof (cases rule: io_bind_cases)
  case (stop e)
  then show ?thesis using none quietD [OF quiet_info(1) stop(1)] by simp
next
  case (go before c1)
  note q1 = quietD [OF quiet_info(1) go(1)] and step1 = go(1)
  from go(2) show ?thesis
  proof (cases rule: io_bind_cases)
    case (stop e)
    then show ?thesis using none shrinks_trans [OF q1 quietD [OF quiet_info(2) stop(1)]] by simp
  next
    case (go status c2)
    note q2 = shrinks_trans [OF q1 quietD [OF quiet_info(2) go(1)]] and step2 = go(1)
    show ?thesis
    proof (cases "inactive \<and> status \<noteq> js ''inactive''")
      case True
      then have "x = Inl (Thrown ''session is active'')" "c' = c2" using go(2) by (simp_all add: io_simps)
      with q2 none show ?thesis by simp
    next
      case False
      with go(2) have "io_bind (read_records sv pages source i cacheable) (\<lambda>records.
         io_bind (sessionInfo sv source i) (\<lambda>after.
         io_bind (activeStatus sv source i) (\<lambda>finalStatus.
           if json_text (Obj before) = json_text (Obj after) \<and> status = finalStatus
           then settle_snapshot (src_id source) i cacheable after records else io_return None))) c2 = (x, c')" by auto
      then show ?thesis
      proof (cases rule: io_bind_cases)
        case (stop e)
        then show ?thesis using none shrinks_trans [OF q2 quietD [OF quiet_read stop(1)]] by simp
      next
        case (go rs c3)
        note q3 = shrinks_trans [OF q2 quietD [OF quiet_read go(1)]] and step3 = go(1)
        from go(2) show ?thesis
        proof (cases rule: io_bind_cases)
          case (stop e)
          then show ?thesis using none shrinks_trans [OF q3 quietD [OF quiet_info(1) stop(1)]] by simp
        next
          case (go info c4)
          note q4 = shrinks_trans [OF q3 quietD [OF quiet_info(1) go(1)]] and step4 = go(1)
          from go(2) show ?thesis
          proof (cases rule: io_bind_cases)
            case (stop e)
            then show ?thesis using none shrinks_trans [OF q4 quietD [OF quiet_info(2) stop(1)]] by simp
          next
            case (go finalStatus c5)
            note q5 = shrinks_trans [OF q4 quietD [OF quiet_info(2) go(1)]]
            show ?thesis
            proof (cases "json_text (Obj before) = json_text (Obj info) \<and> status = finalStatus")
              case True
              then have "stable_read sv pages source i cacheable c info rs c5"
                using step1 step2 step3 step4 go(1) unfolding stable_read_def by blast
              with True go(2) found show ?thesis by (auto simp: settle_snapshot_def)
            next
              case False
              with go(2) q5 none show ?thesis by (auto simp: io_simps)
            qed
          qed
        qed
      qed
    qed
  qed
qed

section \<open>Stable reads are transcripts\<close>

lemma session_text_of:
  assumes "sessionInfo sv source i c = (Inr info, c')"
  shows "session_text sv source i (tr_trace c) = Some (json_text (Obj info))" "\<exists>e. tr_trace c' = tr_trace c @ [e]"
proof -
  from assms obtain v before where v: "send_request sv (SessionEntry (src_id source) i) c = (Inr (v, before), c')"
    "session_value i v = Inr info"
    by (auto simp: sessionInfo_def io_lift_def elim!: io_bind_Inr)
  from send_request_Inr [OF v(1)] v(2)
  show "session_text sv source i (tr_trace c) = Some (json_text (Obj info))" "\<exists>e. tr_trace c' = tr_trace c @ [e]"
    by (auto simp: session_text_def)
qed

lemma status_of:
  assumes "activeStatus sv source i c = (Inr status, c')"
  shows "status_at sv source i (tr_trace c) = Some status" "\<exists>e. tr_trace c' = tr_trace c @ [e]"
proof -
  from assms obtain v before where v: "send_request sv (ActiveSessions (src_id source)) c = (Inr (v, before), c')"
    "active_value i v = Inr status"
    by (auto simp: activeStatus_def io_lift_def elim!: io_bind_Inr)
  from send_request_Inr [OF v(1)] v(2)
  show "status_at sv source i (tr_trace c) = Some status" "\<exists>e. tr_trace c' = tr_trace c @ [e]"
    by (auto simp: status_at_def)
qed

lemma stable_read_shrinks:
  assumes "stable_read sv pages source i cacheable c info rs c'"
  shows "shrinks c c'"
  using assms unfolding stable_read_def
  by (elim exE conjE) (meson quietD quiet_info quiet_read shrinks_trans)

lemma stable_read_canonical:
  assumes "serves sv source i h" "cache_good sv source i h c" "stable_read sv pages source i cacheable c info rs c'"
  shows "\<exists>k. now c \<le> k \<and> k \<le> now c' \<and> canonical_of sv (transcript h k) = Inr rs"
proof -
  obtain before status c1 c2 c3 c4 where r: "sessionInfo sv source i c = (Inr before, c1)"
    "activeStatus sv source i c1 = (Inr status, c2)" "read_records sv pages source i cacheable c2 = (Inr rs, c3)"
    "sessionInfo sv source i c3 = (Inr info, c4)" "activeStatus sv source i c4 = (Inr status, c')"
    "json_text (Obj before) = json_text (Obj info)"
    using assms(3) unfolding stable_read_def by blast
  obtain e1 e2 u e3 e4 where t: "tr_trace c1 = tr_trace c @ [e1]" "tr_trace c2 = tr_trace c @ [e1, e2]"
    "tr_trace c3 = tr_trace c @ [e1, e2] @ u" "tr_trace c4 = tr_trace c @ [e1, e2] @ u @ [e3]"
    "tr_trace c' = tr_trace c @ [e1, e2] @ u @ [e3, e4]"
    using session_text_of(2) [OF r(1)] status_of(2) [OF r(2)] quietD [OF quiet_read r(3)] session_text_of(2) [OF r(4)]
      status_of(2) [OF r(5)] by (auto simp: shrinks_def)
  have rev: "serves_revisions sv source i h" using assms(1) by (simp add: serves_def)
  note views = session_text_of(1) [OF r(1)] session_text_of(1) [OF r(4), unfolded t] status_of(1) [OF r(2), unfolded t]
    status_of(1) [OF r(5), unfolded t]
  have same: "session_text sv source i (tr_trace c) \<noteq> None"
    "session_text sv source i (tr_trace c @ [e1, e2] @ u) = session_text sv source i (tr_trace c)"
    "status_at sv source i (tr_trace c @ [e1]) \<noteq> None"
    "status_at sv source i (tr_trace c @ [e1, e2] @ u @ [e3]) = status_at sv source i (tr_trace c @ [e1])"
    unfolding views r(6) by simp_all
  note rule = rev [unfolded serves_revisions_def, THEN spec [of _ "tr_trace c"], THEN spec [of _ e1], THEN spec [of _ e2],
    THEN spec [of _ u], THEN spec [of _ e3]]
  have "\<forall>k. length (tr_trace c) + 2 \<le> k \<longrightarrow> k \<le> length (tr_trace c) + 2 + length u \<longrightarrow>
      transcript h k = transcript h (length (tr_trace c) + 2)"
    by (rule mp [OF mp [OF mp [OF mp [OF rule same(1)] same(2)] same(3)] same(4)])
  note steady = this
  have "unchanged h (now c2) (now c3) (transcript h (now c2))"
    unfolding unchanged_def
  proof (intro allI impI)
    fix k
    assume "now c2 \<le> k" "k \<le> now c3"
    then have "length (tr_trace c) + 2 \<le> k" "k \<le> length (tr_trace c) + 2 + length u" by (simp_all add: t)
    with steady have "transcript h k = transcript h (length (tr_trace c) + 2)" by blast
    moreover have "now c2 = length (tr_trace c) + 2" by (simp add: t)
    ultimately show "transcript h k = transcript h (now c2)" by simp
  qed
  moreover have "cache_good sv source i h c2"
    by (rule cache_good_shrinks [OF assms(2)])
      (rule shrinks_trans [OF quietD [OF quiet_info(1) r(1)] quietD [OF quiet_info(2) r(2)]])
  ultimately have "canonical_of sv (transcript h (now c2)) = Inr rs"
    using read_records_Inr [OF assms(1) _ r(3)] by blast
  then show ?thesis by (intro exI [of _ "now c2"]) (simp add: t)
qed

section \<open>The cache over any run\<close>

lemma set_remember:
  assumes "(k, e) \<in> set (tr_histories (remember s j rs c))"
  shows "(k, e) \<in> set (tr_histories c) \<or> k = (s, j) \<and> 2 \<le> settled_end rs \<and> e = history_entry (take (settled_end rs) rs)"
  using assms by (auto simp: remember_def forget_def Let_def not_less split: if_splits dest!: in_set_dropD)

lemma trace_remember [simp]: "tr_trace (remember s j rs c) = tr_trace c"
  by (simp add: remember_def forget_def Let_def)

lemma serves_same:
  assumes "src_id s = src_id s'" "src_kind s = src_kind s'"
  shows "serves sv s i h = serves sv s' i h"
  unfolding serves_def serves_pages_def serves_revisions_def session_text_def status_at_def assms ..

lemma cache_good_same:
  assumes "src_id s = src_id s'"
  shows "cache_good sv s i h c = cache_good sv s' i h c"
  unfolding cache_good_def assms ..

lemma attempt_good:
  assumes "serves sv source i h" "cache_good sv source i h c" "cacheable \<longrightarrow> src_kind s = OpencodeV2"
    "snapshot_attempt sv pages s j inactive cacheable c = (x, c')"
  shows "cache_good sv source i h c'"
  using assms(4)
proof (cases rule: snapshot_attempt_cases)
  case none
  with cache_good_shrinks [OF assms(2)] show ?thesis by blast
next
  case (found info rs c5)
  have good: "cache_good sv source i h c5" by (rule cache_good_shrinks [OF assms(2) stable_read_shrinks [OF found(2)]])
  show ?thesis
  proof (cases "cacheable \<and> (src_id s, j) = (src_id source, i)")
    case False
    with good found(3) show ?thesis
      by (cases cacheable) (auto simp: cache_good_def dest!: set_remember)
  next
    case True
    have kinds: "src_id source = src_id s" "src_kind source = src_kind s" "j = i"
      using True assms(1,3) by (simp_all add: serves_def)
    have "serves sv s i h" using assms(1) serves_same [OF kinds(1,2)] by blast
    moreover have "cache_good sv s i h c" using assms(2) cache_good_same [OF kinds(1)] by blast
    ultimately obtain k where "k \<le> now c5" "canonical_of sv (transcript h k) = Inr rs"
      using stable_read_canonical found(2) kinds(3) by blast
    then show ?thesis
      using good found(3) True by (auto simp: cache_good_def entry_good_def dest!: set_remember)
  qed
qed

text \<open>Whatever comes of the attempts, they leave the cache good; records found come from a stable read.\<close>

lemma attempts_good:
  assumes "serves sv source i h" "cache_good sv source i h c" "cacheable \<longrightarrow> src_kind s = OpencodeV2"
    "snapshot_attempts retries sv pages s j inactive cacheable c = (x, c')"
  shows "cache_good sv source i h c' \<and> (\<forall>info rs. x = Inr (info, rs) \<longrightarrow> (\<exists>c1 c2. cache_good sv source i h c1
    \<and> now c \<le> now c1 \<and> now c2 = now c' \<and> stable_read sv pages s j cacheable c1 info rs c2))"
  using assms(2,4)
proof (induction retries arbitrary: c)
  case 0
  then obtain r c1 where r: "snapshot_attempt sv pages s j inactive cacheable c = (r, c1)" by fastforce
  have good: "cache_good sv source i h c1" by (rule attempt_good [OF assms(1) 0(1) assms(3) r])
  have "c' = c1" using 0(2) r by (auto simp: io_simps split: sum.splits option.splits)
  moreover have "\<exists>c2. now c2 = now c1 \<and> stable_read sv pages s j cacheable c info rs c2" if "x = Inr (info, rs)" for info rs
    using r
  proof (cases rule: snapshot_attempt_cases)
    case none
    with 0(2) r that show ?thesis by (auto simp: io_simps split: sum.splits option.splits)
  next
    case (found info' rs' c5)
    with 0(2) r that show ?thesis by (auto simp: io_simps split: if_splits intro: exI [of _ c5])
  qed
  ultimately show ?case using good 0(1) by blast
next
  case (Suc retries)
  then obtain r c1 where r: "snapshot_attempt sv pages s j inactive cacheable c = (r, c1)" by fastforce
  have good: "cache_good sv source i h c1" by (rule attempt_good [OF assms(1) Suc.prems(1) assms(3) r])
  show ?case
    using r
  proof (cases rule: snapshot_attempt_cases)
    case none
    show ?thesis
    proof (cases "r = Inr None \<and> \<not> ts_aborted sv (tr_trace c1)")
      case True
      then have "snapshot_attempts retries sv pages s j inactive cacheable c1 = (x, c')"
        using Suc.prems(2) r by (simp add: io_simps pause_def)
      note IH = Suc.IH [OF good this]
      show ?thesis
      proof (intro conjI allI impI)
        show "cache_good sv source i h c'" using IH by blast
        fix info rs
        assume "x = Inr (info, rs)"
        with IH obtain d c2 where "cache_good sv source i h d" "now c1 \<le> now d" "now c2 = now c'"
          "stable_read sv pages s j cacheable d info rs c2" by blast
        moreover have "now c \<le> now d" using shrinks_now [OF none(1)] calculation(2) by (rule le_trans)
        ultimately show "\<exists>c1 c2. cache_good sv source i h c1 \<and> now c \<le> now c1 \<and> now c2 = now c'
            \<and> stable_read sv pages s j cacheable c1 info rs c2" by blast
      qed
    next
      case False
      with Suc.prems(2) r none(2) good show ?thesis
        by (auto simp: io_simps pause_def split: sum.splits option.splits)
    qed
  next
    case (found info' rs' c5)
    have "x = Inr (info', rs') \<and> c' = c1" using Suc.prems(2) r found(1) by (simp add: io_simps)
    moreover have "now c1 = now c5" using found(3) by simp
    ultimately show ?thesis using good Suc.prems(1) found(2) by auto
  qed
qed

lemma snapshot_good:
  assumes "serves sv source i h" "cache_good sv source i h c" "snapshot sv pages s j inactive incremental c = (x, c')"
  shows "cache_good sv source i h c' \<and> (\<forall>info rs. x = Inr (info, rs) \<longrightarrow> (\<exists>cacheable c1 c2. cache_good sv source i h c1
    \<and> now c \<le> now c1 \<and> now c2 = now c' \<and> stable_read sv pages s j cacheable c1 info rs c2))"
proof (cases "readerFor sv s")
  case (Inl e)
  with assms(2,3) show ?thesis by (auto simp: snapshot_def io_simps)
next
  case (Inr u)
  with assms(3) have "snapshot_attempts 2 sv pages s j inactive (incremental \<and> src_kind s = OpencodeV2) c = (x, c')"
    by (simp add: snapshot_def io_simps)
  from attempts_good [OF assms(1,2) _ this] show ?thesis by blast
qed

section \<open>A snapshot is a transcript\<close>

datatype t_call =
    Take_snapshot source_info jsstr bool bool
  | Forget_session jsstr jsstr
  | Read_registry jsstr

fun t_step :: "transport_service \<Rightarrow> nat \<Rightarrow> t_call \<Rightarrow> transport \<Rightarrow> transport" where
  "t_step sv pages (Take_snapshot s j inactive incremental) c = snd (snapshot sv pages s j inactive incremental c)"
| "t_step sv pages (Forget_session s j) c = forget s j c"
| "t_step sv pages (Read_registry s) c = snd (registrySource sv s c)"

definition t_run :: "transport_service \<Rightarrow> nat \<Rightarrow> t_call list \<Rightarrow> transport" where
  "t_run sv pages calls = fold (t_step sv pages) calls new_transport"

lemma quiet_fetch [quiet]: "caches_nothing (fetch_source sv s)"
  unfolding caches_nothing_def
proof
  fix c
  obtain x c' where x: "send_request sv (RegistryEntry s) c = (x, c')" by fastforce
  have "snd (fetch_source sv s c) = c'"
    by (cases x) (auto simp: fetch_source_def x split: prod.splits option.splits)
  with quietD [OF quiet_request x] show "shrinks c (snd (fetch_source sv s c))" by simp
qed

lemma shrinks_registry: "shrinks c (snd (registrySource sv s c))"
proof (cases "tr_registry c s")
  case None
  show ?thesis
  proof (cases "ts_kind sv s")
    case kind: (Some kind)
    obtain x c' where x: "fetch_source sv s c = (x, c')" by fastforce
    have "tr_histories (snd (registrySource sv s c)) = tr_histories c' \<and> tr_trace (snd (registrySource sv s c)) = tr_trace c'"
      by (cases x) (auto simp: registrySource_def None kind io_bind_def x)
    with quietD [OF quiet_fetch x] show ?thesis by (simp add: shrinks_def)
  qed (simp add: registrySource_def None)
qed (simp add: registrySource_def)

lemma t_step_good:
  assumes "serves sv source i h" "cache_good sv source i h c"
  shows "cache_good sv source i h (t_step sv pages call c)"
proof (cases call)
  case (Take_snapshot s j inactive incremental)
  with snapshot_good [OF assms prod.collapse [symmetric]] show ?thesis by simp
next
  case (Forget_session s j)
  with cache_good_shrinks [OF assms(2) shrinks_forget] show ?thesis by simp
next
  case (Read_registry s)
  with cache_good_shrinks [OF assms(2) shrinks_registry] show ?thesis by simp
qed

lemma t_run_good:
  assumes "serves sv source i h"
  shows "cache_good sv source i h (t_run sv pages calls)"
proof -
  have "cache_good sv source i h (fold (t_step sv pages) calls c)" if "cache_good sv source i h c" for c
    using that by (induction calls arbitrary: c) (simp_all add: t_step_good [OF assms])
  then show ?thesis by (simp add: t_run_def new_transport_def cache_good_def)
qed

text \<open>
  Whatever snapshots of whatever sessions have been taken and forgotten before: the records a snapshot of a
  served session returns are the canonical records of its whole transcript at some moment of the call, also
  when only the messages after the cached prefix were read.
\<close>

theorem snapshot_is_the_transcript:
  assumes "serves sv source i h"
    and "snapshot sv pages source i inactive incremental (t_run sv pages calls) = (Inr (info, records), c')"
  shows "\<exists>k. now (t_run sv pages calls) \<le> k \<and> k \<le> now c' \<and> canonical_of sv (transcript h k) = Inr records"
proof -
  from snapshot_good [OF assms(1) t_run_good [OF assms(1)] assms(2)] obtain cacheable c1 c2 where
    "cache_good sv source i h c1" "now (t_run sv pages calls) \<le> now c1" "now c2 = now c'"
    "stable_read sv pages source i cacheable c1 info records c2" by blast
  note c = this
  from stable_read_canonical [OF assms(1) c(1,4)] obtain k where
    "now c1 \<le> k" "k \<le> now c2" "canonical_of sv (transcript h k) = Inr records" by blast
  with c(2,3) show ?thesis by (intro exI [of _ k]) simp
qed

end
