(* ===== verification/TransportSample.thy ===== *)
theory TransportSample
  imports TransportSafety
begin

text \<open>A source that serves a session which does not change: what \<open>TransportSafety\<close> assumes of a host can hold.\<close>

definition host_user :: "string \<Rightarrow> jsval" where
  "host_user i = Obj [field ''id'' (str i), field ''type'' (str ''user''),
     field ''time'' (Obj [field ''created'' (Num (js ''0''))]), field ''text'' (str ''hi'')]"

definition host_reply :: jsval where
  "host_reply = Obj [field ''id'' (str ''c''), field ''type'' (str ''assistant''),
     field ''time'' (Obj [field ''created'' (Num (js ''1'')), field ''completed'' (Num (js ''2''))]),
     field ''agent'' (str ''x''), field ''model'' (Obj [field ''providerID'' (str ''p''), field ''id'' (str ''m'')]),
     field ''content'' (Arr [Obj [field ''type'' (str ''text''), field ''text'' (str ''k'')]])]"

definition host_keys :: "jsstr list" where
  "host_keys = [js ''a'', js ''b'', js ''c'']"

definition quiet_session :: host_session where
  "quiet_session = \<lparr>hs_messages = [host_user ''a'', host_user ''b'', host_reply], hs_used = set host_keys, hs_sealed = {}\<rparr>"

definition quiet_rest :: "jsval list \<Rightarrow> jsstr option \<Rightarrow> jsval list" where
  "quiet_rest ms c =
     (case c of
        None \<Rightarrow> ms
      | Some s \<Rightarrow> (case find (\<lambda>j. nativeCursorAfter j = s) host_keys of None \<Rightarrow> [] | Some j \<Rightarrow> after_message ms j))"

definition quiet_host :: transcript_host where
  "quiet_host = \<lparr>th_at = (\<lambda>n. quiet_session), th_rest = quiet_rest\<rparr>"

definition ok_response :: "jsval \<Rightarrow> fetched" where
  "ok_response v = Answered \<lparr>rp_status = 200, rp_type = [], rp_body = Some v, rp_size = 0, rp_before = None, rp_timed_out = False\<rparr>"

definition quiet_service :: transport_service where
  "quiet_service =
     \<lparr>ts_fetch = (\<lambda>t r. case r of
        SessionEntry s i \<Rightarrow> ok_response (Obj [field ''data'' (Obj [field ''id'' (Str i),
          field ''location'' (Obj [field ''directory'' (str ''d'')]), field ''time'' (Obj [field ''updated'' (Num (js ''1''))])])])
      | ActiveSessions s \<Rightarrow> ok_response (Obj [field ''data'' (Arr [])])
      | MessagePage s kind i c \<Rightarrow> ok_response (Obj [field ''data'' (Arr (quiet_rest (hs_messages quiet_session) c)),
          field ''cursor'' (Obj [])])
      | RegistryEntry s \<Rightarrow> Unreachable),
      ts_aborted = (\<lambda>t. False), ts_kind = (\<lambda>s. Some OpencodeV2), ts_bareUrl = Some\<rparr>"

lemma quiet_cursors:
  "find (\<lambda>j. nativeCursorAfter j = nativeCursorAfter (js ''a'')) host_keys = Some (js ''a'')"
  "find (\<lambda>j. nativeCursorAfter j = nativeCursorAfter (js ''b'')) host_keys = Some (js ''b'')"
  "find (\<lambda>j. nativeCursorAfter j = nativeCursorAfter (js ''c'')) host_keys = Some (js ''c'')"
  by code_simp+

lemma quiet_ok: "host_ok quiet_session"
proof -
  have "distinct (map message_key (hs_messages quiet_session))" "map message_key (hs_messages quiet_session) = host_keys"
    "list_all json_value (hs_messages quiet_session)" "map host_assistant (hs_messages quiet_session) = [False, False, True]"
    by code_simp+
  moreover have "\<not> host_assistant (hs_messages quiet_session ! i)" if "i < k" "k < length (hs_messages quiet_session)" for i k
  proof -
    have "length (hs_messages quiet_session) = 3" by (simp add: quiet_session_def)
    then have "host_assistant (hs_messages quiet_session ! i) = map host_assistant (hs_messages quiet_session) ! i" "i < 2"
      using that by simp_all
    with calculation(4) show ?thesis by (cases i) auto
  qed
  ultimately show ?thesis
    unfolding host_ok_def by (metis list.set_map quiet_session_def host_session.select_convs(2) order_refl)
qed

theorem quiet_serves:
  assumes "src_kind source = OpencodeV2"
  shows "serves quiet_service source i quiet_host"
proof -
  have cursor: "quiet_rest ms (Some (nativeCursorAfter j)) = after_message ms j" if "j \<in> set host_keys" for ms j
    using that quiet_cursors by (auto simp: quiet_rest_def host_keys_def)
  have "serves_pages quiet_service source i quiet_host"
    by (auto simp: serves_pages_def answer_at_def quiet_service_def quiet_host_def ok_response_def answer_of_def pageValue_def
        object_props_def prop_of_def property_def field_def from_source_def)
  moreover have "serves_revisions quiet_service source i quiet_host"
    by (simp add: serves_revisions_def quiet_host_def)
  ultimately show ?thesis
    using assms quiet_ok cursor
    by (simp add: serves_def quiet_host_def quiet_session_def) (simp add: quiet_rest_def)
qed

end
