(* ===== verification/Spec2Isabelle.thy ===== *)
theory Spec2Isabelle
  imports ReadBack QueueSafety ClaimOrder WorkerSafety NativeRendered CursorArchive Lossless ReaderSafety SubmissionSafety TransportSample
begin

text \<open>
  A verification development for Reflection, a memory service for OpenCode sessions.

  A plugin in the OpenCode host reads a session's transcript and cuts it into segments. The server takes
  each segment as a request, queues it as a job, lets one worker at a time extract and resolve claims
  from it, and commits the result. The plugins project long sessions: they replace a prefix of the
  transcript by the summaries of its segments. The theories follow that path. A definition has the name
  of the function it models; each theory's opening text names its file under \<open>src\<close>.

  Conventions. A function that may throw returns \<open>error + value\<close>; error texts stand for the code's
  messages. A database transaction is a function from the tables to an error, which rolls it back, or a
  result with the new tables. A client whose state survives an exception is modelled by the actions of
  \<open>Effects\<close>. Interleavings are step relations. Strings are lists of UTF-16 code units, JSON values a
  datatype with JavaScript's property order, numbers of a JSON value the texts they print as.

  Shared library:
    \<^item> \<open>Prelude\<close>: results, stable sorting by a comparator, slices, searches.
    \<^item> \<open>JsString\<close>: code units, UTF-8 length, length-prefixed frames that determine their parts.
    \<^item> \<open>Json\<close>, \<open>JsonText\<close>: JSON values, \<open>JSON.stringify\<close>, and that its text determines the value.
    \<^item> \<open>Effects\<close>: state-changing statements that may throw, and the errors of requests.

  Planning segments (\<open>packages/shared/src/segmentation.ts\<close>, \<open>tool-source.ts\<close>):
    \<^item> \<open>ToolSource\<close>, \<open>Messages\<close>: visibility, rendering, sanitising and sizes of messages; no data URL
      survives, and the fallback text of tools is bounded.
    \<^item> \<open>History\<close>: \<open>canonicalHistory\<close> and its specification \<open>history_of\<close>, which determines it.
    \<^item> \<open>Intervals\<close>, \<open>Boundaries\<close>: the selection of committed boundaries is optimal; resolving them.
    \<^item> \<open>Segments\<close>, \<open>Fragments\<close>, \<open>Packing\<close>, \<open>Segmentation\<close>: building segments and the main loop; every
      message is in exactly one segment, and the loop fails only for a committed boundary.
    \<^item> \<open>ReadBack\<close>: reading a submitted segment back gives its messages.

  Ingestion (\<open>packages/shared/src/contracts.ts\<close>, \<open>sources.ts\<close>, \<open>native.ts\<close>, \<open>ingestion.ts\<close>, \<open>domain.ts\<close>):
    \<^item> \<open>Contracts\<close>, \<open>ParseSound\<close>: the three request shapes; parsing accepts exactly the well-formed ones,
      and a persisted request decodes to itself.
    \<^item> \<open>Identity\<close>, \<open>SessionKeys\<close>: segment IDs, fingerprints and session keys identify what they name.

  The job queue (\<open>server/src/database.ts\<close>, \<open>source-ownership.ts\<close>):
    \<^item> \<open>JobStore\<close>: tables, statements and row predicates. \<open>Enqueue\<close>, \<open>ClaimJob\<close>, \<open>FinishJob\<close>: one
      definition per transaction, composed from its statements; the advisory locks make transactions on
      a segment atomic, \<open>now()\<close> is a column of the modelled database and UUIDs are arguments.
    \<^item> \<open>QueueInvariant\<close>, \<open>QueueSteps\<close>, \<open>QueueClaims\<close>, \<open>QueueFinish\<close>, \<open>QueueRuns\<close>: the invariant of the
      tables and its preservation by every transaction, then by every run of them.
    \<^item> \<open>QueueLeases\<close>, \<open>QueueSafety\<close>, \<open>ClaimOrder\<close>, \<open>QueueOutcomes\<close>: fencing by leases, which job is claimed,
      what a commit or a recovery leaves. \<open>JobLifecycle\<close>: the abstract automaton of job statuses that
      runs refine. \<open>EntityStore\<close>: entities, aliases and claims refer to each other. \<open>SampleRun\<close>: a run.

  Extraction and the worker (\<open>server/src/extraction.ts\<close>, \<open>extraction-validation.ts\<close>, \<open>worker.ts\<close>):
    \<^item> \<open>Resolution\<close>, \<open>Engine\<close>: validating what the model answers, entity identities, \<open>ExtractionEngine\<close>.
    \<^item> \<open>Worker\<close>, \<open>WorkerInvariant\<close>, \<open>WorkerSafety\<close>: the worker's loops and tasks as a step relation over
      the tables; tasks respect the limits, and running jobs are those of unfinished tasks.

  Native sessions (\<open>packages/opencode-v2-core/src\<close>):
    \<^item> \<open>NativeHistory\<close>, \<open>NativeRendered\<close>: validating, rendering and weighing the records of a V2 session.
    \<^item> \<open>NativePlan\<close>, \<open>NativePlanned\<close>, \<open>NativeSafety\<close>: planning segments around the anchors of a manifest;
      plans cover the records, hydrate to their messages and fail only for stated reasons.

  The OpenCode V2 plugin (\<open>packages/opencode-v2-plugin/src\<close>):
    \<^item> \<open>NativeTokens\<close>, \<open>Cursor\<close>, \<open>CursorSafety\<close>, \<open>CursorArchive\<close>: token estimates and the cursor projection;
      the tail never separates tool results from their calls, estimates are those of the messages sent,
      and the archive accounts for what it replaces.
    \<^item> \<open>Submission\<close>, \<open>SubmissionSafety\<close>: submitting planned segments; a failed job is retried once.
    \<^item> \<open>Transport\<close>: requests, paged reads, snapshots and the cache of settled prefixes. \<open>HostSession\<close>:
      what the host may do to a transcript between reads. \<open>TransportSafety\<close>: an incremental snapshot is
      the whole transcript of some moment of the call. \<open>TransportSample\<close>: its assumptions can hold.

  The OpenCode V1 plugin (\<open>plugin/src\<close>):
    \<^item> \<open>Checkpoint\<close>, \<open>SummaryText\<close>, \<open>Projection\<close>: checkpoints, the text that replaces archived segments, and
      \<open>projectMessages\<close>. \<open>ProjectionSafety\<close>, \<open>Lossless\<close>: where it cuts, that it stays within the limits,
      that checkpoints keep applying, and what a lossless reset keeps. \<open>ProjectionSample\<close>: a reset.
    \<^item> \<open>HistoryReader\<close>, \<open>ReaderSafety\<close>: reading a transcript back from its source page by page.

  Parameters. SHA-256 and UUIDv5; the URL a string parses to; Unicode classes and PDF page counts of token
  estimates; provider measurements; the model and embedding services; what a server answers and when a
  signal is aborted, as functions of the requests so far; the callbacks of \<open>projectMessages\<close>; comparison
  by locale. Statements about hashes name the collision that would refute them.

  Bounds. \<open>native_history_plans\<close> has a limit of at most 1,750,000 and at most 10,000 records, as the request
  format. Context limits are natural numbers below 2^46, where the fractions the code takes of them are
  exact integer divisions; token counts are integers. Creation times of read transcripts are decimals. The
  fuel of \<open>read_loop\<close> is one more than the cursors a server has; that of \<open>history_loop\<close> is the number of
  requests before the operation's time limit, and running out of it is the operation's cancellation.

  Not modelled. Of the server: embeddings and their columns, read-side SQL, HTTP routes, configuration and
  clients, the normalisation of model answers by regular expressions, the branch of a claim that fails a
  job whose stored extraction does not parse again, timers, wake-ups and a lock lost with its connection.
  Of the shared code: response schemas, the recognisers of rendered tool frames, which call \<open>JSON.parse\<close>.
  Of the V2 plugin: host callbacks, scheduling of ingestion, user policy, usage tracking, logging; the
  input budget of \<open>opencode-v2-core/src/projection.ts\<close> computes with fractions. Of the V1 plugin: state
  files, attachments, host callbacks. Scripts, rehearsals and harnesses are process control and I/O.
\<close>

end
